(* ===== verification/Net_Prelude.thy ===== *)
theory Net_Prelude
  imports Main "HOL-Library.Word"
begin

text \<open>
  Shared vocabulary of the development: the faults of the C++ code as values, results of
  operations that can fault, the machine integer types, decimal and hexadecimal rendering as
  \<^verbatim>\<open>std::ostringstream\<close> does it, and the lemma collections the component theories extend.
\<close>

section \<open>Faults and results\<close>

text \<open>
  \<^item> \<open>Assertion\<close>: an \<^verbatim>\<open>ACE_ASSERT\<close> fails, the process aborts.
  \<^item> \<open>Undefined_Behaviour\<close>: the C++ standard gives the access no meaning (an iterator moved past
    the end, a buffer overrun, \<^verbatim>\<open>back ()\<close> of an empty list).
  \<^item> \<open>Uncaught\<close>: an exception of a called operation leaves the function.
  \<^item> \<open>Unsupported\<close>: the code path is marked \<^verbatim>\<open>ACE_NOTSUP\<close>.
\<close>

datatype fault = Assertion | Undefined_Behaviour | Uncaught | Unsupported

type_synonym 'a res = "fault + 'a"

type_synonym u8 = "8 word"
type_synonym u16 = "16 word"
type_synonym u32 = "32 word"

definition bind_res :: "'a res \<Rightarrow> ('a \<Rightarrow> 'b res) \<Rightarrow> 'b res" where
  "bind_res r f = (case r of Inl e \<Rightarrow> Inl e | Inr a \<Rightarrow> f a)"

lemma bind_res_simps [simp]:
  "bind_res (Inl e) f = Inl e"
  "bind_res (Inr a) f = f a"
  by (simp_all add: bind_res_def)

lemma bind_res_eq_Inr:
  "bind_res r f = Inr b \<longleftrightarrow> (\<exists>a. r = Inr a \<and> f a = Inr b)"
  by (cases r) auto

text \<open>Collections: facts about containers of connections, and about rendered text.\<close>

named_theorems registry_simps
named_theorems render_simps

section \<open>Numbers as text\<close>

definition digit_char :: "nat \<Rightarrow> char" where
  "digit_char n = (if n < 10 then char_of (48 + n) else char_of (87 + n))"

text \<open>\<open>render b n\<close>: what \<^verbatim>\<open>operator<<\<close> prints for an unsigned number in base \<open>b\<close>.\<close>

function render :: "nat \<Rightarrow> nat \<Rightarrow> string" where
  "render b n = (if b < 2 \<or> n < b then [digit_char n]
                 else render b (n div b) @ [digit_char (n mod b)])"
  by pat_completeness auto
termination
  by (relation "measure snd") (auto simp: div_less_dividend)

declare render.simps [simp del]

abbreviation dec :: "nat \<Rightarrow> string" where "dec \<equiv> render 10"
abbreviation hex :: "nat \<Rightarrow> string" where "hex \<equiv> render 16"

definition digit_val :: "char \<Rightarrow> nat" where
  "digit_val c = (if of_char c < (58::nat) then of_char c - 48 else of_char c - 87)"

definition parse_base :: "nat \<Rightarrow> string \<Rightarrow> nat" where
  "parse_base b = foldl (\<lambda>a c. a * b + digit_val c) 0"

lemma digit_val_char: "n < 16 \<Longrightarrow> digit_val (digit_char n) = n"
  by (auto simp: digit_val_def digit_char_def)

lemma parse_base_snoc: "parse_base b (s @ [c]) = parse_base b s * b + digit_val c"
  by (simp add: parse_base_def)

lemma parse_render [render_simps]:
  "2 \<le> b \<Longrightarrow> b \<le> 16 \<Longrightarrow> parse_base b (render b n) = n"
proof (induction b n rule: render.induct)
  case (1 b n)
  show ?case
  proof (cases "n < b")
    case True
    then show ?thesis
      using "1.prems" by (subst render.simps) (simp add: parse_base_def digit_val_char)
  next
    case False
    then have IH: "parse_base b (render b (n div b)) = n div b"
      using 1 by simp
    have "digit_val (digit_char (n mod b)) = n mod b"
      using "1.prems" by (intro digit_val_char) (meson less_le_trans mod_less_divisor not_less
        order_less_le_trans zero_less_numeral order.strict_trans1)
    then show ?thesis
      using False "1.prems" IH
      by (subst render.simps) (simp add: parse_base_snoc mult.commute)
  qed
qed

lemma render_inj: "2 \<le> b \<Longrightarrow> b \<le> 16 \<Longrightarrow> render b m = render b n \<longleftrightarrow> m = n"
  by (metis parse_render)

lemma render_not_Nil [simp]: "render b n \<noteq> []"
  by (subst render.simps) simp

text \<open>Evaluation on numerals.\<close>

lemma render_short: "n < b \<Longrightarrow> render b n = [digit_char n]"
  by (subst render.simps) simp

lemma render_step: "2 \<le> b \<Longrightarrow> b \<le> n \<Longrightarrow> render b n = render b (n div b) @ [digit_char (n mod b)]"
  by (subst render.simps) simp

lemma render_chars: "2 \<le> b \<Longrightarrow> set (render b n) \<subseteq> digit_char ` {..<b}"
proof (induction b n rule: render.induct)
  case (1 b n)
  then show ?case by (subst render.simps) auto
qed

lemmas render_eval = render_short render_step digit_char_def char_of_def bit_0

section \<open>Tables\<close>

text \<open>A table of pairs without repetitions reads in both directions.\<close>

lemma map_of_swapped:
  assumes "distinct (map fst xs)" "distinct (map snd xs)"
  shows "map_of (map prod.swap xs) b = Some a \<longleftrightarrow> map_of xs a = Some b"
proof -
  have "distinct (map fst (map prod.swap xs))"
    using assms(2) by (simp add: comp_def)
  then have "map_of (map prod.swap xs) b = Some a \<longleftrightarrow> (b, a) \<in> prod.swap ` set xs"
    by (simp add: map_of_eq_Some_iff)
  also have "\<dots> \<longleftrightarrow> (a, b) \<in> set xs" by auto
  also have "\<dots> \<longleftrightarrow> map_of xs a = Some b"
    using assms(1) by (simp add: map_of_eq_Some_iff)
  finally show ?thesis .
qed

section \<open>Lists without repetition\<close>

lemma count_list_distinct:
  "distinct xs \<Longrightarrow> count_list xs x = (if x \<in> set xs then 1 else 0)"
  by (induction xs) auto

lemma remove1_last_distinct:
  "distinct xs \<Longrightarrow> xs \<noteq> [] \<Longrightarrow> remove1 (last xs) xs = butlast xs"
  by (induction xs) auto

end
