(* ===== verification/Connection_Base.thy ===== *)
theory Connection_Base
  imports Net_Prelude
begin

text \<open>
  The registration half of a connection (\<^verbatim>\<open>src/src/net_connection_base.inl\<close>) and the interface
  it needs of a connection manager, stated as locales: what \<^verbatim>\<open>register_ ()\<close> and
  \<^verbatim>\<open>deregister ()\<close> of \<^verbatim>\<open>Net_IConnectionManager_T\<close> do to the list of managed connections.
  A connection is known by its address in memory.
\<close>

type_synonym conn = nat

section \<open>The operations of a connection\<close>

text \<open>
  \<open>isRegistered\<close> maps each connection to its flag \<^verbatim>\<open>isRegistered_\<close>; the manager's state is
  abstract. The manager's \<^verbatim>\<open>register_ ()\<close> gives \<open>None\<close> when an exception leaves it: it is
  caught, and the flag keeps its value.
\<close>

record 's registry_world =
  isRegistered :: "conn \<Rightarrow> bool"
  registry :: 's

definition base_register :: "(conn \<Rightarrow> 's \<Rightarrow> bool option \<times> 's) \<Rightarrow> conn \<Rightarrow> 's registry_world
    \<Rightarrow> (bool \<times> 's registry_world) res" where
  "base_register reg c w =
    (if isRegistered w c then Inl Assertion
     else case reg c (registry w) of
       (None, s) \<Rightarrow> Inr (False, w\<lparr>registry := s\<rparr>)
     | (Some b, s) \<Rightarrow>
         Inr (b, w\<lparr>isRegistered := (isRegistered w)(c := b), registry := s\<rparr>))"

definition base_deregister :: "(conn \<Rightarrow> 's \<Rightarrow> 's) \<Rightarrow> conn \<Rightarrow> 's registry_world
    \<Rightarrow> 's registry_world" where
  "base_deregister dereg c w =
    (if \<not> isRegistered w c then w
     else w\<lparr>isRegistered := (isRegistered w)(c := False), registry := dereg c (registry w)\<rparr>)"

text \<open>
  \<^verbatim>\<open>update ()\<close>: the byte and time bookkeeping behind the throughput figures; the fields are
  those of the stream statistic the connection embeds, \<open>now\<close> the current time.
\<close>

record ('num, 'time) stream_statistic =
  sentBytes :: 'num
  receivedBytes :: 'num
  previousBytes :: 'num
  timeStamp :: 'time
  previousTimeStamp :: 'time

definition update_statistic :: "'time \<Rightarrow> ('num::plus, 'time) stream_statistic
    \<Rightarrow> ('num, 'time) stream_statistic" where
  "update_statistic now st =
    st\<lparr>previousBytes := sentBytes st + receivedBytes st,
       previousTimeStamp := timeStamp st, timeStamp := now\<rparr>"

section \<open>What the connection relies on\<close>

text \<open>The flags say exactly which connections are managed, and none is managed twice.\<close>

definition flags_agree :: "('s \<Rightarrow> conn list) \<Rightarrow> 's registry_world \<Rightarrow> bool" where
  "flags_agree members w \<longleftrightarrow>
     isRegistered w = (\<lambda>d. d \<in> set (members (registry w))) \<and> distinct (members (registry w))"

locale connection_registry =
  fixes members :: "'s \<Rightarrow> conn list"
    and reg :: "conn \<Rightarrow> 's \<Rightarrow> bool option \<times> 's"
    and dereg :: "conn \<Rightarrow> 's \<Rightarrow> 's"
  assumes reg_members: "reg c s = (r, s') \<Longrightarrow>
      members s' = (if r = Some True then members s @ [c] else members s)"
    and dereg_members: "members (dereg c s) = remove1 c (members s)"
begin

lemma register_flags:
  assumes "base_register reg c w = Inr (b, w')" and "flags_agree members w"
  shows "flags_agree members w'"
proof -
  obtain r s where r: "reg c (registry w) = (r, s)" by fastforce
  from assms have new: "c \<notin> set (members (registry w))"
    by (auto simp: base_register_def flags_agree_def split: if_splits)
  show ?thesis
  proof (cases r)
    case None
    with assms r reg_members [OF r] show ?thesis
      by (auto simp: base_register_def flags_agree_def split: if_splits)
  next
    case (Some a)
    with assms r reg_members [OF r] new show ?thesis
      by (cases a) (auto simp: base_register_def flags_agree_def split: if_splits)
  qed
qed

lemma deregister_flags:
  assumes "flags_agree members w"
  shows "flags_agree members (base_deregister dereg c w)"
  using assms by (auto simp: base_deregister_def flags_agree_def dereg_members fun_eq_iff)

lemma deregister_removes:
  assumes "isRegistered w c"
  shows "members (registry (base_deregister dereg c w)) = remove1 c (members (registry w))"
  using assms by (simp add: base_deregister_def dereg_members)

text \<open>A connection that deregisters right after it registered leaves the list as it was.\<close>

lemma register_deregister:
  assumes "base_register reg c w = Inr (True, w')" and "c \<notin> set (members (registry w))"
  shows "members (registry (base_deregister dereg c w')) = members (registry w)"
proof -
  obtain r s where r: "reg c (registry w) = (r, s)" by fastforce
  show ?thesis
    using assms reg_members [OF r]
    by (cases r) (auto simp: base_register_def base_deregister_def dereg_members r
        remove1_append split: if_splits)
qed

end

text \<open>A manager with a capacity: it accepts a connection only while there is room.\<close>

locale bounded_registry = connection_registry members reg dereg
  for members :: "'s \<Rightarrow> conn list"
    and reg :: "conn \<Rightarrow> 's \<Rightarrow> bool option \<times> 's"
    and dereg :: "conn \<Rightarrow> 's \<Rightarrow> 's" +
  fixes bound :: "'s \<Rightarrow> nat"
  assumes reg_room: "reg c s = (Some True, s') \<Longrightarrow> length (members s) < bound s"
    and reg_bound: "reg c s = (r, s') \<Longrightarrow> bound s' = bound s"
    and dereg_bound: "bound (dereg c s) = bound s"
begin

lemma register_within_bound:
  assumes "base_register reg c w = Inr (b, w')"
    and "length (members (registry w)) \<le> bound (registry w)"
  shows "length (members (registry w')) \<le> bound (registry w')"
proof -
  obtain r s where r: "reg c (registry w) = (r, s)" by fastforce
  show ?thesis
    using assms reg_members [OF r] reg_bound [OF r] reg_room [of c "registry w" s] r
    by (cases r) (auto simp: base_register_def split: if_splits)
qed

lemma deregister_within_bound:
  assumes "length (members (registry w)) \<le> bound (registry w)"
  shows "length (members (registry (base_deregister dereg c w)))
    \<le> bound (registry (base_deregister dereg c w))"
  using assms by (auto simp: base_deregister_def dereg_members dereg_bound length_remove1)

end

end
