(* ===== verification/Connection_Manager.thy ===== *)
theory Connection_Manager
  imports Connection_Base
begin

text \<open>
  The connection manager (\<^verbatim>\<open>src/src/net_connection_manager.inl\<close>): a singleton list of
  reference counted connections with a capacity, handed out by index, id or address.
  A connection is known by its address in memory (\<open>conn\<close>); the objects themselves, with their
  reference counts, live in an abstract heap \<open>'h\<close>. What the manager calls on them
  (\<^verbatim>\<open>Net_IConnection_T\<close> and its bases, implemented by libCommon and by the socket handlers) and
  two traits of \<^verbatim>\<open>ACE_DLList\<close> are the parameters collected in \<open>conn_ops\<close>.
\<close>

section \<open>State and parameters\<close>

text \<open>
  \<open>increase\<close> and \<open>decrease\<close> give \<open>None\<close> for an exception. \<open>next_at_end\<close> is what
  \<^verbatim>\<open>ACE_DLList_Iterator::next (p)\<close> leaves in \<open>p\<close> when there is no further element (the return
  value 0 is documented, the value of \<open>p\<close> is not). \<open>node_alloc\<close> says whether
  \<^verbatim>\<open>insert_tail ()\<close> gets the memory for its node.
\<close>

record ('h, 'addr) conn_ops =
  increase :: "conn \<Rightarrow> 'h \<Rightarrow> 'h option"
  decrease :: "conn \<Rightarrow> 'h \<Rightarrow> 'h option"
  conn_id :: "'h \<Rightarrow> conn \<Rightarrow> u32"
  local_address :: "'h \<Rightarrow> conn \<Rightarrow> 'addr"
  peer_address :: "'h \<Rightarrow> conn \<Rightarrow> 'addr"
  next_at_end :: "conn option \<Rightarrow> conn option"
  node_alloc :: "'h \<Rightarrow> bool"

record ('cfg, 'ud, 'time, 'h) manager =
  resetTimeoutHandlerId :: int
  resetTimeoutInterval :: 'time
  broadcasts :: nat \<comment> \<open>how often \<open>condition_\<close> was signalled\<close>
  connections :: "conn list"
  isActive :: bool
  isInitialized :: bool
  maximumNumberOfConnections :: u32
  configuration :: "'cfg option"
  userData :: "'ud option"
  objects :: 'h

definition NET_CONNECTION_MAXIMUM_NUMBER_OF_OPEN :: u32 where
  "NET_CONNECTION_MAXIMUM_NUMBER_OF_OPEN = 10"

definition ACE_INVALID_HANDLE :: u32 where
  "ACE_INVALID_HANDLE = - 1"

definition new_manager :: "'time \<Rightarrow> 'h \<Rightarrow> ('cfg, 'ud, 'time, 'h) manager" where
  "new_manager default_interval h =
    \<lparr>resetTimeoutHandlerId = - 1, resetTimeoutInterval = default_interval, broadcasts = 0,
     connections = [], isActive = True, isInitialized = False,
     maximumNumberOfConnections = NET_CONNECTION_MAXIMUM_NUMBER_OF_OPEN,
     configuration = None, userData = None, objects = h\<rparr>"

definition initialize :: "u32 \<Rightarrow> 'time \<Rightarrow> ('cfg, 'ud, 'time, 'h) manager
    \<Rightarrow> ('cfg, 'ud, 'time, 'h) manager" where
  "initialize maximum interval m =
    m\<lparr>resetTimeoutInterval := interval, maximumNumberOfConnections := maximum\<rparr>"

definition set_configuration :: "'cfg \<Rightarrow> 'ud option \<Rightarrow> ('cfg, 'ud, 'time, 'h) manager
    \<Rightarrow> ('cfg, 'ud, 'time, 'h) manager" where
  "set_configuration c u m = m\<lparr>configuration := Some c, userData := u, isInitialized := True\<rparr>"

definition get_configuration :: "('cfg, 'ud, 'time, 'h) manager
    \<Rightarrow> ('cfg option \<times> 'ud option) res" where
  "get_configuration m =
    (if \<not> isInitialized m then Inl Assertion else Inr (configuration m, userData m))"

section \<open>Lookup\<close>

text \<open>
  The loop \<^verbatim>\<open>for (it; it.next (p); it.advance ()) if (P p) break;\<close>: the value of \<open>p\<close> after it.
\<close>

fun scan :: "(conn \<Rightarrow> bool) \<Rightarrow> (conn option \<Rightarrow> conn option) \<Rightarrow> conn option \<Rightarrow> conn list
    \<Rightarrow> conn option" where
  "scan P at_end p [] = at_end p"
| "scan P at_end p (c # cs) = (if P c then Some c else scan P at_end (Some c) cs)"

text \<open>The same loop when its body ends with \<^verbatim>\<open>p = NULL\<close>.\<close>

fun scan_null :: "(conn \<Rightarrow> bool) \<Rightarrow> (conn option \<Rightarrow> conn option) \<Rightarrow> conn option \<Rightarrow> conn list
    \<Rightarrow> conn option" where
  "scan_null P at_end p [] = at_end p"
| "scan_null P at_end p (c # cs) = (if P c then Some c else scan_null P at_end None cs)"

text \<open>The loop of \<^verbatim>\<open>operator[]\<close>, which counts.\<close>

fun scan_index :: "nat \<Rightarrow> nat \<Rightarrow> (conn option \<Rightarrow> conn option) \<Rightarrow> conn option \<Rightarrow> conn list
    \<Rightarrow> conn option" where
  "scan_index wanted i at_end p [] = at_end p"
| "scan_index wanted i at_end p (c # cs) =
    (if i = wanted then Some c else scan_index wanted (Suc i) at_end (Some c) cs)"

text \<open>\<^verbatim>\<open>if (connection_p) connection_p->increase (); return connection_p;\<close>\<close>

definition hand_out :: "('h, 'addr) conn_ops \<Rightarrow> conn option \<Rightarrow> ('cfg, 'ud, 'time, 'h) manager
    \<Rightarrow> (conn option \<times> ('cfg, 'ud, 'time, 'h) manager) res" where
  "hand_out ops p m =
    (case p of
       None \<Rightarrow> Inr (None, m)
     | Some c \<Rightarrow>
         (case increase ops c (objects m) of
            None \<Rightarrow> Inl Uncaught
          | Some h \<Rightarrow> Inr (Some c, m\<lparr>objects := h\<rparr>)))"

definition at_index :: "('h, 'addr) conn_ops \<Rightarrow> u32 \<Rightarrow> ('cfg, 'ud, 'time, 'h) manager
    \<Rightarrow> (conn option \<times> ('cfg, 'ud, 'time, 'h) manager) res" where
  "at_index ops index m =
    hand_out ops (scan_index (unat index) 0 (next_at_end ops) None (connections m)) m"

definition get_by_handle :: "('h, 'addr) conn_ops \<Rightarrow> u32 \<Rightarrow> ('cfg, 'ud, 'time, 'h) manager
    \<Rightarrow> (conn option \<times> ('cfg, 'ud, 'time, 'h) manager) res" where
  "get_by_handle ops handle m =
    (if handle = ACE_INVALID_HANDLE then Inl Assertion
     else hand_out ops
            (scan (\<lambda>c. conn_id ops (objects m) c = handle) (next_at_end ops) None (connections m)) m)"

definition get_by_id :: "('h, 'addr) conn_ops \<Rightarrow> u32 \<Rightarrow> ('cfg, 'ud, 'time, 'h) manager
    \<Rightarrow> (conn option \<times> ('cfg, 'ud, 'time, 'h) manager) res" where
  "get_by_id ops i m = get_by_handle ops i m"

definition get_by_address :: "('h, 'addr) conn_ops \<Rightarrow> 'addr \<Rightarrow> bool
    \<Rightarrow> ('cfg, 'ud, 'time, 'h) manager \<Rightarrow> (conn option \<times> ('cfg, 'ud, 'time, 'h) manager) res" where
  "get_by_address ops address is_peer m =
    hand_out ops
      (scan_null (\<lambda>c. (is_peer \<and> peer_address ops (objects m) c = address)
                    \<or> (\<not> is_peer \<and> local_address ops (objects m) c = address))
         (next_at_end ops) None (connections m)) m"

section \<open>Registration\<close>

text \<open>
  The result of \<^verbatim>\<open>register_ ()\<close>: \<open>None\<close> when an exception leaves it, which only
  \<^verbatim>\<open>decrease ()\<close> after a failed \<^verbatim>\<open>insert_tail ()\<close> can cause.
\<close>

definition register :: "('h, 'addr) conn_ops \<Rightarrow> conn \<Rightarrow> ('cfg, 'ud, 'time, 'h) manager
    \<Rightarrow> bool option \<times> ('cfg, 'ud, 'time, 'h) manager" where
  "register ops c m =
    (if \<not> isActive m \<or> unat (maximumNumberOfConnections m) \<le> length (connections m)
     then (Some False, m)
     else case increase ops c (objects m) of
       None \<Rightarrow> (Some False, m)
     | Some h \<Rightarrow>
         if node_alloc ops h
         then (Some True, m\<lparr>connections := connections m @ [c], objects := h\<rparr>)
         else (case decrease ops c h of
                 None \<Rightarrow> (None, m\<lparr>objects := h\<rparr>)
               | Some h' \<Rightarrow> (Some False, m\<lparr>objects := h'\<rparr>)))"

definition deregister :: "('h, 'addr) conn_ops \<Rightarrow> conn \<Rightarrow> ('cfg, 'ud, 'time, 'h) manager
    \<Rightarrow> ('cfg, 'ud, 'time, 'h) manager" where
  "deregister ops c m =
    (if c \<notin> set (connections m) then m
     else let cs = remove1 c (connections m);
              h = (case decrease ops c (objects m) of None \<Rightarrow> objects m | Some h' \<Rightarrow> h')
          in m\<lparr>connections := cs, objects := h,
               broadcasts := (if cs = [] then Suc (broadcasts m) else broadcasts m)\<rparr>)"

definition count :: "('cfg, 'ud, 'time, 'h) manager \<Rightarrow> u32" where
  "count m = of_nat (length (connections m))"

section \<open>Activity and shutdown\<close>

text \<open>
  \<^verbatim>\<open>start ()\<close> (re-)schedules the visitor timer; \<open>schedule\<close> is the timer manager's answer
  (the new timer id, or -1). Cancelling an old timer only logs on failure.
\<close>

definition start :: "int \<Rightarrow> ('cfg, 'ud, 'time, 'h) manager \<Rightarrow> ('cfg, 'ud, 'time, 'h) manager" where
  "start scheduled m =
    (let m1 = (if resetTimeoutHandlerId m \<noteq> - 1 then m\<lparr>resetTimeoutHandlerId := - 1\<rparr> else m);
         m2 = m1\<lparr>resetTimeoutHandlerId := scheduled\<rparr>
     in if resetTimeoutHandlerId m2 = - 1 then m2 else m2\<lparr>isActive := True\<rparr>)"

text \<open>
  \<^verbatim>\<open>wait ()\<close>: while the list is not empty the caller sleeps on \<open>condition_\<close>, which gives
  \<open>lock_\<close> back. Each element of \<open>others\<close> is what the other threads do to the manager before the
  caller gets its next chance to run. A caller that is asleep runs only when the condition has been
  signalled since it fell asleep (\<open>slept\<close> is the number of broadcasts at that time); then it tests the
  list again. \<open>None\<close>: it still sleeps when the others are done.
\<close>

fun asleep :: "nat \<Rightarrow> (('cfg, 'ud, 'time, 'h) manager \<Rightarrow> ('cfg, 'ud, 'time, 'h) manager) list
    \<Rightarrow> ('cfg, 'ud, 'time, 'h) manager \<Rightarrow> ('cfg, 'ud, 'time, 'h) manager option" where
  "asleep slept [] m = None"
| "asleep slept (f # others) m =
    (let m' = f m
     in if broadcasts m' = slept then asleep slept others m'
        else if connections m' = [] then Some m'
        else asleep (broadcasts m') others m')"

definition wait_empty :: "(('cfg, 'ud, 'time, 'h) manager \<Rightarrow> ('cfg, 'ud, 'time, 'h) manager) list
    \<Rightarrow> ('cfg, 'ud, 'time, 'h) manager \<Rightarrow> ('cfg, 'ud, 'time, 'h) manager option" where
  "wait_empty others m = (if connections m = [] then Some m else asleep (broadcasts m) others m)"

definition stop :: "bool \<Rightarrow> (('cfg, 'ud, 'time, 'h) manager \<Rightarrow> ('cfg, 'ud, 'time, 'h) manager) list
    \<Rightarrow> ('cfg, 'ud, 'time, 'h) manager \<Rightarrow> ('cfg, 'ud, 'time, 'h) manager option" where
  "stop waitForCompletion others m =
    (let m1 = m\<lparr>isActive := False\<rparr>
     in if waitForCompletion then wait_empty others m1 else Some m1)"

text \<open>
  Step 1 of \<^verbatim>\<open>abort (bool)\<close>: collect all connections, each with an extra reference. When the
  private list cannot grow the function returns at once: \<open>None\<close> in the first component.
\<close>

fun gather :: "('h, 'addr) conn_ops \<Rightarrow> conn list \<Rightarrow> conn list \<Rightarrow> 'h
    \<Rightarrow> (conn list option \<times> 'h) res" where
  "gather ops [] acc h = Inr (Some acc, h)"
| "gather ops (c # cs) acc h =
    (case increase ops c h of
       None \<Rightarrow> Inl Uncaught
     | Some h1 \<Rightarrow>
         if node_alloc ops h1 then gather ops cs (acc @ [c]) h1
         else (case decrease ops c h1 of None \<Rightarrow> Inl Uncaught | Some h2 \<Rightarrow> Inr (None, h2)))"

text \<open>
  Step 2: close each of them and drop the extra reference. \<open>close\<close> is the virtual
  \<^verbatim>\<open>close ()\<close> of the socket handlers, which may call back into the manager; its exceptions are
  caught.
\<close>

fun close_all :: "('h, 'addr) conn_ops
    \<Rightarrow> (conn \<Rightarrow> ('cfg, 'ud, 'time, 'h) manager \<Rightarrow> ('cfg, 'ud, 'time, 'h) manager)
    \<Rightarrow> conn list \<Rightarrow> ('cfg, 'ud, 'time, 'h) manager \<Rightarrow> ('cfg, 'ud, 'time, 'h) manager res" where
  "close_all ops close [] m = Inr m"
| "close_all ops close (c # cs) m =
    (let m1 = close c m
     in case decrease ops c (objects m1) of
          None \<Rightarrow> Inl Uncaught
        | Some h \<Rightarrow> close_all ops close cs (m1\<lparr>objects := h\<rparr>))"

text \<open>
  The whole function. With \<open>waitForCompletion\<close> it starts over (\<^verbatim>\<open>goto begin\<close>) until it
  finds no connection. It does not wait for anything in between: each element of \<open>others\<close> is what the
  other threads do before the next round. \<open>None\<close>: it still loops when the others are done.
\<close>

fun abort_all :: "('h, 'addr) conn_ops
    \<Rightarrow> (conn \<Rightarrow> ('cfg, 'ud, 'time, 'h) manager \<Rightarrow> ('cfg, 'ud, 'time, 'h) manager)
    \<Rightarrow> (('cfg, 'ud, 'time, 'h) manager \<Rightarrow> ('cfg, 'ud, 'time, 'h) manager) list
    \<Rightarrow> bool \<Rightarrow> ('cfg, 'ud, 'time, 'h) manager \<Rightarrow> ('cfg, 'ud, 'time, 'h) manager res option" where
  "abort_all ops close others waitForCompletion m =
    (case gather ops (connections m) [] (objects m) of
       Inl e \<Rightarrow> Some (Inl e)
     | Inr (None, h) \<Rightarrow> Some (Inr (m\<lparr>objects := h\<rparr>))
     | Inr (Some cs, h) \<Rightarrow>
         if cs = [] then Some (Inr (m\<lparr>objects := h\<rparr>))
         else (case close_all ops close cs (m\<lparr>objects := h\<rparr>) of
                 Inl e \<Rightarrow> Some (Inl e)
               | Inr m' \<Rightarrow>
                   if \<not> waitForCompletion then Some (Inr m')
                   else (case others of
                           [] \<Rightarrow> None
                         | f # fs \<Rightarrow> abort_all ops close fs waitForCompletion (f m'))))"

declare abort_all.simps [simp del]

definition close_one :: "('h, 'addr) conn_ops
    \<Rightarrow> (conn \<Rightarrow> ('cfg, 'ud, 'time, 'h) manager \<Rightarrow> ('cfg, 'ud, 'time, 'h) manager)
    \<Rightarrow> conn \<Rightarrow> ('cfg, 'ud, 'time, 'h) manager \<Rightarrow> ('cfg, 'ud, 'time, 'h) manager res" where
  "close_one ops close c m =
    (case increase ops c (objects m) of
       None \<Rightarrow> Inl Uncaught
     | Some h \<Rightarrow> close_all ops close [c] (m\<lparr>objects := h\<rparr>))"

definition abortLeastRecent :: "('h, 'addr) conn_ops
    \<Rightarrow> (conn \<Rightarrow> ('cfg, 'ud, 'time, 'h) manager \<Rightarrow> ('cfg, 'ud, 'time, 'h) manager)
    \<Rightarrow> ('cfg, 'ud, 'time, 'h) manager \<Rightarrow> ('cfg, 'ud, 'time, 'h) manager res" where
  "abortLeastRecent ops close m =
    (case connections m of [] \<Rightarrow> Inr m | c # _ \<Rightarrow> close_one ops close c m)"

definition abortMostRecent :: "('h, 'addr) conn_ops
    \<Rightarrow> (conn \<Rightarrow> ('cfg, 'ud, 'time, 'h) manager \<Rightarrow> ('cfg, 'ud, 'time, 'h) manager)
    \<Rightarrow> ('cfg, 'ud, 'time, 'h) manager \<Rightarrow> ('cfg, 'ud, 'time, 'h) manager res" where
  "abortMostRecent ops close m =
    (case rev (connections m) of [] \<Rightarrow> Inr m | c # _ \<Rightarrow> close_one ops close c m)"

datatype abort_strategy =
    NET_CONNECTION_ABORT_STRATEGY_RECENT_LEAST
  | NET_CONNECTION_ABORT_STRATEGY_RECENT_MOST
  | NET_CONNECTION_ABORT_STRATEGY_MAX
  | NET_CONNECTION_ABORT_STRATEGY_INVALID

fun abort_by_strategy :: "('h, 'addr) conn_ops
    \<Rightarrow> (conn \<Rightarrow> ('cfg, 'ud, 'time, 'h) manager \<Rightarrow> ('cfg, 'ud, 'time, 'h) manager)
    \<Rightarrow> abort_strategy \<Rightarrow> ('cfg, 'ud, 'time, 'h) manager \<Rightarrow> ('cfg, 'ud, 'time, 'h) manager res" where
  "abort_by_strategy ops close NET_CONNECTION_ABORT_STRATEGY_RECENT_LEAST m =
     abortLeastRecent ops close m"
| "abort_by_strategy ops close NET_CONNECTION_ABORT_STRATEGY_RECENT_MOST m =
     abortMostRecent ops close m"
| "abort_by_strategy ops close _ m = Inr m"

section \<open>Statistics\<close>

text \<open>
  \<open>collect_stat\<close> gives \<open>None\<close> for a (caught) exception, which leaves the zeroed record that
  was passed; \<open>add_stat\<close> is \<^verbatim>\<open>operator+=\<close> of the statistic container.
\<close>

fun collect :: "(conn \<Rightarrow> 'h \<Rightarrow> 'stat option) \<Rightarrow> ('stat \<Rightarrow> 'stat \<Rightarrow> 'stat) \<Rightarrow> 'stat
    \<Rightarrow> 'h \<Rightarrow> conn list \<Rightarrow> 'stat \<Rightarrow> 'stat" where
  "collect collect_stat add_stat zeroed h [] data = data"
| "collect collect_stat add_stat zeroed h (c # cs) data =
     collect collect_stat add_stat zeroed h cs
       (add_stat data (case collect_stat c h of None \<Rightarrow> zeroed | Some s \<Rightarrow> s))"

fun reset_all :: "(conn \<Rightarrow> 'h \<Rightarrow> 'h option) \<Rightarrow> conn list \<Rightarrow> 'h \<Rightarrow> 'h" where
  "reset_all upd [] h = h"
| "reset_all upd (c # cs) h =
     reset_all upd cs (case upd c h of None \<Rightarrow> h | Some h' \<Rightarrow> h')"

section \<open>Characteristic equations of the lookup loops\<close>

lemma scan_find:
  "scan P f p cs = (case find P cs of Some c \<Rightarrow> Some c
                    | None \<Rightarrow> f (if cs = [] then p else Some (last cs)))"
  by (induction cs arbitrary: p) (auto split: option.splits)

lemma scan_null_find:
  "scan_null P f p cs = (case find P cs of Some c \<Rightarrow> Some c
                         | None \<Rightarrow> f (if cs = [] then p else None))"
  by (induction cs arbitrary: p) auto

lemma scan_index_nth:
  "scan_index (i + k) i f p cs =
     (if k < length cs then Some (cs ! k) else f (if cs = [] then p else Some (last cs)))"
proof (induction cs arbitrary: i k p)
  case (Cons c cs)
  then show ?case
    using Cons.IH [of "Suc i" "k - 1" "Some c"] by (cases k) auto
qed simp

lemma find_Some_in: "find P cs = Some c \<Longrightarrow> c \<in> set cs \<and> P c"
  by (auto simp: find_Some_iff)

section \<open>The manager as a registry of connections\<close>

lemma register_connections:
  "register ops c m = (r, m') \<Longrightarrow>
     connections m' = (if r = Some True then connections m @ [c] else connections m)"
  by (auto simp: register_def split: if_splits option.splits)

lemma register_room:
  "register ops c m = (Some True, m') \<Longrightarrow>
     length (connections m) < unat (maximumNumberOfConnections m) \<and> isActive m"
  by (auto simp: register_def split: if_splits option.splits)

lemma register_keeps:
  "register ops c m = (r, m') \<Longrightarrow>
     maximumNumberOfConnections m' = maximumNumberOfConnections m \<and> isActive m' = isActive m"
  by (auto simp: register_def split: if_splits option.splits)

lemma deregister_connections [registry_simps]:
  "connections (deregister ops c m) = remove1 c (connections m)"
  by (auto simp: deregister_def Let_def remove1_idem)

lemma deregister_keeps [registry_simps]:
  "maximumNumberOfConnections (deregister ops c m) = maximumNumberOfConnections m"
  "isActive (deregister ops c m) = isActive m"
  by (auto simp: deregister_def Let_def)

interpretation cm: bounded_registry
  "connections :: ('cfg, 'ud, 'time, 'h) manager \<Rightarrow> conn list"
  "register ops" "deregister ops" "\<lambda>m. unat (maximumNumberOfConnections m)"
  for ops :: "('h, 'addr) conn_ops"
  by unfold_locales
    (auto simp: registry_simps dest: register_connections register_room register_keeps)

section \<open>Reference counts\<close>

text \<open>
  What the manager relies on of \<^verbatim>\<open>Common_IReferenceCount\<close>: \<open>refs\<close> reads the counter of an
  object; \<^verbatim>\<open>increase ()\<close> adds one and never throws, \<^verbatim>\<open>decrease ()\<close> takes one away from a
  positive counter; neither changes the counter, the id or the addresses of another object.
\<close>

definition counting :: "('h, 'addr) conn_ops \<Rightarrow> ('h \<Rightarrow> conn \<Rightarrow> nat) \<Rightarrow> bool" where
  "counting ops refs \<longleftrightarrow>
     (\<forall>c h. \<exists>h'. increase ops c h = Some h' \<and> refs h' = (refs h)(c := Suc (refs h c))
        \<and> conn_id ops h' = conn_id ops h) \<and>
     (\<forall>c h. 0 < refs h c \<longrightarrow>
        (\<exists>h'. decrease ops c h = Some h' \<and> refs h' = (refs h)(c := refs h c - 1)
           \<and> conn_id ops h' = conn_id ops h))"

lemma counting_increase:
  assumes "counting ops refs"
  obtains h' where "increase ops c h = Some h'" "refs h' = (refs h)(c := Suc (refs h c))"
    "conn_id ops h' = conn_id ops h"
  using assms unfolding counting_def by blast

lemma counting_decrease:
  assumes "counting ops refs" and "0 < refs h c"
  obtains h' where "decrease ops c h = Some h'" "refs h' = (refs h)(c := refs h c - 1)"
    "conn_id ops h' = conn_id ops h"
  using assms unfolding counting_def by blast

text \<open>The concrete heap used in the witnesses: a counter and an id per object.\<close>

definition counter_ops :: "(conn option \<Rightarrow> conn option)
    \<Rightarrow> ((conn \<Rightarrow> nat) \<times> (conn \<Rightarrow> u32), u32) conn_ops" where
  "counter_ops at_end =
    \<lparr>increase = (\<lambda>c (rc, i). Some (rc(c := Suc (rc c)), i)),
     decrease = (\<lambda>c (rc, i). if rc c = 0 then None else Some (rc(c := rc c - 1), i)),
     conn_id = snd, local_address = (\<lambda>_ _. 0), peer_address = snd,
     next_at_end = at_end, node_alloc = (\<lambda>_. True)\<rparr>"

lemma counter_ops_counting: "counting (counter_ops at_end) fst"
  by (auto simp: counting_def counter_ops_def)

lemma register_refs:
  assumes "counting ops refs" and "register ops c m = (r, m')"
  shows "refs (objects m') = (if r = Some True then (refs (objects m))(c := Suc (refs (objects m) c))
                              else refs (objects m))"
proof -
  obtain h where h: "increase ops c (objects m) = Some h"
    "refs h = (refs (objects m))(c := Suc (refs (objects m) c))"
    using counting_increase [OF assms(1)] by metis
  then have "0 < refs h c" by simp
  then obtain h' where "decrease ops c h = Some h'" "refs h' = (refs h)(c := refs h c - 1)"
    using counting_decrease [OF assms(1)] by metis
  with h assms(2) show ?thesis
    by (auto simp: register_def split: if_splits)
qed

lemma deregister_refs:
  assumes "counting ops refs" and "c \<in> set (connections m)" and "0 < refs (objects m) c"
  shows "refs (objects (deregister ops c m)) = (refs (objects m))(c := refs (objects m) c - 1)"
proof -
  obtain h' where "decrease ops c (objects m) = Some h'"
    "refs h' = (refs (objects m))(c := refs (objects m) c - 1)"
    using counting_decrease [OF assms(1,3)] by metis
  with assms(2) show ?thesis by (simp add: deregister_def Let_def)
qed

text \<open>
  \<open>balanced own\<close>: the manager lists nothing twice and holds one reference to each connection it lists;
  the rest of the program holds \<open>own c\<close> references to \<open>c\<close>, and nothing else is counted.
\<close>

definition balanced :: "('h \<Rightarrow> conn \<Rightarrow> nat) \<Rightarrow> (conn \<Rightarrow> nat) \<Rightarrow> ('cfg, 'ud, 'time, 'h) manager \<Rightarrow> bool" where
  "balanced refs own m \<longleftrightarrow> distinct (connections m) \<and>
     refs (objects m) = (\<lambda>c. own c + (if c \<in> set (connections m) then 1 else 0))"

definition keeps :: "('h \<Rightarrow> conn \<Rightarrow> nat)
    \<Rightarrow> (('cfg, 'ud, 'time, 'h) manager \<Rightarrow> ('cfg, 'ud, 'time, 'h) manager) \<Rightarrow> bool" where
  "keeps refs f \<longleftrightarrow> (\<forall>own m. balanced refs own m \<longrightarrow> balanced refs own (f m))"

lemma keepsD: "keeps refs f \<Longrightarrow> balanced refs own m \<Longrightarrow> balanced refs own (f m)"
  by (simp add: keeps_def)

lemma keeps_deregister: "counting ops refs \<Longrightarrow> keeps refs (deregister ops c)"
  unfolding keeps_def
proof (intro allI impI)
  fix own m assume a: "counting ops refs" "balanced refs own m"
  show "balanced refs own (deregister ops c m)"
  proof (cases "c \<in> set (connections m)")
    case True
    then have "0 < refs (objects m) c" using a(2) by (simp add: balanced_def)
    from deregister_refs [OF a(1) True this] a(2) True show ?thesis
      by (auto simp: balanced_def registry_simps fun_eq_iff)
  next
    case False
    with a(2) show ?thesis by (simp add: deregister_def)
  qed
qed

lemma deregister_conn_id:
  assumes "counting ops refs" "balanced refs own m"
  shows "conn_id ops (objects (deregister ops c m)) = conn_id ops (objects m)"
proof (cases "c \<in> set (connections m)")
  case True
  then have "0 < refs (objects m) c" using assms(2) by (simp add: balanced_def)
  then obtain h where "decrease ops c (objects m) = Some h" "conn_id ops h = conn_id ops (objects m)"
    using counting_decrease [OF assms(1)] by metis
  with True show ?thesis by (simp add: deregister_def Let_def)
qed (simp add: deregister_def)

section \<open>The world of connections and their manager\<close>

text \<open>
  What happens to a manager over time, in any order: connections register and deregister
  themselves, the manager is started and stopped, a client looks a connection up by id and
  releases it again.
\<close>

inductive manager_step :: "('h, 'addr) conn_ops \<Rightarrow> ('cfg, 'ud, 'time, 'h) manager registry_world
    \<Rightarrow> ('cfg, 'ud, 'time, 'h) manager registry_world \<Rightarrow> bool"
  for ops :: "('h, 'addr) conn_ops" where
  step_register: "base_register (register ops) c w = Inr (b, w') \<Longrightarrow> manager_step ops w w'"
| step_deregister: "manager_step ops w (base_deregister (deregister ops) c w)"
| step_start: "manager_step ops w (w\<lparr>registry := start t (registry w)\<rparr>)"
| step_stop: "stop False others (registry w) = Some m \<Longrightarrow> manager_step ops w (w\<lparr>registry := m\<rparr>)"
| step_lookup: "get_by_id ops i (registry w) = Inr (Some c, m) \<Longrightarrow> decrease ops c (objects m) = Some h
    \<Longrightarrow> manager_step ops w (w\<lparr>registry := m\<lparr>objects := h\<rparr>\<rparr>)"

inductive manager_reachable :: "('h, 'addr) conn_ops
    \<Rightarrow> ('cfg, 'ud, 'time, 'h) manager registry_world
    \<Rightarrow> ('cfg, 'ud, 'time, 'h) manager registry_world \<Rightarrow> bool"
  for ops :: "('h, 'addr) conn_ops" and w0 :: "('cfg, 'ud, 'time, 'h) manager registry_world" where
  reach_start: "manager_reachable ops w0 w0"
| reach_step: "manager_reachable ops w0 w \<Longrightarrow> manager_step ops w w' \<Longrightarrow> manager_reachable ops w0 w'"

definition registry_inv :: "('h \<Rightarrow> conn \<Rightarrow> nat) \<Rightarrow> (conn \<Rightarrow> nat)
    \<Rightarrow> ('cfg, 'ud, 'time, 'h) manager registry_world \<Rightarrow> bool" where
  "registry_inv refs own w \<longleftrightarrow>
     flags_agree connections w \<and>
     length (connections (registry w)) \<le> unat (maximumNumberOfConnections (registry w)) \<and>
     refs (objects (registry w))
       = (\<lambda>c. own c + (if c \<in> set (connections (registry w)) then 1 else 0))"

lemma registry_inv_register:
  assumes "counting ops refs" and "registry_inv refs own w"
    and "base_register (register ops) c w = Inr (b, w')"
  shows "registry_inv refs own w'"
proof -
  obtain r m where r: "register ops c (registry w) = (r, m)" by fastforce
  from assms(2,3) have new: "c \<notin> set (connections (registry w))"
    by (auto simp: base_register_def flags_agree_def registry_inv_def split: if_splits)
  have m: "registry w' = m"
    using assms(3) r by (auto simp: base_register_def split: if_splits option.splits)
  have "refs (objects m) = (\<lambda>d. own d + (if d \<in> set (connections m) then 1 else 0))"
    using assms(2) register_refs [OF assms(1) r] register_connections [OF r] new
    by (auto simp: registry_inv_def fun_eq_iff)
  then show ?thesis
    using assms cm.register_flags [OF assms(3)] cm.register_within_bound [OF assms(3)]
    by (simp add: registry_inv_def m)
qed

lemma registry_inv_deregister:
  assumes "counting ops refs" and "registry_inv refs own w"
  shows "registry_inv refs own (base_deregister (deregister ops) c w)"
proof (cases "isRegistered w c")
  case True
  with assms(2) have c: "c \<in> set (connections (registry w))" "distinct (connections (registry w))"
    and "0 < refs (objects (registry w)) c"
    by (auto simp: registry_inv_def flags_agree_def)
  then have "refs (objects (deregister ops c (registry w)))
      = (refs (objects (registry w)))(c := refs (objects (registry w)) c - 1)"
    using deregister_refs [OF assms(1)] by blast
  then have "refs (objects (registry (base_deregister (deregister ops) c w)))
      = (\<lambda>d. own d + (if d \<in> set (connections (registry (base_deregister (deregister ops) c w)))
                     then 1 else 0))"
    using True c assms(2)
    by (auto simp: base_deregister_def registry_inv_def registry_simps fun_eq_iff)
  then show ?thesis
    using assms(2) cm.deregister_flags [of w ops c] cm.deregister_within_bound [of w ops c]
    by (simp add: registry_inv_def)
next
  case False
  then show ?thesis using assms(2) by (simp add: base_deregister_def)
qed

lemma hand_out_Some:
  "hand_out ops p m = Inr (Some c, m') \<Longrightarrow>
     p = Some c \<and> (\<exists>h. increase ops c (objects m) = Some h \<and> m' = m\<lparr>objects := h\<rparr>)"
  by (auto simp: hand_out_def split: option.splits)

lemma registry_inv_lookup:
  assumes "counting ops refs" and "registry_inv refs own w"
    and "get_by_id ops i (registry w) = Inr (Some c, m)" and "decrease ops c (objects m) = Some h"
  shows "registry_inv refs own (w\<lparr>registry := m\<lparr>objects := h\<rparr>\<rparr>)"
proof -
  from assms(3) obtain h1 where h1: "increase ops c (objects (registry w)) = Some h1"
    "m = (registry w)\<lparr>objects := h1\<rparr>"
    by (auto simp: get_by_id_def get_by_handle_def split: if_splits dest!: hand_out_Some)
  with assms(1) have r1: "refs h1 = (refs (objects (registry w)))(c := Suc (refs (objects (registry w)) c))"
    using counting_increase [of ops refs c "objects (registry w)"] by (metis option.inject)
  have "refs h = (refs h1)(c := refs h1 c - 1)"
    using counting_decrease [OF assms(1), of h1 c] assms(4) r1 h1 by fastforce
  with r1 have "refs h = refs (objects (registry w))" by auto
  with assms(2) h1 show ?thesis by (simp add: registry_inv_def flags_agree_def)
qed

lemma registry_inv_step:
  assumes "counting ops refs" and "manager_step ops w w'" and "registry_inv refs own w"
  shows "registry_inv refs own w'"
  using assms(2)
proof cases
  case (step_register c b)
  then show ?thesis using assms registry_inv_register by blast
next
  case (step_deregister c)
  then show ?thesis using assms registry_inv_deregister by blast
next
  case (step_start t)
  then show ?thesis using assms(3)
    by (simp add: registry_inv_def flags_agree_def start_def Let_def)
next
  case (step_stop others m)
  then show ?thesis using assms(3)
    by (auto simp: registry_inv_def flags_agree_def stop_def)
next
  case (step_lookup i c m h)
  show ?thesis
    unfolding step_lookup(1) by (rule registry_inv_lookup [OF assms(1,3) step_lookup(2,3)])
qed

lemma reachable_registry_inv:
  assumes "manager_reachable ops w0 w" and "counting ops refs" and "registry_inv refs own w0"
  shows "registry_inv refs own w"
  using assms by (induction rule: manager_reachable.induct) (auto intro: registry_inv_step)

definition fresh_world :: "u32 \<Rightarrow> 'time \<Rightarrow> 'h \<Rightarrow> ('cfg, 'ud, 'time, 'h) manager registry_world" where
  "fresh_world maximum interval h =
    \<lparr>isRegistered = (\<lambda>_. False), registry = initialize maximum interval (new_manager interval h)\<rparr>"

lemma registry_inv_fresh: "registry_inv refs (refs h) (fresh_world maximum interval h)"
  by (simp add: registry_inv_def flags_agree_def fresh_world_def initialize_def new_manager_def)

text \<open>C1: Whatever sequence of registrations, deregistrations, starts, stops and lookups runs from a
  freshly initialised manager: a connection's flag isRegistered_ is set exactly while the manager
  lists it, no connection is listed twice, the list never exceeds the configured maximum, and
  the manager holds exactly one reference to each listed connection and none to any other.\<close>

theorem manager_invariant:
  assumes "counting ops refs"
    and "manager_reachable ops (fresh_world maximum interval h) w"
  shows "(\<forall>c. isRegistered w c \<longleftrightarrow> c \<in> set (connections (registry w)))
    \<and> distinct (connections (registry w))
    \<and> length (connections (registry w)) \<le> unat (maximumNumberOfConnections (registry w))
    \<and> (\<forall>c. refs (objects (registry w)) c
           = refs h c + (if c \<in> set (connections (registry w)) then 1 else 0))"
  using reachable_registry_inv [OF assms(2,1) registry_inv_fresh]
  by (simp add: registry_inv_def flags_agree_def)

definition demo_world :: "(unit, unit, nat, (conn \<Rightarrow> nat) \<times> (conn \<Rightarrow> u32)) manager registry_world" where
  "demo_world = fresh_world 2 5 (\<lambda>_. 1, of_nat)"

definition demo_world_1 :: "(unit, unit, nat, (conn \<Rightarrow> nat) \<times> (conn \<Rightarrow> u32)) manager registry_world" where
  "demo_world_1 = \<lparr>isRegistered = (\<lambda>_. False)(7 := True),
     registry = (registry demo_world)\<lparr>connections := [7], objects := ((\<lambda>_. 1)(7 := Suc 1), of_nat)\<rparr>\<rparr>"

lemma demo_register:
  "base_register (register (counter_ops id)) 7 demo_world = Inr (True, demo_world_1)"
  by (simp add: base_register_def register_def counter_ops_def demo_world_def demo_world_1_def
      fresh_world_def initialize_def new_manager_def)

theorem manager_invariant_witness:
  "connections (registry demo_world_1) = [7] \<and> isRegistered demo_world_1 7
   \<and> fst (objects (registry demo_world_1)) 7 = 2"
proof -
  have "manager_reachable (counter_ops id) (fresh_world 2 5 (\<lambda>_. 1, of_nat)) demo_world_1"
    using reach_step [OF reach_start step_register [OF demo_register]]
    by (simp add: demo_world_def)
  from manager_invariant [OF counter_ops_counting this]
  have "isRegistered demo_world_1 7 \<longleftrightarrow> 7 \<in> set (connections (registry demo_world_1))"
    and "fst (objects (registry demo_world_1)) 7
      = fst ((\<lambda>_. 1) :: conn \<Rightarrow> nat, of_nat :: conn \<Rightarrow> u32) 7
        + (if 7 \<in> set (connections (registry demo_world_1)) then 1 else 0)"
    by blast+
  moreover have "connections (registry demo_world_1) = [7]" by (simp add: demo_world_1_def)
  ultimately show ?thesis by simp
qed

section \<open>Lookup\<close>

lemma find_unique:
  assumes "c \<in> set cs" and "P c" and "\<And>d. d \<in> set cs \<Longrightarrow> P d \<Longrightarrow> d = c"
  shows "find P cs = Some c"
proof (cases "find P cs")
  case None
  with assms(1,2) show ?thesis by (simp add: find_None_iff)
next
  case (Some d)
  with find_Some_in [OF Some] assms(3) show ?thesis by blast
qed

text \<open>Looking up the id of a listed connection (ids being unique) returns that connection, with
  one reference added to it for the caller, and changes nothing else in the manager.\<close>

theorem get_by_id_registered:
  assumes "counting ops refs"
    and "c \<in> set (connections m)" and "conn_id ops (objects m) c = i" and "i \<noteq> ACE_INVALID_HANDLE"
    and "\<forall>d \<in> set (connections m). conn_id ops (objects m) d = i \<longrightarrow> d = c"
  shows "\<exists>h. get_by_id ops i m = Inr (Some c, m\<lparr>objects := h\<rparr>)
    \<and> refs h = (refs (objects m))(c := Suc (refs (objects m) c))"
proof -
  have "find (\<lambda>d. conn_id ops (objects m) d = i) (connections m) = Some c"
    by (rule find_unique [OF assms(2)]) (use assms(3,5) in blast)+
  moreover obtain h where "increase ops c (objects m) = Some h"
    "refs h = (refs (objects m))(c := Suc (refs (objects m) c))"
    using counting_increase [OF assms(1)] by metis
  ultimately show ?thesis
    using assms(4)
    by (intro exI [of _ h]) (simp add: get_by_id_def get_by_handle_def scan_find hand_out_def)
qed

theorem get_by_id_registered_witness:
  "\<exists>h. get_by_id (counter_ops id) 7 (registry demo_world_1)
         = Inr (Some 7, (registry demo_world_1)\<lparr>objects := h\<rparr>) \<and> fst h 7 = 3"
proof -
  have "7 \<in> set (connections (registry demo_world_1))"
    "conn_id (counter_ops id) (objects (registry demo_world_1)) 7 = 7"
    "(7::u32) \<noteq> ACE_INVALID_HANDLE"
    "\<forall>d \<in> set (connections (registry demo_world_1)).
       conn_id (counter_ops id) (objects (registry demo_world_1)) d = 7 \<longrightarrow> d = 7"
    by (simp_all add: demo_world_1_def counter_ops_def ACE_INVALID_HANDLE_def)
  from get_by_id_registered [OF counter_ops_counting this] show ?thesis
    by (auto simp: demo_world_1_def fun_eq_iff)
qed

text \<open>When next () leaves its argument alone at the end of the list, looking up an id that no
  listed connection has returns the most recently registered connection (with a reference
  added) instead of NULL, as soon as any connection is listed.\<close>

theorem get_by_id_unknown:
  assumes "counting ops refs" and "next_at_end ops = id"
    and "\<forall>d \<in> set (connections m). conn_id ops (objects m) d \<noteq> i" and "i \<noteq> ACE_INVALID_HANDLE"
    and "connections m \<noteq> []"
  shows "\<exists>h. get_by_id ops i m = Inr (Some (last (connections m)), m\<lparr>objects := h\<rparr>)
    \<and> refs h (last (connections m)) = Suc (refs (objects m) (last (connections m)))"
proof -
  have "find (\<lambda>d. conn_id ops (objects m) d = i) (connections m) = None"
    using assms(3) by (auto simp: find_None_iff)
  moreover obtain h where "increase ops (last (connections m)) (objects m) = Some h"
    "refs h = (refs (objects m))(last (connections m) := Suc (refs (objects m) (last (connections m))))"
    using counting_increase [OF assms(1)] by metis
  ultimately show ?thesis
    using assms(2,4,5)
    by (intro exI [of _ h]) (simp add: get_by_id_def get_by_handle_def scan_find hand_out_def)
qed

theorem get_by_id_unknown_witness:
  "\<exists>h. get_by_id (counter_ops id) 99 (registry demo_world_1)
         = Inr (Some 7, (registry demo_world_1)\<lparr>objects := h\<rparr>)"
proof -
  have "next_at_end (counter_ops id) = id"
    "\<forall>d \<in> set (connections (registry demo_world_1)).
       conn_id (counter_ops id) (objects (registry demo_world_1)) d \<noteq> 99"
    "(99::u32) \<noteq> ACE_INVALID_HANDLE" "connections (registry demo_world_1) \<noteq> []"
    by (simp_all add: demo_world_1_def counter_ops_def ACE_INVALID_HANDLE_def)
  from get_by_id_unknown [OF counter_ops_counting this] show ?thesis
    by (auto simp: demo_world_1_def)
qed

text \<open>When next () does not turn a NULL argument into a connection, looking up an address returns
  NULL exactly when no listed connection has that peer (or local) address, and otherwise the
  oldest connection that has it.\<close>

theorem get_by_address_exact:
  assumes "counting ops refs" and "next_at_end ops None = None"
  shows "(\<exists>h. get_by_address ops a is_peer m
      = Inr (find (\<lambda>c. (if is_peer then peer_address ops (objects m) c
                        else local_address ops (objects m) c) = a) (connections m),
             m\<lparr>objects := h\<rparr>))"
proof -
  let ?P = "\<lambda>c. (if is_peer then peer_address ops (objects m) c
                 else local_address ops (objects m) c) = a"
  have eq: "(\<lambda>c. (is_peer \<and> peer_address ops (objects m) c = a)
      \<or> (\<not> is_peer \<and> local_address ops (objects m) c = a)) = ?P" by auto
  show ?thesis
  proof (cases "find ?P (connections m)")
    case None
    then have "get_by_address ops a is_peer m = Inr (None, m\<lparr>objects := objects m\<rparr>)"
      using assms(2) by (simp add: get_by_address_def scan_null_find eq hand_out_def)
    with None show ?thesis by metis
  next
    case (Some c)
    moreover obtain h where "increase ops c (objects m) = Some h"
      using counting_increase [OF assms(1)] by metis
    ultimately have "get_by_address ops a is_peer m = Inr (Some c, m\<lparr>objects := h\<rparr>)"
      by (simp add: get_by_address_def scan_null_find eq hand_out_def)
    with Some show ?thesis by auto
  qed
qed

theorem get_by_address_exact_witness:
  "\<exists>h. get_by_address (counter_ops id) 99 True (registry demo_world_1)
     = Inr (None, (registry demo_world_1)\<lparr>objects := h\<rparr>)"
proof -
  have "next_at_end (counter_ops id) None = None" by (simp add: counter_ops_def)
  from get_by_address_exact [OF counter_ops_counting this, of 99 True "registry demo_world_1"]
  show ?thesis by (simp add: demo_world_1_def counter_ops_def)
qed

section \<open>Shutdown\<close>

text \<open>What the connections' threads do to the manager: a connection deregisters, or tries to register.\<close>

definition traffic :: "('h, 'addr) conn_ops \<Rightarrow> bool \<times> conn \<Rightarrow> ('cfg, 'ud, 'time, 'h) manager
    \<Rightarrow> ('cfg, 'ud, 'time, 'h) manager" where
  "traffic ops = (\<lambda>(leaves, c) m. if leaves then deregister ops c m else snd (register ops c m))"

definition leaving :: "(bool \<times> conn) list \<Rightarrow> conn set" where
  "leaving b = {c. (True, c) \<in> set b}"

lemma leaving_simps [simp]:
  "leaving [] = {}" "leaving ((True, c) # b) = insert c (leaving b)" "leaving ((False, c) # b) = leaving b"
  by (auto simp: leaving_def)

lemma traffic_inactive:
  assumes "\<not> isActive n" and "distinct (connections n)"
  shows "\<not> isActive (fold (traffic ops) b n) \<and> distinct (connections (fold (traffic ops) b n))
    \<and> set (connections (fold (traffic ops) b n)) = set (connections n) - leaving b
    \<and> broadcasts n \<le> broadcasts (fold (traffic ops) b n)
    \<and> (connections n \<noteq> [] \<and> connections (fold (traffic ops) b n) = []
         \<longrightarrow> broadcasts n < broadcasts (fold (traffic ops) b n))"
  using assms
proof (induction b arbitrary: n)
  case (Cons t b)
  obtain leaves c where t: "t = (leaves, c)" by (cases t)
  show ?case
  proof (cases leaves)
    case True
    let ?n1 = "deregister ops c n"
    have "\<not> isActive ?n1" "distinct (connections ?n1)"
      using Cons.prems by (simp_all add: registry_simps)
    note ih = Cons.IH [OF this]
    have "broadcasts n \<le> broadcasts ?n1"
      "connections n \<noteq> [] \<Longrightarrow> connections ?n1 = [] \<Longrightarrow> broadcasts n < broadcasts ?n1"
      by (cases "c \<in> set (connections n)"; simp add: deregister_def Let_def)+
    note signalled = this
    have members: "set (connections ?n1) = set (connections n) - {c}"
      using Cons.prems by (simp add: registry_simps)
    have eq: "fold (traffic ops) (t # b) n = fold (traffic ops) b ?n1"
      "leaving (t # b) = insert c (leaving b)"
      using t True by (simp_all add: traffic_def)
    have "broadcasts n < broadcasts (fold (traffic ops) b ?n1)"
      if "connections n \<noteq> []" "connections (fold (traffic ops) b ?n1) = []"
      using ih signalled that by (cases "connections ?n1 = []") linarith+
    with ih signalled(1) members show ?thesis
      unfolding eq by (metis (no_types, lifting) Diff_insert Diff_insert2 order_trans)
  next
    case False
    with Cons t show ?thesis by (simp add: traffic_def register_def)
  qed
qed simp

text \<open>A caller that waits sees every step that matters: the last deregistration signals the condition.\<close>

lemma wait_empty_step:
  assumes "\<not> isActive n" and "distinct (connections n)" and "connections n \<noteq> []"
  shows "wait_empty (map (fold (traffic ops)) (b # bs)) n
    = wait_empty (map (fold (traffic ops)) bs) (fold (traffic ops) b n)"
  using traffic_inactive [OF assms(1,2), of ops b] assms(3)
  by (auto simp: wait_empty_def Let_def)

lemma wait_empty_drains:
  assumes "\<not> isActive n" and "distinct (connections n)"
  shows "case wait_empty (map (fold (traffic ops)) bs) n of
      None \<Rightarrow> \<not> set (connections n) \<subseteq> leaving (concat bs)
    | Some n' \<Rightarrow> set (connections n) \<subseteq> leaving (concat bs) \<and> connections n' = [] \<and> \<not> isActive n'"
  using assms
proof (induction bs arbitrary: n)
  case Nil
  then show ?case by (simp add: wait_empty_def)
next
  case (Cons b bs)
  let ?n1 = "fold (traffic ops) b n"
  note t = traffic_inactive [OF Cons.prems, of ops b]
  have l: "leaving (concat (b # bs)) = leaving b \<union> leaving (concat bs)"
    by (auto simp: leaving_def)
  show ?case
  proof (cases "connections n = []")
    case True
    with Cons.prems show ?thesis by (simp add: wait_empty_def)
  next
    case False
    have "case wait_empty (map (fold (traffic ops)) bs) ?n1 of
        None \<Rightarrow> \<not> set (connections ?n1) \<subseteq> leaving (concat bs)
      | Some n' \<Rightarrow> set (connections ?n1) \<subseteq> leaving (concat bs) \<and> connections n' = [] \<and> \<not> isActive n'"
      using Cons.IH t by blast
    moreover have "set (connections ?n1) \<subseteq> leaving (concat bs)
        \<longleftrightarrow> set (connections n) \<subseteq> leaving (concat (b # bs))"
      using t l by blast
    ultimately show ?thesis
      unfolding wait_empty_step [OF Cons.prems False] by (simp only:)
  qed
qed

text \<open>C38: A stop () that waits sleeps on the condition of the manager. While it sleeps, the other threads
  deregister connections and try to register connections, in any order and in any portions (bs). It
  returns if and only if all listed connections deregister, and then with an empty list and a manager
  that refuses every registration: the wake-up is not lost, because the deregistration that empties
  the list signals the condition.\<close>

theorem stop_drains:
  assumes "distinct (connections m)"
  shows "case stop True (map (fold (traffic ops)) bs) m of
      None \<Rightarrow> \<not> set (connections m) \<subseteq> leaving (concat bs)
    | Some m' \<Rightarrow> set (connections m) \<subseteq> leaving (concat bs) \<and> connections m' = []
        \<and> register ops c m' = (Some False, m')"
  using wait_empty_drains [where n = "m\<lparr>isActive := False\<rparr>" and ops = ops and bs = bs] assms
  by (auto simp: stop_def Let_def register_def split: option.splits)

theorem stop_drains_witness:
  "case stop True (map (fold (traffic (counter_ops id))) [[(True, 3)], [(False, 3), (True, 7)]]) (registry demo_world_1) of
      None \<Rightarrow> \<not> set (connections (registry demo_world_1)) \<subseteq> leaving [(True, 3), (False, 3), (True, 7)]
    | Some m' \<Rightarrow> connections m' = []"
proof -
  have "distinct (connections (registry demo_world_1))" by (simp add: demo_world_1_def)
  from stop_drains [OF this, where ops = "counter_ops id" and bs = "[[(True, 3)], [(False, 3), (True, 7)]]"]
  show ?thesis by (auto split: option.splits)
qed

section \<open>Aborting connections\<close>

text \<open>
  \<^verbatim>\<open>close ()\<close> of a connection only shuts its socket (\<open>shut\<close>, in the heap of the objects); the connection
  deregisters later, when the reactor or proactor closes its handler, in another thread.
  \<open>during c m\<close>: the connections whose handlers are closed in the meantime, if any. \<open>closed\<close> reads off the
  heap which connections were told to close, in that order.
\<close>

definition shut_close :: "('h, 'addr) conn_ops \<Rightarrow> (conn \<Rightarrow> 'h \<Rightarrow> 'h)
    \<Rightarrow> (conn \<Rightarrow> ('cfg, 'ud, 'time, 'h) manager \<Rightarrow> conn list)
    \<Rightarrow> conn \<Rightarrow> ('cfg, 'ud, 'time, 'h) manager \<Rightarrow> ('cfg, 'ud, 'time, 'h) manager" where
  "shut_close ops shut during c m =
    fold (deregister ops) (during c m) (m\<lparr>objects := shut c (objects m)\<rparr>)"

definition shutting :: "('h, 'addr) conn_ops \<Rightarrow> ('h \<Rightarrow> conn \<Rightarrow> nat) \<Rightarrow> ('h \<Rightarrow> conn list)
    \<Rightarrow> (conn \<Rightarrow> 'h \<Rightarrow> 'h) \<Rightarrow> bool" where
  "shutting ops refs closed shut \<longleftrightarrow>
     (\<forall>c h. refs (shut c h) = refs h \<and> conn_id ops (shut c h) = conn_id ops h
        \<and> closed (shut c h) = closed h @ [c]) \<and>
     (\<forall>c h h'. increase ops c h = Some h' \<or> decrease ops c h = Some h' \<longrightarrow> closed h' = closed h)"

lemma shutting_closed:
  assumes "shutting ops refs closed shut"
  shows "increase ops c h = Some h' \<Longrightarrow> closed h' = closed h"
    and "decrease ops c h = Some h' \<Longrightarrow> closed h' = closed h"
    and "closed (objects (deregister ops c m)) = closed (objects m)"
  using assms by (auto simp: shutting_def deregister_def Let_def split: option.split)

lemma fold_deregister:
  assumes "counting ops refs" "shutting ops refs closed shut" "balanced refs own m"
  shows "balanced refs own (fold (deregister ops) ds m)
    \<and> set (connections (fold (deregister ops) ds m)) = set (connections m) - set ds
    \<and> isActive (fold (deregister ops) ds m) = isActive m
    \<and> closed (objects (fold (deregister ops) ds m)) = closed (objects m)"
  using assms(3)
proof (induction ds arbitrary: m)
  case (Cons d ds)
  have "balanced refs own (deregister ops d m)"
    by (rule keepsD [OF keeps_deregister [OF assms(1)] Cons.prems])
  from Cons.IH [OF this] Cons.prems shutting_closed(3) [OF assms(2), of d m] show ?case
    by (auto simp: registry_simps balanced_def)
qed simp

lemma shut_close_balanced:
  assumes "counting ops refs" "shutting ops refs closed shut" "balanced refs own m"
  shows "balanced refs own (shut_close ops shut during c m)
    \<and> set (connections (shut_close ops shut during c m)) = set (connections m) - set (during c m)
    \<and> isActive (shut_close ops shut during c m) = isActive m
    \<and> closed (objects (shut_close ops shut during c m)) = closed (objects m) @ [c]"
proof -
  have "balanced refs own (m\<lparr>objects := shut c (objects m)\<rparr>)"
    using assms(2,3) by (simp add: balanced_def shutting_def)
  from fold_deregister [OF assms(1,2) this, of "during c m"] assms(2) show ?thesis
    by (simp add: shut_close_def shutting_def)
qed

lemma gather_balanced:
  assumes "counting ops refs" "shutting ops refs closed shut" "\<forall>h. node_alloc ops h"
    and "balanced refs own (m\<lparr>objects := h\<rparr>)"
  shows "\<exists>h'. gather ops cs acc h = Inr (Some (acc @ cs), h') \<and> closed h' = closed h
    \<and> balanced refs (\<lambda>c. own c + count_list cs c) (m\<lparr>objects := h'\<rparr>)"
  using assms(4)
proof (induction cs arbitrary: acc h own)
  case (Cons d cs)
  obtain h1 where h1: "increase ops d h = Some h1" "refs h1 = (refs h)(d := Suc (refs h d))"
    using counting_increase [OF assms(1)] by metis
  let ?own = "own(d := Suc (own d))"
  have "balanced refs ?own (m\<lparr>objects := h1\<rparr>)"
    using Cons.prems h1(2) by (auto simp: balanced_def fun_eq_iff)
  from Cons.IH [OF this, of "acc @ [d]"] obtain h' where
    "gather ops cs (acc @ [d]) h1 = Inr (Some (acc @ d # cs), h')" "closed h' = closed h1"
    "balanced refs (\<lambda>c. ?own c + count_list cs c) (m\<lparr>objects := h'\<rparr>)" by auto
  moreover have "(\<lambda>c. ?own c + count_list cs c) = (\<lambda>c. own c + count_list (d # cs) c)" by auto
  ultimately show ?case
    using h1(1) assms(3) shutting_closed(1) [OF assms(2) h1(1)] by auto
qed simp

text \<open>Closing connections of which an extra reference is held, and dropping that reference.\<close>

lemma close_all_balanced:
  assumes "counting ops refs" "shutting ops refs closed shut"
    and "balanced refs (\<lambda>c. own c + count_list cs c) m"
  shows "\<exists>m'. close_all ops (shut_close ops shut during) cs m = Inr m' \<and> balanced refs own m'
    \<and> set (connections m') \<subseteq> set (connections m) \<and> isActive m' = isActive m
    \<and> closed (objects m') = closed (objects m) @ cs"
  using assms(3)
proof (induction cs arbitrary: m)
  case (Cons d cs)
  let ?m1 = "shut_close ops shut during d m"
  note s = shut_close_balanced [OF assms(1,2) Cons.prems, of during d]
  then have "0 < refs (objects ?m1) d" by (simp add: balanced_def)
  then obtain h where h: "decrease ops d (objects ?m1) = Some h"
    "refs h = (refs (objects ?m1))(d := refs (objects ?m1) d - 1)"
    using counting_decrease [OF assms(1)] by metis
  have "balanced refs (\<lambda>c. own c + count_list cs c) (?m1\<lparr>objects := h\<rparr>)"
    using s h(2) by (auto simp: balanced_def fun_eq_iff)
  from Cons.IH [OF this] obtain m' where
    "close_all ops (shut_close ops shut during) cs (?m1\<lparr>objects := h\<rparr>) = Inr m'" "balanced refs own m'"
    "set (connections m') \<subseteq> set (connections ?m1)" "isActive m' = isActive ?m1"
    "closed (objects m') = closed h @ cs" by auto
  with s h(1) shutting_closed(2) [OF assms(2) h(1)] show ?case by (auto simp: Let_def)
qed simp

text \<open>One round of \<^verbatim>\<open>abort ()\<close>.\<close>

lemma abort_round:
  assumes "counting ops refs" "shutting ops refs closed shut" "\<forall>h. node_alloc ops h"
    and "balanced refs own m" "connections m \<noteq> []"
  obtains m' where "balanced refs own m'" "set (connections m') \<subseteq> set (connections m)"
    "isActive m' = isActive m" "closed (objects m') = closed (objects m) @ connections m"
    "\<And>others w. abort_all ops (shut_close ops shut during) others w m =
      (if \<not> w then Some (Inr m')
       else case others of [] \<Rightarrow> None
         | f # fs \<Rightarrow> abort_all ops (shut_close ops shut during) fs w (f m'))"
proof -
  have "balanced refs own (m\<lparr>objects := objects m\<rparr>)" using assms(4) by simp
  from gather_balanced [OF assms(1-3) this, of "connections m" "[]"] obtain h where
    h: "gather ops (connections m) [] (objects m) = Inr (Some (connections m), h)"
    "closed h = closed (objects m)"
    "balanced refs (\<lambda>c. own c + count_list (connections m) c) (m\<lparr>objects := h\<rparr>)" by auto
  from close_all_balanced [OF assms(1,2) h(3), of during] obtain m' where
    m': "close_all ops (shut_close ops shut during) (connections m) (m\<lparr>objects := h\<rparr>) = Inr m'"
    "balanced refs own m'" "set (connections m') \<subseteq> set (connections m)" "isActive m' = isActive m"
    "closed (objects m') = closed h @ connections m" by auto
  show ?thesis
    by (rule that [OF m'(2-4)]) (use m' h assms(5) in \<open>simp_all add: abort_all.simps [of _ _ _ _ m]\<close>)
qed

lemma abort_all_empty:
  "connections m = [] \<Longrightarrow> abort_all ops close others w m = Some (Inr m)"
  by (simp add: abort_all.simps)

text \<open>C2: abort () when memory is available, closing a connection only shuts its socket and the connections deregister at any
  later time, in other threads (during the closing and between the rounds). Without waiting it
  returns after telling each listed connection to close once, in order. With waiting it returns
  when all connections that were listed deregister between its rounds, never before the list is
  empty, and all of them were told to close. Either way no reference is lost or leaked:
  exactly the manager's own to the connections that deregistered are gone.\<close>

theorem abort_all_terminates:
  assumes "counting ops refs" and "shutting ops refs closed shut" and "\<forall>h. node_alloc ops h"
    and "balanced refs own m"
  shows "case abort_all ops (shut_close ops shut during) (map (fold (deregister ops)) dss) waitForCompletion m of
      None \<Rightarrow> waitForCompletion \<and> \<not> set (connections m) \<subseteq> set (concat dss)
    | Some (Inl _) \<Rightarrow> False
    | Some (Inr m') \<Rightarrow> balanced refs own m' \<and> set (connections m') \<subseteq> set (connections m)
        \<and> isActive m' = isActive m \<and> (waitForCompletion \<longrightarrow> connections m' = [])
        \<and> (\<exists>again. closed (objects m') = closed (objects m) @ connections m @ again
             \<and> (\<not> waitForCompletion \<longrightarrow> again = []))"
  using assms(4)
proof (induction dss arbitrary: m)
  case Nil
  show ?case
  proof (cases "connections m = []")
    case False
    from abort_round [OF assms(1-3) Nil this, of during] obtain m' where
      "balanced refs own m'" "set (connections m') \<subseteq> set (connections m)"
      "isActive m' = isActive m" "closed (objects m') = closed (objects m) @ connections m"
      and "\<And>others w. abort_all ops (shut_close ops shut during) others w m =
        (if \<not> w then Some (Inr m')
         else case others of [] \<Rightarrow> None
           | f # fs \<Rightarrow> abort_all ops (shut_close ops shut during) fs w (f m'))" by blast
    with False show ?thesis by simp
  qed (use Nil in \<open>simp add: abort_all_empty\<close>)
next
  case (Cons ds dss)
  show ?case
  proof (cases "connections m = []")
    case False
    from abort_round [OF assms(1-3) Cons.prems this, of during] obtain m1 where
      m1: "balanced refs own m1" "set (connections m1) \<subseteq> set (connections m)"
      "isActive m1 = isActive m" "closed (objects m1) = closed (objects m) @ connections m"
      and run: "\<And>others w. abort_all ops (shut_close ops shut during) others w m =
        (if \<not> w then Some (Inr m1)
         else case others of [] \<Rightarrow> None
           | f # fs \<Rightarrow> abort_all ops (shut_close ops shut during) fs w (f m1))" by blast
    note d = fold_deregister [OF assms(1,2) m1(1), of ds]
    with Cons.IH [of "fold (deregister ops) ds m1"] m1 show ?thesis
      by (auto simp: run split: option.splits sum.splits)
  qed (use Cons.prems in \<open>simp add: abort_all_empty\<close>)
qed

text \<open>A heap with a log of the connections that were told to close.\<close>

definition log_ops :: "(((conn \<Rightarrow> nat) \<times> (conn \<Rightarrow> u32)) \<times> conn list, u32) conn_ops" where
  "log_ops =
    \<lparr>increase = (\<lambda>c (h, l). map_option (\<lambda>h'. (h', l)) (increase (counter_ops id) c h)),
     decrease = (\<lambda>c (h, l). map_option (\<lambda>h'. (h', l)) (decrease (counter_ops id) c h)),
     conn_id = (\<lambda>h. snd (fst h)), local_address = (\<lambda>_ _. 0), peer_address = (\<lambda>h. snd (fst h)),
     next_at_end = id, node_alloc = (\<lambda>_. True)\<rparr>"

definition log_shut :: "conn \<Rightarrow> ((conn \<Rightarrow> nat) \<times> (conn \<Rightarrow> u32)) \<times> conn list
    \<Rightarrow> ((conn \<Rightarrow> nat) \<times> (conn \<Rightarrow> u32)) \<times> conn list" where
  "log_shut c h = (fst h, snd h @ [c])"

definition log_manager :: "conn list \<Rightarrow> (unit, unit, nat, ((conn \<Rightarrow> nat) \<times> (conn \<Rightarrow> u32)) \<times> conn list) manager" where
  "log_manager cs = (new_manager 5 (((\<lambda>c. if c \<in> set cs then 1 else 0), of_nat), []))\<lparr>connections := cs\<rparr>"

lemma log_ops_laws:
  "counting log_ops (\<lambda>h. fst (fst h))" "shutting log_ops (\<lambda>h. fst (fst h)) snd log_shut"
  "\<forall>h. node_alloc log_ops h"
  by (auto simp: counting_def shutting_def log_ops_def log_shut_def counter_ops_def split: if_splits)

lemma log_manager_balanced:
  "distinct cs \<Longrightarrow> balanced (\<lambda>h. fst (fst h)) (\<lambda>_. 0) (log_manager cs)"
  by (simp add: balanced_def log_manager_def new_manager_def)

lemma log_manager_simps:
  "connections (log_manager cs) = cs" "snd (objects (log_manager cs)) = []"
  "conn_id log_ops (objects (log_manager cs)) = of_nat" "next_at_end log_ops = id"
  by (simp_all add: log_manager_def new_manager_def log_ops_def)

theorem abort_all_terminates_witness:
  "\<exists>m'. abort_all log_ops (shut_close log_ops log_shut (\<lambda>_ _. [])) (map (fold (deregister log_ops)) [[], [7], [3]])
      True (log_manager [3, 7]) = Some (Inr m')
    \<and> connections m' = [] \<and> (\<exists>again. snd (objects m') = [3, 7] @ again)"
proof -
  have "distinct [3, 7 :: conn]" by simp
  from abort_all_terminates [OF log_ops_laws log_manager_balanced [OF this],
      where during = "\<lambda>_ _. []" and dss = "[[], [7], [3]]" and waitForCompletion = True]
  show ?thesis by (auto simp: log_manager_simps split: option.splits sum.splits)
qed

text \<open>abort () by strategy tells exactly one connection to close, the one registered first for RECENT_LEAST
  and the one registered last for RECENT_MOST; any other strategy value, or an empty list, changes
  nothing. No reference is lost or leaked.\<close>

theorem abort_by_strategy_victim:
  assumes "counting ops refs" and "shutting ops refs closed shut" and "balanced refs own m"
  shows "\<exists>m'. abort_by_strategy ops (shut_close ops shut during) s m = Inr m' \<and> balanced refs own m'
    \<and> closed (objects m') = closed (objects m) @
        (case s of
           NET_CONNECTION_ABORT_STRATEGY_RECENT_LEAST \<Rightarrow> take 1 (connections m)
         | NET_CONNECTION_ABORT_STRATEGY_RECENT_MOST \<Rightarrow> take 1 (rev (connections m))
         | _ \<Rightarrow> [])"
proof -
  have one: "\<exists>m'. close_one ops (shut_close ops shut during) c m = Inr m' \<and> balanced refs own m'
      \<and> closed (objects m') = closed (objects m) @ [c]" for c
  proof -
    obtain h where h: "increase ops c (objects m) = Some h"
      "refs h = (refs (objects m))(c := Suc (refs (objects m) c))"
      using counting_increase [OF assms(1)] by metis
    have "balanced refs (\<lambda>d. own d + count_list [c] d) (m\<lparr>objects := h\<rparr>)"
      using assms(3) h(2) by (auto simp: balanced_def fun_eq_iff)
    from close_all_balanced [OF assms(1,2) this, of during] h(1) shutting_closed(1) [OF assms(2) h(1)]
    show ?thesis by (auto simp: close_one_def)
  qed
  show ?thesis
    using one assms(3)
    by (cases s; cases "connections m"; cases "rev (connections m)")
      (auto simp: abortLeastRecent_def abortMostRecent_def)
qed

theorem abort_by_strategy_victim_witness:
  "\<exists>m'. abort_by_strategy log_ops (shut_close log_ops log_shut (\<lambda>_ _. []))
      NET_CONNECTION_ABORT_STRATEGY_RECENT_MOST (log_manager [7, 9, 4]) = Inr m' \<and> snd (objects m') = [4]"
proof -
  have "distinct [7, 9, 4 :: conn]" by simp
  from abort_by_strategy_victim [OF log_ops_laws(1,2) log_manager_balanced [OF this],
      where during = "\<lambda>_ _. []" and s = NET_CONNECTION_ABORT_STRATEGY_RECENT_MOST]
  show ?thesis by (auto simp: log_manager_simps)
qed

section \<open>Statistics\<close>

text \<open>The aggregate statistic is the sum over all listed connections, in list order, where a
  connection whose collect () throws counts as zero.\<close>

theorem collect_sums:
  "collect collect_stat (+) (0::'a::comm_monoid_add) h cs d
     = d + (\<Sum>c\<leftarrow>cs. case collect_stat c h of None \<Rightarrow> 0 | Some s \<Rightarrow> s)"
  by (induction cs arbitrary: d) (auto simp: add.assoc split: option.splits)

end
