(* ===== verification/Net_Session.thy ===== *)
theory Net_Session
  imports Connection_Manager
begin

text \<open>
  The session of a peer-to-peer protocol (\<^verbatim>\<open>src/src/net_session_base.inl\<close>): it keeps the ids of
  its connections, looks the connections up with the connection manager, and closes them. What it
  relies on of the manager is the locale \<open>connection_lookup\<close>; the manager of
  \<open>Connection_Manager\<close> is interpreted as it, by id and by address.
\<close>

section \<open>State and environment\<close>

text \<open>The pointers of the configuration may be NULL; of the manager's it only matters whether it is.\<close>

record 'cc session_configuration =
  connectionConfiguration :: "'cc option"
  connectionManager :: bool
  dispatchProactor :: bool

record 'cc session =
  sessionConfiguration :: "'cc session_configuration option"
  sessionConnectionConfiguration :: "'cc option"
  sessionManager :: bool
  isAsynch :: bool
  sessionConnections :: "u32 set"

definition new_session :: "'cc session" where
  "new_session = \<lparr>sessionConfiguration = None, sessionConnectionConfiguration = None,
     sessionManager = False, isAsynch = True, sessionConnections = {}\<rparr>"

definition session_initialize :: "'cc session_configuration \<Rightarrow> ('cc, 'z) session_scheme \<Rightarrow> bool \<times> ('cc, 'z) session_scheme" where
  "session_initialize cfg sess =
    (True, sess\<lparr>sessionConfiguration := Some cfg, sessionConnectionConfiguration := connectionConfiguration cfg,
       sessionManager := connectionManager cfg, isAsynch := dispatchProactor cfg\<rparr>)"

text \<open>
  What a session calls: the manager (two lookups and the release of a reference), the virtual
  functions of the connections (\<^verbatim>\<open>close ()\<close>, \<^verbatim>\<open>status ()\<close>, the cast to a stream connection and
  \<^verbatim>\<open>wait ()\<close>) and the connector. \<open>'s\<close> is the state of all of them.
\<close>

record ('cc, 'addr, 's) session_env =
  look_id :: "u32 \<Rightarrow> 's \<Rightarrow> (conn option \<times> 's) res"
  look_address :: "'addr \<Rightarrow> 's \<Rightarrow> (conn option \<times> 's) res"
  release :: "conn \<Rightarrow> 's \<Rightarrow> 's res"
  close_conn :: "conn \<Rightarrow> 's \<Rightarrow> 's"
  status_ok :: "'s \<Rightarrow> conn \<Rightarrow> bool"
  is_stream :: "conn \<Rightarrow> bool"
  wait_running :: "conn \<Rightarrow> 's \<Rightarrow> 's"
  connector_initialize :: "'cc \<Rightarrow> 's \<Rightarrow> bool \<times> 's"
  connector_connect :: "'addr \<Rightarrow> 's \<Rightarrow> u32 \<times> 's"

section \<open>Connecting\<close>

text \<open>
  The two loops with a deadline, whose bodies run at least once: each element of the list is what the
  rest of the program does between two rounds; the list ends when the deadline has passed.
\<close>

fun poll_address :: "('cc, 'addr, 's) session_env \<Rightarrow> 'addr \<Rightarrow> ('s \<Rightarrow> 's) list \<Rightarrow> 's
    \<Rightarrow> (conn option \<times> 's) res" where
  "poll_address e address [] s = look_address e address s"
| "poll_address e address (f # fs) s =
    bind_res (look_address e address s) (\<lambda>(p, s1).
      case p of Some c \<Rightarrow> Inr (Some c, s1) | None \<Rightarrow> poll_address e address fs (f s1))"

fun wait_status :: "('cc, 'addr, 's) session_env \<Rightarrow> conn \<Rightarrow> ('s \<Rightarrow> 's) list \<Rightarrow> 's \<Rightarrow> bool \<times> 's" where
  "wait_status e c [] s = (status_ok e s c, s)"
| "wait_status e c (f # fs) s = (if status_ok e s c then (True, s) else wait_status e c fs (f s))"

definition session_connect :: "('cc, 'addr, 's) session_env \<Rightarrow> ('s \<Rightarrow> 's) list \<Rightarrow> ('s \<Rightarrow> 's) list
    \<Rightarrow> ('cc, 'z) session_scheme \<Rightarrow> 'addr \<Rightarrow> 's \<Rightarrow> 's res" where
  "session_connect e polls waits sess address s =
    (case sessionConnectionConfiguration sess of
       None \<Rightarrow> Inl Assertion
     | Some cc \<Rightarrow>
         let (ok, s1) = connector_initialize e cc s
         in if \<not> ok then Inr s1
            else let (handle, s2) = connector_connect e address s1
                 in if handle = ACE_INVALID_HANDLE then Inr s2
                    else if \<not> sessionManager sess then Inl Undefined_Behaviour
                    else bind_res (if isAsynch sess then poll_address e address polls s2 else look_id e handle s2)
                      (\<lambda>(p, s3). case p of
                         None \<Rightarrow> Inr s3
                       | Some c \<Rightarrow>
                           let (ready, s4) = wait_status e c waits s3
                           in if ready \<and> is_stream e c then release e c (wait_running e c s4)
                              else release e c (close_conn e c s4)))"

definition session_disconnect :: "('cc, 'addr, 's) session_env \<Rightarrow> ('cc, 'z) session_scheme \<Rightarrow> 'addr \<Rightarrow> 's \<Rightarrow> 's res" where
  "session_disconnect e sess address s =
    (if \<not> sessionManager sess then Inl Assertion
     else bind_res (look_address e address s) (\<lambda>(p, s1). case p of
       None \<Rightarrow> Inr s1
     | Some c \<Rightarrow> release e c (close_conn e c s1)))"

section \<open>The ids of the connections\<close>

definition session_connect_id :: "u32 \<Rightarrow> ('cc, 'z) session_scheme \<Rightarrow> ('cc, 'z) session_scheme res" where
  "session_connect_id i sess =
    (if i \<in> sessionConnections sess then Inl Assertion
     else Inr (sess\<lparr>sessionConnections := insert i (sessionConnections sess)\<rparr>))"

definition session_disconnect_id :: "u32 \<Rightarrow> ('cc, 'z) session_scheme \<Rightarrow> ('cc, 'z) session_scheme" where
  "session_disconnect_id i sess = sess\<lparr>sessionConnections := sessionConnections sess - {i}\<rparr>"

section \<open>Closing\<close>

text \<open>The loop of the destructor and of \<^verbatim>\<open>close ()\<close>, over the ids in increasing order.\<close>

fun close_ids :: "('cc, 'addr, 's) session_env \<Rightarrow> u32 list \<Rightarrow> 's \<Rightarrow> 's res" where
  "close_ids e [] s = Inr s"
| "close_ids e (i # ids) s =
    bind_res (look_id e i s) (\<lambda>(p, s1). case p of
      None \<Rightarrow> close_ids e ids s1
    | Some c \<Rightarrow> bind_res (release e c (close_conn e c s1)) (close_ids e ids))"

definition session_destroy :: "('cc, 'addr, 's) session_env \<Rightarrow> ('cc, 'z) session_scheme \<Rightarrow> 's \<Rightarrow> 's res" where
  "session_destroy e sess s =
    (if \<not> sessionManager sess then Inl Assertion
     else close_ids e (sorted_list_of_set (sessionConnections sess)) s)"

text \<open>
  While \<^verbatim>\<open>close ()\<close> waits for its condition other threads report connections. Each report says
  whether it ends the wait; neither \<^verbatim>\<open>connect (id)\<close> nor \<^verbatim>\<open>disconnect (id)\<close> signals the condition. A wait
  may also end by itself (\<open>Woken\<close>: a spurious wake-up or a failure, which is logged). \<open>None\<close>: still
  asleep after all reports.
\<close>

datatype report = Connected u32 | Disconnected u32 | Woken

fun run_report :: "report \<Rightarrow> ('cc, 'z) session_scheme \<Rightarrow> (('cc, 'z) session_scheme \<times> bool) res" where
  "run_report (Connected i) sess = bind_res (session_connect_id i sess) (\<lambda>sess'. Inr (sess', False))"
| "run_report (Disconnected i) sess = Inr (session_disconnect_id i sess, False)"
| "run_report Woken sess = Inr (sess, True)"

fun condition_wait :: "report list \<Rightarrow> ('cc, 'z) session_scheme \<Rightarrow> ('cc, 'z) session_scheme res option" where
  "condition_wait [] sess = None"
| "condition_wait (r # rs) sess =
    (case run_report r sess of
       Inl e \<Rightarrow> Some (Inl e)
     | Inr (sess', signalled) \<Rightarrow> if signalled then Some (Inr sess') else condition_wait rs sess')"

definition session_close :: "('cc, 'addr, 's) session_env \<Rightarrow> bool \<Rightarrow> report list \<Rightarrow> ('cc, 'z) session_scheme \<Rightarrow> 's
    \<Rightarrow> (('cc, 'z) session_scheme \<times> 's) res option" where
  "session_close e waitForCompletion reports sess s =
    (if \<not> sessionManager sess then Some (Inl Assertion)
     else case close_ids e (sorted_list_of_set (sessionConnections sess)) s of
       Inl f \<Rightarrow> Some (Inl f)
     | Inr s' \<Rightarrow>
         if \<not> waitForCompletion then Some (Inr (sess, s'))
         else (case condition_wait reports sess of
           None \<Rightarrow> None
         | Some (Inl f) \<Rightarrow> Some (Inl f)
         | Some (Inr sess') \<Rightarrow>
             if sessionConnections sess' = {} then Some (Inr (sess', s')) else Some (Inl Assertion)))"

section \<open>What a session relies on\<close>

text \<open>
  \<open>holds own s\<close>: besides the manager, the program holds \<open>own c\<close> references to each connection \<open>c\<close>.
  A lookup hands out one reference, and a reference that is held can be given back. \<open>lawful\<close> is
  what the provider needs for that.
\<close>

locale connection_lookup =
  fixes lawful :: bool
    and holds :: "(conn \<Rightarrow> nat) \<Rightarrow> 's \<Rightarrow> bool"
    and look :: "'k \<Rightarrow> 's \<Rightarrow> (conn option \<times> 's) res"
    and give_back :: "conn \<Rightarrow> 's \<Rightarrow> 's res"
  assumes look_some: "lawful \<Longrightarrow> holds own s \<Longrightarrow> look k s = Inr (Some c, s')
      \<Longrightarrow> holds (own(c := Suc (own c))) s'"
    and look_none: "look k s = Inr (None, s') \<Longrightarrow> s' = s"
    and give_back_held: "lawful \<Longrightarrow> holds own s \<Longrightarrow> 0 < own c
      \<Longrightarrow> \<exists>s'. give_back c s = Inr s' \<and> holds (own(c := own c - 1)) s'"
begin

text \<open>Using a connection that was looked up, in any way that leaves the references alone, and giving it back.\<close>

lemma visit:
  assumes "lawful" "holds own s" "look k s = Inr (Some c, s1)"
    and "\<And>own s. holds own s \<Longrightarrow> holds own (f s)"
  shows "\<exists>s2. give_back c (f s1) = Inr s2 \<and> holds own s2"
proof -
  have "holds (own(c := Suc (own c))) (f s1)"
    using assms look_some by blast
  from give_back_held [OF assms(1) this, of c] show ?thesis by simp
qed

end

section \<open>The manager as a provider of connections\<close>

definition manager_release :: "('h, 'addr) conn_ops \<Rightarrow> conn \<Rightarrow> ('cfg, 'ud, 'time, 'h) manager
    \<Rightarrow> ('cfg, 'ud, 'time, 'h) manager res" where
  "manager_release ops c m =
    (case decrease ops c (objects m) of None \<Rightarrow> Inl Uncaught | Some h \<Rightarrow> Inr (m\<lparr>objects := h\<rparr>))"

lemma balanced_hand_out:
  assumes "counting ops refs" "balanced refs own m" "hand_out ops p m = Inr (Some c, m')"
  shows "balanced refs (own(c := Suc (own c))) m'"
proof -
  from hand_out_Some [OF assms(3)] obtain h where
    h: "increase ops c (objects m) = Some h" "m' = m\<lparr>objects := h\<rparr>" by blast
  moreover from assms(1) h(1) have "refs h = (refs (objects m))(c := Suc (refs (objects m) c))"
    using counting_increase [of ops refs c "objects m"] by (metis option.inject)
  ultimately show ?thesis using assms(2) by (auto simp: balanced_def)
qed

lemma hand_out_None: "hand_out ops p m = Inr (None, m') \<Longrightarrow> m' = m"
  by (auto simp: hand_out_def split: option.splits)

lemma balanced_release:
  assumes "counting ops refs" "balanced refs own m" "0 < own c"
  shows "\<exists>m'. manager_release ops c m = Inr m' \<and> balanced refs (own(c := own c - 1)) m'"
proof -
  have "0 < refs (objects m) c" using assms(2,3) by (simp add: balanced_def)
  then obtain h where "decrease ops c (objects m) = Some h"
    "refs h = (refs (objects m))(c := refs (objects m) c - 1)"
    using counting_decrease [OF assms(1)] by metis
  with assms show ?thesis by (auto simp: manager_release_def balanced_def)
qed

interpretation by_id: connection_lookup "counting ops refs" "balanced refs"
  "get_by_id ops :: u32 \<Rightarrow> ('cfg, 'ud, 'time, 'h) manager \<Rightarrow> _" "manager_release ops"
  for ops :: "('h, 'addr) conn_ops" and refs :: "'h \<Rightarrow> conn \<Rightarrow> nat"
proof unfold_locales
  show "balanced refs (own(c := Suc (own c))) s'"
    if "counting ops refs" "balanced refs own s" "get_by_id ops k s = Inr (Some c, s')" for own s k c s'
    using that balanced_hand_out by (auto simp: get_by_id_def get_by_handle_def split: if_splits)
  show "s' = s" if "get_by_id ops k s = Inr (None, s')" for k s s'
    using that hand_out_None by (auto simp: get_by_id_def get_by_handle_def split: if_splits)
  show "\<exists>s'. manager_release ops c s = Inr s' \<and> balanced refs (own(c := own c - 1)) s'"
    if "counting ops refs" "balanced refs own s" "0 < own c" for own s c
    using that by (rule balanced_release)
qed

interpretation by_address: connection_lookup "counting ops refs" "balanced refs"
  "\<lambda>address. get_by_address ops address is_peer :: ('cfg, 'ud, 'time, 'h) manager \<Rightarrow> _" "manager_release ops"
  for ops :: "('h, 'addr) conn_ops" and refs :: "'h \<Rightarrow> conn \<Rightarrow> nat" and is_peer :: bool
proof unfold_locales
  show "balanced refs (own(c := Suc (own c))) s'"
    if "counting ops refs" "balanced refs own s" "get_by_address ops k is_peer s = Inr (Some c, s')" for own s k c s'
    using that balanced_hand_out by (auto simp: get_by_address_def)
  show "s' = s" if "get_by_address ops k is_peer s = Inr (None, s')" for k s s'
    using that hand_out_None by (auto simp: get_by_address_def)
  show "\<exists>s'. manager_release ops c s = Inr s' \<and> balanced refs (own(c := own c - 1)) s'"
    if "counting ops refs" "balanced refs own s" "0 < own c" for own s c
    using that by (rule balanced_release)
qed

text \<open>A session on the manager.\<close>

definition on_manager :: "('h, 'addr) conn_ops
    \<Rightarrow> ('cc, 'addr, ('cfg, 'ud, 'time, 'h) manager) session_env
    \<Rightarrow> ('cc, 'addr, ('cfg, 'ud, 'time, 'h) manager) session_env" where
  "on_manager ops e = e\<lparr>look_id := get_by_id ops, look_address := (\<lambda>a. get_by_address ops a True),
     release := manager_release ops\<rparr>"

section \<open>References\<close>

text \<open>The rest of the program keeps the references that are not its own.\<close>

definition orderly :: "('h \<Rightarrow> conn \<Rightarrow> nat)
    \<Rightarrow> ('cc, 'addr, ('cfg, 'ud, 'time, 'h) manager) session_env \<Rightarrow> bool" where
  "orderly refs e \<longleftrightarrow> (\<forall>c. keeps refs (close_conn e c)) \<and> (\<forall>c. keeps refs (wait_running e c))
     \<and> (\<forall>cc. keeps refs (\<lambda>m. snd (connector_initialize e cc m)))
     \<and> (\<forall>a. keeps refs (\<lambda>m. snd (connector_connect e a m)))"

lemma wait_status_balanced:
  "\<forall>f \<in> set fs. keeps refs f \<Longrightarrow> balanced refs own m \<Longrightarrow> balanced refs own (snd (wait_status e c fs m))"
  by (induction fs arbitrary: m) (auto dest: keepsD)

lemma hand_out_total: "counting ops refs \<Longrightarrow> \<exists>q m'. hand_out ops p m = Inr (q, m')"
proof (cases p)
  case (Some c)
  assume "counting ops refs"
  then obtain h where "increase ops c (objects m) = Some h" by (rule counting_increase)
  with Some show ?thesis by (simp add: hand_out_def)
qed (simp add: hand_out_def)

lemma look_balanced:
  assumes "counting ops refs" "balanced refs own m"
  obtains p m' where "get_by_address ops a True m = Inr (p, m')"
    "balanced refs (case p of None \<Rightarrow> own | Some c \<Rightarrow> own(c := Suc (own c))) m'" "p = None \<Longrightarrow> m' = m"
proof -
  obtain p m' where look: "get_by_address ops a True m = Inr (p, m')"
    using hand_out_total [OF assms(1)] unfolding get_by_address_def by blast
  with that by_address.look_some [OF assms, of a True _ m'] by_address.look_none [of ops a True m m'] assms(2)
  show ?thesis by (cases p) auto
qed

lemma poll_balanced:
  assumes "counting ops refs" "balanced refs own m" "\<forall>f \<in> set fs. keeps refs f"
  shows "\<exists>p m'. poll_address (on_manager ops e) a fs m = Inr (p, m')
    \<and> balanced refs (case p of None \<Rightarrow> own | Some c \<Rightarrow> own(c := Suc (own c))) m'"
  using assms(2,3)
proof (induction fs arbitrary: m)
  case Nil
  then show ?case
    using look_balanced [OF assms(1) Nil(1), of a] by (fastforce simp: on_manager_def)
next
  case (Cons f fs)
  obtain p m1 where look: "get_by_address ops a True m = Inr (p, m1)"
    "balanced refs (case p of None \<Rightarrow> own | Some c \<Rightarrow> own(c := Suc (own c))) m1" "p = None \<Longrightarrow> m1 = m"
    using look_balanced [OF assms(1) Cons.prems(1), of a] by blast
  show ?case
  proof (cases p)
    case (Some c)
    with look show ?thesis by (simp add: on_manager_def)
  next
    case None
    with look Cons.IH [of "f m"] Cons.prems show ?thesis
      by (auto simp: on_manager_def dest: keepsD)
  qed
qed

lemma get_by_id_valid:
  "counting ops refs \<Longrightarrow> i \<noteq> ACE_INVALID_HANDLE \<Longrightarrow> \<exists>p m'. get_by_id ops i m = Inr (p, m')"
  using hand_out_total by (simp add: get_by_handle_def get_by_id_def)

text \<open>The lookup of a new connection, by address when events are dispatched by the proactor, by handle otherwise.\<close>

lemma connected_balanced:
  assumes "counting ops refs" "balanced refs own m" "\<forall>f \<in> set polls. keeps refs f" "handle \<noteq> ACE_INVALID_HANDLE"
  shows "\<exists>p m'. (if asynch then poll_address (on_manager ops e) address polls m else get_by_id ops handle m) = Inr (p, m')
    \<and> balanced refs (case p of None \<Rightarrow> own | Some c \<Rightarrow> own(c := Suc (own c))) m'"
proof (cases asynch)
  case True
  with poll_balanced [OF assms(1-3), of e address] show ?thesis by auto
next
  case False
  obtain p m' where look: "get_by_id ops handle m = Inr (p, m')"
    using get_by_id_valid [OF assms(1)] assms(4) by blast
  with False by_id.look_some [OF assms(1,2), of handle _ m'] by_id.look_none [of ops handle m m'] assms(2)
  show ?thesis by (cases p) auto
qed

text \<open>What becomes of a connection that was found: it is waited for, or closed, and its reference given back.\<close>

lemma found_balanced:
  assumes "counting ops refs" "orderly refs e" "\<forall>f \<in> set waits. keeps refs f"
    and "balanced refs (own(c := Suc (own c))) m" "wait_status (on_manager ops e) c waits m = (ready, m1)"
  shows "\<exists>m'. manager_release ops c (if ready \<and> is_stream e c then wait_running e c m1 else close_conn e c m1) = Inr m'
    \<and> balanced refs own m'"
proof -
  let ?own = "own(c := Suc (own c))"
  have "balanced refs ?own m1"
    using wait_status_balanced [OF assms(3,4), of "on_manager ops e" c] assms(5) by simp
  then have "balanced refs ?own (if ready \<and> is_stream e c then wait_running e c m1 else close_conn e c m1)"
    using assms(2) by (auto simp: orderly_def dest: keepsD)
  from balanced_release [OF assms(1) this, of c] show ?thesis by auto
qed

text \<open>C4: Connecting leaks no reference: whatever happens - the connector fails, the connection is not found, it
  does not come up before the deadline, it is not a stream connection, or all is well - a session
  that has a configuration and a manager gives back the reference that its lookup handed out, and nothing else changes
  the number of references anybody holds.\<close>

theorem session_connect_references:
  assumes "counting ops refs" "orderly refs e" "\<forall>f \<in> set polls. keeps refs f" "\<forall>f \<in> set waits. keeps refs f"
    and "balanced refs own m" "sessionConnectionConfiguration sess = Some cc" "sessionManager sess"
  shows "\<exists>m'. session_connect (on_manager ops e) polls waits sess address m = Inr m' \<and> balanced refs own m'"
proof -
  obtain ok m1 where init: "connector_initialize e cc m = (ok, m1)" by fastforce
  then have b1: "balanced refs own m1"
    using assms(2,5) keepsD [of refs "\<lambda>m. snd (connector_initialize e cc m)" own m] by (simp add: orderly_def)
  obtain handle m2 where conn: "connector_connect e address m1 = (handle, m2)" by fastforce
  then have b2: "balanced refs own m2"
    using assms(2) b1 keepsD [of refs "\<lambda>m. snd (connector_connect e address m)" own m1] by (simp add: orderly_def)
  show ?thesis
  proof (cases "ok \<and> handle \<noteq> ACE_INVALID_HANDLE")
    case False
    with init conn b1 b2 assms(6,7) show ?thesis by (auto simp: session_connect_def on_manager_def)
  next
    case True
    obtain p m3 where look: "(if isAsynch sess then poll_address (on_manager ops e) address polls m2
        else get_by_id ops handle m2) = Inr (p, m3)"
      and b3: "balanced refs (case p of None \<Rightarrow> own | Some c \<Rightarrow> own(c := Suc (own c))) m3"
      using connected_balanced [OF assms(1) b2 assms(3), of handle] True by blast
    show ?thesis
    proof (cases p)
      case None
      with look b3 init conn True assms(6,7) show ?thesis
        by (auto simp: session_connect_def on_manager_def)
    next
      case (Some c)
      obtain ready m4 where wait: "wait_status (on_manager ops e) c waits m3 = (ready, m4)" by fastforce
      from b3 Some have "balanced refs (own(c := Suc (own c))) m3" by simp
      from found_balanced [OF assms(1,2,4) this wait] obtain m6 where
        "manager_release ops c (if ready \<and> is_stream e c then wait_running e c m4 else close_conn e c m4) = Inr m6"
        "balanced refs own m6" by auto
      then show ?thesis
        using look init conn True assms(6,7) Some wait
        by (auto simp: session_connect_def on_manager_def)
    qed
  qed
qed

section \<open>Closing a session\<close>

lemma looked_up_keeps:
  assumes "counting ops refs" "shutting ops refs closed shut" "get_by_id ops i m = Inr (Some c, m1)"
  shows "connections m1 = connections m" "conn_id ops (objects m1) = conn_id ops (objects m)"
    "closed (objects m1) = closed (objects m)"
proof -
  from assms(3) obtain h where h: "increase ops c (objects m) = Some h" "m1 = m\<lparr>objects := h\<rparr>"
    by (auto simp: get_by_id_def get_by_handle_def split: if_splits dest!: hand_out_Some)
  moreover have "conn_id ops h = conn_id ops (objects m)"
    using counting_increase [OF assms(1), of c "objects m"] h(1) by (metis option.inject)
  ultimately show "connections m1 = connections m" "conn_id ops (objects m1) = conn_id ops (objects m)"
    "closed (objects m1) = closed (objects m)"
    using shutting_closed(1) [OF assms(2) h(1)] by simp_all
qed

text \<open>
  Telling the connection that the lookup of an id returned to close, while no other thread deregisters any.
\<close>

lemma close_looked_up:
  assumes "counting ops refs" "shutting ops refs closed shut" "close_conn e = shut_close ops shut (\<lambda>_ _. [])"
    and "balanced refs own m" and look: "get_by_id ops i m = Inr (Some c, m1)"
  shows "\<exists>m'. close_ids (on_manager ops e) (i # ids) m = close_ids (on_manager ops e) ids m'
    \<and> balanced refs own m' \<and> connections m' = connections m
    \<and> conn_id ops (objects m') = conn_id ops (objects m) \<and> closed (objects m') = closed (objects m) @ [c]"
proof -
  let ?own = "own(c := Suc (own c))" and ?m2 = "m1\<lparr>objects := shut c (objects m1)\<rparr>"
  note m1 = looked_up_keeps [OF assms(1,2) look]
  have "balanced refs ?own m1" by (rule by_id.look_some [OF assms(1,4) look])
  then have b2: "balanced refs ?own ?m2" using assms(2) by (simp add: balanced_def shutting_def)
  then have "0 < refs (objects ?m2) c" by (simp add: balanced_def)
  then obtain h3 where h3: "decrease ops c (objects ?m2) = Some h3" "conn_id ops h3 = conn_id ops (objects ?m2)"
    using counting_decrease [OF assms(1)] by metis
  let ?m3 = "?m2\<lparr>objects := h3\<rparr>"
  have rel: "manager_release ops c ?m2 = Inr ?m3" using h3 by (simp add: manager_release_def)
  have b3: "balanced refs own ?m3"
    using balanced_release [OF assms(1) b2, of c] rel by simp
  have run: "close_ids (on_manager ops e) (i # ids) m = close_ids (on_manager ops e) ids ?m3"
    using look rel assms(3) by (simp add: on_manager_def shut_close_def)
  have "closed h3 = closed (objects m) @ [c]"
    using shutting_closed(2) [OF assms(2) h3(1)] assms(2) m1(3) by (simp add: shutting_def)
  moreover have "conn_id ops h3 = conn_id ops (objects m)"
    using h3(2) assms(2) m1(2) by (simp add: shutting_def)
  ultimately show ?thesis
    using run b3 m1(1) by (intro exI [of _ ?m3]) simp
qed

lemma listed_id_found:
  assumes "counting ops refs" "c \<in> set (connections m)" "conn_id ops (objects m) c \<noteq> ACE_INVALID_HANDLE"
    and "inj_on (conn_id ops (objects m)) (set (connections m))"
  shows "\<exists>m1. get_by_id ops (conn_id ops (objects m) c) m = Inr (Some c, m1)"
proof -
  have "find (\<lambda>d. conn_id ops (objects m) d = conn_id ops (objects m) c) (connections m) = Some c"
    by (rule find_unique [of c _ "\<lambda>d. conn_id ops (objects m) d = conn_id ops (objects m) c"])
      (use assms(2,4) in \<open>auto dest: inj_onD\<close>)
  moreover obtain h where "increase ops c (objects m) = Some h"
    using counting_increase [OF assms(1)] by metis
  ultimately show ?thesis
    using assms(3) by (simp add: get_by_id_def get_by_handle_def scan_find hand_out_def)
qed

lemma close_ids_closes:
  assumes "counting ops refs" "shutting ops refs closed shut" "close_conn e = shut_close ops shut (\<lambda>_ _. [])"
    and "balanced refs own m" "inj_on (conn_id ops (objects m)) (set (connections m))"
    and "set cs \<subseteq> set (connections m)" "ACE_INVALID_HANDLE \<notin> conn_id ops (objects m) ` set cs"
  shows "\<exists>m'. close_ids (on_manager ops e) (map (conn_id ops (objects m)) cs) m = Inr m'
    \<and> balanced refs own m' \<and> connections m' = connections m \<and> closed (objects m') = closed (objects m) @ cs"
  using assms(4-7)
proof (induction cs arbitrary: m)
  case (Cons c cs)
  let ?id = "conn_id ops (objects m)"
  have "\<exists>m1. get_by_id ops (?id c) m = Inr (Some c, m1)"
    by (rule listed_id_found [OF assms(1)]) (use Cons.prems in auto)
  then obtain m0 where "get_by_id ops (?id c) m = Inr (Some c, m0)" ..
  from close_looked_up [OF assms(1-3) Cons.prems(1) this, of "map ?id cs"] obtain m1 where
    m1: "close_ids (on_manager ops e) (map ?id (c # cs)) m = close_ids (on_manager ops e) (map ?id cs) m1"
    "balanced refs own m1" "connections m1 = connections m" "conn_id ops (objects m1) = ?id"
    "closed (objects m1) = closed (objects m) @ [c]" by auto
  with Cons.IH [OF m1(2)] Cons.prems(2-4) show ?case by auto
qed simp

text \<open>C3: Closing a session tells exactly its own connections to close, once each, when the session has
  a manager that lists all the (valid, distinct) ids that the session holds and no connection deregisters while close () runs. A close () that
  does not wait returns with the list of the manager and all references as they were: the
  connections leave the list later, when their handlers are closed.\<close>

theorem session_close_closes:
  assumes "counting ops refs" "shutting ops refs closed shut" "close_conn e = shut_close ops shut (\<lambda>_ _. [])"
    and "sessionManager sess" "finite (sessionConnections sess)"
    and "ACE_INVALID_HANDLE \<notin> sessionConnections sess" "balanced refs own m"
    and "inj_on (conn_id ops (objects m)) (set (connections m))"
    and "sessionConnections sess \<subseteq> conn_id ops (objects m) ` set (connections m)"
  shows "\<exists>m' cs. session_close (on_manager ops e) False reports sess m = Some (Inr (sess, m'))
    \<and> closed (objects m') = closed (objects m) @ cs \<and> distinct cs
    \<and> set cs = {c \<in> set (connections m). conn_id ops (objects m) c \<in> sessionConnections sess}
    \<and> connections m' = connections m \<and> balanced refs own m'"
proof -
  let ?id = "conn_id ops (objects m)" and ?ids = "sorted_list_of_set (sessionConnections sess)"
  let ?cs = "map (inv_into (set (connections m)) ?id) ?ids"
  have inv: "?id (inv_into (set (connections m)) ?id i) = i"
    "inv_into (set (connections m)) ?id i \<in> set (connections m)" if "i \<in> sessionConnections sess" for i
    using that assms(9) f_inv_into_f [of i ?id] inv_into_into [of i ?id] by blast+
  from inv(1) have ids: "map ?id ?cs = ?ids" using assms(5) by (auto intro: map_idI)
  have "distinct (map ?id ?cs)" unfolding ids using assms(5) by simp
  then have "distinct ?cs" by (rule distinct_map [THEN iffD1, THEN conjunct1])
  moreover have cs: "set ?cs = {c \<in> set (connections m). ?id c \<in> sessionConnections sess}"
    using inv assms(5,8) by (force dest: inj_onD)
  moreover have "\<exists>m'. close_ids (on_manager ops e) (map ?id ?cs) m = Inr m'
      \<and> balanced refs own m' \<and> connections m' = connections m \<and> closed (objects m') = closed (objects m) @ ?cs"
    by (rule close_ids_closes [OF assms(1-3,7,8)]) (use cs assms(6) in auto)
  ultimately show ?thesis
    unfolding ids using assms(4) by (auto simp: session_close_def)
qed

text \<open>A stale id closes a stranger: when the id a session holds belongs to no listed connection any more (and
  next () leaves its argument alone at the end of the list), closing the session tells the
  connection that was registered last to close, whoever owns it.\<close>

theorem session_close_stranger:
  assumes "counting ops refs" "shutting ops refs closed shut" "close_conn e = shut_close ops shut (\<lambda>_ _. [])"
    and "next_at_end ops = id" "sessionManager sess"
    and "sessionConnections sess = {i}" "i \<noteq> ACE_INVALID_HANDLE" "balanced refs own m"
    and "\<forall>d \<in> set (connections m). conn_id ops (objects m) d \<noteq> i" "connections m \<noteq> []"
  shows "\<exists>m'. session_close (on_manager ops e) False reports sess m = Some (Inr (sess, m'))
    \<and> closed (objects m') = closed (objects m) @ [last (connections m)]"
proof -
  have "find (\<lambda>d. conn_id ops (objects m) d = i) (connections m) = None"
    using assms(9) by (simp add: find_None_iff)
  moreover obtain h where "increase ops (last (connections m)) (objects m) = Some h"
    using counting_increase [OF assms(1)] by metis
  ultimately have "get_by_id ops i m = Inr (Some (last (connections m)), m\<lparr>objects := h\<rparr>)"
    using assms(4,7,10) by (simp add: get_by_id_def get_by_handle_def scan_find hand_out_def)
  from close_looked_up [OF assms(1-3,8) this, of "[]"] show ?thesis
    using assms(5,6) by (auto simp: session_close_def)
qed

section \<open>Waiting for the close\<close>

text \<open>Neither report signals the condition.\<close>

lemma condition_wait_asleep: "Woken \<notin> set reports \<Longrightarrow> condition_wait reports sess \<noteq> Some (Inr sess')"
proof (induction reports arbitrary: sess)
  case (Cons r rs)
  then show ?case
    by (cases r) (auto simp: bind_res_def session_connect_id_def split: sum.splits)
qed simp

text \<open>Nothing wakes close (true): no thread signals the condition it waits for, not even the
  disconnect () of the last connection, so whatever connections are reported while it waits, it
  does not return unless the wait ends by itself.\<close>

theorem session_close_never:
  assumes "Woken \<notin> set reports"
  shows "session_close e True reports sess s \<noteq> Some (Inr r)"
  using condition_wait_asleep [OF assms]
  by (auto simp: session_close_def split: sum.splits option.splits)

section \<open>An example\<close>

definition two_connections :: "(unit, unit, nat, (conn \<Rightarrow> nat) \<times> (conn \<Rightarrow> u32)) manager" where
  "two_connections = (registry demo_world)\<lparr>connections := [3, 7],
     objects := (\<lambda>c. if c = 3 \<or> c = 7 then 1 else 0, of_nat)\<rparr>"

definition quiet_env :: "(unit, u32, (unit, unit, nat, (conn \<Rightarrow> nat) \<times> (conn \<Rightarrow> u32)) manager) session_env" where
  "quiet_env = \<lparr>look_id = \<lambda>_ s. Inr (None, s), look_address = \<lambda>_ s. Inr (None, s), release = \<lambda>_ s. Inr s,
     close_conn = \<lambda>_ s. s, status_ok = \<lambda>_ _. True, is_stream = \<lambda>_. True,
     wait_running = \<lambda>_ s. s, connector_initialize = \<lambda>_ s. (True, s), connector_connect = \<lambda>a s. (a, s)\<rparr>"

definition demo_session :: "u32 set \<Rightarrow> unit session" where
  "demo_session ids = (snd (session_initialize \<lparr>connectionConfiguration = Some (), connectionManager = True,
     dispatchProactor = False\<rparr> new_session))\<lparr>sessionConnections := ids\<rparr>"

lemma two_connections_balanced: "balanced fst (\<lambda>_. 0) two_connections"
  by (auto simp: balanced_def two_connections_def)

lemma two_connections_simps:
  "connections two_connections = [3, 7]" "conn_id (counter_ops id) (objects two_connections) = of_nat"
  "fst (objects two_connections) = (\<lambda>c. if c = 3 \<or> c = 7 then 1 else 0)"
  by (simp_all add: two_connections_def counter_ops_def)

lemma demo_session_simps:
  "sessionManager (demo_session ids)" "sessionConnections (demo_session ids) = ids"
  "sessionConnectionConfiguration (demo_session ids) = Some ()"
  by (simp_all add: demo_session_def session_initialize_def new_session_def)

lemma keeps_id: "keeps refs (\<lambda>m. m)"
  by (simp add: keeps_def)

lemma quiet_env_orderly: "orderly fst quiet_env"
  by (simp add: orderly_def quiet_env_def keeps_id)

theorem session_connect_references_witness:
  "\<exists>m'. session_connect (on_manager (counter_ops id) quiet_env) [] [\<lambda>m. m] (demo_session {}) 7 two_connections
      = Inr m' \<and> balanced fst (\<lambda>_. 0) m'"
  by (rule session_connect_references [OF counter_ops_counting quiet_env_orderly _ _ two_connections_balanced])
    (simp_all add: keeps_id demo_session_simps)

text \<open>The same environment on the heap with a log of the calls of \<^verbatim>\<open>close ()\<close>.\<close>

definition log_env :: "(unit, u32, (unit, unit, nat, ((conn \<Rightarrow> nat) \<times> (conn \<Rightarrow> u32)) \<times> conn list) manager) session_env" where
  "log_env = \<lparr>look_id = \<lambda>_ s. Inr (None, s), look_address = \<lambda>_ s. Inr (None, s), release = \<lambda>_ s. Inr s,
     close_conn = shut_close log_ops log_shut (\<lambda>_ _. []), status_ok = \<lambda>_ _. True, is_stream = \<lambda>_. True,
     wait_running = \<lambda>_ s. s, connector_initialize = \<lambda>_ s. (True, s), connector_connect = \<lambda>a s. (a, s)\<rparr>"

lemma log_env_close: "close_conn log_env = shut_close log_ops log_shut (\<lambda>_ _. [])"
  by (simp add: log_env_def)

theorem session_close_closes_witness:
  "\<exists>m'. session_close (on_manager log_ops log_env) False [] (demo_session {7}) (log_manager [3, 7])
      = Some (Inr (demo_session {7}, m')) \<and> connections m' = [3, 7] \<and> set (snd (objects m')) = {7}"
proof -
  have "finite (sessionConnections (demo_session {7}))"
    "ACE_INVALID_HANDLE \<notin> sessionConnections (demo_session {7})"
    "balanced (\<lambda>h. fst (fst h)) (\<lambda>_. 0) (log_manager [3, 7])"
    "inj_on (conn_id log_ops (objects (log_manager [3, 7]))) (set (connections (log_manager [3, 7])))"
    "sessionConnections (demo_session {7})
      \<subseteq> conn_id log_ops (objects (log_manager [3, 7])) ` set (connections (log_manager [3, 7]))"
    by (simp_all add: demo_session_simps log_manager_simps log_manager_balanced ACE_INVALID_HANDLE_def)
  from session_close_closes [OF log_ops_laws(1,2) log_env_close demo_session_simps(1) this, of "[]"]
  show ?thesis by (fastforce simp: log_manager_simps demo_session_simps)
qed

theorem session_close_stranger_witness:
  "\<exists>m'. session_close (on_manager log_ops log_env) False [] (demo_session {5}) (log_manager [3, 7])
      = Some (Inr (demo_session {5}, m')) \<and> snd (objects m') = [7]"
proof -
  have "(5::u32) \<noteq> ACE_INVALID_HANDLE" "balanced (\<lambda>h. fst (fst h)) (\<lambda>_. 0) (log_manager [3, 7])"
    "\<forall>d \<in> set (connections (log_manager [3, 7])). conn_id log_ops (objects (log_manager [3, 7])) d \<noteq> 5"
    "connections (log_manager [3, 7]) \<noteq> []"
    by (simp_all add: log_manager_simps log_manager_balanced ACE_INVALID_HANDLE_def)
  from session_close_stranger [OF log_ops_laws(1,2) log_env_close log_manager_simps(4)
      demo_session_simps(1,2) this, of "[]"]
  show ?thesis by (simp add: log_manager_simps)
qed

theorem session_close_never_witness:
  "session_close (on_manager (counter_ops id) quiet_env) True [Disconnected 7] (demo_session {7}) two_connections
    \<noteq> Some (Inr (demo_session {}, two_connections))"
  by (rule session_close_never) simp

end
