(* ===== verification/Net_Octets.thy ===== *)
theory Net_Octets
  imports Net_Prelude
begin

text \<open>
  The octets of machine integers in network byte order, and the bytes of strings: a \<^verbatim>\<open>std::string\<close>
  is a list of \<open>char\<close>, each of which is a byte; its C string has a NUL behind them.
\<close>

section \<open>Octets\<close>

text \<open>The \<open>n\<close> octets of a machine integer, the most significant one first, and their value.\<close>

primrec octets :: "nat \<Rightarrow> 'w::len word \<Rightarrow> u8 list" where
  "octets 0 w = []"
| "octets (Suc n) w = octets n (drop_bit 8 w) @ [ucast w]"

definition octets_value :: "u8 list \<Rightarrow> nat" where
  "octets_value = foldl (\<lambda>v b. v * 256 + unat b) 0"

lemma octets_value_snoc [simp]:
  "octets_value [] = 0" "octets_value (bs @ [b]) = octets_value bs * 256 + unat b"
  by (simp_all add: octets_value_def)

lemma length_octets [simp]: "length (octets n w) = n"
  by (induction n arbitrary: w) auto

lemma octets_value_bound: "octets_value bs < 256 ^ length bs"
proof (induction bs rule: rev_induct)
  case (snoc b bs)
  have "unat b < 256" using unsigned_less [of b, where ?'a = nat] by simp
  with snoc show ?case by simp
qed simp

lemma unat_drop_8: "unat (drop_bit 8 w) = unat w div 256" for w :: "'w::len word"
  by (simp only: unat_drop_bit_eq) (simp add: drop_bit_eq_div)

lemma unat_of_small: "n < 2 ^ LENGTH('w) \<Longrightarrow> unat (word_of_nat n :: 'w::len word) = n"
  by (simp add: unsigned_of_nat take_bit_nat_eq_self)

lemma octets_value_octets: "octets_value (octets n w) = unat w mod 256 ^ n"
proof (induction n arbitrary: w)
  case (Suc n)
  have "unat (drop_bit 8 w) = unat w div 256"
    by (rule unat_drop_8)
  moreover have "unat (ucast w :: u8) = unat w mod 256"
    by (simp add: unsigned_ucast_eq take_bit_eq_mod)
  ultimately show ?case
    using Suc mod_mult2_eq [of "unat w" 256 "256 ^ n"] by (simp add: ac_simps)
qed simp

lemma octets_inverse: "LENGTH('w) \<le> 8 * n \<Longrightarrow> word_of_nat (octets_value (octets n w)) = (w :: 'w::len word)"
proof -
  assume "LENGTH('w) \<le> 8 * n"
  then have "(2::nat) ^ LENGTH('w) \<le> 2 ^ (8 * n)" by (intro power_increasing) simp_all
  also have "\<dots> = 256 ^ n" by (simp add: power_mult)
  finally have "unat w < 256 ^ n"
    using unsigned_less [of w, where ?'a = nat] by linarith
  then show ?thesis by (simp add: octets_value_octets)
qed

lemma octets_of_value:
  "8 * length bs \<le> LENGTH('w) \<Longrightarrow> octets (length bs) (word_of_nat (octets_value bs) :: 'w::len word) = bs"
proof (induction bs rule: rev_induct)
  case (snoc b bs)
  let ?v = "octets_value bs * 256 + unat b"
  have b: "unat b < 256" using unsigned_less [of b, where ?'a = nat] by simp
  have "?v < 256 ^ length (bs @ [b])"
    using octets_value_bound [of "bs @ [b]"] by simp
  also have "\<dots> = 2 ^ (8 * length (bs @ [b]))" by (simp only: power_mult) simp
  also have "\<dots> \<le> 2 ^ LENGTH('w)" using snoc.prems by (intro power_increasing) simp_all
  finally have v: "?v < 2 ^ LENGTH('w)" .
  then have uv: "unat (word_of_nat ?v :: 'w word) = ?v"
    by (rule unat_of_small)
  have "unat (drop_bit 8 (word_of_nat ?v :: 'w word)) = ?v div 256"
    using uv unat_drop_8 [of "word_of_nat ?v :: 'w word"] by metis
  also have "\<dots> = octets_value bs" using b by simp
  finally have "drop_bit 8 (word_of_nat ?v :: 'w word) = word_of_nat (octets_value bs)"
    by (metis of_nat_unat ucast_id)
  moreover have "unat (ucast (word_of_nat ?v :: 'w word) :: u8) = unat b"
    using uv b by (simp add: unsigned_ucast_eq take_bit_eq_mod)
  then have "(ucast (word_of_nat ?v :: 'w word) :: u8) = b" by (simp only: word_unat_eq_iff)
  ultimately show ?case using snoc by simp
qed simp

section \<open>Strings as bytes\<close>

definition byte_of :: "char \<Rightarrow> u8" where
  "byte_of c = word_of_nat (of_char c)"

definition bytes_of :: "string \<Rightarrow> u8 list" where
  "bytes_of = map byte_of"

lemma length_bytes_of [simp]: "length (bytes_of s) = length s"
  by (simp add: bytes_of_def)

definition string_of :: "u8 list \<Rightarrow> string" where
  "string_of = map (\<lambda>b. char_of (unat b))"

lemma unat_byte_of: "unat (byte_of c) = of_char c"
proof -
  have "of_char c < (256::nat)" by simp
  then show ?thesis unfolding byte_of_def by (intro unat_of_small) simp
qed

lemma string_of_bytes_of [simp]: "string_of (bytes_of s) = s"
  by (induction s) (simp_all add: string_of_def bytes_of_def unat_byte_of)

lemma byte_of_eq_0: "byte_of c = 0 \<longleftrightarrow> c = CHR 0x00"
proof
  assume "byte_of c = 0"
  then have "(of_char c :: nat) = of_char CHR 0x00"
    using unat_byte_of [of c] by simp
  then show "c = CHR 0x00" by (simp only: of_char_eq_iff)
qed (simp add: byte_of_def)

text \<open>
  \<open>c_bytes n s\<close>: what reading \<open>n\<close> bytes through \<^verbatim>\<open>c_str ()\<close> gives; \<open>c_string bs\<close>: the string made of
  a pointer to bytes, which ends at the first NUL.
\<close>

definition c_bytes :: "nat \<Rightarrow> string \<Rightarrow> u8 list res" where
  "c_bytes n s = (if n \<le> length s + 1 then Inr (take n (bytes_of s @ [0])) else Inl Undefined_Behaviour)"

definition c_string :: "u8 list \<Rightarrow> string" where
  "c_string bs = string_of (takeWhile (\<lambda>b. b \<noteq> 0) bs)"

lemma bytes_of_string_of [simp]: "bytes_of (string_of bs) = bs"
proof (induction bs)
  case (Cons b bs)
  have "unat b < 256" using unsigned_less [of b, where ?'a = nat] by simp
  with Cons show ?case by (simp add: bytes_of_def string_of_def byte_of_def)
qed (simp add: bytes_of_def string_of_def)

lemma length_string_of [simp]: "length (string_of bs) = length bs"
  by (simp add: string_of_def)

end
