(* ===== verification/BitTorrent_Tools.thy ===== *)
theory BitTorrent_Tools
  imports Net_Octets
begin

text \<open>
  \<^verbatim>\<open>src/src/protocol/p2p/bittorrent/bittorrent_tools.cpp\<close>: message names, info hash and length of a
  torrent, peer ids and keys, and the scrape URL of a tracker. The bencoding library and the
  digests are not part of the repository: they are parameters.
\<close>

section \<open>Message types\<close>

datatype BitTorrent_MessageType =
    BITTORRENT_MESSAGETYPE_CHOKE
  | BITTORRENT_MESSAGETYPE_UNCHOKE
  | BITTORRENT_MESSAGETYPE_INTERESTED
  | BITTORRENT_MESSAGETYPE_NOT_INTERESTED
  | BITTORRENT_MESSAGETYPE_HAVE
  | BITTORRENT_MESSAGETYPE_BITFIELD
  | BITTORRENT_MESSAGETYPE_REQUEST
  | BITTORRENT_MESSAGETYPE_PIECE
  | BITTORRENT_MESSAGETYPE_CANCEL
  | BITTORRENT_MESSAGETYPE_MAX
  | BITTORRENT_MESSAGETYPE_INVALID

fun TypeToString :: "BitTorrent_MessageType \<Rightarrow> string" where
  "TypeToString BITTORRENT_MESSAGETYPE_CHOKE = ''CHOKE''"
| "TypeToString BITTORRENT_MESSAGETYPE_UNCHOKE = ''UNCHOKE''"
| "TypeToString BITTORRENT_MESSAGETYPE_INTERESTED = ''INTERESTED''"
| "TypeToString BITTORRENT_MESSAGETYPE_NOT_INTERESTED = ''NOT INTERESTED''"
| "TypeToString BITTORRENT_MESSAGETYPE_HAVE = ''HAVE''"
| "TypeToString BITTORRENT_MESSAGETYPE_BITFIELD = ''BITFIELD''"
| "TypeToString BITTORRENT_MESSAGETYPE_REQUEST = ''REQUEST''"
| "TypeToString BITTORRENT_MESSAGETYPE_PIECE = ''PIECE''"
| "TypeToString BITTORRENT_MESSAGETYPE_CANCEL = ''CANCEL''"
| "TypeToString _ = ''INVALID/UNKNOWN''"

section \<open>Meta information\<close>

text \<open>
  An element of the bencoding library: its type tag and, for each type, the field of its union.
  A dictionary iterates over pairs of a key and an element. \<open>bencode\<close> prints a dictionary.
\<close>

datatype bencoding_type =
    BENCODING_TYPE_INTEGER | BENCODING_TYPE_STRING | BENCODING_TYPE_LIST | BENCODING_TYPE_DICTIONARY
  | BENCODING_TYPE_INVALID

type_synonym 'e Bencoding_Dictionary = "(string \<times> 'e) list"

record 'e bencoding_ops =
  element_type :: "'e \<Rightarrow> bencoding_type"
  element_integer :: "'e \<Rightarrow> int"
  element_string :: "'e \<Rightarrow> string"
  element_list :: "'e \<Rightarrow> 'e list"
  element_dictionary :: "'e \<Rightarrow> 'e Bencoding_Dictionary"
  bencode :: "'e Bencoding_Dictionary \<Rightarrow> string"

text \<open>The loop that looks for a key, which the functions repeat; and the checks of the tag behind it.\<close>

fun find_key :: "string \<Rightarrow> 'e Bencoding_Dictionary \<Rightarrow> 'e option" where
  "find_key key [] = None"
| "find_key key ((k, e) # d) = (if k = key then Some e else find_key key d)"

definition as_dictionary :: "'e bencoding_ops \<Rightarrow> 'e option \<Rightarrow> 'e Bencoding_Dictionary res" where
  "as_dictionary ops e = (case e of None \<Rightarrow> Inl Assertion
     | Some e \<Rightarrow> if element_type ops e = BENCODING_TYPE_DICTIONARY then Inr (element_dictionary ops e)
                else Inl Assertion)"

definition as_list :: "'e bencoding_ops \<Rightarrow> 'e option \<Rightarrow> 'e list res" where
  "as_list ops e = (case e of None \<Rightarrow> Inl Assertion
     | Some e \<Rightarrow> if element_type ops e = BENCODING_TYPE_LIST then Inr (element_list ops e)
                else Inl Assertion)"

definition as_string :: "'e bencoding_ops \<Rightarrow> 'e option \<Rightarrow> string res" where
  "as_string ops e = (case e of None \<Rightarrow> Inl Assertion
     | Some e \<Rightarrow> if element_type ops e = BENCODING_TYPE_STRING then Inr (element_string ops e)
                else Inl Assertion)"

text \<open>The integer is cast to \<^verbatim>\<open>unsigned int\<close>.\<close>

definition as_unsigned :: "'e bencoding_ops \<Rightarrow> 'e option \<Rightarrow> u32 res" where
  "as_unsigned ops e = (case e of None \<Rightarrow> Inl Assertion
     | Some e \<Rightarrow> if element_type ops e = BENCODING_TYPE_INTEGER then Inr (word_of_int (element_integer ops e))
                else Inl Assertion)"

text \<open>
  \<open>sha1\<close> gives the 20 bytes of the digest; they become a string through a pointer. A missing
  key gives the empty string, a key of another type fails an assertion.
\<close>

definition MetaInfoToInfoHash :: "'e bencoding_ops \<Rightarrow> (string \<Rightarrow> u8 list) \<Rightarrow> 'e Bencoding_Dictionary \<Rightarrow> string res" where
  "MetaInfoToInfoHash ops sha1 metaInfo =
    (case find_key ''info'' metaInfo of
       None \<Rightarrow> Inr []
     | Some e \<Rightarrow> bind_res (as_dictionary ops (Some e)) (\<lambda>info.
         Inr (c_string (sha1 (bencode ops info)))))"

fun files_length :: "'e bencoding_ops \<Rightarrow> 'e list \<Rightarrow> u32 \<Rightarrow> u32 res" where
  "files_length ops [] result = Inr result"
| "files_length ops (f # fs) result =
    bind_res (as_dictionary ops (Some f)) (\<lambda>d.
    bind_res (as_unsigned ops (find_key ''length'' d)) (\<lambda>l.
    files_length ops fs (result + l)))"

definition MetaInfoToLength :: "'e bencoding_ops \<Rightarrow> 'e Bencoding_Dictionary \<Rightarrow> u32 res" where
  "MetaInfoToLength ops metaInfo =
    bind_res (as_dictionary ops (find_key ''info'' metaInfo)) (\<lambda>info.
    case find_key ''length'' info of
      Some e \<Rightarrow> as_unsigned ops (Some e)
    | None \<Rightarrow> bind_res (as_list ops (find_key ''files'' info)) (\<lambda>fs. files_length ops fs 0))"

section \<open>Peer ids and keys\<close>

text \<open>\<^verbatim>\<open>std::string::resize\<close>.\<close>

definition resize :: "nat \<Rightarrow> string \<Rightarrow> string" where
  "resize n s = take n s @ replicate (n - length s) CHR 0x00"

text \<open>
  \<open>now\<close> is the time in seconds. On Windows the random part is a temporary file name (\<open>mktemp\<close>,
  empty when it fails), elsewhere the digest of the time, which replaces the result.
\<close>

definition generatePeerId :: "bool \<Rightarrow> (string \<Rightarrow> string) \<Rightarrow> (string \<Rightarrow> u8 list) \<Rightarrow> nat \<Rightarrow> string" where
  "generatePeerId on_windows mktemp sha256 now =
    (let start = ''-'' @ ''LN'' @ ''0000'' @ ''-''
     in if on_windows
        then (let name = mktemp (replicate 14 CHR ''X'')
              in if name = [] then [] else resize 20 (start @ name))
        else resize 20 (c_string (sha256 (dec now))))"

definition generateKey :: "bool \<Rightarrow> (string \<Rightarrow> string) \<Rightarrow> (string \<Rightarrow> u8 list) \<Rightarrow> nat \<Rightarrow> string" where
  "generateKey on_windows mktemp sha256 now =
    (if on_windows
     then (let name = mktemp (replicate 20 CHR ''X'') in if name = [] then [] else name)
     else resize 20 (c_string (sha256 (dec now))))"

section \<open>Scraping\<close>

text \<open>
  A text cut at its last slash: what is before it, and what is behind it. \<open>find (s, p) == p\<close> says
  that \<open>s\<close> occurs at \<open>p\<close>. The replacement starts at the slash and takes the place of as many
  characters as the key has.
\<close>

definition last_slash :: "string \<Rightarrow> (string \<times> string) option" where
  "last_slash s = (if CHR ''/'' \<in> set s
     then Some (rev (tl (dropWhile (\<lambda>c. c \<noteq> CHR ''/'') (rev s))), rev (takeWhile (\<lambda>c. c \<noteq> CHR ''/'') (rev s)))
     else None)"

definition torrentSupportsScrape :: "string \<Rightarrow> bool" where
  "torrentSupportsScrape url = (case last_slash url of None \<Rightarrow> False
     | Some (before, after) \<Rightarrow> take (length ''announce'') after = ''announce'')"

definition AnnounceURLToScrapeURL :: "string \<Rightarrow> string res" where
  "AnnounceURLToScrapeURL url =
    (if \<not> torrentSupportsScrape url then Inr []
     else case last_slash url of
       None \<Rightarrow> Inl Assertion
     | Some (before, after) \<Rightarrow>
         Inr (before @ ''scrape'' @ drop (length ''announce'') (''/'' @ after)))"

section \<open>Properties\<close>

lemma last_slash_split:
  assumes "CHR ''/'' \<notin> set after"
  shows "last_slash (before @ ''/'' @ after) = Some (before, after)"
proof -
  have "takeWhile (\<lambda>c. c \<noteq> CHR ''/'') (rev after @ CHR ''/'' # rev before) = rev after"
    "dropWhile (\<lambda>c. c \<noteq> CHR ''/'') (rev after @ CHR ''/'' # rev before) = CHR ''/'' # rev before"
    using assms by (simp_all add: takeWhile_append dropWhile_append)
  then show ?thesis by (simp add: last_slash_def)
qed

lemma last_slash_cases:
  obtains "last_slash s = None" "CHR ''/'' \<notin> set s"
  | before after where "last_slash s = Some (before, after)" "s = before @ ''/'' @ after" "CHR ''/'' \<notin> set after"
proof (cases "CHR ''/'' \<in> set s")
  case True
  then obtain before after where "s = before @ CHR ''/'' # after" "CHR ''/'' \<notin> set after"
    by (meson split_list_last)
  with last_slash_split [of after before] that(2) show ?thesis by simp
next
  case False
  with that(1) show ?thesis by (simp add: last_slash_def)
qed

text \<open>The announce URLs that have a scrape URL: the part behind the last slash starts with \<open>announce\<close>.\<close>

definition announce_parts :: "string \<Rightarrow> string \<Rightarrow> string \<Rightarrow> bool" where
  "announce_parts url before rest \<longleftrightarrow> url = before @ ''/announce'' @ rest \<and> CHR ''/'' \<notin> set rest"

lemma announce_parts_slash:
  "announce_parts url before rest \<Longrightarrow> last_slash url = Some (before, ''announce'' @ rest)"
  using last_slash_split [of "''announce'' @ rest" before] by (simp add: announce_parts_def)

lemma scrape_of_parts:
  assumes "announce_parts url before rest"
  shows "AnnounceURLToScrapeURL url = Inr (before @ ''scrapee'' @ rest)"
  by (simp add: AnnounceURLToScrapeURL_def torrentSupportsScrape_def announce_parts_slash [OF assms])

lemma supports_iff: "torrentSupportsScrape url \<longleftrightarrow> (\<exists>before rest. announce_parts url before rest)"
proof
  assume s: "torrentSupportsScrape url"
  show "\<exists>before rest. announce_parts url before rest"
  proof (cases url rule: last_slash_cases)
    case 1
    with s show ?thesis by (simp add: torrentSupportsScrape_def)
  next
    case (2 before after)
    with s have "take (length ''announce'') after = ''announce''"
      by (simp add: torrentSupportsScrape_def)
    then obtain rest where after: "after = ''announce'' @ rest"
      by (metis append_take_drop_id)
    from 2(2,3) have "announce_parts url before rest"
      by (simp add: announce_parts_def after)
    then show ?thesis by blast
  qed
next
  assume "\<exists>before rest. announce_parts url before rest"
  then obtain before rest where "announce_parts url before rest" by blast
  from announce_parts_slash [OF this] show "torrentSupportsScrape url"
    by (simp add: torrentSupportsScrape_def)
qed

text \<open>The scrape URL: exactly the announce URLs whose last part starts with \<open>announce\<close> have one, but it is not
  the announce URL with that word replaced by \<open>scrape\<close>: the slash before it goes, and the last letter
  of \<open>announce\<close> stays behind.\<close>

theorem scrape_URL:
  "AnnounceURLToScrapeURL url = Inr scrape \<longleftrightarrow>
    (if \<exists>before rest. announce_parts url before rest
     then \<exists>before rest. announce_parts url before rest \<and> scrape = before @ ''scrapee'' @ rest
     else scrape = [])"
proof (cases "\<exists>before rest. announce_parts url before rest")
  case True
  then obtain before rest where parts: "announce_parts url before rest" by blast
  have "b = before \<and> r = rest" if "announce_parts url b r" for b r
    using announce_parts_slash [OF that] announce_parts_slash [OF parts] by simp
  then have "(\<exists>b r. announce_parts url b r \<and> scrape = b @ ''scrapee'' @ r) \<longleftrightarrow> scrape = before @ ''scrapee'' @ rest"
    using parts by blast
  moreover have "AnnounceURLToScrapeURL url = Inr scrape \<longleftrightarrow> scrape = before @ ''scrapee'' @ rest"
    unfolding scrape_of_parts [OF parts] by blast
  ultimately show ?thesis using True by simp
next
  case False
  then have "\<not> torrentSupportsScrape url" using supports_iff by blast
  then have "AnnounceURLToScrapeURL url = Inr []" by (simp only: AnnounceURLToScrapeURL_def if_True not_False_eq_True)
  with False show ?thesis by auto
qed

section \<open>The length of a torrent\<close>

text \<open>The sum of the lengths without bounds; \<open>None\<close> when the meta information is not as it should be.\<close>

definition dictionary_at :: "'e bencoding_ops \<Rightarrow> 'e option \<Rightarrow> 'e Bencoding_Dictionary option" where
  "dictionary_at ops e = Option.bind e (\<lambda>e.
     if element_type ops e = BENCODING_TYPE_DICTIONARY then Some (element_dictionary ops e) else None)"

definition integer_at :: "'e bencoding_ops \<Rightarrow> 'e option \<Rightarrow> int option" where
  "integer_at ops e = Option.bind e (\<lambda>e.
     if element_type ops e = BENCODING_TYPE_INTEGER then Some (element_integer ops e) else None)"

fun sum_some :: "int option list \<Rightarrow> int option" where
  "sum_some [] = Some 0"
| "sum_some (n # ns) = Option.bind n (\<lambda>a. map_option ((+) a) (sum_some ns))"

definition file_bytes :: "'e bencoding_ops \<Rightarrow> 'e \<Rightarrow> int option" where
  "file_bytes ops f = Option.bind (dictionary_at ops (Some f)) (\<lambda>d. integer_at ops (find_key ''length'' d))"

definition torrent_bytes :: "'e bencoding_ops \<Rightarrow> 'e Bencoding_Dictionary \<Rightarrow> int option" where
  "torrent_bytes ops metaInfo =
    Option.bind (dictionary_at ops (find_key ''info'' metaInfo)) (\<lambda>info.
      if find_key ''length'' info \<noteq> None then integer_at ops (find_key ''length'' info)
      else Option.bind (find_key ''files'' info) (\<lambda>fs.
        if element_type ops fs = BENCODING_TYPE_LIST
        then sum_some (map (file_bytes ops) (element_list ops fs)) else None))"

definition wrapped :: "int option \<Rightarrow> u32 res" where
  "wrapped n = (case n of None \<Rightarrow> Inl Assertion | Some n \<Rightarrow> Inr (word_of_int n))"

lemma as_dictionary_at: "as_dictionary ops e = (case dictionary_at ops e of None \<Rightarrow> Inl Assertion | Some d \<Rightarrow> Inr d)"
  by (cases e) (simp_all add: as_dictionary_def dictionary_at_def)

lemma as_unsigned_at: "as_unsigned ops e = wrapped (integer_at ops e)"
  by (cases e) (simp_all add: as_unsigned_def integer_at_def wrapped_def)

lemma files_length_sum:
  "files_length ops fs w = bind_res (wrapped (sum_some (map (file_bytes ops) fs))) (\<lambda>s. Inr (w + s))"
proof (induction fs arbitrary: w)
  case Nil
  then show ?case by (simp add: wrapped_def)
next
  case (Cons f fs)
  then show ?case
    by (auto simp: as_dictionary_at as_unsigned_at file_bytes_def wrapped_def add.assoc
        split: option.splits Option.bind_splits)
qed

text \<open>C40: The length of a torrent is the length of its only file, or the sum of the lengths of its files,
  modulo \<open>2 ^ 32\<close>: it is right exactly up to 4 GB. Meta information without the keys, or with elements
  of other types in their places, fails an assertion.\<close>

theorem torrent_length:
  "MetaInfoToLength ops metaInfo =
     (case torrent_bytes ops metaInfo of None \<Rightarrow> Inl Assertion | Some n \<Rightarrow> Inr (word_of_int n))
   \<and> (\<forall>n w. torrent_bytes ops metaInfo = Some n \<and> MetaInfoToLength ops metaInfo = Inr w
        \<longrightarrow> (uint w = n \<longleftrightarrow> 0 \<le> n \<and> n < 2 ^ 32))"
proof -
  have eq: "MetaInfoToLength ops metaInfo = wrapped (torrent_bytes ops metaInfo)"
  proof (cases "dictionary_at ops (find_key ''info'' metaInfo)")
    case None
    then show ?thesis by (simp add: MetaInfoToLength_def torrent_bytes_def as_dictionary_at wrapped_def)
  next
    case (Some info)
    show ?thesis
    proof (cases "find_key ''length'' info")
      case None
      then show ?thesis
        using Some
        by (auto simp: MetaInfoToLength_def torrent_bytes_def as_dictionary_at as_list_def files_length_sum
            wrapped_def bind_res_def split: option.splits sum.splits)
    next
      case e: (Some e)
      with Some show ?thesis
        by (simp add: MetaInfoToLength_def torrent_bytes_def as_dictionary_at as_unsigned_at)
    qed
  qed
  have range: "uint (word_of_int n :: u32) = n \<longleftrightarrow> 0 \<le> n \<and> n < 2 ^ 32" for n
    by (simp add: uint_word_of_int_eq take_bit_int_eq_self_iff)
  show ?thesis
  proof (intro conjI allI impI)
    show "MetaInfoToLength ops metaInfo =
        (case torrent_bytes ops metaInfo of None \<Rightarrow> Inl Assertion | Some n \<Rightarrow> Inr (word_of_int n))"
      by (simp only: eq wrapped_def)
  next
    fix n w assume "torrent_bytes ops metaInfo = Some n \<and> MetaInfoToLength ops metaInfo = Inr w"
    then have "torrent_bytes ops metaInfo = Some n" "MetaInfoToLength ops metaInfo = Inr w" by blast+
    then have "wrapped (Some n) = Inr w" by (simp only: eq)
    then have "w = word_of_int n" by (simp only: wrapped_def option.case sum.inject)
    then show "uint w = n \<longleftrightarrow> 0 \<le> n \<and> n < 2 ^ 32" using range by (simp only:)
  qed
qed

section \<open>Identification\<close>

lemma length_resize [simp]: "length (resize n s) = n"
  by (simp add: resize_def)

text \<open>A peer id that is generated has 20 bytes. On Windows it starts with the client's mark \<open>-LN0000-\<close>;
  elsewhere the mark is overwritten, and the id is the digest of the time, cut at its first NUL and
  filled up.\<close>

theorem peer_id_shape:
  "let i = generatePeerId on_windows mktemp sha256 now
   in (if on_windows then i = [] \<or> (length i = 20 \<and> take 8 i = ''-LN0000-'')
       else length i = 20 \<and> (\<forall>k < 20. length (takeWhile (\<lambda>b. b \<noteq> 0) (sha256 (dec now))) \<le> k \<longrightarrow> i ! k = CHR 0x00)
         \<and> (20 \<le> length (takeWhile (\<lambda>b. b \<noteq> 0) (sha256 (dec now)))
              \<longrightarrow> i = string_of (take 20 (sha256 (dec now)))))"
proof (cases on_windows)
  case True
  have "take 8 (resize 20 (''-LN0000-'' @ name)) = ''-LN0000-''" for name
    by (simp add: resize_def take_Cons')
  with True show ?thesis by (simp add: generatePeerId_def Let_def)
next
  case False
  let ?bs = "takeWhile (\<lambda>b. b \<noteq> 0) (sha256 (dec now))"
  have "generatePeerId on_windows mktemp sha256 now = resize 20 (string_of ?bs)"
    using False by (simp add: generatePeerId_def c_string_def)
  moreover have "take 20 ?bs = take 20 (sha256 (dec now))" if "20 \<le> length ?bs"
  proof -
    have "take 20 ?bs = take 20 (take (length ?bs) (sha256 (dec now)))"
      by (rule arg_cong [OF takeWhile_eq_take])
    also have "\<dots> = take 20 (sha256 (dec now))" using that by (simp only: take_take min_absorb1)
    finally show ?thesis .
  qed
  moreover have "resize 20 (string_of ?bs) ! k = CHR 0x00" if "k < 20" "length ?bs \<le> k" for k
    using that by (simp add: resize_def nth_append)
  ultimately show ?thesis
    using False by (auto simp: resize_def string_of_def take_map Let_def)
qed

section \<open>Witnesses\<close>

text \<open>A concrete bencoding.\<close>

datatype bencoding = Integer int | Text string | Files "bencoding list" | Dictionary "(string \<times> bencoding) list"

definition demo_bencoding :: "bencoding bencoding_ops" where
  "demo_bencoding =
    \<lparr>element_type = (\<lambda>e. case e of Integer _ \<Rightarrow> BENCODING_TYPE_INTEGER
        | Text _ \<Rightarrow> BENCODING_TYPE_STRING | Files _ \<Rightarrow> BENCODING_TYPE_LIST
        | Dictionary _ \<Rightarrow> BENCODING_TYPE_DICTIONARY),
     element_integer = (\<lambda>e. case e of Integer n \<Rightarrow> n | _ \<Rightarrow> 0),
     element_string = (\<lambda>e. case e of Text s \<Rightarrow> s | _ \<Rightarrow> []),
     element_list = (\<lambda>e. case e of Files es \<Rightarrow> es | _ \<Rightarrow> []),
     element_dictionary = (\<lambda>e. case e of Dictionary d \<Rightarrow> d | _ \<Rightarrow> []),
     bencode = (\<lambda>d. ''de'')\<rparr>"

definition demo_torrent :: "(string \<times> bencoding) list" where
  "demo_torrent = [(''info'', Dictionary [(''files'',
     Files [Dictionary [(''length'', Integer 700)], Dictionary [(''length'', Integer 324)]])])]"

theorem torrent_length_witness:
  "\<exists>w. MetaInfoToLength demo_bencoding demo_torrent = Inr w \<and> uint w = 1024"
proof -
  have bytes: "torrent_bytes demo_bencoding demo_torrent = Some 1024"
    by (simp add: torrent_bytes_def dictionary_at_def integer_at_def file_bytes_def demo_bencoding_def demo_torrent_def)
  note all = torrent_length [of demo_bencoding demo_torrent]
  from conjunct1 [OF all] have run: "MetaInfoToLength demo_bencoding demo_torrent = Inr (word_of_int 1024)"
    by (simp only: bytes option.case)
  from conjunct2 [OF all] bytes run have "uint (word_of_int 1024 :: u32) = 1024 \<longleftrightarrow> 0 \<le> (1024::int) \<and> 1024 < (2::int) ^ 32"
    by blast
  with run show ?thesis by (intro exI [of _ "word_of_int 1024"]) simp
qed

theorem peer_id_shape_witness:
  "length (generatePeerId False id (\<lambda>s. replicate 32 7) 1) = 20
   \<and> generatePeerId False id (\<lambda>s. replicate 32 7) 1 = string_of (replicate 20 7)"
  using peer_id_shape [of False id "\<lambda>s. replicate 32 7" 1] by (simp add: Let_def)

end
