(* ===== verification/Message_Block.thy ===== *)
theory Message_Block
  imports Net_Prelude
begin

text \<open>
  What the stream modules use of \<^verbatim>\<open>ACE_Message_Block\<close>, which is not part of the repository: a
  record of operations over an abstract type of message blocks, and the documented behaviour
  the theorems assume of them. \<open>'b\<close> is the type of a byte.
\<close>

text \<open>
  \<^item> \<open>mb_length\<close>: \<^verbatim>\<open>length ()\<close>, the number of bytes between the read and the write pointer;
  \<^item> \<open>mb_space\<close>: \<^verbatim>\<open>space ()\<close>, the room after the write pointer;
  \<^item> \<open>mb_capacity\<close>: \<^verbatim>\<open>capacity ()\<close>;
  \<^item> \<open>mb_copy\<close>: \<^verbatim>\<open>copy (buf, n)\<close>, \<open>None\<close> for the result -1;
  \<^item> \<open>mb_put\<close>: bytes stored through \<^verbatim>\<open>wr_ptr ()\<close>, which is then advanced over them.
\<close>

record ('m, 'b) mb_ops =
  mb_length :: "'m \<Rightarrow> nat"
  mb_space :: "'m \<Rightarrow> nat"
  mb_capacity :: "'m \<Rightarrow> nat"
  mb_copy :: "'b list \<Rightarrow> 'm \<Rightarrow> 'm option"
  mb_put :: "'b list \<Rightarrow> 'm \<Rightarrow> 'm"

text \<open>
  \<open>contents m\<close> are the bytes between the read and the write pointer. \<^verbatim>\<open>copy\<close> appends exactly
  the given bytes when there is room for them and fails otherwise; a store through the write
  pointer appends when there is room for it (otherwise it overruns the block).
\<close>

definition mb_laws :: "('m, 'b) mb_ops \<Rightarrow> ('m \<Rightarrow> 'b list) \<Rightarrow> bool" where
  "mb_laws ops contents \<longleftrightarrow>
     (\<forall>m. mb_length ops m = length (contents m)) \<and>
     (\<forall>m bs. if length bs \<le> mb_space ops m
        then \<exists>m'. mb_copy ops bs m = Some m' \<and> contents m' = contents m @ bs
               \<and> mb_space ops m' = mb_space ops m - length bs
        else mb_copy ops bs m = None) \<and>
     (\<forall>m bs. length bs \<le> mb_space ops m \<longrightarrow>
        contents (mb_put ops bs m) = contents m @ bs
        \<and> mb_space ops (mb_put ops bs m) = mb_space ops m - length bs)"

text \<open>A store through the write pointer, faulting when it overruns the block.\<close>

definition store :: "('m, 'b) mb_ops \<Rightarrow> 'b list \<Rightarrow> 'm \<Rightarrow> 'm res" where
  "store ops bs m =
    (if length bs \<le> mb_space ops m then Inr (mb_put ops bs m) else Inl Undefined_Behaviour)"

lemma mb_copy_fits:
  assumes "mb_laws ops contents" and "length bs \<le> mb_space ops m"
  obtains m' where "mb_copy ops bs m = Some m'" "contents m' = contents m @ bs"
    "mb_space ops m' = mb_space ops m - length bs"
  using assms unfolding mb_laws_def by meson

lemma mb_copy_full:
  assumes "mb_laws ops contents" and "mb_space ops m < length bs"
  shows "mb_copy ops bs m = None"
  using assms unfolding mb_laws_def by (meson not_le)

lemma mb_copy_SomeD:
  assumes "mb_laws ops contents" and "mb_copy ops bs m = Some m'"
  shows "contents m' = contents m @ bs \<and> mb_space ops m' = mb_space ops m - length bs
    \<and> length bs \<le> mb_space ops m"
  using assms mb_copy_full [OF assms(1), of m bs] mb_copy_fits [OF assms(1), of bs m]
  by (metis not_le option.distinct(1) option.inject)

lemma store_fits:
  assumes "mb_laws ops contents" and "length bs \<le> mb_space ops m"
  shows "\<exists>m'. store ops bs m = Inr m' \<and> contents m' = contents m @ bs
    \<and> mb_space ops m' = mb_space ops m - length bs"
  using assms unfolding mb_laws_def store_def by simp

lemma mb_length_contents:
  "mb_laws ops contents \<Longrightarrow> mb_length ops m = length (contents m)"
  by (simp add: mb_laws_def)

text \<open>The concrete block of the witnesses: the room left and the bytes written.\<close>

definition bounded_block :: "(nat \<times> 'b list, 'b) mb_ops" where
  "bounded_block =
    \<lparr>mb_length = (\<lambda>(n, xs). length xs), mb_space = fst, mb_capacity = (\<lambda>(n, xs). n + length xs),
     mb_copy = (\<lambda>bs (n, xs). if length bs \<le> n then Some (n - length bs, xs @ bs) else None),
     mb_put = (\<lambda>bs (n, xs). (n - length bs, xs @ bs))\<rparr>"

lemma bounded_block_laws: "mb_laws bounded_block snd"
  by (auto simp: mb_laws_def bounded_block_def)

section \<open>Streaming steps\<close>

text \<open>
  A module streams a record in steps that each append some bytes. A step yields the message with
  the bytes appended, or \<open>None\<close> when it has released the message (the handler then returns with
  a NULL pointer and does not pass the message on), or a fault.
\<close>

type_synonym 'm step = "'m \<Rightarrow> 'm option res"

definition skip_step :: "'m step" where
  "skip_step m = Inr (Some m)"

definition abort_step :: "'m step" where
  "abort_step m = Inr None"

definition fault_step :: "fault \<Rightarrow> 'm step" where
  "fault_step e m = Inl e"

definition then_step :: "'m step \<Rightarrow> 'm step \<Rightarrow> 'm step" where
  "then_step s1 s2 m = bind_res (s1 m) (\<lambda>r. case r of None \<Rightarrow> Inr None | Some m' \<Rightarrow> s2 m')"

definition steps :: "'m step list \<Rightarrow> 'm step" where
  "steps ss = foldr then_step ss skip_step"

text \<open>A copy; a store through the write pointer without and with a check of the space before it.\<close>

definition copy_step :: "('m, 'b) mb_ops \<Rightarrow> 'b list \<Rightarrow> 'm step" where
  "copy_step ops bs m = Inr (mb_copy ops bs m)"

definition put_step :: "('m, 'b) mb_ops \<Rightarrow> 'b list \<Rightarrow> 'm step" where
  "put_step ops bs m = bind_res (store ops bs m) (\<lambda>m'. Inr (Some m'))"

definition checked_step :: "('m, 'b) mb_ops \<Rightarrow> nat \<Rightarrow> 'm step \<Rightarrow> 'm step" where
  "checked_step ops n s m = (if mb_space ops m < n then Inr None else s m)"

lemma steps_simps [simp]:
  "steps [] = skip_step"
  "steps (s # ss) = then_step s (steps ss)"
  by (simp_all add: steps_def)

text \<open>
  \<open>appends s bs k\<close>: with room for \<open>bs\<close> and \<open>k\<close> more bytes the step appends exactly \<open>bs\<close>; with no
  room for \<open>bs\<close> it releases the message; in between it does either. It never faults.
\<close>

definition appended :: "('m, 'b) mb_ops \<Rightarrow> ('m \<Rightarrow> 'b list) \<Rightarrow> 'b list \<Rightarrow> 'm \<Rightarrow> 'm option res \<Rightarrow> bool" where
  "appended ops contents bs m r \<longleftrightarrow> (\<exists>m'. r = Inr (Some m') \<and> contents m' = contents m @ bs
     \<and> mb_space ops m' = mb_space ops m - length bs)"

definition appends :: "('m, 'b) mb_ops \<Rightarrow> ('m \<Rightarrow> 'b list) \<Rightarrow> 'm step \<Rightarrow> 'b list \<Rightarrow> nat \<Rightarrow> bool" where
  "appends ops contents s bs k \<longleftrightarrow> (\<forall>m.
     (if length bs \<le> mb_space ops m
      then appended ops contents bs m (s m) \<or> (s m = Inr None \<and> mb_space ops m < length bs + k)
      else s m = Inr None))"

lemma appends_skip: "appends ops contents skip_step [] 0"
  by (simp add: appends_def appended_def skip_step_def)

lemma appends_copy: "mb_laws ops contents \<Longrightarrow> appends ops contents (copy_step ops bs) bs 0"
  unfolding appends_def appended_def copy_step_def
  by (metis mb_copy_fits mb_copy_full not_le)

lemma put_fits:
  "mb_laws ops contents \<Longrightarrow> length bs \<le> mb_space ops m \<Longrightarrow> appended ops contents bs m (put_step ops bs m)"
  using store_fits [of ops contents bs m] by (auto simp: appended_def put_step_def)

lemma appends_checked_put:
  "mb_laws ops contents \<Longrightarrow> appends ops contents (checked_step ops (length bs + k) (put_step ops bs)) bs k"
  by (auto simp: appends_def checked_step_def put_fits)

lemma appends_then:
  assumes "appends ops contents s1 bs1 k" "appends ops contents s2 bs2 l" "k \<le> length bs2"
  shows "appends ops contents (then_step s1 s2) (bs1 @ bs2) l"
  unfolding appends_def
proof
  fix m
  have s1: "if length bs1 \<le> mb_space ops m
      then appended ops contents bs1 m (s1 m) \<or> (s1 m = Inr None \<and> mb_space ops m < length bs1 + k)
      else s1 m = Inr None"
    using assms(1) by (simp add: appends_def)
  show "if length (bs1 @ bs2) \<le> mb_space ops m
      then appended ops contents (bs1 @ bs2) m (then_step s1 s2 m)
        \<or> (then_step s1 s2 m = Inr None \<and> mb_space ops m < length (bs1 @ bs2) + l)
      else then_step s1 s2 m = Inr None"
  proof (cases "appended ops contents bs1 m (s1 m)")
    case False
    with s1 assms(3) show ?thesis by (auto simp: then_step_def split: if_splits)
  next
    case True
    then obtain m1 where m1: "s1 m = Inr (Some m1)" "contents m1 = contents m @ bs1"
      "mb_space ops m1 = mb_space ops m - length bs1"
      unfolding appended_def by blast
    with s1 have "length bs1 \<le> mb_space ops m" by (auto split: if_splits)
    with m1 assms(2) [unfolded appends_def, rule_format, of m1] show ?thesis
      by (auto simp: then_step_def appended_def split: if_splits)
  qed
qed

text \<open>A step without slack is all or nothing.\<close>

lemma appends_exact:
  assumes "appends ops contents s bs 0"
  shows "if length bs \<le> mb_space ops m then appended ops contents bs m (s m) else s m = Inr None"
  using assms unfolding appends_def by (metis add.right_neutral not_le)

lemma appends_slack: "appends ops contents s bs 0 \<Longrightarrow> appends ops contents s bs k"
  unfolding appends_def by (metis add.right_neutral not_le)

end
