(* ===== verification/BitTorrent_Streamer.thy ===== *)
theory BitTorrent_Streamer
  imports BitTorrent_Tools Message_Block
begin

text \<open>
  The marshalling of the peer handshake, \<^verbatim>\<open>BitTorrent_Module_Streamer_T::handleDataMessage\<close> in
  \<^verbatim>\<open>src/src/protocol/p2p/bittorrent/bittorrent_module_streamer.inl\<close>, and what it makes of the info
  hash of a torrent. Other peer messages are not streamed (the code asserts).
\<close>

definition BITTORRENT_PEER_HANDSHAKE_RESERVED_SIZE :: nat where "BITTORRENT_PEER_HANDSHAKE_RESERVED_SIZE = 8"
definition BITTORRENT_PRT_INFO_HASH_SIZE :: nat where "BITTORRENT_PRT_INFO_HASH_SIZE = 20"
definition BITTORRENT_PRT_PEER_ID_LENGTH :: nat where "BITTORRENT_PRT_PEER_ID_LENGTH = 20"

record PeerHandShake =
  pstr :: string
  reserved :: "u8 list"
  info_hash :: string
  peer_id :: string

record 'p PeerMessageData =
  handShakeRecord :: "PeerHandShake option"
  peerRecord :: "'p option"

text \<open>A copy of \<open>n\<close> bytes from the C string of a string, which holds one byte more than the string.\<close>

definition c_copy_step :: "('m, u8) mb_ops \<Rightarrow> nat \<Rightarrow> string \<Rightarrow> 'm step" where
  "c_copy_step ops n s = (case c_bytes n s of Inl e \<Rightarrow> fault_step e | Inr bs \<Rightarrow> copy_step ops bs)"

definition handshake_step :: "('m, u8) mb_ops \<Rightarrow> PeerHandShake \<Rightarrow> 'm step" where
  "handshake_step ops h =
    (let pstrlen = word_of_nat (length (pstr h)) :: u8
     in steps
      [copy_step ops [pstrlen], c_copy_step ops (unat pstrlen) (pstr h),
       copy_step ops (take BITTORRENT_PEER_HANDSHAKE_RESERVED_SIZE (reserved h)),
       c_copy_step ops BITTORRENT_PRT_INFO_HASH_SIZE (info_hash h),
       c_copy_step ops BITTORRENT_PRT_PEER_ID_LENGTH (peer_id h)])"

text \<open>The message (or NULL) and whether it is passed on.\<close>

definition peer_handleDataMessage ::
  "('m, u8) mb_ops \<Rightarrow> 'p PeerMessageData \<Rightarrow> 'm \<Rightarrow> ('m option \<times> bool) res" where
  "peer_handleDataMessage ops r m =
    (if mb_length ops m \<noteq> 0 then Inl Assertion
     else case (handShakeRecord r, peerRecord r) of
       (Some h, None) \<Rightarrow> bind_res (handshake_step ops h m) (\<lambda>m'. Inr (m', m' \<noteq> None))
     | _ \<Rightarrow> Inl Assertion)"

section \<open>The handshake\<close>

definition handshake_bytes :: "string \<Rightarrow> u8 list \<Rightarrow> u8 list \<Rightarrow> u8 list \<Rightarrow> u8 list" where
  "handshake_bytes p r h i = word_of_nat (length p) # bytes_of p @ r @ h @ i"

lemma then_copy:
  assumes "mb_laws ops contents" "length bs \<le> mb_space ops m"
  obtains m1 where "mb_space ops m1 = mb_space ops m - length bs"
    "\<And>s. then_step (copy_step ops bs) s m = s m1"
proof -
  from mb_copy_fits [OF assms] obtain m1 where
    "mb_copy ops bs m = Some m1" "mb_space ops m1 = mb_space ops m - length bs" by blast
  with that show ?thesis by (simp add: then_step_def copy_step_def)
qed

lemma c_bytes_exact: "length s = n \<Longrightarrow> c_bytes n s = Inr (bytes_of s)"
  by (simp add: c_bytes_def)

lemma handshake_step_long:
  assumes "length (pstr h) \<le> 255" "length (reserved h) = 8" "c_bytes 20 (info_hash h) = Inr d"
    and "c_bytes 20 (peer_id h) = Inr i"
  shows "handshake_step ops h = steps [copy_step ops [word_of_nat (length (pstr h))],
    copy_step ops (bytes_of (pstr h)), copy_step ops (reserved h), copy_step ops d, copy_step ops i]"
proof -
  have "unat (word_of_nat (length (pstr h)) :: u8) = length (pstr h)"
    using assms(1) by (intro unat_of_small) simp
  then show ?thesis
    using assms by (simp add: handshake_step_def c_copy_step_def c_bytes_exact Let_def
        BITTORRENT_PEER_HANDSHAKE_RESERVED_SIZE_def BITTORRENT_PRT_INFO_HASH_SIZE_def
        BITTORRENT_PRT_PEER_ID_LENGTH_def)
qed

lemma handshake_appends:
  assumes "mb_laws ops contents" "length (pstr h) \<le> 255" "length (reserved h) = 8"
    and "c_bytes 20 (info_hash h) = Inr d" "c_bytes 20 (peer_id h) = Inr i"
  shows "appends ops contents (handshake_step ops h) (handshake_bytes (pstr h) (reserved h) d i) 0"
proof -
  have "appends ops contents (steps [copy_step ops [word_of_nat (length (pstr h))],
      copy_step ops (bytes_of (pstr h)), copy_step ops (reserved h), copy_step ops d, copy_step ops i])
    ([word_of_nat (length (pstr h))] @ bytes_of (pstr h) @ reserved h @ d @ i @ []) 0"
    unfolding steps_simps
    by (intro appends_then [where k = 0] appends_copy appends_skip assms(1)) simp_all
  then show ?thesis
    unfolding handshake_step_long [OF assms(2-5)] by (simp add: handshake_bytes_def)
qed

lemma c_bytes_length: "c_bytes n s = Inr bs \<Longrightarrow> length bs = n"
  by (auto simp: c_bytes_def split: if_splits)

text \<open>The handshake is streamed all or nothing: with a protocol name of at most 255 bytes and an info hash
  and a peer id of 20 bytes, the handler appends its 49 bytes and the name exactly when the block has
  room for them, and releases the message otherwise.\<close>

theorem handshake_outcome:
  assumes "mb_laws ops contents" "contents m = []" "handShakeRecord r = Some h" "peerRecord r = None"
    and "length (pstr h) \<le> 255" "length (reserved h) = 8" "length (info_hash h) = 20" "length (peer_id h) = 20"
  shows "if 49 + length (pstr h) \<le> mb_space ops m
    then \<exists>m'. peer_handleDataMessage ops r m = Inr (Some m', True)
      \<and> contents m' = handshake_bytes (pstr h) (reserved h) (bytes_of (info_hash h)) (bytes_of (peer_id h))
    else peer_handleDataMessage ops r m = Inr (None, False)"
proof -
  let ?bs = "handshake_bytes (pstr h) (reserved h) (bytes_of (info_hash h)) (bytes_of (peer_id h))"
  have "length ?bs = 49 + length (pstr h)" using assms(6-8) by (simp add: handshake_bytes_def)
  then show ?thesis
    using appends_exact [OF handshake_appends [OF assms(1,5,6) c_bytes_exact [OF assms(7)]
        c_bytes_exact [OF assms(8)]], of m] assms(2-4)
    by (auto simp: peer_handleDataMessage_def mb_length_contents [OF assms(1)] appended_def split: if_splits)
qed

section \<open>The info hash of a torrent\<close>

lemma length_takeWhile_19:
  assumes "length d = 20"
  shows "20 \<le> length (takeWhile (\<lambda>b. b \<noteq> 0) d) + 1 \<longleftrightarrow> (0::u8) \<notin> set (take 19 d)"
proof -
  let ?t = "takeWhile (\<lambda>b. b \<noteq> 0) d"
  have "19 \<le> length ?t \<longleftrightarrow> (\<forall>b \<in> set (take 19 d). b \<noteq> 0)"
  proof
    assume l: "19 \<le> length ?t"
    have "take 19 d = take 19 ?t"
      using l by (metis min_absorb1 take_take takeWhile_eq_take)
    then have "set (take 19 d) \<subseteq> set ?t" using set_take_subset by metis
    then show "\<forall>b \<in> set (take 19 d). b \<noteq> 0" using set_takeWhileD by fastforce
  next
    assume "\<forall>b \<in> set (take 19 d). b \<noteq> 0"
    then have "takeWhile (\<lambda>b. b \<noteq> 0) (take 19 d @ drop 19 d) = take 19 d @ takeWhile (\<lambda>b. b \<noteq> 0) (drop 19 d)"
      by (intro takeWhile_append2) auto
    then have "?t = take 19 d @ takeWhile (\<lambda>b. b \<noteq> 0) (drop 19 d)"
      unfolding append_take_drop_id .
    then have "length ?t = length (take 19 d) + length (takeWhile (\<lambda>b. b \<noteq> 0) (drop 19 d))"
      by (metis length_append)
    then show "19 \<le> length ?t" using assms by simp
  qed
  then show ?thesis by auto
qed

lemma c_bytes_of_digest:
  assumes "length d = 20"
  shows "c_bytes 20 (c_string d) = (if 0 \<in> set (take 19 d) then Inl Undefined_Behaviour else Inr d)"
proof (cases "0 \<in> set (take 19 d)")
  case True
  then show ?thesis
    using length_takeWhile_19 [OF assms] by (simp add: c_bytes_def c_string_def)
next
  case False
  let ?t = "takeWhile (\<lambda>b. b \<noteq> 0) d"
  have le: "20 \<le> length ?t + 1" using False length_takeWhile_19 [OF assms] by simp
  have t: "?t = take (length ?t) d" by (rule takeWhile_eq_take)
  have "take 20 (?t @ [0]) = d"
  proof (cases "length ?t = 20")
    case True
    with t assms have eq: "?t = d" by simp
    show ?thesis unfolding eq using assms by simp
  next
    case False
    have "length ?t \<le> 20" using assms length_takeWhile_le [of "\<lambda>b. b \<noteq> 0" d] by simp
    with le False have n: "length ?t = 19" by linarith
    then have "d ! 19 = 0" using nth_length_takeWhile [of "\<lambda>b. b \<noteq> 0" d] assms by simp
    moreover have "d = take 19 d @ [d ! 19]"
      using assms take_Suc_conv_app_nth [of 19 d] by simp
    ultimately have "d = take 19 d @ [0]" by simp
    with t n have "d = ?t @ [0]" by simp
    then show ?thesis using assms by simp
  qed
  then show ?thesis using False le by (simp add: c_bytes_def c_string_def)
qed

text \<open>The handshake for a torrent carries the digest of its info dictionary only when the digest has no
  NUL among its first 19 bytes: the info hash is kept as a C string, so that it ends at the first NUL,
  and the handler then reads behind its end.\<close>

theorem torrent_handshake:
  assumes "mb_laws ops contents" "contents m = []" "handShakeRecord r = Some h" "peerRecord r = None"
    and "length (pstr h) \<le> 255" "length (reserved h) = 8" "length (peer_id h) = 20"
    and "find_key ''info'' metaInfo = Some e" "element_type bops e = BENCODING_TYPE_DICTIONARY"
    and "MetaInfoToInfoHash bops sha1 metaInfo = Inr (info_hash h)"
    and "\<And>s. length (sha1 s) = 20" "49 + length (pstr h) \<le> mb_space ops m"
  shows "if 0 \<in> set (take 19 (sha1 (bencode bops (element_dictionary bops e))))
    then peer_handleDataMessage ops r m = Inl Undefined_Behaviour
    else \<exists>m'. peer_handleDataMessage ops r m = Inr (Some m', True)
      \<and> take 20 (drop (9 + length (pstr h)) (contents m')) = sha1 (bencode bops (element_dictionary bops e))"
proof -
  define d where "d = sha1 (bencode bops (element_dictionary bops e))"
  have ld: "length d = 20" unfolding d_def by (rule assms(11))
  have h: "info_hash h = c_string d"
    using assms(8-10) by (simp add: MetaInfoToInfoHash_def as_dictionary_def d_def)
  have start: "peer_handleDataMessage ops r m = bind_res (handshake_step ops h m) (\<lambda>m'. Inr (m', m' \<noteq> None))"
    using assms(1-4) by (simp add: peer_handleDataMessage_def mb_length_contents)
  show ?thesis
  proof (cases "0 \<in> set (take 19 d)")
    case True
    then have bad: "c_bytes 20 (info_hash h) = Inl Undefined_Behaviour"
      using c_bytes_of_digest [OF ld] h by simp
    have u: "unat (word_of_nat (length (pstr h)) :: u8) = length (pstr h)"
      using assms(5) by (intro unat_of_small) simp
    let ?last = "c_copy_step ops 20 (peer_id h)"
    have "handshake_step ops h m = then_step (copy_step ops [word_of_nat (length (pstr h))])
        (then_step (copy_step ops (bytes_of (pstr h))) (then_step (copy_step ops (reserved h))
        (then_step (fault_step Undefined_Behaviour) (then_step ?last skip_step)))) m"
      using assms(6) bad u by (simp add: handshake_step_def c_copy_step_def c_bytes_exact Let_def
        BITTORRENT_PEER_HANDSHAKE_RESERVED_SIZE_def BITTORRENT_PRT_INFO_HASH_SIZE_def
        BITTORRENT_PRT_PEER_ID_LENGTH_def)
    also have "\<dots> = Inl Undefined_Behaviour"
    proof -
      have end_step: "then_step (fault_step Undefined_Behaviour) s m' = Inl Undefined_Behaviour" for s m'
        by (simp add: then_step_def fault_step_def)
      have room: "length [word_of_nat (length (pstr h)) :: u8] \<le> mb_space ops m" using assms(12) by simp
      obtain m1 where m1: "mb_space ops m1 = mb_space ops m - length [word_of_nat (length (pstr h)) :: u8]"
        "\<And>s. then_step (copy_step ops [word_of_nat (length (pstr h))]) s m = s m1"
        using then_copy [OF assms(1) room] by blast
      have "length (bytes_of (pstr h)) \<le> mb_space ops m1" using assms(12) m1(1) by simp
      then obtain m2 where m2: "mb_space ops m2 = mb_space ops m1 - length (bytes_of (pstr h))"
        "\<And>s. then_step (copy_step ops (bytes_of (pstr h))) s m1 = s m2"
        using then_copy [OF assms(1)] by blast
      have "length (reserved h) \<le> mb_space ops m2" using assms(6,12) m1(1) m2(1) by simp
      then obtain m3 where m3: "\<And>s. then_step (copy_step ops (reserved h)) s m2 = s m3"
        using then_copy [OF assms(1)] by blast
      show ?thesis by (simp only: m1(2) m2(2) m3 end_step)
    qed
    finally show ?thesis using True start by (simp add: d_def)
  next
    case False
    then have good: "c_bytes 20 (info_hash h) = Inr d"
      using c_bytes_of_digest [OF ld] h by simp
    let ?bs = "handshake_bytes (pstr h) (reserved h) d (bytes_of (peer_id h))"
    have "length ?bs = 49 + length (pstr h)" using assms(6,7) ld by (simp add: handshake_bytes_def)
    then obtain m' where "handshake_step ops h m = Inr (Some m')" "contents m' = ?bs"
      using appends_exact [OF handshake_appends [OF assms(1,5,6) good c_bytes_exact [OF assms(7)]], of m] assms(2,12)
      by (auto simp: appended_def)
    moreover have "take 20 (drop (9 + length (pstr h)) ?bs) = d"
      using assms(6) ld by (simp add: handshake_bytes_def drop_Cons' numeral_eq_Suc)
    ultimately show ?thesis using False start by (auto simp: d_def)
  qed
qed

section \<open>Witnesses\<close>

definition demo_handshake :: "string \<Rightarrow> unit PeerMessageData" where
  "demo_handshake hash = \<lparr>handShakeRecord = Some \<lparr>pstr = ''BitTorrent protocol'', reserved = replicate 8 0,
     info_hash = hash, peer_id = replicate 20 CHR ''p''\<rparr>, peerRecord = None\<rparr>"

theorem handshake_outcome_witness:
  "\<exists>m'. peer_handleDataMessage bounded_block (demo_handshake (replicate 20 CHR ''h'')) (100, []) = Inr (Some m', True)
     \<and> length (snd m') = 68"
  using handshake_outcome [OF bounded_block_laws, of "(100, [])" "demo_handshake (replicate 20 CHR ''h'')"
      "the (handShakeRecord (demo_handshake (replicate 20 CHR ''h'')))"]
  by (auto simp: demo_handshake_def handshake_bytes_def bounded_block_def)

theorem torrent_handshake_witness:
  "peer_handleDataMessage bounded_block (demo_handshake (c_string (replicate 20 0))) (100, []) = Inl Undefined_Behaviour"
proof -
  let ?h = "the (handShakeRecord (demo_handshake (c_string (replicate 20 0))))"
  have info: "find_key ''info'' [(''info'', Dictionary [])] = Some (Dictionary [])" by simp
  have "MetaInfoToInfoHash demo_bencoding (\<lambda>s. replicate 20 0) [(''info'', Dictionary [])] = Inr (info_hash ?h)"
    by (simp add: MetaInfoToInfoHash_def as_dictionary_def demo_bencoding_def demo_handshake_def)
  then show ?thesis
    using torrent_handshake [OF bounded_block_laws, of "(100, [])" "demo_handshake (c_string (replicate 20 0))" ?h
        "[(''info'', Dictionary [])]" "Dictionary []" demo_bencoding "\<lambda>s. replicate 20 0"]
    by (simp add: demo_handshake_def demo_bencoding_def bounded_block_def)
qed

end
