(* ===== verification/Std_Map.thy ===== *)
theory Std_Map
  imports Net_Prelude
begin

text \<open>
  \<^verbatim>\<open>std::map\<close> with a comparator, as far as the sources use it: a list of pairs in the order
  of iteration, \<^verbatim>\<open>find\<close>, \<^verbatim>\<open>insert\<close> (which keeps an existing element) and assignment through
  an iterator. The contract of the comparator is the locale \<open>key_order\<close>; the case-insensitive
  comparator of the HTTP headers (\<^verbatim>\<open>ci_less\<close> in
  \<^verbatim>\<open>src/src/protocol/http/http_common.h\<close>) is its interpretation.
\<close>

fun map_find :: "('k \<Rightarrow> 'k \<Rightarrow> bool) \<Rightarrow> 'k \<Rightarrow> ('k \<times> 'v) list \<Rightarrow> 'v option" where
  "map_find lt k [] = None"
| "map_find lt k ((k', v) # xs) =
     (if \<not> lt k k' \<and> \<not> lt k' k then Some v else map_find lt k xs)"

fun map_insert :: "('k \<Rightarrow> 'k \<Rightarrow> bool) \<Rightarrow> 'k \<Rightarrow> 'v \<Rightarrow> ('k \<times> 'v) list \<Rightarrow> ('k \<times> 'v) list" where
  "map_insert lt k v [] = [(k, v)]"
| "map_insert lt k v ((k', v') # xs) =
     (if lt k k' then (k, v) # (k', v') # xs
      else if lt k' k then (k', v') # map_insert lt k v xs
      else (k', v') # xs)"

fun map_assign :: "('k \<Rightarrow> 'k \<Rightarrow> bool) \<Rightarrow> 'k \<Rightarrow> 'v \<Rightarrow> ('k \<times> 'v) list \<Rightarrow> ('k \<times> 'v) list" where
  "map_assign lt k v [] = []"
| "map_assign lt k v ((k', v') # xs) =
     (if \<not> lt k k' \<and> \<not> lt k' k then (k', v) # xs else (k', v') # map_assign lt k v xs)"

text \<open>The idiom \<^verbatim>\<open>it = m.find (k); if (it == m.end ()) m.insert (k, v); else it->second = v;\<close>\<close>

definition map_put :: "('k \<Rightarrow> 'k \<Rightarrow> bool) \<Rightarrow> 'k \<Rightarrow> 'v \<Rightarrow> ('k \<times> 'v) list \<Rightarrow> ('k \<times> 'v) list" where
  "map_put lt k v xs = (if map_find lt k xs = None then map_insert lt k v xs else map_assign lt k v xs)"

fun ordered :: "('k \<Rightarrow> 'k \<Rightarrow> bool) \<Rightarrow> ('k \<times> 'v) list \<Rightarrow> bool" where
  "ordered lt [] = True"
| "ordered lt (x # xs) = ((\<forall>y \<in> set xs. lt (fst x) (fst y)) \<and> ordered lt xs)"

definition map_erase :: "('k \<Rightarrow> 'k \<Rightarrow> bool) \<Rightarrow> 'k \<Rightarrow> ('k \<times> 'v) list \<Rightarrow> ('k \<times> 'v) list" where
  "map_erase lt k xs = filter (\<lambda>(k', v). lt k k' \<or> lt k' k) xs"

lemma keys_map_insert:
  fixes k :: "'k::linorder"
  shows "fst ` set (map_insert (<) k v xs) = insert k (fst ` set xs)"
proof (induction xs)
  case (Cons x xs)
  then show ?case by (cases x) (auto simp: insert_commute antisym_conv3)
qed simp

lemma keys_map_erase:
  fixes k :: "'k::linorder"
  shows "fst ` set (map_erase (<) k xs) = fst ` set xs - {k}"
  by (force simp: map_erase_def)

locale key_order =
  fixes lt :: "'k \<Rightarrow> 'k \<Rightarrow> bool"
  assumes irrefl: "\<not> lt a a"
    and trans: "lt a b \<Longrightarrow> lt b c \<Longrightarrow> lt a c"
    and weak: "\<not> lt a b \<Longrightarrow> \<not> lt b c \<Longrightarrow> \<not> lt a c"
begin

lemma asym: "lt a b \<Longrightarrow> \<not> lt b a"
  using irrefl trans by blast

lemma equiv_lt: "\<not> lt a b \<Longrightarrow> \<not> lt b a \<Longrightarrow> lt b c \<Longrightarrow> lt a c"
  using weak trans by blast

lemma set_map_insert:
  "set (map_insert lt k v xs) \<subseteq> insert (k, v) (set xs)"
  by (induction xs) (auto split: if_splits)

lemma ordered_map_insert: "ordered lt xs \<Longrightarrow> ordered lt (map_insert lt k v xs)"
proof (induction xs)
  case (Cons x xs)
  obtain k' v' where x: "x = (k', v')" by fastforce
  have "lt k' (fst y)" if "y \<in> set (map_insert lt k v xs)" "lt k' k" for y
    using that set_map_insert [of k v xs] Cons.prems x by auto
  with Cons x show ?case by (auto dest: trans)
qed simp

lemma map_assign_keys: "map fst (map_assign lt k v xs) = map fst xs"
  by (induction xs) auto

lemma ordered_keys:
  "ordered lt xs \<Longrightarrow> map fst xs = map fst ys \<Longrightarrow> ordered lt ys"
proof (induction xs arbitrary: ys)
  case (Cons x xs)
  then obtain y zs where ys: "ys = y # zs" "fst x = fst y" "map fst xs = map fst zs"
    by (cases ys) auto
  then have "\<forall>k \<in> fst ` set zs. lt (fst x) k"
    using Cons.prems(1) by (metis imageE list.set_map ordered.simps(2))
  with Cons ys show ?case by auto
qed simp

lemma ordered_map_assign: "ordered lt xs \<Longrightarrow> ordered lt (map_assign lt k v xs)"
  by (rule ordered_keys) (simp_all add: map_assign_keys)

lemma ordered_map_put: "ordered lt xs \<Longrightarrow> ordered lt (map_put lt k v xs)"
  by (simp add: map_put_def ordered_map_insert ordered_map_assign)

lemma find_map_insert:
  "ordered lt xs \<Longrightarrow> map_find lt k xs = None \<Longrightarrow> map_find lt k (map_insert lt k v xs) = Some v"
  by (induction xs) (auto simp: irrefl dest: asym split: if_splits)

lemma find_map_assign:
  "map_find lt k xs \<noteq> None \<Longrightarrow> map_find lt k (map_assign lt k v xs) = Some v"
  by (induction xs) auto

text \<open>Storing a value under a key makes it the value found under that key.\<close>

lemma find_map_put: "ordered lt xs \<Longrightarrow> map_find lt k (map_put lt k v xs) = Some v"
  by (simp add: map_put_def find_map_insert find_map_assign)

lemma find_insert_other:
  "lt j k \<or> lt k j \<Longrightarrow> map_find lt j (map_insert lt k v xs) = map_find lt j xs"
  by (induction xs) auto

lemma find_assign_other:
  "lt j k \<or> lt k j \<Longrightarrow> map_find lt j (map_assign lt k v xs) = map_find lt j xs"
proof (induction xs)
  case (Cons x xs)
  then show ?case
    using weak [of j "fst x" k] weak [of k "fst x" j] by (cases x) auto
qed simp

lemma find_put_other:
  "lt j k \<or> lt k j \<Longrightarrow> map_find lt j (map_put lt k v xs) = map_find lt j xs"
  by (simp add: map_put_def find_insert_other find_assign_other)

end

section \<open>The comparator of the HTTP headers\<close>

text \<open>
  \<^verbatim>\<open>strcasecmp\<close> compares the C strings (up to the first NUL) by the lower case of their
  characters in the C locale, as unsigned values.
\<close>

definition to_lower :: "char \<Rightarrow> char" where
  "to_lower c = (if (of_char c :: nat) \<in> {65..90} then char_of ((of_char c :: nat) + 32) else c)"

lemma of_char_to_lower:
  "of_char (to_lower c) = (if (of_char c :: nat) \<in> {65..90} then of_char c + 32 else of_char c :: nat)"
  by (simp add: to_lower_def)

definition c_str :: "string \<Rightarrow> string" where
  "c_str = takeWhile (\<lambda>c. c \<noteq> CHR 0x00)"

definition folded :: "string \<Rightarrow> nat list" where
  "folded s = map (\<lambda>c. of_char (to_lower c)) (c_str s)"

fun nats_less :: "nat list \<Rightarrow> nat list \<Rightarrow> bool" where
  "nats_less _ [] = False"
| "nats_less [] (y # ys) = True"
| "nats_less (x # xs) (y # ys) = (x < y \<or> x = y \<and> nats_less xs ys)"

definition ci_less :: "string \<Rightarrow> string \<Rightarrow> bool" where
  "ci_less s1 s2 = nats_less (folded s1) (folded s2)"

lemma nats_less_irrefl: "\<not> nats_less xs xs"
  by (induction xs) auto

lemma nats_less_trans: "nats_less xs ys \<Longrightarrow> nats_less ys zs \<Longrightarrow> nats_less xs zs"
proof (induction xs ys arbitrary: zs rule: nats_less.induct)
  case (2 y ys)
  then show ?case by (cases zs) auto
next
  case (3 x xs y ys)
  then show ?case by (cases zs) auto
qed auto

lemma nats_less_total: "nats_less xs ys \<or> xs = ys \<or> nats_less ys xs"
proof (induction xs ys rule: nats_less.induct)
  case (1 xs)
  then show ?case by (cases xs) auto
qed auto

interpretation ci: key_order ci_less
proof
  show "\<not> ci_less a a" for a by (simp add: ci_less_def nats_less_irrefl)
  show "ci_less a c" if "ci_less a b" "ci_less b c" for a b c
    using that by (auto simp: ci_less_def dest: nats_less_trans)
  show "\<not> ci_less a c" if "\<not> ci_less a b" "\<not> ci_less b c" for a b c
    using that nats_less_total [of "folded a" "folded b"] nats_less_total [of "folded b" "folded c"]
    by (auto simp: ci_less_def dest: nats_less_trans)
qed

section \<open>The default comparator of strings\<close>

text \<open>\<^verbatim>\<open>std::less<std::string>\<close> compares the characters as unsigned values.\<close>

definition string_less :: "string \<Rightarrow> string \<Rightarrow> bool" where
  "string_less s1 s2 = nats_less (map of_char s1) (map of_char s2)"

lemma string_less_total: "\<not> string_less a b \<Longrightarrow> \<not> string_less b a \<Longrightarrow> a = b"
  using nats_less_total [of "map of_char a" "map of_char b"] inj_map_eq_map [of "of_char :: char \<Rightarrow> nat" a b]
  by (auto simp: string_less_def inj_on_def)

interpretation str: key_order string_less
proof
  show "\<not> string_less a a" for a by (simp add: string_less_def nats_less_irrefl)
  show "string_less a c" if "string_less a b" "string_less b c" for a b c
    using that nats_less_trans by (auto simp: string_less_def)
  show "\<not> string_less a c" if "\<not> string_less a b" "\<not> string_less b c" for a b c
    using that nats_less_total [of "map of_char a" "map of_char b"] nats_less_total [of "map of_char b" "map of_char c"]
    by (auto simp: string_less_def dest: nats_less_trans)
qed

end
