(* ===== verification/HTTP_Tools.thy ===== *)
theory HTTP_Tools
  imports Std_Map
begin

text \<open>
  The HTTP vocabulary of \<^verbatim>\<open>src/src/protocol/http\<close>: the enumerations of \<^verbatim>\<open>http_codes.h\<close>, the record
  of a message of \<^verbatim>\<open>http_common.h\<close> and the functions of \<^verbatim>\<open>http_tools.cpp\<close> that convert between
  names and codes, classify header fields, encode a string for a URL and print a record.
\<close>

section \<open>Data\<close>

datatype http_method =
    HTTP_METHOD_GET | HTTP_METHOD_POST | HTTP_METHOD_HEAD
  | HTTP_METHOD_MAX | HTTP_METHOD_INVALID

datatype http_version =
    HTTP_VERSION_0_9 | HTTP_VERSION_1_0 | HTTP_VERSION_1_1 | HTTP_VERSION_2
  | HTTP_VERSION_MAX | HTTP_VERSION_INVALID

datatype header_type =
    HTTP_HEADER_GENERAL | HTTP_HEADER_REQUEST | HTTP_HEADER_RESPONSE | HTTP_HEADER_ENTITY
  | HTTP_HEADER_MAX | HTTP_HEADER_INVALID

text \<open>The numeric values of the methods, which order them as the C++ comparison does.\<close>

fun method_value :: "http_method \<Rightarrow> nat" where
  "method_value HTTP_METHOD_GET = 0"
| "method_value HTTP_METHOD_POST = 1"
| "method_value HTTP_METHOD_HEAD = 2"
| "method_value HTTP_METHOD_MAX = 3"
| "method_value HTTP_METHOD_INVALID = 4"

lemma method_value_inj: "method_value a = method_value b \<Longrightarrow> a = b"
  by (cases a; cases b) simp_all

instantiation http_method :: linorder
begin
definition less_eq_http_method :: "http_method \<Rightarrow> http_method \<Rightarrow> bool" where
  "less_eq_http_method a b = (method_value a \<le> method_value b)"
definition less_http_method :: "http_method \<Rightarrow> http_method \<Rightarrow> bool" where
  "less_http_method a b = (method_value a < method_value b)"
instance
  by standard (auto simp: less_eq_http_method_def less_http_method_def method_value_inj)
end

text \<open>
  The status is the integer of the enumeration: the parser of responses stores the number it
  reads, whether the enumeration names it or not.
\<close>

type_synonym http_status = nat
type_synonym headers = "(string \<times> string) list"
type_synonym form = "(string \<times> string) list"

definition HTTP_STATUS_INVALID :: http_status where "HTTP_STATUS_INVALID = 1001"

record HTTP_Record =
  form :: form
  headers :: headers
  http_method :: http_method
  reason :: string
  status :: http_status
  URI :: string
  version :: http_version

definition new_HTTP_Record :: HTTP_Record where
  "new_HTTP_Record = \<lparr>form = [], headers = [], http_method = HTTP_METHOD_INVALID, reason = [],
     status = HTTP_STATUS_INVALID, URI = [], version = HTTP_VERSION_INVALID\<rparr>"

section \<open>Names of codes\<close>

fun MethodToString :: "http_method \<Rightarrow> string" where
  "MethodToString HTTP_METHOD_GET = ''GET''"
| "MethodToString HTTP_METHOD_POST = ''POST''"
| "MethodToString HTTP_METHOD_HEAD = ''HEAD''"
| "MethodToString _ = ''INVALID/UNKNOWN''"

fun VersionToString :: "http_version \<Rightarrow> string" where
  "VersionToString HTTP_VERSION_0_9 = ''0.9''"
| "VersionToString HTTP_VERSION_1_0 = ''1.0''"
| "VersionToString HTTP_VERSION_1_1 = ''1.1''"
| "VersionToString HTTP_VERSION_2 = ''2''"
| "VersionToString _ = ''INVALID/UNKNOWN''"

definition StatusToReason :: "http_status \<Rightarrow> string" where
  "StatusToReason s =
    (if s = 200 then ''OK''
     else if s = 201 then ''Created''
     else if s = 202 then ''Accepted''
     else if s = 204 then ''No Content''
     else if s = 300 then ''Multiple Choices''
     else if s = 301 then ''Moved Permanently''
     else if s = 302 then ''Moved Temporarily''
     else if s = 304 then ''Not Modified''
     else if s = 400 then ''Bad Request''
     else if s = 401 then ''Unauthorized''
     else if s = 403 then ''Forbidden''
     else if s = 404 then ''Not Found''
     else if s = 500 then ''Internal Server Error''
     else if s = 501 then ''Not Implemented''
     else if s = 502 then ''Bad Gateway''
     else if s = 503 then ''Service Unavailable''
     else ''INVALID/UNKNOWN'')"

definition MethodToType :: "string \<Rightarrow> http_method" where
  "MethodToType m =
    (if m = ''GET'' then HTTP_METHOD_GET
     else if m = ''POST'' then HTTP_METHOD_POST
     else if m = ''HEAD'' then HTTP_METHOD_HEAD
     else HTTP_METHOD_INVALID)"

definition VersionToType :: "string \<Rightarrow> http_version" where
  "VersionToType v =
    (if v = ''0.9'' then HTTP_VERSION_0_9
     else if v = ''1.0'' then HTTP_VERSION_1_0
     else if v = ''1.1'' then HTTP_VERSION_1_1
     else if v = ''2'' then HTTP_VERSION_2
     else HTTP_VERSION_INVALID)"

text \<open>
  The contract of a pair of name functions: the name of a proper code reads back as that code,
  and a text that is no such name reads as the invalid code.
\<close>

locale name_codec =
  fixes proper :: "'c \<Rightarrow> bool"
    and to_name :: "'c \<Rightarrow> string"
    and of_name :: "string \<Rightarrow> 'c"
    and invalid :: 'c
  assumes reads_back: "proper c \<Longrightarrow> of_name (to_name c) = c"
    and reads_proper: "proper (of_name s) \<Longrightarrow> to_name (of_name s) = s"
    and reads_invalid: "\<not> proper (of_name s) \<Longrightarrow> of_name s = invalid"
    and invalid_improper: "\<not> proper invalid"
begin

lemma names_differ: "proper a \<Longrightarrow> proper b \<Longrightarrow> to_name a = to_name b \<longleftrightarrow> a = b"
  using reads_back by metis

lemma proper_iff_name: "proper (of_name s) \<longleftrightarrow> (\<exists>c. proper c \<and> to_name c = s)"
  using reads_back reads_proper by metis

lemma unknown_name: "(\<And>c. proper c \<Longrightarrow> to_name c \<noteq> s) \<Longrightarrow> of_name s = invalid"
  using reads_invalid reads_proper by blast

end

interpretation methods: name_codec
  "\<lambda>m. m < HTTP_METHOD_MAX" MethodToString MethodToType HTTP_METHOD_INVALID
proof
  show "MethodToType (MethodToString c) = c" if "c < HTTP_METHOD_MAX" for c
    using that by (cases c) (simp_all add: MethodToType_def less_http_method_def)
qed (auto simp: MethodToType_def less_http_method_def split: if_splits)

definition proper_version :: "http_version \<Rightarrow> bool" where
  "proper_version v \<longleftrightarrow> v \<noteq> HTTP_VERSION_MAX \<and> v \<noteq> HTTP_VERSION_INVALID"

interpretation versions: name_codec
  proper_version VersionToString VersionToType HTTP_VERSION_INVALID
proof
  show "VersionToType (VersionToString c) = c" if "proper_version c" for c
    using that by (cases c) (simp_all add: VersionToType_def proper_version_def)
qed (auto simp: VersionToType_def proper_version_def split: if_splits)

section \<open>Header fields and requests\<close>

fun isHeaderType :: "string \<Rightarrow> header_type \<Rightarrow> bool" where
  "isHeaderType name HTTP_HEADER_GENERAL = (name = ''Date'' \<or> name = ''Pragma'')"
| "isHeaderType name HTTP_HEADER_REQUEST =
     (name = ''Authorization'' \<or> name = ''From'' \<or> name = ''If-Modified-Since'' \<or>
      name = ''Referer'' \<or> name = ''User-Agent'')"
| "isHeaderType name HTTP_HEADER_RESPONSE =
     (name = ''Location'' \<or> name = ''Server'' \<or> name = ''WWW-Authenticate'')"
| "isHeaderType name HTTP_HEADER_ENTITY =
     (name = ''Allow'' \<or> name = ''Content-Encoding'' \<or> name = ''Content-Length'' \<or>
      name = ''Content-Type'' \<or> name = ''Expires'' \<or> name = ''Last-Modified'' \<or>
      (\<not> (name = ''Date'' \<or> name = ''Pragma'') \<and>
       \<not> (name = ''Authorization'' \<or> name = ''From'' \<or> name = ''If-Modified-Since'' \<or>
          name = ''Referer'' \<or> name = ''User-Agent'') \<and>
       \<not> (name = ''Location'' \<or> name = ''Server'' \<or> name = ''WWW-Authenticate'')))"
| "isHeaderType name HTTP_HEADER_MAX = False"
| "isHeaderType name HTTP_HEADER_INVALID = False"

definition isRequest :: "HTTP_Record \<Rightarrow> bool" where
  "isRequest r = (http_method r < HTTP_METHOD_MAX)"

lemma entity_iff:
  "isHeaderType n HTTP_HEADER_ENTITY \<longleftrightarrow>
     \<not> isHeaderType n HTTP_HEADER_GENERAL \<and> \<not> isHeaderType n HTTP_HEADER_REQUEST
     \<and> \<not> isHeaderType n HTTP_HEADER_RESPONSE"
  by auto

lemma header_classes_disjoint:
  "\<not> (isHeaderType n HTTP_HEADER_GENERAL \<and> isHeaderType n HTTP_HEADER_REQUEST)"
  "\<not> (isHeaderType n HTTP_HEADER_GENERAL \<and> isHeaderType n HTTP_HEADER_RESPONSE)"
  "\<not> (isHeaderType n HTTP_HEADER_REQUEST \<and> isHeaderType n HTTP_HEADER_RESPONSE)"
  by auto

declare isHeaderType.simps [simp del]

text \<open>
  \<open>EncodingToCompressionFormat\<close>: the format enumeration belongs to the stream library; its two
  values that occur here are those of the datatype. \<open>tolower\<close> is that of the C++ locale.
\<close>

datatype compression_format = STREAM_COMPRESSION_FORMAT_GZIP | STREAM_COMPRESSION_FORMAT_INVALID

definition EncodingToCompressionFormat :: "(char \<Rightarrow> char) \<Rightarrow> string \<Rightarrow> compression_format" where
  "EncodingToCompressionFormat tolower e =
    (let lowercase_string = map tolower e
     in if lowercase_string = ''deflate'' \<or> lowercase_string = ''gzip''
        then STREAM_COMPRESSION_FORMAT_GZIP else STREAM_COMPRESSION_FORMAT_INVALID)"

section \<open>Printing a record\<close>

definition dump_fields :: "header_type \<Rightarrow> headers \<Rightarrow> string" where
  "dump_fields t hs = concat (map (\<lambda>(k, v). k @ '': \"'' @ v @ ''\"'' @ [CHR 0x0A])
     (filter (\<lambda>(k, v). isHeaderType k t) hs))"

definition dump :: "HTTP_Record \<Rightarrow> string" where
  "dump r =
    (let nl = [CHR 0x0A];
         rule = ''-------------------------------'' @ nl;
         is_request = isRequest r;
         head =
           (if is_request
            then ''Method: '' @ MethodToString (http_method r) @ nl @
                 ''Request-URI: '' @ URI r @ nl @
                 ''Version: '' @ VersionToString (version r) @ nl
            else ''Version: '' @ VersionToString (version r) @ nl @
                 ''Status: '' @ dec (status r) @ nl @
                 ''Reason: \"'' @ StatusToReason (status r) @ ''\"'' @ nl);
         fields =
           ''Headers ('' @ dec (length (headers r)) @ ''):'' @ nl @
           dump_fields HTTP_HEADER_GENERAL (headers r) @ rule @
           dump_fields (if is_request then HTTP_HEADER_REQUEST else HTTP_HEADER_RESPONSE) (headers r) @
           rule @
           dump_fields HTTP_HEADER_ENTITY (headers r) @ ''Headers /END'' @ nl;
         form_part =
           (if form r = [] then []
            else ''Form ('' @ dec (length (form r)) @ ''):'' @ nl @
                 concat (map (\<lambda>(k, v). ''\"'' @ k @ ''\"=\"'' @ v @ ''\"'' @ nl) (form r)) @
                 ''Form /END'' @ nl)
     in head @ fields @ form_part)"

section \<open>Properties\<close>

text \<open>The names of methods and versions are a code: every proper value reads back from its name (only
  the bound of the enumeration does not), and exactly the names of proper values are accepted,
  every other text reads as the invalid value.\<close>

theorem http_names_codec:
  "(MethodToType (MethodToString m) = m \<longleftrightarrow> m \<noteq> HTTP_METHOD_MAX)
   \<and> (VersionToType (VersionToString v) = v \<longleftrightarrow> v \<noteq> HTTP_VERSION_MAX)
   \<and> (MethodToType s \<noteq> HTTP_METHOD_INVALID \<longleftrightarrow> s \<in> MethodToString ` {m. m < HTTP_METHOD_MAX})
   \<and> (VersionToType s \<noteq> HTTP_VERSION_INVALID \<longleftrightarrow> s \<in> VersionToString ` {v. proper_version v})"
proof (intro conjI)
  show "MethodToType (MethodToString m) = m \<longleftrightarrow> m \<noteq> HTTP_METHOD_MAX"
    by (cases m) (simp_all add: MethodToType_def)
  show "VersionToType (VersionToString v) = v \<longleftrightarrow> v \<noteq> HTTP_VERSION_MAX"
    by (cases v) (simp_all add: VersionToType_def)
  show "MethodToType s \<noteq> HTTP_METHOD_INVALID \<longleftrightarrow> s \<in> MethodToString ` {m. m < HTTP_METHOD_MAX}"
    using methods.proper_iff_name [of s] methods.reads_invalid [of s] methods.invalid_improper by auto
  show "VersionToType s \<noteq> HTTP_VERSION_INVALID \<longleftrightarrow> s \<in> VersionToString ` {v. proper_version v}"
    using versions.proper_iff_name [of s] versions.reads_invalid [of s] versions.invalid_improper by auto
qed

text \<open>Every header field name belongs to exactly one of the four classes, so a field is never printed
  twice and only the class of the opposite direction is left out.\<close>

theorem http_header_partition:
  "length (filter (isHeaderType name)
     [HTTP_HEADER_GENERAL, HTTP_HEADER_REQUEST, HTTP_HEADER_RESPONSE, HTTP_HEADER_ENTITY]) = 1"
  using header_classes_disjoint [of name] by (simp add: entity_iff)

end
