(* ===== verification/Std_Regex.thy ===== *)
theory Std_Regex
  imports Net_Prelude
begin

text \<open>
  \<^verbatim>\<open>std::regex\<close> (ECMAScript) as far as the sources use it: expressions with captures and a
  backtracking matcher in the priority order of the standard, and the classes of characters.
\<close>

type_synonym char_class = "char \<Rightarrow> bool"

text \<open>The classes of the C locale.\<close>

definition ascii_digit :: char_class where
  "ascii_digit c = ((of_char c :: nat) \<in> {48..57})"

definition ascii_alpha :: char_class where
  "ascii_alpha c = ((of_char c :: nat) \<in> {65..90} \<union> {97..122})"

section \<open>Regular expressions with captures\<close>

text \<open>
  The expressions of the source as data: a literal text, a class repeated greedily between two
  bounds or lazily, a sequence, an optional part, a repeated part and a capture group. \<open>runs\<close>
  lists the matches at the start of a text, in the order a backtracking matcher tries them:
  the groups they captured and what is left of the text.
\<close>

datatype regex =
    Lit string
  | Rep "char \<Rightarrow> bool" nat "nat option"
  | Lazy "char \<Rightarrow> bool"
  | Seq regex regex
  | Opt regex
  | Star regex
  | Cap nat regex

type_synonym match = "(nat \<times> string) list \<times> string"

definition run_length :: "(char \<Rightarrow> bool) \<Rightarrow> string \<Rightarrow> nat" where
  "run_length p s = length (takeWhile p s)"

fun star_runs :: "nat \<Rightarrow> (string \<Rightarrow> match list) \<Rightarrow> string \<Rightarrow> match list" where
  "star_runs 0 m s = [([], s)]"
| "star_runs (Suc n) m s =
     concat (map (\<lambda>(g, s'). if length s' < length s
        then map (\<lambda>(g', s''). (g @ g', s'')) (star_runs n m s') else []) (m s)) @ [([], s)]"

primrec runs :: "regex \<Rightarrow> string \<Rightarrow> match list" where
  "runs (Lit t) = (\<lambda>s. if take (length t) s = t then [([], drop (length t) s)] else [])"
| "runs (Rep p lo hi) = (\<lambda>s.
     let longest = (case hi of None \<Rightarrow> run_length p s | Some h \<Rightarrow> min h (run_length p s))
     in map (\<lambda>n. ([], drop n s)) (rev [lo ..< Suc longest]))"
| "runs (Lazy p) = (\<lambda>s. map (\<lambda>n. ([], drop n s)) [0 ..< Suc (run_length p s)])"
| "runs (Seq a b) = (\<lambda>s. concat (map (\<lambda>(g, s'). map (\<lambda>(g', s''). (g @ g', s'')) (runs b s')) (runs a s)))"
| "runs (Opt a) = (\<lambda>s. runs a s @ [([], s)])"
| "runs (Star a) = (\<lambda>s. star_runs (length s) (runs a) s)"
| "runs (Cap n a) = (\<lambda>s. map (\<lambda>(g, s'). ((n, take (length s - length s') s) # g, s')) (runs a s))"

text \<open>\<^verbatim>\<open>std::regex_match\<close>: the first match that covers the whole text; a group holds its last capture.\<close>

definition regex_match :: "regex \<Rightarrow> string \<Rightarrow> (nat \<Rightarrow> string option) option" where
  "regex_match r s = map_option (\<lambda>(g, _). map_of (rev g)) (find (\<lambda>(g, s'). s' = []) (runs r s))"

text \<open>The class of a dot: everything but a line terminator.\<close>

definition dot :: char_class where
  "dot c = (c \<noteq> CHR 0x0A \<and> c \<noteq> CHR 0x0D)"

section \<open>The first match\<close>

text \<open>\<open>first r s m\<close>: \<open>m\<close> is the match tried first; greedy expressions are characterised by it.\<close>

definition first_run :: "regex \<Rightarrow> string \<Rightarrow> match \<Rightarrow> bool" where
  "first_run r s m \<longleftrightarrow> (\<exists>t. runs r s = m # t)"

lemma first_Lit: "first_run (Lit t) (t @ s) ([], s)"
  by (simp add: first_run_def)

lemma first_Seq:
  "first_run a s (g, s') \<Longrightarrow> first_run b s' (g', s'') \<Longrightarrow> first_run (Seq a b) s (g @ g', s'')"
  by (auto simp: first_run_def)

lemma first_Opt: "first_run a s m \<Longrightarrow> first_run (Opt a) s m"
  by (auto simp: first_run_def)

lemma first_Opt_none: "runs a s = [] \<Longrightarrow> first_run (Opt a) s ([], s)"
  by (simp add: first_run_def)

lemma first_Cap: "first_run a (t @ s) (g, s) \<Longrightarrow> first_run (Cap n a) (t @ s) ((n, t) # g, s)"
  by (auto simp: first_run_def)

lemma run_length_append:
  "list_all p t \<Longrightarrow> s = [] \<or> \<not> p (hd s) \<Longrightarrow> run_length p (t @ s) = length t"
  by (induction t) (cases s, auto simp: run_length_def)

lemma first_Rep:
  assumes "list_all p t" "lo \<le> length t" "case hi of None \<Rightarrow> True | Some h \<Rightarrow> length t \<le> h"
    "s = [] \<or> \<not> p (hd s)"
  shows "first_run (Rep p lo hi) (t @ s) ([], s)"
  using assms by (auto simp: first_run_def run_length_append Let_def min_absorb2 split: option.splits)

lemma first_match:
  "first_run r s (g, []) \<Longrightarrow> regex_match r s = Some (map_of (rev g))"
  by (auto simp: first_run_def regex_match_def)

lemma first_rest:
  assumes "list_all dot t"
  shows "first_run (Opt (Cap n (Rep dot 1 None))) t (if t = [] then [] else [(n, t)], [])"
proof (cases "t = []")
  case True
  then show ?thesis by (auto intro!: first_Opt_none simp: run_length_def)
next
  case False
  with assms have "first_run (Rep dot 1 None) (t @ []) ([], [])"
    by (intro first_Rep) (auto simp: Suc_le_eq)
  from first_Opt [OF first_Cap [OF this]] show ?thesis using False by simp
qed

lemma runs_Seq:
  "(g, s') \<in> set (runs a s) \<Longrightarrow> (g', s'') \<in> set (runs b s') \<Longrightarrow>
     (g @ g', s'') \<in> set (runs (Seq a b) s)"
  by force

section \<open>What a match consists of\<close>

lemma run_length_take: "n \<le> run_length p s \<Longrightarrow> list_all p (take n s)"
proof (induction s arbitrary: n)
  case (Cons c s)
  then show ?case by (cases n) (auto simp: run_length_def split: if_splits)
qed simp

lemma runs_RepD:
  assumes "(g, s') \<in> set (runs (Rep p lo hi) s)"
  shows "g = [] \<and> (\<exists>t. s = t @ s' \<and> list_all p t \<and> lo \<le> length t \<and>
    (case hi of None \<Rightarrow> True | Some h \<Rightarrow> length t \<le> h))"
proof -
  let ?longest = "case hi of None \<Rightarrow> run_length p s | Some h \<Rightarrow> min h (run_length p s)"
  from assms obtain n where n: "g = []" "s' = drop n s" "lo \<le> n" "n \<le> ?longest"
    by (auto simp: Let_def split: if_splits)
  then have "n \<le> run_length p s" by (auto split: option.splits)
  moreover have "run_length p s \<le> length s"
    by (simp add: run_length_def length_takeWhile_le)
  ultimately have "length (take n s) = n" "list_all p (take n s)"
    by (simp_all add: run_length_take)
  with n show ?thesis
    by (intro conjI exI [of _ "take n s"]) (auto split: option.splits)
qed

lemma runs_SeqD:
  "(g, s') \<in> set (runs (Seq a b) s) \<Longrightarrow> \<exists>g1 s1 g2. (g1, s1) \<in> set (runs a s)
     \<and> (g2, s') \<in> set (runs b s1) \<and> g = g1 @ g2"
  by force

lemma runs_OptD: "(g, s') \<in> set (runs (Opt a) s) \<Longrightarrow> (g, s') \<in> set (runs a s) \<or> g = [] \<and> s' = s"
  by auto

lemma runs_CapD:
  "(g, s') \<in> set (runs (Cap n a) s) \<Longrightarrow> \<exists>g'. (g', s') \<in> set (runs a s)
     \<and> g = (n, take (length s - length s') s) # g'"
  by auto

lemma regex_matchD:
  "regex_match r s = Some m \<Longrightarrow> \<exists>g. (g, []) \<in> set (runs r s) \<and> m = map_of (rev g)"
  by (auto simp: regex_match_def find_Some_iff) (metis nth_mem)


end
