(* ===== verification/HTTP_URL.thy ===== *)
theory HTTP_URL
  imports HTTP_Tools Std_Regex
begin

text \<open>
  URLs in \<^verbatim>\<open>src/src/protocol/http/http_tools.cpp\<close>: \<open>URLEncode\<close>, \<open>parseURL\<close> and \<open>URLRequiresSSL\<close>. The
  regular expressions of the last two are written as in the source (see \<open>Std_Regex\<close>).
\<close>

section \<open>URLEncode\<close>

text \<open>
  \<open>loc\<close> is the locale the function asks for: \<open>None\<close> when its construction throws, otherwise its
  \<^verbatim>\<open>isdigit\<close> and \<^verbatim>\<open>isalpha\<close>. The conversion of a (signed) \<^verbatim>\<open>char\<close> to \<^verbatim>\<open>unsigned short\<close> extends
  the sign, so that a byte above 127 prints four digits, the first two of which are dropped.
\<close>

definition char_value :: "char \<Rightarrow> int" where
  "char_value c = (if of_char c < (128::nat) then int (of_char c) else int (of_char c) - 256)"

definition char_to_ushort :: "char \<Rightarrow> u16" where
  "char_to_ushort c = word_of_int (char_value c)"

definition hex_pad2 :: "u16 \<Rightarrow> string" where
  "hex_pad2 w = (let s = hex (unat w) in replicate (2 - length s) (CHR ''0'') @ s)"

definition unreserved_mark :: "char \<Rightarrow> bool" where
  "unreserved_mark c = (c = CHR ''.'' \<or> c = CHR ''-'' \<or> c = CHR ''_'' \<or> c = CHR ''~'')"

definition encode_char :: "char_class \<Rightarrow> char_class \<Rightarrow> char \<Rightarrow> string" where
  "encode_char isdigit isalpha c =
    (if \<not> isdigit c \<and> \<not> isalpha c \<and> \<not> unreserved_mark c
     then let converted = hex_pad2 (char_to_ushort c)
          in CHR ''%'' # (if length converted = 2 then converted else drop 2 converted)
     else [c])"

definition URLEncode :: "(char_class \<times> char_class) option \<Rightarrow> string \<Rightarrow> string" where
  "URLEncode loc s =
    (case loc of None \<Rightarrow> []
     | Some (isdigit, isalpha) \<Rightarrow> concat (map (encode_char isdigit isalpha) s))"

text \<open>The inverse, as a reader of the encoding defines it: \<^verbatim>\<open>%\<close> and two hexadecimal digits.\<close>

fun URLDecode :: "string \<Rightarrow> string" where
  "URLDecode [] = []"
| "URLDecode [c] = [c]"
| "URLDecode [c, d] = c # URLDecode [d]"
| "URLDecode (c # d # e # s) =
     (if c = CHR ''%'' then char_of (16 * digit_val d + digit_val e) # URLDecode s
      else c # URLDecode (d # e # s))"

lemma hex_two: "16 \<le> n \<Longrightarrow> n < 256 \<Longrightarrow> hex n = [digit_char (n div 16), digit_char (n mod 16)]"
  by (simp add: render_step render_short)

lemma char_to_ushort_value:
  "unat (char_to_ushort c) = (if of_char c < (128::nat) then of_char c else of_char c + 65280)"
proof -
  have n: "(of_char c :: nat) < 256" by simp
  have "uint (word_of_int (char_value c) :: u16) = char_value c mod 65536"
    by (simp add: uint_word_of_int)
  also have "\<dots> = (if of_char c < (128::nat) then int (of_char c) else int (of_char c) + 65280)"
  proof (cases "of_char c < (128::nat)")
    case False
    have "(int (of_char c) - 256) mod 65536 = (int (of_char c) + 65280) mod 65536"
      unfolding mod_eq_dvd_iff by simp
    also have "\<dots> = int (of_char c) + 65280"
      using n by (intro mod_pos_pos_trivial) linarith+
    finally show ?thesis using False by (simp add: char_value_def)
  qed (use n in \<open>simp add: char_value_def\<close>)
  finally show ?thesis
    by (simp add: char_to_ushort_def unat_eq_nat_uint nat_add_distrib split: if_splits)
qed

lemma zero_char: "char_of (48::nat) = CHR ''0''"
  by code_simp

lemma hex_four:
  assumes "128 \<le> n" "n < 256"
  shows "hex (n + 65280) = hex 255 @ [digit_char (n div 16), digit_char (n mod 16)]"
proof -
  have a: "(n + 65280) div 16 = n div 16 + 4080" "(n + 65280) mod 16 = n mod 16"
    using div_mult_self2 [of 16 n 4080] mod_mult_self2 [of n 16 4080] by simp_all
  have b: "(n div 16 + 4080) div 16 = 255" "(n div 16 + 4080) mod 16 = n div 16"
    using div_mult_self2 [of 16 "n div 16" 255] mod_mult_self2 [of "n div 16" 16 255] assms by simp_all
  show ?thesis
    using a b by (simp add: render_step [of 16 "n + 65280"] render_step [of 16 "n div 16 + 4080"])
qed

text \<open>An encoded byte is a percent sign and the two hexadecimal digits of the byte.\<close>

lemma encoded_byte:
  defines "n \<equiv> \<lambda>c. of_char c :: nat"
  assumes "\<not> isdigit c" "\<not> isalpha c" "\<not> unreserved_mark c"
  shows "encode_char isdigit isalpha c = [CHR ''%'', digit_char (n c div 16), digit_char (n c mod 16)]"
proof -
  have n: "n c < 256" by (simp add: n_def)
  have low: ?thesis if "n c < 128"
  proof (cases "n c < 16")
    case True
    with that show ?thesis using assms(2-)
      by (simp add: encode_char_def hex_pad2_def char_to_ushort_value Let_def render_short n_def
          digit_char_def zero_char)
  next
    case False
    with that show ?thesis using assms(2-)
      by (simp add: encode_char_def hex_pad2_def char_to_ushort_value Let_def hex_two n_def)
  qed
  have "?thesis" if "\<not> n c < 128"
  proof -
    have "hex (n c + 65280) = hex 255 @ [digit_char (n c div 16), digit_char (n c mod 16)]"
      using that n by (intro hex_four) simp_all
    then show ?thesis using that assms(2-)
      by (simp add: encode_char_def hex_pad2_def char_to_ushort_value Let_def hex_two n_def)
  qed
  with low show ?thesis by blast
qed

lemma byte_digits: "(of_char c :: nat) div 16 < 16" "(of_char c :: nat) mod 16 < 16"
  using nat_of_char_less_256 [of c] less_mult_imp_div_less [of "of_char c" 16 16] by simp_all

lemma encode_char_plain:
  "isdigit c \<or> isalpha c \<or> unreserved_mark c \<Longrightarrow> encode_char isdigit isalpha c = [c]"
  by (auto simp: encode_char_def)

lemma URLDecode_plain: "c \<noteq> CHR ''%'' \<Longrightarrow> URLDecode (c # s) = c # URLDecode s"
  by (cases s; cases "tl s") auto

lemma URLDecode_encode_char:
  assumes "\<not> isdigit CHR ''%''" "\<not> isalpha CHR ''%''"
  shows "URLDecode (encode_char isdigit isalpha c @ s) = c # URLDecode s"
proof (cases "isdigit c \<or> isalpha c \<or> unreserved_mark c")
  case True
  then have "encode_char isdigit isalpha c = [c]" "c \<noteq> CHR ''%''"
    using assms by (auto simp: encode_char_def unreserved_mark_def)
  then show ?thesis by (simp add: URLDecode_plain)
next
  case False
  with byte_digits [of c] show ?thesis
    by (simp add: encoded_byte digit_val_char)
qed

lemma encode_char_range:
  "set (encode_char isdigit isalpha c) \<subseteq>
     {d. isdigit d \<or> isalpha d \<or> unreserved_mark d} \<union> {CHR ''%''} \<union> digit_char ` {0..<16}"
proof (cases "isdigit c \<or> isalpha c \<or> unreserved_mark c")
  case True
  then show ?thesis by (auto simp: encode_char_def)
next
  case False
  with byte_digits [of c] show ?thesis by (simp add: encoded_byte)
qed

lemma URLDecode_URLEncode:
  assumes "\<not> isdigit CHR ''%''" "\<not> isalpha CHR ''%''"
  shows "URLDecode (URLEncode (Some (isdigit, isalpha)) s) = s"
  by (induction s) (simp_all add: URLEncode_def URLDecode_encode_char [of isdigit isalpha, OF assms])

lemma URLEncode_range:
  "set (URLEncode (Some (isdigit, isalpha)) s) \<subseteq>
     {c. isdigit c \<or> isalpha c \<or> unreserved_mark c} \<union> {CHR ''%''} \<union> digit_char ` {0..<16}"
  unfolding URLEncode_def option.case prod.case set_concat set_map
  using encode_char_range [of isdigit isalpha] by blast

text \<open>Encoding a string for a URL loses nothing: in a locale whose letter and digit classes leave
  out the percent sign, decoding the result gives the string back, whatever bytes it holds, and
  the result consists of letters, digits, the four unreserved marks, and percent signs with
  (lower case) hexadecimal digits.\<close>

theorem URLEncode_roundtrip:
  assumes "\<not> isdigit CHR ''%''" "\<not> isalpha CHR ''%''"
  shows "URLDecode (URLEncode (Some (isdigit, isalpha)) s) = s \<and>
    set (URLEncode (Some (isdigit, isalpha)) s) \<subseteq>
      {c. isdigit c \<or> isalpha c \<or> unreserved_mark c} \<union> {CHR ''%''} \<union> digit_char ` {0..<16}"
  using URLDecode_URLEncode [of isdigit isalpha, OF assms] URLEncode_range by blast

theorem URLEncode_roundtrip_witness:
  "URLEncode (Some (ascii_digit, ascii_alpha)) [CHR ''a'', CHR '' '', CHR 0xE4] = ''a%20%e4'' \<and>
   URLDecode (URLEncode (Some (ascii_digit, ascii_alpha)) [CHR ''a'', CHR '' '', CHR 0xE4])
     = [CHR ''a'', CHR '' '', CHR 0xE4]"
proof
  show "URLEncode (Some (ascii_digit, ascii_alpha)) [CHR ''a'', CHR '' '', CHR 0xE4] = ''a%20%e4''"
    by (simp add: URLEncode_def encoded_byte encode_char_plain ascii_digit_def ascii_alpha_def
        unreserved_mark_def digit_char_def char_of_def bit_0)
  show "URLDecode (URLEncode (Some (ascii_digit, ascii_alpha)) [CHR ''a'', CHR '' '', CHR 0xE4])
     = [CHR ''a'', CHR '' '', CHR 0xE4]"
    using URLEncode_roundtrip [of ascii_digit ascii_alpha "[CHR ''a'', CHR '' '', CHR 0xE4]"]
    by (simp add: ascii_digit_def ascii_alpha_def)
qed

section \<open>parseURL and URLRequiresSSL\<close>

definition scheme_regex :: regex where
  "scheme_regex = Opt (Seq (Lit ''http'') (Seq (Opt (Cap 1 (Lit ''s''))) (Lit ''://'')))"

definition url_regex :: "char_class \<Rightarrow> char_class \<Rightarrow> regex" where
  "url_regex alnum digit =
     Seq scheme_regex
    (Seq (Cap 2 (Rep (\<lambda>c. alnum c \<or> c = CHR ''-'' \<or> c = CHR ''.'') 1 None))
    (Seq (Opt (Seq (Lit '':'') (Cap 3 (Rep digit 1 (Some 5)))))
         (Opt (Cap 4 (Rep dot 1 None)))))"

definition uri_regex :: regex where
  "uri_regex = Seq (Lit ''/'')
     (Seq (Star (Cap 1 (Seq (Rep (\<lambda>c. c \<noteq> CHR ''/'') 1 None) (Lit ''/'')))) (Cap 2 (Lazy dot)))"

definition ssl_regex :: regex where
  "ssl_regex = Seq scheme_regex (Opt (Cap 2 (Rep dot 1 None)))"

text \<open>The result, the host name (with its port), the URI and the flag for SSL.\<close>

definition parseURL :: "char_class \<Rightarrow> char_class \<Rightarrow> string \<Rightarrow> (bool \<times> string \<times> string \<times> bool) res" where
  "parseURL alnum digit URL =
    (case regex_match (url_regex alnum digit) URL of
       None \<Rightarrow> Inr (False, [], [], False)
     | Some groups \<Rightarrow>
         (let useSSL = (groups 1 \<noteq> None)
          in case groups 2 of
               None \<Rightarrow> Inl Assertion
             | Some host \<Rightarrow>
                 (let hostName = (case groups 3 of None \<Rightarrow> host | Some port \<Rightarrow> host @ '':'' @ port);
                      URI = (case groups 4 of None \<Rightarrow> ''/'' | Some uri \<Rightarrow> uri)
                  in case regex_match uri_regex URI of
                       None \<Rightarrow> Inr (False, hostName, URI, useSSL)
                     | Some _ \<Rightarrow> Inr (True, hostName, URI, useSSL))))"

definition URLRequiresSSL :: "string \<Rightarrow> bool" where
  "URLRequiresSSL URL =
    (case regex_match ssl_regex URL of None \<Rightarrow> False | Some groups \<Rightarrow> groups 1 \<noteq> None)"

lemma first_scheme:
  "first_run scheme_regex ((if ssl then ''https://'' else ''http://'') @ s)
     (if ssl then [(1, ''s'')] else [], s)"
  by (simp add: scheme_regex_def first_run_def)

lemma first_port:
  assumes "\<And>c. digit c \<Longrightarrow> c \<noteq> CHR ''/''"
    and "\<And>p. port = Some p \<Longrightarrow> list_all digit p \<and> p \<noteq> [] \<and> length p \<le> 5"
    and "path = [] \<or> hd path = CHR ''/''"
  shows "first_run (Opt (Seq (Lit '':'') (Cap 3 (Rep digit 1 (Some 5)))))
    ((case port of None \<Rightarrow> [] | Some p \<Rightarrow> '':'' @ p) @ path)
    (case port of None \<Rightarrow> [] | Some p \<Rightarrow> [(3, p)], path)"
proof (cases port)
  case None
  then show ?thesis
    using assms(3) by (cases path) (auto intro!: first_Opt_none)
next
  case (Some p)
  have "first_run (Rep digit 1 (Some 5)) (p @ path) ([], path)"
    using assms Some by (intro first_Rep) (auto simp: Suc_le_eq)
  from first_Opt [OF first_Seq [OF first_Lit [of "'':''"] first_Cap [OF this, of 3]]] show ?thesis
    using Some by simp
qed

lemma uri_regex_matches:
  assumes "list_all dot t"
  shows "regex_match uri_regex (CHR ''/'' # t) \<noteq> None"
proof -
  have star: "([], t) \<in> set (runs (Star a) t)" for a
    by (cases "length t") auto
  have "([], []) \<in> set (runs (Lazy dot) t)"
    using assms run_length_append [of dot t "[]"] by (auto simp: image_iff intro!: bexI [of _ "length t"])
  then have cap: "([(2, t)], []) \<in> set (runs (Cap 2 (Lazy dot)) t)"
    by force
  have lit: "([], t) \<in> set (runs (Lit ''/'') (CHR ''/'' # t))"
    by simp
  have "([] @ [] @ [(2, t)], []) \<in> set (runs uri_regex (CHR ''/'' # t))"
    unfolding uri_regex_def by (rule runs_Seq [OF lit runs_Seq [OF star cap]])
  then show ?thesis
    by (auto simp: regex_match_def find_None_iff)
qed

lemma uri_regex_slash: "regex_match uri_regex s \<noteq> None \<Longrightarrow> s \<noteq> [] \<and> hd s = CHR ''/''"
  by (cases s) (auto simp: regex_match_def uri_regex_def split: if_splits)

text \<open>An absolute URL is taken apart into its components: with the scheme, a host name, an optional
  port of one to five digits and an optional absolute path, \<open>parseURL\<close> succeeds, returns the
  host name with its port, the path (\<open>/\<close> when there is none) and whether the scheme is https,
  and \<open>URLRequiresSSL\<close> says the same of the scheme.\<close>

theorem parseURL_components:
  fixes ssl :: bool and port :: "string option"
  defines "tail \<equiv> (case port of None \<Rightarrow> [] | Some p \<Rightarrow> '':'' @ p)"
  assumes classes: "\<And>c. alnum c \<or> digit c \<Longrightarrow> dot c \<and> c \<noteq> CHR ''/'' \<and> c \<noteq> CHR '':''"
    and host: "host \<noteq> []" "list_all (\<lambda>c. alnum c \<or> c = CHR ''-'' \<or> c = CHR ''.'') host"
    and port: "\<And>p. port = Some p \<Longrightarrow> list_all digit p \<and> p \<noteq> [] \<and> length p \<le> 5"
    and path: "path = [] \<or> hd path = CHR ''/''" "list_all dot path"
  shows "parseURL alnum digit ((if ssl then ''https://'' else ''http://'') @ host @ tail @ path)
      = Inr (True, host @ tail, if path = [] then ''/'' else path, ssl)
    \<and> URLRequiresSSL ((if ssl then ''https://'' else ''http://'') @ host @ tail @ path) = ssl"
proof -
  let ?s = "host @ tail @ path" and ?ssl = "if ssl then [(1, ''s'')] else []"
  let ?port = "case port of None \<Rightarrow> [] | Some p \<Rightarrow> [(3, p)]"
  let ?path = "if path = [] then [] else [(4, path)]"
  have stop: "tail @ path = [] \<or> hd (tail @ path) \<in> {CHR ''/'', CHR '':''}"
    using path by (auto simp: tail_def split: option.splits)
  then have "tail @ path = [] \<or>
      \<not> (alnum (hd (tail @ path)) \<or> hd (tail @ path) = CHR ''-'' \<or> hd (tail @ path) = CHR ''.'')"
    using classes by force
  with host have "first_run (Rep (\<lambda>c. alnum c \<or> c = CHR ''-'' \<or> c = CHR ''.'') 1 None) ?s ([], tail @ path)"
    by (intro first_Rep) (auto simp: Suc_le_eq)
  from first_Cap [OF this]
  have host_run: "first_run (Cap 2 (Rep (\<lambda>c. alnum c \<or> c = CHR ''-'' \<or> c = CHR ''.'') 1 None)) ?s
      ([(2, host)], tail @ path)" .
  have port_run: "first_run (Opt (Seq (Lit '':'') (Cap 3 (Rep digit 1 (Some 5))))) (tail @ path) (?port, path)"
    using first_port [of digit port path] classes port path(1) by (auto simp: tail_def)
  obtain U where U: "U = (if ssl then ''https://'' else ''http://'') @ ?s" by simp
  have url: "regex_match (url_regex alnum digit) U =
      Some (map_of (rev (?ssl @ [(2, host)] @ ?port @ ?path)))"
    unfolding url_regex_def U
    by (intro first_match first_Seq [OF first_scheme] first_Seq [OF host_run] first_Seq [OF port_run]
        first_rest path(2))
  have "dot c" if "alnum c \<or> c = CHR ''-'' \<or> c = CHR ''.''" for c
    using that classes [of c] by (auto simp: dot_def)
  then have "list_all dot host"
    using host(2) by (auto simp: list_all_iff)
  moreover have "list_all dot tail"
  proof (cases port)
    case (Some p)
    then have "list_all digit p" using port by blast
    then have "list_all dot p" using classes by (simp add: list_all_iff)
    then show ?thesis using Some by (simp add: tail_def dot_def)
  qed (simp add: tail_def)
  ultimately have "list_all dot ?s" using path(2) by simp
  then have ssl_match: "regex_match ssl_regex U = Some (map_of (rev (?ssl @ [(2, ?s)])))"
    using first_rest [of ?s 2] host(1) unfolding ssl_regex_def U
    by (intro first_match first_Seq [OF first_scheme]) simp
  have uri: "regex_match uri_regex ''/'' \<noteq> None" "path \<noteq> [] \<Longrightarrow> regex_match uri_regex path \<noteq> None"
    using path uri_regex_matches [of "[]"] uri_regex_matches [of "tl path"] by (cases path; simp)+
  have "URLRequiresSSL U = ssl"
    by (simp add: URLRequiresSSL_def ssl_match)
  moreover have "parseURL alnum digit U = Inr (True, host @ tail, if path = [] then ''/'' else path, ssl)"
    unfolding parseURL_def url option.case using uri
    by (cases port; cases "path = []"; cases ssl) (auto simp: tail_def)
  ultimately show ?thesis
    by (simp add: U)
qed

lemma ascii_classes:
  "ascii_alpha c \<or> ascii_digit c \<Longrightarrow> dot c \<and> c \<noteq> CHR ''/'' \<and> c \<noteq> CHR '':''"
  by (auto simp: ascii_alpha_def ascii_digit_def dot_def)

theorem parseURL_components_witness:
  "parseURL (\<lambda>c. ascii_alpha c \<or> ascii_digit c) ascii_digit ''https://example.org:8080/a/b?c''
     = Inr (True, ''example.org:8080'', ''/a/b?c'', True)"
  using parseURL_components [of "\<lambda>c. ascii_alpha c \<or> ascii_digit c" ascii_digit "''example.org''"
      "Some ''8080''" "''/a/b?c''" True, OF ascii_classes]
  by (simp add: ascii_alpha_def ascii_digit_def dot_def)

end
