(* ===== verification/HTTP_Streamer.thy ===== *)
theory HTTP_Streamer
  imports HTTP_Tools Message_Block
begin

text \<open>
  The marshalling of HTTP records, \<^verbatim>\<open>HTTP_Module_Streamer_T::handleDataMessage\<close> in
  \<^verbatim>\<open>src/src/protocol/http/http_module_streamer.inl\<close>: the request or status line, the header
  fields in the order general, request or response, entity, and the content of a form.
\<close>

definition crlf :: string where "crlf = [CHR 0x0D, CHR 0x0A]"

definition HTTP_PRT_VERSION_STRING_PREFIX :: string where
  "HTTP_PRT_VERSION_STRING_PREFIX = ''HTTP/''"
definition HTTP_PRT_HEADER_CONTENT_LENGTH_STRING :: string where
  "HTTP_PRT_HEADER_CONTENT_LENGTH_STRING = ''Content-Length''"
definition HTTP_PRT_HEADER_CONTENT_TYPE_STRING :: string where
  "HTTP_PRT_HEADER_CONTENT_TYPE_STRING = ''Content-Type''"
definition HTTP_PRT_MIMETYPE_WWWURLENCODING_STRING :: string where
  "HTTP_PRT_MIMETYPE_WWWURLENCODING_STRING = ''application/x-www-form-urlencoded''"

section \<open>The parts of a message\<close>

text \<open>Each entry of the form with a trailing ampersand; the last one is erased afterwards.\<close>

definition form_entries :: "form \<Rightarrow> string" where
  "form_entries f = concat (map (\<lambda>(k, v). k @ ''='' @ v @ ''&'') f)"

text \<open>
  The request line, the content and the headers after the processing of the form. Erasing the
  last character of the empty content (a POST without form entries) has no defined behaviour.
\<close>

definition request_line :: "HTTP_Record \<Rightarrow> (string \<times> string \<times> headers) res" where
  "request_line r =
    (let start = MethodToString (http_method r) @ '' '' @ URI r;
         version_part = '' '' @ HTTP_PRT_VERSION_STRING_PREFIX @ VersionToString (version r)
     in case http_method r of
          HTTP_METHOD_GET \<Rightarrow>
            Inr (start @ (if form r = [] then [] else ''?'' @ butlast (form_entries (form r)))
                   @ version_part @ crlf, [], headers r)
        | HTTP_METHOD_POST \<Rightarrow>
            (if form_entries (form r) = [] then Inl Undefined_Behaviour
             else
               let content = butlast (form_entries (form r));
                   hs = map_put ci_less HTTP_PRT_HEADER_CONTENT_LENGTH_STRING (dec (length content)) (headers r);
                   hs' = map_put ci_less HTTP_PRT_HEADER_CONTENT_TYPE_STRING
                           HTTP_PRT_MIMETYPE_WWWURLENCODING_STRING hs
               in Inr (start @ version_part @ crlf, content, hs'))
        | _ \<Rightarrow> Inr (start @ crlf, [], headers r))"

definition status_line :: "HTTP_Record \<Rightarrow> string" where
  "status_line r =
    HTTP_PRT_VERSION_STRING_PREFIX @ VersionToString (version r) @ '' '' @ dec (status r) @ '' '' @
    StatusToReason (status r) @ crlf"

definition header_line :: "string \<times> string \<Rightarrow> string" where
  "header_line h = fst h @ '': '' @ snd h @ crlf"

definition headers_of_type :: "header_type \<Rightarrow> headers \<Rightarrow> headers" where
  "headers_of_type t hs = filter (\<lambda>h. isHeaderType (fst h) t) hs"

definition printed_headers :: "bool \<Rightarrow> headers \<Rightarrow> headers" where
  "printed_headers is_request hs =
     headers_of_type HTTP_HEADER_GENERAL hs
     @ headers_of_type (if is_request then HTTP_HEADER_REQUEST else HTTP_HEADER_RESPONSE) hs
     @ headers_of_type HTTP_HEADER_ENTITY hs"

definition header_block :: "bool \<Rightarrow> headers \<Rightarrow> string" where
  "header_block is_request hs = concat (map header_line (printed_headers is_request hs)) @ crlf"

text \<open>The text before the content, the content and the record as the handler leaves it.\<close>

definition http_parts :: "HTTP_Record \<Rightarrow> (string \<times> string \<times> HTTP_Record) res" where
  "http_parts r =
    (if isRequest r
     then bind_res (request_line r) (\<lambda>(line, content, hs).
            Inr (line @ header_block True hs, content, r\<lparr>headers := hs\<rparr>))
     else Inr (status_line r @ header_block False (headers r), [], r))"

section \<open>The handler\<close>

text \<open>
  \<open>append\<close>: check the space, copy. \<open>None\<close>: the message has been released, its pointer is NULL
  and the message is not passed on.
\<close>

definition append :: "('m, char) mb_ops \<Rightarrow> string \<Rightarrow> 'm \<Rightarrow> 'm option" where
  "append ops s m = (if mb_space ops m < length s then None else mb_copy ops s m)"

definition handleDataMessage ::
  "('m, char) mb_ops \<Rightarrow> HTTP_Record \<times> 'm \<Rightarrow> (HTTP_Record \<times> 'm option \<times> bool) res" where
  "handleDataMessage ops = (\<lambda>(r, m).
    if mb_length ops m \<noteq> 0 then Inl Assertion
    else bind_res (http_parts r) (\<lambda>(buffer, content, r').
      case append ops buffer m of
        None \<Rightarrow> Inr (r', None, False)
      | Some m1 \<Rightarrow>
          (if content = [] then Inr (r', Some m1, True)
           else case append ops content m1 of
                  None \<Rightarrow> Inr (r', None, False)
                | Some m2 \<Rightarrow> Inr (r', Some m2, True))))"

lemma append_fits:
  assumes "mb_laws ops contents" "length s \<le> mb_space ops m"
  shows "\<exists>m'. append ops s m = Some m' \<and> contents m' = contents m @ s
    \<and> mb_space ops m' = mb_space ops m - length s"
  using mb_copy_fits [OF assms] assms(2) by (metis append_def not_le)

lemma append_None: "mb_laws ops contents \<Longrightarrow> append ops s m = None \<longleftrightarrow> mb_space ops m < length s"
  using mb_copy_fits [of ops contents s m] by (auto simp: append_def not_less)

lemma form_entries_Nil: "form_entries f = [] \<longleftrightarrow> f = []"
  by (cases f) (auto simp: form_entries_def)

lemma http_streams:
  assumes "mb_laws ops contents" "contents m = []" "http_parts r = Inr (buffer, content, r')"
  shows "if length (buffer @ content) \<le> mb_space ops m
    then \<exists>m'. handleDataMessage ops (r, m) = Inr (r', Some m', True) \<and> contents m' = buffer @ content
    else handleDataMessage ops (r, m) = Inr (r', None, False)"
proof (cases "length buffer \<le> mb_space ops m")
  case False
  then show ?thesis
    using assms append_None [OF assms(1), of buffer m]
    by (simp add: handleDataMessage_def mb_length_contents)
next
  case True
  from append_fits [OF assms(1) this] obtain m1 where
    m1: "append ops buffer m = Some m1" "contents m1 = buffer" "mb_space ops m1 = mb_space ops m - length buffer"
    using assms(2) by auto
  show ?thesis
  proof (cases "length content \<le> mb_space ops m1")
    case fits: True
    then show ?thesis
      using append_fits [OF assms(1) fits] m1 assms True
      by (auto simp: handleDataMessage_def mb_length_contents)
  next
    case full: False
    then have "append ops content m1 = None" "content \<noteq> []"
      using append_None [OF assms(1)] by auto
    with full m1 assms True show ?thesis
      by (auto simp: handleDataMessage_def mb_length_contents)
  qed
qed

text \<open>C39: The handler is all or nothing: on an empty message block it either streams the header text and
  the content of the record, or, exactly when the block has no room for both of them, it
  releases the message and does not pass it on.\<close>

theorem http_stream_outcome:
  assumes "mb_laws ops contents" "contents m = []" "http_parts r = Inr (buffer, content, r')"
  shows "if length (buffer @ content) \<le> mb_space ops m
    then \<exists>m'. handleDataMessage ops (r, m) = Inr (r', Some m', True) \<and> contents m' = buffer @ content
    else handleDataMessage ops (r, m) = Inr (r', None, False)"
  by (rule http_streams [OF assms])

section \<open>What is printed\<close>

lemma printed_headers_set:
  "set (printed_headers is_request hs) =
     {h \<in> set hs. \<not> isHeaderType (fst h) (if is_request then HTTP_HEADER_RESPONSE else HTTP_HEADER_REQUEST)}"
proof -
  have "set (printed_headers is_request hs) =
     {h \<in> set hs. isHeaderType (fst h) HTTP_HEADER_GENERAL
        \<or> isHeaderType (fst h) (if is_request then HTTP_HEADER_REQUEST else HTTP_HEADER_RESPONSE)
        \<or> isHeaderType (fst h) HTTP_HEADER_ENTITY}"
    by (auto simp: printed_headers_def headers_of_type_def)
  also have "\<dots> = {h \<in> set hs. \<not> isHeaderType (fst h) (if is_request then HTTP_HEADER_RESPONSE else HTTP_HEADER_REQUEST)}"
    using header_classes_disjoint by (cases is_request) (simp_all add: entity_iff, blast+)
  finally show ?thesis .
qed

lemma distinct_classes:
  assumes "distinct xs" "\<And>h. \<not> (p h \<and> q h)" "\<And>h. r h \<longleftrightarrow> \<not> p h \<and> \<not> q h \<and> \<not> q' h"
  shows "distinct (filter p xs @ filter q xs @ filter r xs)"
  using assms by (induction xs) auto

lemma printed_headers_distinct: "distinct hs \<Longrightarrow> distinct (printed_headers is_request hs)"
  unfolding printed_headers_def headers_of_type_def
  by (rule distinct_classes [where q' = "\<lambda>h. isHeaderType (fst h)
        (if is_request then HTTP_HEADER_RESPONSE else HTTP_HEADER_REQUEST)"])
    (use header_classes_disjoint in \<open>auto simp: entity_iff\<close>)

fun form_text :: "form \<Rightarrow> string" where
  "form_text [] = []"
| "form_text [(k, v)] = k @ ''='' @ v"
| "form_text ((k, v) # x # xs) = k @ ''='' @ v @ ''&'' @ form_text (x # xs)"

lemma butlast_form_entries: "f \<noteq> [] \<Longrightarrow> butlast (form_entries f) = form_text f"
proof (induction f rule: form_text.induct)
  case (3 k v x xs)
  have "form_entries (x # xs) \<noteq> []" by (simp add: form_entries_Nil)
  moreover have "form_entries ((k, v) # x # xs) = (k @ ''='' @ v @ ''&'') @ form_entries (x # xs)"
    by (simp add: form_entries_def)
  ultimately show ?case using 3 by (simp add: butlast_append)
qed (auto simp: form_entries_def butlast_append)

text \<open>The start line as the code prints it, by kind of message.\<close>

definition start_line :: "HTTP_Record \<Rightarrow> string" where
  "start_line r =
    (case http_method r of
       HTTP_METHOD_GET \<Rightarrow> ''GET '' @ URI r @ (if form r = [] then [] else ''?'' @ form_text (form r))
         @ '' HTTP/'' @ VersionToString (version r)
     | HTTP_METHOD_POST \<Rightarrow> ''POST '' @ URI r @ '' HTTP/'' @ VersionToString (version r)
     | HTTP_METHOD_HEAD \<Rightarrow> ''HEAD '' @ URI r
     | _ \<Rightarrow> ''HTTP/'' @ VersionToString (version r) @ '' '' @ dec (status r) @ '' '' @ StatusToReason (status r))"

lemma http_parts_text:
  assumes "http_parts r = Inr (buffer, content, r')"
  shows "buffer = start_line r @ crlf @ header_block (isRequest r) (headers r')"
  using assms
  by (cases "http_method r")
    (auto simp: http_parts_def isRequest_def less_http_method_def request_line_def start_line_def
      status_line_def HTTP_PRT_VERSION_STRING_PREFIX_def Let_def butlast_form_entries split: if_splits)

text \<open>The text that is streamed for a record: one start line (with the form of a GET joined by
  ampersands; the line of a HEAD request ends after the URI, without a version), then each
  header field that does not belong to the opposite direction exactly once, then an empty line.\<close>

theorem http_parts_layout:
  assumes "http_parts r = Inr (buffer, content, r')" "distinct (headers r')"
  shows "\<exists>hs. buffer = start_line r @ crlf @ concat (map header_line hs) @ crlf \<and> distinct hs \<and>
    set hs = {h \<in> set (headers r'). \<not> isHeaderType (fst h)
      (if isRequest r then HTTP_HEADER_RESPONSE else HTTP_HEADER_REQUEST)}"
proof (intro exI conjI)
  show "buffer = start_line r @ crlf @ concat (map header_line (printed_headers (isRequest r) (headers r'))) @ crlf"
    using http_parts_text [OF assms(1)] by (simp add: header_block_def)
qed (simp_all add: printed_headers_set printed_headers_distinct assms(2))

lemma map_find_SomeD:
  "map_find lt k xs = Some v \<Longrightarrow> \<exists>k'. (k', v) \<in> set xs \<and> \<not> lt k k' \<and> \<not> lt k' k"
  by (induction lt k xs rule: map_find.induct) (auto split: if_splits)

lemmas ci_eval = ci_less_def folded_def c_str_def of_char_to_lower

lemma content_length_not_response:
  assumes "\<not> ci_less ''Content-Length'' k" "\<not> ci_less k ''Content-Length''"
  shows "\<not> isHeaderType k HTTP_HEADER_RESPONSE"
proof -
  have "ci_less ''Content-Length'' ''Location''" by (simp add: ci_eval)
  moreover have "ci_less ''Content-Length'' ''Server''" by (simp add: ci_eval)
  moreover have "ci_less ''Content-Length'' ''WWW-Authenticate''" by (simp add: ci_eval)
  ultimately show ?thesis using assms by (auto simp: isHeaderType.simps)
qed

text \<open>A POST announces its content: streaming a record with a form produces the entries of the form
  joined by ampersands as content, and among the printed header fields is one that equals
  \<open>Content-Length\<close> up to case and whose value, read as a decimal number, is the length of that
  content, whatever the record's headers said before.\<close>

theorem http_post_content_length:
  assumes "http_method r = HTTP_METHOD_POST" "form r \<noteq> []" "ordered ci_less (headers r)"
  shows "\<exists>buffer content r' k v. http_parts r = Inr (buffer, content, r')
    \<and> content = form_text (form r)
    \<and> (k, v) \<in> set (printed_headers True (headers r')) \<and> folded k = folded ''Content-Length''
    \<and> parse_base 10 v = length content"
proof -
  let ?content = "butlast (form_entries (form r))"
  let ?h1 = "map_put ci_less ''Content-Length'' (dec (length ?content)) (headers r)"
  let ?h2 = "map_put ci_less ''Content-Type'' ''application/x-www-form-urlencoded'' ?h1"
  have parts: "\<exists>buffer. http_parts r = Inr (buffer, ?content, r\<lparr>headers := ?h2\<rparr>)"
    using assms(1,2)
    by (simp add: http_parts_def isRequest_def less_http_method_def request_line_def form_entries_Nil
        Let_def HTTP_PRT_HEADER_CONTENT_LENGTH_STRING_def HTTP_PRT_HEADER_CONTENT_TYPE_STRING_def
        HTTP_PRT_MIMETYPE_WWWURLENCODING_STRING_def)
  have "ci_less ''Content-Length'' ''Content-Type''" by (simp add: ci_eval)
  then have "map_find ci_less ''Content-Length'' ?h2 = Some (dec (length ?content))"
    by (simp add: ci.find_put_other ci.find_map_put assms(3))
  then obtain k where k: "(k, dec (length ?content)) \<in> set ?h2"
      "\<not> ci_less ''Content-Length'' k" "\<not> ci_less k ''Content-Length''"
    by (blast dest: map_find_SomeD)
  have "folded k = folded ''Content-Length''"
    using k(2,3) nats_less_total [of "folded k" "folded ''Content-Length''"] by (auto simp: ci_less_def)
  moreover have "(k, dec (length ?content)) \<in> set (printed_headers True ?h2)"
    using k(1) content_length_not_response [OF k(2,3)] by (simp add: printed_headers_set)
  moreover obtain buffer where
    "http_parts r = Inr (buffer, ?content, r\<lparr>headers := ?h2\<rparr>)"
    using parts by blast
  ultimately show ?thesis
    using butlast_form_entries [OF assms(2)]
    by (intro exI [of _ buffer] exI [of _ ?content] exI [of _ "r\<lparr>headers := ?h2\<rparr>"] exI [of _ k]
        exI [of _ "dec (length ?content)"]) (simp add: parse_render)
qed

text \<open>The only record that cannot be streamed is a POST without form entries: its (empty) content is
  asked to drop its last character, which has no defined behaviour. Every other record,
  responses with unknown status codes included, has a text.\<close>

theorem http_parts_fault:
  "http_parts r = Inl e \<longleftrightarrow>
     http_method r = HTTP_METHOD_POST \<and> form r = [] \<and> e = Undefined_Behaviour"
  by (cases "http_method r")
    (auto simp: http_parts_def isRequest_def less_http_method_def request_line_def form_entries_Nil
      Let_def split: if_splits)

section \<open>Witnesses\<close>

definition post_record :: HTTP_Record where
  "post_record = new_HTTP_Record\<lparr>http_method := HTTP_METHOD_POST, URI := ''/a'', version := HTTP_VERSION_1_1,
     form := [(''k'', ''v''), (''x'', ''yz'')], headers := [(''content-length'', ''0'')]\<rparr>"

definition response_record :: HTTP_Record where
  "response_record = new_HTTP_Record\<lparr>version := HTTP_VERSION_1_0, status := 404,
     headers := [(''Date'', ''d''), (''From'', ''f''), (''Server'', ''s'')]\<rparr>"

lemma response_record_fields:
  "status response_record = 404" "http_method response_record = HTTP_METHOD_INVALID"
  "version response_record = HTTP_VERSION_1_0"
  "headers response_record = [(''Date'', ''d''), (''From'', ''f''), (''Server'', ''s'')]"
  by (simp_all add: response_record_def new_HTTP_Record_def)

lemma response_lines:
  "StatusToReason 404 = ''Not Found''" "dec 404 = ''404''"
  "printed_headers False (headers response_record) = [(''Date'', ''d''), (''Server'', ''s'')]"
  by (simp_all add: StatusToReason_def render_eval response_record_fields printed_headers_def
      headers_of_type_def isHeaderType.simps)

lemma response_parts:
  "http_parts response_record = Inr (''HTTP/1.0 404 Not Found'' @ crlf @ ''Date: d'' @ crlf @
     ''Server: s'' @ crlf @ crlf, [], response_record)"
  by (simp add: http_parts_def isRequest_def less_http_method_def status_line_def
      HTTP_PRT_VERSION_STRING_PREFIX_def header_block_def response_record_fields(1-3) response_lines
      header_line_def)

theorem http_stream_outcome_witness:
  "handleDataMessage bounded_block (response_record, (30, [])) = Inr (response_record, None, False)"
  using http_stream_outcome [OF bounded_block_laws _ response_parts, of "(30, [])"]
  by (simp add: crlf_def bounded_block_def)

theorem http_parts_layout_witness:
  "\<exists>hs. ''HTTP/1.0 404 Not Found'' @ crlf @ ''Date: d'' @ crlf @ ''Server: s'' @ crlf @ crlf
      = start_line response_record @ crlf @ concat (map header_line hs) @ crlf
    \<and> (''From'', ''f'') \<notin> set hs \<and> (''Server'', ''s'') \<in> set hs"
proof -
  have fields: "distinct (headers response_record)" "\<not> isRequest response_record"
    by (simp_all add: response_record_fields isRequest_def less_http_method_def)
  obtain hs where hs: "''HTTP/1.0 404 Not Found'' @ crlf @ ''Date: d'' @ crlf @ ''Server: s'' @ crlf @ crlf
      = start_line response_record @ crlf @ concat (map header_line hs) @ crlf"
    "set hs = {h \<in> set (headers response_record). \<not> isHeaderType (fst h) HTTP_HEADER_REQUEST}"
    using http_parts_layout [OF response_parts fields(1)] fields(2) by auto
  have "(''From'', ''f'') \<notin> set hs" "(''Server'', ''s'') \<in> set hs"
    unfolding hs(2) by (simp_all add: response_record_fields isHeaderType.simps)
  with hs(1) show ?thesis by blast
qed

theorem http_post_content_length_witness:
  "\<exists>buffer content r'. http_parts post_record = Inr (buffer, content, r') \<and> content = ''k=v&x=yz''"
  using http_post_content_length [of post_record]
  by (auto simp: post_record_def new_HTTP_Record_def)

end
