(* ===== verification/BitTorrent_Requests.thy ===== *)
theory BitTorrent_Requests
  imports BitTorrent_Tools HTTP_URL HTTP_Streamer
begin

text \<open>
  The HTTP requests to the tracker of a torrent: the announcement that
  \<^verbatim>\<open>BitTorrent_Control_T::request\<close> (\<^verbatim>\<open>src/src/protocol/p2p/bittorrent/bittorrent_control.inl\<close>) and the scrape that
  \<^verbatim>\<open>BitTorrent_Session_T::scrape\<close> (\<^verbatim>\<open>bittorrent_session.inl\<close>) put together from the meta information, and
  their text on the wire, across the tools of BitTorrent and HTTP and the streamer of HTTP.
\<close>

section \<open>The records\<close>

type_synonym url_locale = "(char_class \<times> char_class) option"

text \<open>\<open>agent\<close> is empty when the library is built without its configuration header.\<close>

definition request_headers :: "string \<Rightarrow> string \<Rightarrow> headers" where
  "request_headers agent hostname =
    (let hs0 = (if agent = [] then [] else map_insert ci_less ''User-Agent'' agent []);
         hs1 = map_insert ci_less ''Host'' hostname hs0;
         hs2 = map_insert ci_less ''Accept'' ''*/*'' hs1
     in map_insert ci_less ''Accept-Encoding'' ''gzip;q=1.0, deflate, identity'' hs2)"

text \<open>Host name and URI of the announce URL; \<open>None\<close> when it cannot be parsed.\<close>

definition announce_target :: "char_class \<Rightarrow> char_class \<Rightarrow> 'e bencoding_ops \<Rightarrow> 'e Bencoding_Dictionary
    \<Rightarrow> (string \<times> string) option res" where
  "announce_target alnum digit ops metaInfo =
    bind_res (as_string ops (find_key ''announce'' metaInfo)) (\<lambda>url.
    bind_res (parseURL alnum digit url) (\<lambda>(ok, hostname, uri, use_SSL).
    Inr (if ok then Some (hostname, uri) else None)))"

definition scrape_record :: "url_locale \<Rightarrow> 'e bencoding_ops \<Rightarrow> (string \<Rightarrow> u8 list) \<Rightarrow> string
    \<Rightarrow> 'e Bencoding_Dictionary \<Rightarrow> string \<Rightarrow> string \<Rightarrow> HTTP_Record res" where
  "scrape_record loc ops sha1 agent metaInfo hostname uri =
    bind_res (AnnounceURLToScrapeURL uri) (\<lambda>scrape_uri.
    bind_res (MetaInfoToInfoHash ops sha1 metaInfo) (\<lambda>hash.
    Inr (new_HTTP_Record\<lparr>URI := scrape_uri, http_method := HTTP_METHOD_GET, version := HTTP_VERSION_1_1,
      form := map_insert string_less ''info_hash'' (URLEncode loc hash) [],
      headers := request_headers agent hostname\<rparr>)))"

text \<open>\<open>ip\<close> is the external address, when it could be determined.\<close>

definition BITTORRENT_DEFAULT_PORT :: nat where "BITTORRENT_DEFAULT_PORT = 6881"
definition BITTORRENT_DEFAULT_TRACKER_REQUEST_NUMWANT_PEERS :: nat where
  "BITTORRENT_DEFAULT_TRACKER_REQUEST_NUMWANT_PEERS = 50"

definition request_record :: "url_locale \<Rightarrow> 'e bencoding_ops \<Rightarrow> (string \<Rightarrow> u8 list) \<Rightarrow> string
    \<Rightarrow> string option \<Rightarrow> string \<Rightarrow> 'e Bencoding_Dictionary \<Rightarrow> string \<Rightarrow> string \<Rightarrow> HTTP_Record res" where
  "request_record loc ops sha1 agent ip pid metaInfo hostname uri =
    bind_res (MetaInfoToInfoHash ops sha1 metaInfo) (\<lambda>hash.
    bind_res (MetaInfoToLength ops metaInfo) (\<lambda>len.
    let f0 = map_insert string_less ''info_hash'' (URLEncode loc hash) [];
        f1 = map_insert string_less ''peer_id'' (URLEncode loc pid) f0;
        f2 = map_insert string_less ''port'' (dec BITTORRENT_DEFAULT_PORT) f1;
        f3 = map_insert string_less ''uploaded'' (dec 0) f2;
        f4 = map_insert string_less ''left'' (dec (unat len)) f3;
        f5 = map_insert string_less ''compact'' (dec 1) f4;
        f6 = map_insert string_less ''event'' ''started'' f5;
        f7 = (case ip of None \<Rightarrow> f6 | Some a \<Rightarrow> map_insert string_less ''ip'' a f6);
        f8 = map_insert string_less ''numwant'' (dec BITTORRENT_DEFAULT_TRACKER_REQUEST_NUMWANT_PEERS) f7
    in Inr (new_HTTP_Record\<lparr>URI := uri, http_method := HTTP_METHOD_GET, version := HTTP_VERSION_1_1,
      form := f8, headers := request_headers agent hostname\<rparr>)))"

section \<open>Their text\<close>

lemma request_headers_list:
  "request_headers agent hostname = [(''Accept'', ''*/*''),
     (''Accept-Encoding'', ''gzip;q=1.0, deflate, identity''), (''Host'', hostname)]
     @ (if agent = [] then [] else [(''User-Agent'', agent)])"
  by (simp add: request_headers_def Let_def ci_less_def folded_def c_str_def of_char_to_lower)

lemma decimals: "dec 0 = ''0''" "dec 1 = ''1''" "dec 50 = ''50''" "dec 6881 = ''6881''"
  by (simp_all add: render_step render_short digit_char_def char_of_def bit_0)

lemma request_record_form:
  assumes "request_record loc ops sha1 agent ip pid metaInfo hostname uri = Inr r"
    "MetaInfoToInfoHash ops sha1 metaInfo = Inr hash" "MetaInfoToLength ops metaInfo = Inr len"
  shows "r = new_HTTP_Record\<lparr>URI := uri, http_method := HTTP_METHOD_GET, version := HTTP_VERSION_1_1,
      form := [(''compact'', ''1''), (''event'', ''started''), (''info_hash'', URLEncode loc hash)]
        @ (case ip of None \<Rightarrow> [] | Some a \<Rightarrow> [(''ip'', a)])
        @ [(''left'', dec (unat len)), (''numwant'', ''50''), (''peer_id'', URLEncode loc pid),
           (''port'', ''6881''), (''uploaded'', ''0'')],
      headers := request_headers agent hostname\<rparr>"
  using assms
  by (cases ip) (simp_all only: request_record_def Let_def decimals BITTORRENT_DEFAULT_PORT_def
      BITTORRENT_DEFAULT_TRACKER_REQUEST_NUMWANT_PEERS_def, simp_all add: string_less_def)

section \<open>Reading a query\<close>

text \<open>A reader of the query of a URI: the entries between ampersands, each a name and an encoded text.\<close>

fun split_at :: "char \<Rightarrow> string \<Rightarrow> string list" where
  "split_at c [] = [[]]"
| "split_at c (d # s) = (if d = c then [] # split_at c s
     else (case split_at c s of [] \<Rightarrow> [[d]] | t # ts \<Rightarrow> (d # t) # ts))"

definition parse_query :: "string \<Rightarrow> (string \<times> string) list" where
  "parse_query q = map (\<lambda>t. (takeWhile (\<lambda>c. c \<noteq> CHR ''='') t, URLDecode (tl (dropWhile (\<lambda>c. c \<noteq> CHR ''='') t))))
     (split_at CHR ''&'' q)"

lemma split_at_plain: "c \<notin> set s \<Longrightarrow> split_at c s = [s]"
  by (induction s) auto

lemma split_at_append: "c \<notin> set s \<Longrightarrow> split_at c (s @ c # t) = s # split_at c t"
  by (induction s) auto

definition plain_entry :: "string \<times> string \<Rightarrow> bool" where
  "plain_entry x \<longleftrightarrow> CHR ''&'' \<notin> set (fst x) \<and> CHR ''='' \<notin> set (fst x) \<and> CHR ''&'' \<notin> set (snd x)"

lemma entry_cut: "CHR ''='' \<notin> set k \<Longrightarrow> takeWhile (\<lambda>c. c \<noteq> CHR ''='') (k @ ''='' @ v) = k"
    "CHR ''='' \<notin> set k \<Longrightarrow> dropWhile (\<lambda>c. c \<noteq> CHR ''='') (k @ ''='' @ v) = ''='' @ v"
  by (induction k) auto

lemma parse_form_text:
  "f \<noteq> [] \<Longrightarrow> list_all plain_entry f \<Longrightarrow> parse_query (form_text f) = map (\<lambda>(k, v). (k, URLDecode v)) f"
proof (induction f rule: form_text.induct)
  case (2 k v)
  then have "split_at CHR ''&'' (k @ ''='' @ v) = [k @ ''='' @ v]"
    by (intro split_at_plain) (simp add: plain_entry_def)
  with 2 entry_cut [of k v] show ?case by (simp add: parse_query_def plain_entry_def)
next
  case (3 k v x xs)
  then have "split_at CHR ''&'' ((k @ ''='' @ v) @ CHR ''&'' # form_text (x # xs))
      = (k @ ''='' @ v) # split_at CHR ''&'' (form_text (x # xs))"
    by (intro split_at_append) (simp add: plain_entry_def)
  with 3 entry_cut [of k v] show ?case by (simp add: parse_query_def plain_entry_def)
qed simp

lemma URLDecode_unencoded: "CHR ''%'' \<notin> set s \<Longrightarrow> URLDecode s = s"
proof (induction s)
  case (Cons c s)
  then have "c \<noteq> CHR ''%''" "CHR ''%'' \<notin> set s" by auto
  with Cons.IH show ?case by (simp add: URLDecode_plain)
qed simp

text \<open>The characters of decimal numbers and encoded texts in the C locale.\<close>

lemma digit_char_code: "n < 16 \<Longrightarrow> (of_char (digit_char n) :: nat) = (if n < 10 then 48 + n else 87 + n)"
  by (simp add: digit_char_def)

lemma disjoint_mono: "A \<subseteq> A' \<Longrightarrow> B \<subseteq> B' \<Longrightarrow> A' \<inter> B' = {} \<Longrightarrow> A \<inter> B = {}"
  by blast

lemma digit_chars: "digit_char ` {0..<16} \<subseteq> {c. (of_char c :: nat) \<in> {48..57} \<union> {97..102}}"
  by (auto simp: digit_char_code split: if_splits)

lemma encoded_chars:
  "set (URLEncode (Some (ascii_digit, ascii_alpha)) s) \<inter> {CHR ''&'', CHR ''='', CHR '' ''} = {}"
proof -
  have "digit_char ` {0..<16} \<inter> {CHR ''&'', CHR ''='', CHR '' ''} = {}"
    by (rule disjoint_mono [OF digit_chars order_refl]) simp
  moreover have "{c. ascii_digit c \<or> ascii_alpha c \<or> unreserved_mark c} \<inter> {CHR ''&'', CHR ''='', CHR '' ''} = {}"
    by (auto simp: ascii_digit_def ascii_alpha_def unreserved_mark_def)
  ultimately show ?thesis
    by (intro disjoint_mono [OF URLEncode_range order_refl]) (simp only: Int_Un_distrib2, simp)
qed

lemma dec_unreserved: "set (dec n) \<inter> {CHR ''&'', CHR ''%''} = {}"
proof -
  have "digit_char ` {0..<10} \<subseteq> digit_char ` {0..<16}" by (intro image_mono) simp
  moreover have "digit_char ` {0..<16} \<inter> {CHR ''&'', CHR ''%''} = {}"
    by (rule disjoint_mono [OF digit_chars order_refl]) simp
  ultimately show ?thesis using render_chars [of 10 n] by (auto simp: lessThan_atLeast0)
qed

lemma http_parts_get:
  assumes "http_method r = HTTP_METHOD_GET" "form r \<noteq> []"
  shows "http_parts r = Inr (start_line r @ crlf @ header_block True (headers r), [], r)"
  using assms butlast_form_entries [OF assms(2)]
  by (cases r) (simp add: http_parts_def isRequest_def less_http_method_def request_line_def start_line_def
      HTTP_PRT_VERSION_STRING_PREFIX_def)

lemma start_line_get:
  assumes "http_method r = HTTP_METHOD_GET" "form r \<noteq> []" "version r = HTTP_VERSION_1_1"
  shows "start_line r = ''GET '' @ URI r @ ''?'' @ form_text (form r) @ '' HTTP/1.1''"
  using assms by (simp add: start_line_def)

lemma request_header_classes:
  "isHeaderType ''Accept'' t \<longleftrightarrow> t = HTTP_HEADER_ENTITY"
  "isHeaderType ''Accept-Encoding'' t \<longleftrightarrow> t = HTTP_HEADER_ENTITY"
  "isHeaderType ''Host'' t \<longleftrightarrow> t = HTTP_HEADER_ENTITY"
  "isHeaderType ''User-Agent'' t \<longleftrightarrow> t = HTTP_HEADER_REQUEST"
  by (cases t; simp add: isHeaderType.simps)+

lemma printed_request_headers:
  "printed_headers True (request_headers agent hostname) = (if agent = [] then [] else [(''User-Agent'', agent)])
    @ [(''Accept'', ''*/*''), (''Accept-Encoding'', ''gzip;q=1.0, deflate, identity''), (''Host'', hostname)]"
  by (cases "agent = []")
    (simp_all add: request_headers_list printed_headers_def headers_of_type_def request_header_classes)

lemma request_header_block:
  "header_block True (request_headers agent hostname)
      = (if agent = [] then [] else ''User-Agent: '' @ agent @ crlf)
        @ ''Accept: */*'' @ crlf @ ''Accept-Encoding: gzip;q=1.0, deflate, identity'' @ crlf
        @ ''Host: '' @ hostname @ crlf @ crlf"
  unfolding header_block_def printed_request_headers header_line_def by simp

lemma split_at_mark:
  "c \<notin> set w \<Longrightarrow> takeWhile (\<lambda>d. d \<noteq> c) (w @ c # t) = w \<and> tl (dropWhile (\<lambda>d. d \<noteq> c) (w @ c # t)) = t"
  by (induction w) auto

text \<open>C18: What the tracker is asked, in an ASCII locale, when the announce URI has no query of its own (it would get
  a second one): the request that is put together for a torrent is streamed as one GET line and the header
  fields; its target, split at the question mark, is the announce URI and a query, and reading the query back
  gives the parameters of the protocol: the info hash that MetaInfoToInfoHash computes (which ends at the
  first zero byte of the digest) and the peer id byte for byte, the length of the torrent as the rest that is
  left, the port, and the external address if it is known.\<close>

theorem tracker_request:
  assumes "request_record (Some (ascii_digit, ascii_alpha)) ops sha1 agent ip pid metaInfo hostname uri = Inr r"
    and "MetaInfoToInfoHash ops sha1 metaInfo = Inr hash" "MetaInfoToLength ops metaInfo = Inr len"
    and "pred_option (list_all (\<lambda>c. ascii_digit c \<or> c = CHR ''.'')) ip" "CHR ''?'' \<notin> set uri"
  shows "\<exists>buffer target. http_parts r = Inr (buffer, [], r)
    \<and> buffer = ''GET '' @ target @ '' HTTP/1.1'' @ crlf
        @ (if agent = [] then [] else ''User-Agent: '' @ agent @ crlf)
        @ ''Accept: */*'' @ crlf @ ''Accept-Encoding: gzip;q=1.0, deflate, identity'' @ crlf
        @ ''Host: '' @ hostname @ crlf @ crlf
    \<and> takeWhile (\<lambda>c. c \<noteq> CHR ''?'') target = uri
    \<and> parse_query (tl (dropWhile (\<lambda>c. c \<noteq> CHR ''?'') target)) =
        [(''compact'', ''1''), (''event'', ''started''), (''info_hash'', hash)]
        @ (case ip of None \<Rightarrow> [] | Some a \<Rightarrow> [(''ip'', a)])
        @ [(''left'', dec (unat len)), (''numwant'', ''50''), (''peer_id'', pid), (''port'', ''6881''),
           (''uploaded'', ''0'')]"
proof -
  let ?enc = "URLEncode (Some (ascii_digit, ascii_alpha))"
  note r = request_record_form [OF assms(1-3)]
  have fields: "headers r = request_headers agent hostname" "URI r = uri" "http_method r = HTTP_METHOD_GET"
    "version r = HTTP_VERSION_1_1" by (simp_all add: r)
  have f: "form r \<noteq> []" by (simp add: r)
  have ip: "CHR ''&'' \<notin> set a \<and> CHR ''%'' \<notin> set a" if "ip = Some a" for a
    using assms(4) that by (auto simp: list_all_iff ascii_digit_def)
  have plain: "list_all plain_entry (form r)"
    using ip encoded_chars [of hash] encoded_chars [of pid] dec_unreserved [of "unat len"]
    by (cases ip) (auto simp: r plain_entry_def)
  have dec: "URLDecode (?enc s) = s" for s
    by (rule URLDecode_URLEncode) (simp_all add: ascii_digit_def ascii_alpha_def)
  have "parse_query (form_text (form r)) = map (\<lambda>(k, v). (k, URLDecode v)) (form r)"
    by (rule parse_form_text [OF f plain])
  also have "\<dots> = [(''compact'', ''1''), (''event'', ''started''), (''info_hash'', hash)]
        @ (case ip of None \<Rightarrow> [] | Some a \<Rightarrow> [(''ip'', a)])
        @ [(''left'', dec (unat len)), (''numwant'', ''50''), (''peer_id'', pid), (''port'', ''6881''),
           (''uploaded'', ''0'')]"
    using ip dec_unreserved [of "unat len"] by (cases ip) (simp_all add: r dec URLDecode_unencoded)
  finally have query: "parse_query (form_text (form r)) = \<dots>" .
  have parts: "http_parts r = Inr (start_line r @ crlf @ header_block True (headers r), [], r)"
    by (rule http_parts_get [OF _ f]) (simp add: r)
  have block: "header_block True (headers r) = (if agent = [] then [] else ''User-Agent: '' @ agent @ crlf)
        @ ''Accept: */*'' @ crlf @ ''Accept-Encoding: gzip;q=1.0, deflate, identity'' @ crlf
        @ ''Host: '' @ hostname @ crlf @ crlf"
    using request_header_block [of agent hostname] by (simp only: fields)
  have line: "start_line r = ''GET '' @ uri @ ''?'' @ form_text (form r) @ '' HTTP/1.1''"
    using start_line_get [OF _ f] by (simp only: fields)
  let ?target = "uri @ ''?'' @ form_text (form r)"
  have cut: "takeWhile (\<lambda>c. c \<noteq> CHR ''?'') ?target = uri"
    "tl (dropWhile (\<lambda>c. c \<noteq> CHR ''?'') ?target) = form_text (form r)"
    using assms(5) split_at_mark [of "CHR ''?''" uri "form_text (form r)"] by simp_all
  show ?thesis
  proof (rule exI [of _ "start_line r @ crlf @ header_block True (headers r)"],
      rule exI [of _ ?target], intro conjI)
  qed (rule parts, simp only: line block append_assoc, rule cut(1), simp only: cut(2) query)
qed

text \<open>What a scrape asks for: the query carries the info hash byte for byte, but the URI is not the scrape
  URI of the tracker: from an announce URI the slash before \<open>announce\<close> is lost and its last letter stays,
  and from any other URI nothing is left.\<close>

theorem scrape_request:
  assumes "scrape_record (Some (ascii_digit, ascii_alpha)) ops sha1 agent metaInfo hostname uri = Inr r"
    and "MetaInfoToInfoHash ops sha1 metaInfo = Inr hash"
  shows "\<exists>buffer query target. http_parts r = Inr (buffer, [], r)
    \<and> buffer = ''GET '' @ target @ ''?'' @ query @ '' HTTP/1.1'' @ crlf
        @ header_block True (request_headers agent hostname)
    \<and> parse_query query = [(''info_hash'', hash)]
    \<and> (\<forall>before rest. announce_parts uri before rest \<longrightarrow> target = before @ ''scrapee'' @ rest)
    \<and> ((\<nexists>before rest. announce_parts uri before rest) \<longrightarrow> target = [])"
proof -
  let ?enc = "URLEncode (Some (ascii_digit, ascii_alpha))"
  obtain target where target: "AnnounceURLToScrapeURL uri = Inr target"
    using assms(1) by (auto simp: scrape_record_def bind_res_eq_Inr)
  then have r: "r = new_HTTP_Record\<lparr>URI := target, http_method := HTTP_METHOD_GET, version := HTTP_VERSION_1_1,
      form := [(''info_hash'', ?enc hash)], headers := request_headers agent hostname\<rparr>"
    using assms by (simp add: scrape_record_def)
  have fields: "headers r = request_headers agent hostname" "URI r = target" "http_method r = HTTP_METHOD_GET"
    "version r = HTTP_VERSION_1_1" "form r = [(''info_hash'', ?enc hash)]" by (simp_all add: r)
  have f: "form r \<noteq> []" by (simp add: fields)
  have "parse_query (form_text (form r)) = map (\<lambda>(k, v). (k, URLDecode v)) (form r)"
    using encoded_chars [of hash] by (intro parse_form_text [OF f]) (simp add: fields plain_entry_def)
  also have "\<dots> = [(''info_hash'', hash)]"
    using URLDecode_URLEncode [of ascii_digit ascii_alpha hash]
    by (simp add: fields ascii_digit_def ascii_alpha_def)
  finally have query: "parse_query (form_text (form r)) = \<dots>" .
  have parts: "http_parts r = Inr (start_line r @ crlf @ header_block True (headers r), [], r)"
    by (rule http_parts_get [OF fields(3) f])
  have line: "start_line r = ''GET '' @ target @ ''?'' @ form_text (form r) @ '' HTTP/1.1''"
    using start_line_get [OF fields(3) f fields(4)] by (simp only: fields)
  have known: "target = before @ ''scrapee'' @ rest" if "announce_parts uri before rest" for before rest
    using scrape_of_parts [OF that] target by simp
  have unknown: "target = []" if "\<nexists>before rest. announce_parts uri before rest"
    using that target supports_iff [of uri] by (simp add: AnnounceURLToScrapeURL_def)
  show ?thesis
  proof (rule exI [of _ "start_line r @ crlf @ header_block True (headers r)"],
      rule exI [of _ "form_text (form r)"], rule exI [of _ target], intro conjI)
  qed (rule parts, simp only: line fields(1) append_assoc, rule query, blast intro: known, blast intro: unknown)
qed

section \<open>An example\<close>

definition demo_announcement :: "(string \<times> bencoding) list" where
  "demo_announcement = (''announce'', Text ''http://example.org/announce'') # demo_torrent"

lemma demo_hash:
  "MetaInfoToInfoHash demo_bencoding (\<lambda>_. replicate 20 7) demo_announcement = Inr (string_of (replicate 20 7))"
  by (simp add: MetaInfoToInfoHash_def demo_announcement_def demo_torrent_def demo_bencoding_def as_dictionary_def
      c_string_def)

lemma demo_length: "MetaInfoToLength demo_bencoding demo_announcement = Inr 1024"
  by (simp add: MetaInfoToLength_def demo_announcement_def demo_torrent_def demo_bencoding_def as_dictionary_def
      as_list_def as_unsigned_def)

theorem tracker_request_witness:
  "\<exists>r buffer target. request_record (Some (ascii_digit, ascii_alpha)) demo_bencoding (\<lambda>_. replicate 20 7) [] None
      ''-LN0000-'' demo_announcement ''example.org'' ''/announce'' = Inr r
    \<and> http_parts r = Inr (buffer, [], r) \<and> takeWhile (\<lambda>c. c \<noteq> CHR ''?'') target = ''/announce''
    \<and> (''info_hash'', string_of (replicate 20 7)) \<in> set (parse_query (tl (dropWhile (\<lambda>c. c \<noteq> CHR ''?'') target)))"
proof -
  let ?r = "request_record (Some (ascii_digit, ascii_alpha)) demo_bencoding (\<lambda>_. replicate 20 7) [] None
      ''-LN0000-'' demo_announcement ''example.org'' ''/announce''"
  have "\<exists>r. ?r = Inr r" unfolding request_record_def demo_hash demo_length bind_res_simps Let_def by blast
  then obtain r where r: "?r = Inr r" by blast
  have "pred_option (list_all (\<lambda>c. ascii_digit c \<or> c = CHR ''.'')) None" "CHR ''?'' \<notin> set ''/announce''" by simp_all
  from tracker_request [OF r demo_hash demo_length this] obtain buffer target where
    t: "http_parts r = Inr (buffer, [], r)" "takeWhile (\<lambda>c. c \<noteq> CHR ''?'') target = ''/announce''"
    "parse_query (tl (dropWhile (\<lambda>c. c \<noteq> CHR ''?'') target))
      = [(''compact'', ''1''), (''event'', ''started''), (''info_hash'', string_of (replicate 20 7))]
        @ (case None of None \<Rightarrow> [] | Some a \<Rightarrow> [(''ip'', a)])
        @ [(''left'', dec (unat (1024 :: u32))), (''numwant'', ''50''), (''peer_id'', ''-LN0000-''), (''port'', ''6881''),
           (''uploaded'', ''0'')]" by blast
  have "(''info_hash'', string_of (replicate 20 7))
      \<in> set (parse_query (tl (dropWhile (\<lambda>c. c \<noteq> CHR ''?'') target)))"
    unfolding t(3) set_append list.set by blast
  then show ?thesis using r t(1,2) by blast
qed

theorem scrape_request_witness:
  "\<exists>r buffer. scrape_record (Some (ascii_digit, ascii_alpha)) demo_bencoding (\<lambda>_. replicate 20 7) []
      demo_announcement ''example.org'' ''/a/announce'' = Inr r
    \<and> http_parts r = Inr (buffer, [], r) \<and> take 14 buffer = ''GET /ascrapee?''"
proof -
  have parts: "announce_parts ''/a/announce'' ''/a'' []"
    by (simp add: announce_parts_def)
  obtain r where "scrape_record (Some (ascii_digit, ascii_alpha)) demo_bencoding (\<lambda>_. replicate 20 7) []
      demo_announcement ''example.org'' ''/a/announce'' = Inr r"
    by (simp add: scrape_record_def demo_hash scrape_of_parts [OF parts])
  note r = this
  from scrape_request [OF r demo_hash] obtain buffer query target where
    "http_parts r = Inr (buffer, [], r)" "buffer = ''GET '' @ target @ ''?'' @ query @ '' HTTP/1.1'' @ crlf
        @ header_block True (request_headers [] ''example.org'')"
    "\<forall>before rest. announce_parts ''/a/announce'' before rest \<longrightarrow> target = before @ ''scrapee'' @ rest" by blast
  then have "http_parts r = Inr (buffer, [], r)" "take 14 buffer = ''GET /ascrapee?''"
    using parts by auto
  with r show ?thesis by blast
qed

end
