(* ===== verification/DHCP_Record.thy ===== *)
theory DHCP_Record
  imports Std_Map Message_Block Net_Octets
begin

text \<open>
  The data of the DHCP component: \<^verbatim>\<open>DHCP_Record\<close> and the operation codes (\<^verbatim>\<open>dhcp_common.h\<close> and
  \<^verbatim>\<open>dhcp_codes.h\<close> under \<^verbatim>\<open>src/src/protocol/dhcp/\<close>), and the host whose byte order the code swaps.
\<close>

section \<open>The host\<close>

text \<open>
  The byte order of the host and the two swap macros of ACE (\<^verbatim>\<open>ACE_SWAP_WORD\<close>, \<^verbatim>\<open>ACE_SWAP_LONG\<close>),
  which reverse the octets of their argument.
\<close>

record host =
  little_endian :: bool
  SWAP_WORD :: "u16 \<Rightarrow> u16"
  SWAP_LONG :: "u32 \<Rightarrow> u32"

definition host_laws :: "host \<Rightarrow> bool" where
  "host_laws hs \<longleftrightarrow> (\<forall>w. octets 2 (SWAP_WORD hs w) = rev (octets 2 w))
    \<and> (\<forall>w. octets 4 (SWAP_LONG hs w) = rev (octets 4 w))"

text \<open>An integer as the bytes it takes in memory, and the value of bytes in memory.\<close>

definition in_memory :: "host \<Rightarrow> nat \<Rightarrow> 'w::len word \<Rightarrow> u8 list" where
  "in_memory hs n w = (if little_endian hs then rev (octets n w) else octets n w)"

definition from_memory :: "host \<Rightarrow> u8 list \<Rightarrow> 'w::len word" where
  "from_memory hs bs = word_of_nat (octets_value (if little_endian hs then rev bs else bs))"

definition swapped_long :: "host \<Rightarrow> u32 \<Rightarrow> u32" where
  "swapped_long hs w = (if little_endian hs then SWAP_LONG hs w else w)"

definition swapped_word :: "host \<Rightarrow> u16 \<Rightarrow> u16" where
  "swapped_word hs w = (if little_endian hs then SWAP_WORD hs w else w)"

lemma swapped_in_memory:
  assumes "host_laws hs"
  shows "in_memory hs 4 (swapped_long hs w) = octets 4 w"
    and "in_memory hs 2 (swapped_word hs v) = octets 2 v"
  using assms by (simp_all add: in_memory_def swapped_long_def swapped_word_def host_laws_def)

lemma length_in_memory [simp]: "length (in_memory hs n w) = n"
  by (simp add: in_memory_def)

text \<open>Two concrete hosts.\<close>

definition little_host :: host where
  "little_host = \<lparr>little_endian = True,
     SWAP_WORD = (\<lambda>w. word_of_nat (octets_value (rev (octets 2 w)))),
     SWAP_LONG = (\<lambda>w. word_of_nat (octets_value (rev (octets 4 w))))\<rparr>"

definition big_host :: host where
  "big_host = little_host\<lparr>little_endian := False\<rparr>"

lemma concrete_host_laws: "host_laws little_host" "host_laws big_host"
proof -
  have "octets 2 (word_of_nat (octets_value (rev (octets 2 w))) :: u16) = rev (octets 2 w)" for w :: u16
    using octets_of_value [of "rev (octets 2 w)", where 'w = 16] by simp
  moreover have "octets 4 (word_of_nat (octets_value (rev (octets 4 w))) :: u32) = rev (octets 4 w)" for w :: u32
    using octets_of_value [of "rev (octets 4 w)", where 'w = 32] by simp
  ultimately show "host_laws little_host" "host_laws big_host"
    by (simp_all add: host_laws_def little_host_def big_host_def)
qed

section \<open>The record\<close>

datatype DHCP_Op = DHCP_OP_REQUEST | DHCP_OP_REPLY | DHCP_OP_MAX | DHCP_OP_INVALID

fun op_value :: "DHCP_Op \<Rightarrow> u32" where
  "op_value DHCP_OP_REQUEST = 1"
| "op_value DHCP_OP_REPLY = 2"
| "op_value DHCP_OP_MAX = 3"
| "op_value DHCP_OP_INVALID = 4"

definition DHCP_MESSAGE_SIZE :: nat where "DHCP_MESSAGE_SIZE = 576"
definition DHCP_CHADDR_SIZE :: nat where "DHCP_CHADDR_SIZE = 16"
definition DHCP_SNAME_SIZE :: nat where "DHCP_SNAME_SIZE = 64"
definition DHCP_FILE_SIZE :: nat where "DHCP_FILE_SIZE = 128"
definition DHCP_MAGIC_COOKIE :: u32 where "DHCP_MAGIC_COOKIE = 0x63825363"
definition DHCP_OPTIONS_SIZE :: nat where "DHCP_OPTIONS_SIZE = 312"
definition DHCP_OPTION_TAG_PAD :: u8 where "DHCP_OPTION_TAG_PAD = 0"
definition DHCP_OPTION_TAG_END :: u8 where "DHCP_OPTION_TAG_END = 255"

type_synonym DHCP_Options = "(u8 \<times> string) list"

record DHCP_Record =
  operation :: DHCP_Op
  htype :: u8
  hlen :: u8
  hops :: u8
  xid :: u32
  secs :: u16
  flags :: u16
  ciaddr :: u32
  yiaddr :: u32
  siaddr :: u32
  giaddr :: u32
  chaddr :: "u8 list"
  sname :: string
  bootfile :: string
  cookie :: u32
  options :: DHCP_Options

text \<open>
  The fields are those of the C++ struct; \<open>operation\<close> and \<open>bootfile\<close> are its \<^verbatim>\<open>op\<close> and \<^verbatim>\<open>file\<close>.
  The constructor:
\<close>

definition new_DHCP_Record :: DHCP_Record where
  "new_DHCP_Record =
    \<lparr>operation = DHCP_OP_INVALID, htype = 0, hlen = 0, hops = 0, xid = 0, secs = 0, flags = 0,
     ciaddr = 0, yiaddr = 0, siaddr = 0, giaddr = 0, chaddr = replicate DHCP_CHADDR_SIZE 0,
     sname = [], bootfile = [], cookie = 0, options = []\<rparr>"

text \<open>
  What the types of the record guarantee: the array has its size and the map iterates in the
  order of its keys.
\<close>

interpretation u8_order: key_order "(<) :: u8 \<Rightarrow> u8 \<Rightarrow> bool"
  by unfold_locales (auto simp: not_less)

definition record_ok :: "DHCP_Record \<Rightarrow> bool" where
  "record_ok r \<longleftrightarrow> length (chaddr r) = DHCP_CHADDR_SIZE \<and> ordered (<) (options r)"

end
