(* ===== verification/BitTorrent_Session.thy ===== *)
theory BitTorrent_Session
  imports Net_Session BitTorrent_Streamer BitTorrent_Requests DHCP_Record
begin

text \<open>
  The session of a torrent (\<^verbatim>\<open>src/src/protocol/p2p/bittorrent/bittorrent_session.inl\<close>), which extends the
  session of \<open>Net_Session\<close>: it sends the handshake to each new peer, keeps the status of the peers and
  the id of the connection to the tracker, and tells the controller when the last connection is gone.
  Peers and tracker have a connection manager each.
\<close>

section \<open>State and environment\<close>

datatype BitTorrent_Event =
  BITTORRENT_EVENT_CANCELLED | BITTORRENT_EVENT_COMPLETE | BITTORRENT_EVENT_MAX | BITTORRENT_EVENT_INVALID

record peer_status =
  am_choking :: bool
  am_interested :: bool
  peer_choking :: bool
  peer_interested :: bool

definition new_peer_status :: peer_status where
  "new_peer_status = \<lparr>am_choking = True, am_interested = False, peer_choking = True, peer_interested = False\<rparr>"

text \<open>The configuration; of the pointers to controller and parser configuration it only matters whether they are NULL.\<close>

record ('cc, 'e) bt_configuration = "'cc session_configuration" +
  cfgController :: bool
  cfgParser :: bool
  cfgMetaInfo :: "'e Bencoding_Dictionary option"
  cfgMetaInfoFileName :: string
  cfgTrackerConnection :: "'cc option"
  cfgTrackerManager :: bool

record ('cc, 'e) bt_session = "'cc session" +
  btConfiguration :: "('cc, 'e) bt_configuration option"
  controller :: bool
  metaInfo :: "'e Bencoding_Dictionary option"
  metaInfoFileName :: string
  peerId :: string
  trackerKey :: string
  peerStatus :: "(u32 \<times> peer_status) list"
  trackerConnectionConfiguration :: "'cc option"
  trackerConnectionManager :: bool
  trackerConnectionId :: u32
  trackerRequestResponse :: "'e Bencoding_Dictionary option"
  trackerScrapeResponse :: "'e Bencoding_Dictionary option"

definition new_bt_session :: "string \<Rightarrow> ('cc, 'e) bt_session" where
  "new_bt_session generated = session.extend new_session
    \<lparr>btConfiguration = None, controller = False, metaInfo = None, metaInfoFileName = [], peerId = generated,
     trackerKey = [], peerStatus = [], trackerConnectionConfiguration = None, trackerConnectionManager = False,
     trackerConnectionId = 0, trackerRequestResponse = None, trackerScrapeResponse = None\<rparr>"

text \<open>\<open>handler_ok\<close>: whether the handler of the tracker stream initialises.\<close>

definition bt_initialize :: "bool \<Rightarrow> ('cc, 'e) bt_configuration \<Rightarrow> ('cc, 'e) bt_session
    \<Rightarrow> (bool \<times> ('cc, 'e) bt_session) res" where
  "bt_initialize handler_ok cfg sess =
    (if \<not> cfgController cfg \<or> \<not> cfgParser cfg \<or> cfgMetaInfo cfg = None then Inl Assertion
     else let sess1 = sess\<lparr>controller := True, metaInfo := cfgMetaInfo cfg,
            trackerConnectionConfiguration := cfgTrackerConnection cfg,
            trackerConnectionManager := cfgTrackerManager cfg, metaInfoFileName := cfgMetaInfoFileName cfg\<rparr>
          in if \<not> handler_ok then Inr (False, sess1)
             else Inr (session_initialize (session_configuration.truncate cfg) (sess1\<lparr>btConfiguration := Some cfg\<rparr>)))"

text \<open>
  The configuration that a connection manager hands to new connections, which the session changes
  while it connects: the address, the subscriber of the stream's notifications and the module at its end.
  Handlers and modules are numbered.
\<close>

record 'addr shared_configuration =
  peerAddress :: 'addr
  subscriber :: "nat option"
  cloneModule :: bool
  streamModule :: "nat option"

text \<open>
  What the session calls besides the environment of its base, for the peers and for the tracker: the
  configuration of the manager (\<open>None\<close>: a pointer or an entry is missing), whether a connection configuration has a
  message allocator and its configuration, the sending of a message (\<open>None\<close>: an exception) and the
  controller, whose exceptions are caught.
\<close>

record ('cc, 'addr, 'msg, 's) bt_env =
  get_conf :: "'s \<Rightarrow> 'addr shared_configuration option"
  set_conf :: "'addr shared_configuration \<Rightarrow> 's \<Rightarrow> 's"
  messageAllocator :: "'cc \<Rightarrow> bool"
  allocatorConfiguration :: "'cc \<Rightarrow> bool"
  send :: "conn \<Rightarrow> 'msg \<Rightarrow> 's \<Rightarrow> 's option"
  notify_controller :: "string \<Rightarrow> BitTorrent_Event \<Rightarrow> 's \<Rightarrow> 's res"

text \<open>
  The outcomes of the allocations of a call. The allocator of messages is asked again as long as it
  fails without being one that blocks; \<open>attempts\<close> are its answers, and \<open>None\<close> is a loop that goes on
  after all of them.
\<close>

record allocations =
  data_ok :: bool
  handshake_ok :: bool
  container_ok :: bool
  blocks :: bool
  attempts :: "bool list"

fun allocate_message :: "bool \<Rightarrow> bool list \<Rightarrow> bool option" where
  "allocate_message blocking [] = None"
| "allocate_message blocking (ok # rest) =
    (if ok then Some True else if blocking then Some False else allocate_message blocking rest)"

section \<open>Peers\<close>

text \<open>
  Handing a message to the connection with an id: when it is found and is a stream connection, and the message is
  accepted, the reference is given back; \<open>failed\<close> is what the error path does with a connection.
\<close>

definition send_message :: "('cc, 'addr, 's) session_env \<Rightarrow> (conn \<Rightarrow> 'msg \<Rightarrow> 's \<Rightarrow> 's option) \<Rightarrow> (conn \<Rightarrow> 's \<Rightarrow> 's res)
    \<Rightarrow> u32 \<Rightarrow> 'msg \<Rightarrow> 's \<Rightarrow> 's res" where
  "send_message e transmit failed i msg s =
    bind_res (look_id e i s) (\<lambda>(p, s1). case p of
      None \<Rightarrow> Inr s1
    | Some c \<Rightarrow>
        if \<not> is_stream e c then failed c s1
        else (case transmit c msg s1 of None \<Rightarrow> failed c s1 | Some s2 \<Rightarrow> release e c s2))"

definition peer_handshake :: "string \<Rightarrow> string \<Rightarrow> unit PeerMessageData" where
  "peer_handshake hash pid = \<lparr>handShakeRecord = Some \<lparr>pstr = ''BitTorrent protocol'',
     reserved = replicate BITTORRENT_PEER_HANDSHAKE_RESERVED_SIZE 0, info_hash = hash, peer_id = pid\<rparr>,
     peerRecord = None\<rparr>"

definition bt_connect_id :: "('cc, 'addr, 's) session_env \<Rightarrow> ('cc, 'addr, unit PeerMessageData, 's) bt_env
    \<Rightarrow> 'e bencoding_ops \<Rightarrow> (string \<Rightarrow> u8 list) \<Rightarrow> allocations \<Rightarrow> u32 \<Rightarrow> ('cc, 'e) bt_session \<Rightarrow> 's
    \<Rightarrow> (('cc, 'e) bt_session \<times> 's) res option" where
  "bt_connect_id e b bops sha1 a i sess s =
    (case (btConfiguration sess, Option.bind (btConfiguration sess) connectionConfiguration) of
       (Some cfg, Some cc) \<Rightarrow>
         if \<not> messageAllocator b cc \<or> \<not> sessionManager sess then Some (Inl Assertion)
         else (case session_connect_id i sess of
           Inl f \<Rightarrow> Some (Inl f)
         | Inr sess1 \<Rightarrow>
             let sess2 = sess1\<lparr>peerStatus := map_insert (<) i new_peer_status (peerStatus sess1)\<rparr>
             in if \<not> handshake_ok a then Some (Inr (sess2, s))
                else (case metaInfo sess2 of
                  None \<Rightarrow> Some (Inl Assertion)
                | Some d \<Rightarrow> (case MetaInfoToInfoHash bops sha1 d of
                    Inl f \<Rightarrow> Some (Inl f)
                  | Inr hash \<Rightarrow>
                      if \<not> data_ok a \<or> \<not> container_ok a then Some (Inr (sess2, s))
                      else if \<not> allocatorConfiguration b cc then Some (Inl Assertion)
                      else (case allocate_message (blocks a) (attempts a) of
                        None \<Rightarrow> None
                      | Some False \<Rightarrow> Some (Inr (sess2, s))
                      | Some True \<Rightarrow>
                          Some (bind_res
                            (send_message e (send b) (\<lambda>c s. release e c (close_conn e c s)) i
                              (peer_handshake hash (peerId sess2)) s)
                            (\<lambda>s'. Inr (sess2, s')))))))
     | _ \<Rightarrow> Some (Inl Assertion))"

text \<open>The end of a connection: the controller is told when no connection is left.\<close>

definition tell_controller :: "('cc, 'addr, 'msg, 's) bt_env \<Rightarrow> ('cc, 'e) bt_session \<Rightarrow> 's \<Rightarrow> 's res" where
  "tell_controller b sess s =
    (if sessionConnections sess = {} \<and> controller sess
     then (case notify_controller b (metaInfoFileName sess) BITTORRENT_EVENT_CANCELLED s of
             Inl Uncaught \<Rightarrow> Inr s
           | r \<Rightarrow> r)
     else Inr s)"

definition bt_disconnect_id :: "('cc, 'addr, 'msg, 's) bt_env \<Rightarrow> u32 \<Rightarrow> ('cc, 'e) bt_session \<Rightarrow> 's
    \<Rightarrow> (('cc, 'e) bt_session \<times> 's) res" where
  "bt_disconnect_id b i sess s =
    (let sess1 = session_disconnect_id i sess;
         sess2 = sess1\<lparr>peerStatus := map_erase (<) i (peerStatus sess1)\<rparr>
     in bind_res (tell_controller b sess2 s) (\<lambda>s'. Inr (sess2, s')))"

section \<open>The tracker\<close>

text \<open>The id 0 stands for no connection.\<close>

definition trackerConnect_id :: "u32 \<Rightarrow> ('cc, 'e) bt_session \<Rightarrow> ('cc, 'e) bt_session res" where
  "trackerConnect_id i sess =
    (if trackerConnectionId sess \<noteq> 0 then Inl Assertion
     else session_connect_id i (sess\<lparr>trackerConnectionId := i\<rparr>))"

definition trackerDisconnect_id :: "('cc, 'addr, 'msg, 's) bt_env \<Rightarrow> u32 \<Rightarrow> ('cc, 'e) bt_session \<Rightarrow> 's
    \<Rightarrow> (('cc, 'e) bt_session \<times> 's) res" where
  "trackerDisconnect_id b i sess s =
    (let sess1 = session_disconnect_id i sess
     in if trackerConnectionId sess1 \<noteq> i then Inl Assertion
        else let sess2 = sess1\<lparr>trackerConnectionId := 0\<rparr>
             in bind_res (tell_controller b sess2 s) (\<lambda>s'. Inr (sess2, s')))"

text \<open>Scraping: the message is sent on the connection to the tracker, which stays open on errors.\<close>

definition scrape :: "('cc, 'addr, 's) session_env \<Rightarrow> ('cc, 'addr, HTTP_Record, 's) bt_env
    \<Rightarrow> char_class \<Rightarrow> char_class \<Rightarrow> url_locale \<Rightarrow> 'e bencoding_ops \<Rightarrow> (string \<Rightarrow> u8 list) \<Rightarrow> string
    \<Rightarrow> allocations \<Rightarrow> ('cc, 'e) bt_session \<Rightarrow> 's \<Rightarrow> 's res option" where
  "scrape te tb alnum digit loc bops sha1 agent a sess s =
    (case (Option.bind (btConfiguration sess) cfgMetaInfo, trackerConnectionConfiguration sess) of
       (Some d, Some cc) \<Rightarrow>
         if \<not> messageAllocator tb cc \<or> \<not> trackerConnectionManager sess then Some (Inl Assertion)
         else if \<not> data_ok a then Some (Inr s)
         else (case announce_target alnum digit bops d of
           Inl f \<Rightarrow> Some (Inl f)
         | Inr None \<Rightarrow> Some (Inr s)
         | Inr (Some (hostname, uri)) \<Rightarrow>
             (case scrape_record loc bops sha1 agent d hostname uri of
               Inl f \<Rightarrow> Some (Inl f)
             | Inr r \<Rightarrow>
                 if \<not> container_ok a then Some (Inr s)
                 else (case Option.bind (btConfiguration sess) cfgTrackerConnection of
                   None \<Rightarrow> Some (Inl Assertion)
                 | Some cc' \<Rightarrow>
                     if \<not> allocatorConfiguration tb cc' then Some (Inl Assertion)
                     else (case allocate_message (blocks a) (attempts a) of
                       None \<Rightarrow> None
                     | Some False \<Rightarrow> Some (Inr s)
                     | Some True \<Rightarrow>
                         if trackerConnectionId sess = 0 then Some (Inl Assertion)
                         else Some (send_message te (send tb) (release te) (trackerConnectionId sess) r s)))))
     | _ \<Rightarrow> Some (Inl Assertion))"

section \<open>Connecting\<close>

text \<open>
  The session subscribes its handler and its module in the shared configuration, connects, and puts back
  what it found, in three steps.
\<close>

type_synonym saved_configuration = "nat option \<times> bool \<times> nat option"

definition subscribe :: "nat \<Rightarrow> nat option \<Rightarrow> 'addr \<Rightarrow> 'addr shared_configuration
    \<Rightarrow> saved_configuration \<times> 'addr shared_configuration" where
  "subscribe handler modl addr conf =
    ((subscriber conf, cloneModule conf, streamModule conf),
     conf\<lparr>peerAddress := addr, subscriber := Some handler, cloneModule := False, streamModule := modl\<rparr>)"

definition unsubscribe :: "saved_configuration \<Rightarrow> 'addr shared_configuration \<Rightarrow> 'addr shared_configuration" where
  "unsubscribe saved conf = (case saved of (sub, clone, modl) \<Rightarrow>
    conf\<lparr>subscriber := sub, cloneModule := clone, streamModule := modl\<rparr>)"

definition restore_conf :: "('cc, 'addr, 'msg, 's) bt_env \<Rightarrow> saved_configuration \<Rightarrow> 's \<Rightarrow> 's res" where
  "restore_conf b saved s =
    (case get_conf b s of None \<Rightarrow> Inl Assertion | Some conf \<Rightarrow> Inr (set_conf b (unsubscribe saved conf) s))"

definition bt_connect :: "('cc, 'addr, 's) session_env \<Rightarrow> ('cc, 'addr, unit PeerMessageData, 's) bt_env
    \<Rightarrow> ('s \<Rightarrow> 's) list \<Rightarrow> ('s \<Rightarrow> 's) list \<Rightarrow> nat \<Rightarrow> nat option \<Rightarrow> ('cc, 'e) bt_session \<Rightarrow> 'addr \<Rightarrow> 's \<Rightarrow> 's res" where
  "bt_connect e b polls waits handler modl sess addr s =
    (if \<not> sessionManager sess then session_connect e polls waits sess addr s
     else case get_conf b s of
       None \<Rightarrow> Inl Assertion
     | Some conf \<Rightarrow>
         let (saved, conf') = subscribe handler modl addr conf
         in bind_res (session_connect e polls waits sess addr (set_conf b conf' s)) (restore_conf b saved))"

text \<open>
  The tracker: the same steps, but the configuration must not have a subscriber or a module, and
  the error path only restores the configuration.
\<close>

definition tracker_link :: "('cc, 'addr, 's) session_env \<Rightarrow> ('s \<Rightarrow> 's) list \<Rightarrow> ('s \<Rightarrow> 's) list
    \<Rightarrow> ('cc, 'e) bt_session \<Rightarrow> 'addr \<Rightarrow> 's \<Rightarrow> 's res" where
  "tracker_link te polls waits sess addr s =
    (case trackerConnectionConfiguration sess of
       None \<Rightarrow> Inl Assertion
     | Some cc \<Rightarrow>
         let (ok, s1) = connector_initialize te cc s
         in if \<not> ok then Inr s1
            else let (handle, s2) = connector_connect te addr s1
                 in if handle = ACE_INVALID_HANDLE then Inr s2
                    else if \<not> trackerConnectionManager sess then Inl Undefined_Behaviour
                    else bind_res (if isAsynch sess then poll_address te addr polls s2 else look_id te handle s2)
                      (\<lambda>(p, s3). case p of
                         None \<Rightarrow> Inr s3
                       | Some c \<Rightarrow>
                           let (ready, s4) = wait_status te c waits s3
                           in if ready \<and> is_stream te c then release te c (wait_running te c s4) else Inr s4))"

definition trackerConnect :: "('cc, 'addr, 's) session_env \<Rightarrow> ('cc, 'addr, HTTP_Record, 's) bt_env
    \<Rightarrow> ('s \<Rightarrow> 's) list \<Rightarrow> ('s \<Rightarrow> 's) list \<Rightarrow> nat \<Rightarrow> nat option \<Rightarrow> ('cc, 'e) bt_session \<Rightarrow> 'addr \<Rightarrow> 's \<Rightarrow> 's res" where
  "trackerConnect te tb polls waits handler modl sess addr s =
    (if \<not> trackerConnectionManager sess then tracker_link te polls waits sess addr s
     else case get_conf tb s of
       None \<Rightarrow> Inl Assertion
     | Some conf \<Rightarrow>
         if subscriber conf \<noteq> None \<or> streamModule conf \<noteq> None then Inl Assertion
         else let (saved, conf') = subscribe handler modl addr conf
              in bind_res (tracker_link te polls waits sess addr (set_conf tb conf' s)) (restore_conf tb saved))"

section \<open>The answer of the tracker\<close>

text \<open>
  The compact form of the list of peers: four bytes of address and two of port each, in network byte
  order, which are read through pointers of the types of the integers. \<open>set_address\<close> is
  \<^verbatim>\<open>ACE_INET_Addr::set\<close> without encoding (\<open>None\<close>: -1).
\<close>

fun compact_peers :: "host \<Rightarrow> (u16 \<Rightarrow> u32 \<Rightarrow> 'addr option) \<Rightarrow> u8 list \<Rightarrow> 'addr list option" where
  "compact_peers hs set_address (a # b # c # d # p # q # bs) =
    (case set_address (from_memory hs [p, q]) (from_memory hs [a, b, c, d]) of
       None \<Rightarrow> None
     | Some addr \<Rightarrow> (case compact_peers hs set_address bs of None \<Rightarrow> None | Some addrs \<Rightarrow> Some (addr # addrs)))"
| "compact_peers hs set_address _ = Some []"

text \<open>What a response of the tracker makes of the session, and the peers that it then connects to.\<close>

definition notify_response :: "host \<Rightarrow> (u16 \<Rightarrow> u32 \<Rightarrow> 'addr option) \<Rightarrow> 'e bencoding_ops
    \<Rightarrow> 'e Bencoding_Dictionary \<Rightarrow> ('cc, 'e) bt_session \<Rightarrow> (('cc, 'e) bt_session \<times> 'addr list) res" where
  "notify_response hs set_address bops record sess =
    (if find_key ''files'' record \<noteq> None then Inr (sess\<lparr>trackerScrapeResponse := Some record\<rparr>, [])
     else let sess1 = sess\<lparr>trackerRequestResponse := Some record\<rparr>
          in bind_res (as_string bops (find_key ''peers'' record)) (\<lambda>peers.
             case compact_peers hs set_address (bytes_of peers) of
               None \<Rightarrow> Inr (sess1, [])
             | Some addrs \<Rightarrow> Inr (sess1, addrs)))"

section \<open>The bookkeeping of a session\<close>

text \<open>
  What can happen to a session: its connections come and go (with ids that are not 0, and only peers that
  came can go), the tracker answers, and the rest of the program changes the rest of the state.
\<close>

inductive bt_step :: "('cc, 'addr, 's) session_env \<Rightarrow> ('cc, 'addr, unit PeerMessageData, 's) bt_env
    \<Rightarrow> 'e bencoding_ops \<Rightarrow> (string \<Rightarrow> u8 list) \<Rightarrow> ('cc, 'e) bt_session \<times> 's \<Rightarrow> ('cc, 'e) bt_session \<times> 's \<Rightarrow> bool"
  for e :: "('cc, 'addr, 's) session_env" and b :: "('cc, 'addr, unit PeerMessageData, 's) bt_env"
    and bops :: "'e bencoding_ops" and sha1 :: "string \<Rightarrow> u8 list" where
  peer_up: "i \<noteq> 0 \<Longrightarrow> bt_connect_id e b bops sha1 a i sess s = Some (Inr (sess', s')) \<Longrightarrow>
    bt_step e b bops sha1 (sess, s) (sess', s')"
| peer_down: "i \<in> fst ` set (peerStatus sess) \<Longrightarrow> bt_disconnect_id b i sess s = Inr (sess', s') \<Longrightarrow>
    bt_step e b bops sha1 (sess, s) (sess', s')"
| tracker_up: "i \<noteq> 0 \<Longrightarrow> trackerConnect_id i sess = Inr sess' \<Longrightarrow> bt_step e b bops sha1 (sess, s) (sess', s)"
| tracker_down: "i \<noteq> 0 \<Longrightarrow> trackerDisconnect_id b i sess s = Inr (sess', s') \<Longrightarrow>
    bt_step e b bops sha1 (sess, s) (sess', s')"
| answer: "notify_response hs (set_address :: u16 \<Rightarrow> u32 \<Rightarrow> 'addr option) bops record sess = Inr (sess', addrs) \<Longrightarrow>
    bt_step e b bops sha1 (sess, s) (sess', s)"
| elsewhere: "bt_step e b bops sha1 (sess, s) (sess, s')"

inductive_cases bt_stepE: "bt_step e b bops sha1 (sess, s) (sess', s')"

inductive bt_reachable :: "('cc, 'addr, 's) session_env \<Rightarrow> ('cc, 'addr, unit PeerMessageData, 's) bt_env
    \<Rightarrow> 'e bencoding_ops \<Rightarrow> (string \<Rightarrow> u8 list) \<Rightarrow> ('cc, 'e) bt_session \<times> 's \<Rightarrow> bool"
  for e :: "('cc, 'addr, 's) session_env" and b :: "('cc, 'addr, unit PeerMessageData, 's) bt_env"
    and bops :: "'e bencoding_ops" and sha1 :: "string \<Rightarrow> u8 list" where
  bt_start: "bt_initialize ok cfg (new_bt_session pid) = Inr (r, sess) \<Longrightarrow> bt_reachable e b bops sha1 (sess, s)"
| bt_more: "bt_reachable e b bops sha1 x \<Longrightarrow> bt_step e b bops sha1 x y \<Longrightarrow> bt_reachable e b bops sha1 y"

definition bt_ok :: "('cc, 'e) bt_session \<Rightarrow> bool" where
  "bt_ok sess \<longleftrightarrow> finite (sessionConnections sess) \<and> 0 \<notin> sessionConnections sess
     \<and> fst ` set (peerStatus sess) = sessionConnections sess - {trackerConnectionId sess}
     \<and> (trackerConnectionId sess \<noteq> 0 \<longrightarrow> trackerConnectionId sess \<in> sessionConnections sess)
     \<and> ordered (<) (peerStatus sess)"

interpretation u32_order: key_order "(<) :: u32 \<Rightarrow> u32 \<Rightarrow> bool"
  by unfold_locales auto

lemma ordered_map_erase: "ordered lt xs \<Longrightarrow> ordered lt (map_erase lt k xs)"
  by (induction xs) (auto simp: map_erase_def)

lemma session_connect_id_Inr:
  "session_connect_id i sess = Inr sess' \<longleftrightarrow>
    i \<notin> sessionConnections sess \<and> sess' = sess\<lparr>sessionConnections := insert i (sessionConnections sess)\<rparr>"
  by (auto simp: session_connect_id_def)

lemma bt_connect_id_session:
  assumes "bt_connect_id e b bops sha1 a i sess s = Some (Inr (sess', s'))"
  shows "i \<notin> sessionConnections sess
    \<and> sess' = sess\<lparr>sessionConnections := insert i (sessionConnections sess),
        peerStatus := map_insert (<) i new_peer_status (peerStatus sess)\<rparr>"
  using assms
  by (auto simp: bt_connect_id_def session_connect_id_Inr bind_res_eq_Inr Let_def
      split: option.splits sum.splits if_splits bool.splits)

lemma bt_disconnect_id_session:
  "bt_disconnect_id b i sess s = Inr (sess', s') \<Longrightarrow>
    sess' = sess\<lparr>sessionConnections := sessionConnections sess - {i},
      peerStatus := map_erase (<) i (peerStatus sess)\<rparr>"
  by (auto simp: bt_disconnect_id_def session_disconnect_id_def bind_res_eq_Inr Let_def)

lemma trackerDisconnect_id_session:
  "trackerDisconnect_id b i sess s = Inr (sess', s') \<Longrightarrow> trackerConnectionId sess = i
    \<and> sess' = sess\<lparr>sessionConnections := sessionConnections sess - {i}, trackerConnectionId := 0\<rparr>"
  by (auto simp: trackerDisconnect_id_def session_disconnect_id_def bind_res_eq_Inr Let_def split: if_splits)

lemma notify_response_session:
  "notify_response hs set_address bops record sess = Inr (sess', addrs) \<Longrightarrow>
    sessionConnections sess' = sessionConnections sess \<and> peerStatus sess' = peerStatus sess
    \<and> trackerConnectionId sess' = trackerConnectionId sess"
  by (auto simp: notify_response_def bind_res_eq_Inr Let_def split: if_splits option.splits)

lemma bt_step_ok: "bt_step e b bops sha1 (sess, s) (sess', s') \<Longrightarrow> bt_ok sess \<Longrightarrow> bt_ok sess'"
proof (erule bt_stepE)
  fix i a assume i: "i \<noteq> 0" "bt_connect_id e b bops sha1 a i sess s = Some (Inr (sess', s'))" and ok: "bt_ok sess"
  from bt_connect_id_session [OF i(2)] i(1) ok show "bt_ok sess'"
    by (auto simp: bt_ok_def keys_map_insert u32_order.ordered_map_insert)
next
  fix i assume "i \<in> fst ` set (peerStatus sess)" "bt_disconnect_id b i sess s = Inr (sess', s')" and ok: "bt_ok sess"
  with bt_disconnect_id_session [of b i sess s sess' s'] show "bt_ok sess'"
    by (auto simp: bt_ok_def keys_map_erase ordered_map_erase)
next
  fix i assume i: "i \<noteq> 0" "trackerConnect_id i sess = Inr sess'" and ok: "bt_ok sess"
  then have "sess' = sess\<lparr>trackerConnectionId := i, sessionConnections := insert i (sessionConnections sess)\<rparr>"
    "trackerConnectionId sess = 0" "i \<notin> sessionConnections sess"
    by (auto simp: trackerConnect_id_def session_connect_id_Inr split: if_splits)
  with i(1) ok show "bt_ok sess'" by (auto simp: bt_ok_def)
next
  fix i assume "i \<noteq> 0" "trackerDisconnect_id b i sess s = Inr (sess', s')" and ok: "bt_ok sess"
  with trackerDisconnect_id_session [of b i sess s sess' s'] show "bt_ok sess'" by (auto simp: bt_ok_def)
next
  fix hs set_address d addrs
  assume "notify_response hs set_address bops d sess = Inr (sess', addrs)" and "bt_ok sess"
  with notify_response_session [of hs set_address bops d sess sess' addrs] show "bt_ok sess'"
    by (simp add: bt_ok_def)
qed simp

lemma bt_initialize_fields:
  "bt_initialize ok cfg (new_bt_session pid) = Inr (r, sess) \<Longrightarrow>
    sessionConnections sess = {} \<and> peerStatus sess = [] \<and> trackerConnectionId sess = 0"
  by (auto simp: bt_initialize_def new_bt_session_def new_session_def session_initialize_def session.defs Let_def
      split: if_splits)

lemma bt_reachable_ok: "bt_reachable e b bops sha1 x \<Longrightarrow> bt_ok (fst x)"
proof (induction rule: bt_reachable.induct)
  case (bt_start ok cfg pid r sess s)
  then show ?case using bt_initialize_fields [OF bt_start] by (simp add: bt_ok_def)
next
  case (bt_more x y)
  then show ?case by (cases x; cases y) (simp add: bt_step_ok)
qed

text \<open>C19: In every reachable state of a session the three records of its connections agree: the ids are those
  of the peers with a status and, when there is one, that of the tracker, which is not a peer; no
  status is left behind for a connection that is gone.\<close>

theorem bt_session_invariant:
  assumes "bt_reachable e b bops sha1 (sess, s)"
  shows "sessionConnections sess = fst ` set (peerStatus sess)
      \<union> (if trackerConnectionId sess = 0 then {} else {trackerConnectionId sess})
    \<and> trackerConnectionId sess \<notin> fst ` set (peerStatus sess) \<and> distinct (map fst (peerStatus sess))"
proof -
  have ok: "bt_ok sess" using bt_reachable_ok [OF assms] by simp
  then have "sessionConnections sess = fst ` set (peerStatus sess)
      \<union> (if trackerConnectionId sess = 0 then {} else {trackerConnectionId sess})"
    "trackerConnectionId sess \<notin> fst ` set (peerStatus sess)" by (auto simp: bt_ok_def)
  moreover have "distinct (map fst xs)" if "ordered (<) (xs :: (u32 \<times> peer_status) list)" for xs
    using that by (induction xs) auto
  ultimately show ?thesis using ok by (simp add: bt_ok_def)
qed

section \<open>References\<close>

definition send_keeps :: "('h \<Rightarrow> conn \<Rightarrow> nat) \<Rightarrow> (conn \<Rightarrow> 'msg
    \<Rightarrow> ('cfg, 'ud, 'time, 'h) manager \<Rightarrow> ('cfg, 'ud, 'time, 'h) manager option) \<Rightarrow> bool" where
  "send_keeps refs transmit \<longleftrightarrow>
    (\<forall>c msg own m m'. transmit c msg m = Some m' \<longrightarrow> balanced refs own m \<longrightarrow> balanced refs own m')"

lemma send_message_balanced:
  assumes "counting ops refs" "balanced refs own m" "i \<noteq> ACE_INVALID_HANDLE" "send_keeps refs transmit"
    and "\<And>c own m. balanced refs own m \<Longrightarrow> 0 < own c \<Longrightarrow> \<exists>m'. failed c m = Inr m' \<and> balanced refs (own(c := own c - 1)) m'"
  shows "\<exists>m'. send_message (on_manager ops e) transmit failed i msg m = Inr m' \<and> balanced refs own m'"
proof -
  obtain p m1 where look: "get_by_id ops i m = Inr (p, m1)"
    using get_by_id_valid [OF assms(1,3)] by blast
  show ?thesis
  proof (cases p)
    case None
    with look assms(2) by_id.look_none [of ops i m m1] show ?thesis
      by (simp add: send_message_def on_manager_def)
  next
    case (Some c)
    let ?own = "own(c := Suc (own c))"
    have b1: "balanced refs ?own m1" using look Some by (intro by_id.look_some [OF assms(1,2)]) simp
    then obtain mf where f: "failed c m1 = Inr mf" "balanced refs own mf"
      using assms(5) [of ?own m1 c] by auto
    show ?thesis
    proof (cases "if is_stream e c then transmit c msg m1 else None")
      case None
      with look Some f show ?thesis by (auto simp: send_message_def on_manager_def split: if_splits)
    next
      case t: (Some m2)
      then have "balanced refs ?own m2" using assms(4) b1 by (auto simp: send_keeps_def split: if_splits)
      from balanced_release [OF assms(1) this, of c] look Some t show ?thesis
        by (auto simp: send_message_def on_manager_def split: if_splits)
    qed
  qed
qed

lemma info_hash_assertion: "MetaInfoToInfoHash bops sha1 d = Inl f \<Longrightarrow> f = Assertion"
  by (auto simp: MetaInfoToInfoHash_def as_dictionary_def split: option.splits if_splits)

definition abandon :: "('cc, 'addr, 's) session_env \<Rightarrow> conn \<Rightarrow> 's \<Rightarrow> 's res" where
  "abandon e c s = release e c (close_conn e c s)"

lemma bt_connect_id_outcome:
  "bt_connect_id e b bops sha1 a i sess s = None \<Longrightarrow> allocate_message (blocks a) (attempts a) = None"
  "bt_connect_id e b bops sha1 a i sess s = Some (Inl f) \<Longrightarrow>
    f = Assertion \<or> (\<exists>msg. send_message e (send b) (abandon e) i msg s = Inl f)"
  "bt_connect_id e b bops sha1 a i sess s = Some (Inr (sess', s')) \<Longrightarrow>
    s' = s \<or> (\<exists>msg. send_message e (send b) (abandon e) i msg s = Inr s')"
  unfolding bt_connect_id_def abandon_def [abs_def] Let_def
  by (auto simp: session_connect_id_def bind_res_def dest: info_hash_assertion
      split: option.splits sum.splits if_splits bool.splits)

lemma allocate_message_None: "allocate_message blocking answers = None \<Longrightarrow> True \<notin> set answers"
  by (induction blocking answers rule: allocate_message.induct) (auto split: if_splits)

text \<open>C20: The handshake leaks no reference and no exception: when a connection appears, then whatever fails on the way
  to sending the handshake - an allocation, the lookup, the cast, the sending, after which the
  connection is closed - the reference that the lookup handed out is given back, and the only
  fault is a failed assertion. It goes on forever only if no message is ever allocated.\<close>

theorem handshake_references:
  assumes "counting ops refs" "\<forall>c. keeps refs (close_conn e c)" "send_keeps refs (send b)"
    and "balanced refs own m" "i \<noteq> ACE_INVALID_HANDLE"
  shows "case bt_connect_id (on_manager ops e) b bops sha1 a i sess m of
      None \<Rightarrow> True \<notin> set (attempts a)
    | Some (Inl f) \<Rightarrow> f = Assertion
    | Some (Inr (sess', m')) \<Rightarrow> balanced refs own m'"
proof -
  let ?e = "on_manager ops e"
  have "\<exists>m'. abandon ?e c m = Inr m' \<and> balanced refs (own(c := own c - 1)) m'"
    if "balanced refs own m" "0 < own c" for c own m
  proof -
    have "balanced refs own (close_conn e c m)" using assms(2) that(1) by (blast dest: keepsD)
    from balanced_release [OF assms(1) this that(2)] show ?thesis by (simp add: abandon_def on_manager_def)
  qed
  from send_message_balanced [OF assms(1,4,5,3) this] have sent:
    "\<exists>m'. send_message ?e (send b) (abandon ?e) i msg m = Inr m' \<and> balanced refs own m'" for msg .
  show ?thesis
  proof (cases "bt_connect_id ?e b bops sha1 a i sess m")
    case None
    from allocate_message_None [OF bt_connect_id_outcome(1) [OF this]] None show ?thesis by simp
  next
    case (Some r)
    show ?thesis
    proof (cases r)
      case (Inl f)
      with Some have run: "bt_connect_id ?e b bops sha1 a i sess m = Some (Inl f)" by simp
      from bt_connect_id_outcome(2) [OF this] have "f = Assertion"
      proof (elim disjE exE)
        fix msg assume "send_message ?e (send b) (abandon ?e) i msg m = Inl f"
        with sent [of msg] show ?thesis by simp
      qed
      with run show ?thesis by simp
    next
      case (Inr x)
      then obtain sess' m' where run: "bt_connect_id ?e b bops sha1 a i sess m = Some (Inr (sess', m'))"
        using Some by (cases x) simp
      from bt_connect_id_outcome(3) [OF this] have "balanced refs own m'"
      proof (elim disjE exE)
        fix msg assume "send_message ?e (send b) (abandon ?e) i msg m = Inr m'"
        with sent [of msg] show ?thesis by simp
      qed (simp add: assms(4))
      with run show ?thesis by simp
    qed
  qed
qed

lemma wait_status_True: "fst (wait_status e c fs s) \<Longrightarrow> \<exists>s'. status_ok e s' c"
  by (induction fs arbitrary: s) (auto split: if_splits)

text \<open>Connecting to the tracker leaks a reference: when the connection is found but does not come up before
  the deadline, or is not a stream connection, the error path forgets the reference that the lookup
  handed out (and does not close the connection), unlike the connecting of a peer.\<close>

theorem tracker_link_leaks:
  assumes "counting ops refs" "orderly refs te" "\<forall>f \<in> set waits. keeps refs f" "balanced refs own m"
    and "trackerConnectionConfiguration sess = Some cc" "trackerConnectionManager sess" "\<not> isAsynch sess"
    and "connector_initialize te cc m = (True, m1)" "connector_connect te addr m1 = (handle, m2)"
    and "handle \<noteq> ACE_INVALID_HANDLE" "get_by_id ops handle m2 = Inr (Some c, m3)"
    and "\<forall>m. \<not> (status_ok te m c \<and> is_stream te c)"
  shows "\<exists>m'. tracker_link (on_manager ops te) polls waits sess addr m = Inr m'
    \<and> balanced refs (own(c := Suc (own c))) m'"
proof -
  let ?e = "on_manager ops te" and ?own = "own(c := Suc (own c))"
  have "balanced refs own m1"
    using assms(2,4,8) keepsD [of refs "\<lambda>m. snd (connector_initialize te cc m)" own m] by (simp add: orderly_def)
  then have "balanced refs own m2"
    using assms(2,9) keepsD [of refs "\<lambda>m. snd (connector_connect te addr m)" own m1] by (simp add: orderly_def)
  from by_id.look_some [OF assms(1) this assms(11)] have b3: "balanced refs ?own m3" .
  obtain ready m4 where wait: "wait_status ?e c waits m3 = (ready, m4)" by fastforce
  have b4: "balanced refs ?own m4"
    using wait_status_balanced [OF assms(3) b3, of ?e c] wait by simp
  have "ready \<Longrightarrow> \<exists>m. status_ok te m c"
    using wait_status_True [of ?e c waits m3] wait by (simp add: on_manager_def)
  with assms(12) have "\<not> (ready \<and> is_stream ?e c)" by (auto simp: on_manager_def)
  moreover have "look_id ?e = get_by_id ops" "connector_initialize ?e = connector_initialize te"
    "connector_connect ?e = connector_connect te" by (simp_all add: on_manager_def)
  ultimately have "tracker_link ?e polls waits sess addr m = Inr m4"
    using assms(5-11) wait by (auto simp: tracker_link_def)
  with b4 show ?thesis by blast
qed

section \<open>The peers of a response\<close>

lemma from_memory_octets:
  "in_memory hs 4 (from_memory hs (octets 4 ip) :: u32) = octets 4 ip"
  "in_memory hs 2 (from_memory hs (octets 2 port) :: u16) = octets 2 port"
  using octets_of_value [of "octets 4 ip", where 'w = 32] octets_of_value [of "octets 2 port", where 'w = 16]
    octets_of_value [of "rev (octets 4 ip)", where 'w = 32] octets_of_value [of "rev (octets 2 port)", where 'w = 16]
  by (simp_all add: in_memory_def from_memory_def)

lemma octets_list:
  obtains a b c d where "octets 4 ip = [a, b, c, d]"
proof -
  have "length (octets 4 ip) = 4" by simp
  then show ?thesis using that by (auto simp: length_Suc_conv eval_nat_numeral)
qed

lemma octets_pair:
  obtains p q where "octets 2 port = [p, q]"
proof -
  have "length (octets 2 port) = 2" by simp
  then show ?thesis using that by (auto simp: length_Suc_conv eval_nat_numeral)
qed

text \<open>The compact list of peers is read as it was written, on hosts of either byte order: each address that is
  stored has, in memory, the four octets of the peer's address and the two of its port in network byte
  order, the peers keep their order, and an incomplete entry at the end is ignored.\<close>

theorem compact_peers_octets:
  assumes "length rest < 6"
  shows "compact_peers hs (\<lambda>port ip. Some (in_memory hs 4 ip, in_memory hs 2 port))
      (concat (map (\<lambda>(ip :: u32, port :: u16). octets 4 ip @ octets 2 port) peers) @ rest)
    = Some (map (\<lambda>(ip, port). (octets 4 ip, octets 2 port)) peers)"
proof (induction peers)
  case Nil
  have "compact_peers hs set_address bs = Some []" if "length bs < 6" for set_address :: "u16 \<Rightarrow> u32 \<Rightarrow> 'z option" and bs
    using that by (cases "(hs, set_address, bs)" rule: compact_peers.cases) auto
  with assms show ?case by simp
next
  case (Cons x xs)
  obtain ip port where x: "x = (ip, port)" by fastforce
  obtain a b c d where ip: "octets 4 ip = [a, b, c, d]" by (rule octets_list)
  obtain p q where port: "octets 2 port = [p, q]" by (rule octets_pair)
  from Cons x ip port show ?case
    using from_memory_octets(1) [of hs ip] from_memory_octets(2) [of hs port] by simp
qed

section \<open>The threads that connect to the peers\<close>

text \<open>
  A response starts a thread for each address (\<^verbatim>\<open>net_bittorrent_session_setup_function\<close> in
  \<^verbatim>\<open>bittorrent_session.cpp\<close>), which takes the last address of the list, under a lock, and connects to it.
  Meanwhile the thread of \<^verbatim>\<open>notify\<close> frees the names of the threads in a loop that ends at the length of the
  same list. A schedule says in which order the threads take their steps.
\<close>

datatype setup_event = Take | Free

record 'addr setup_state =
  pending :: "'addr list"
  taken :: "'addr list"
  name_index :: nat
  freed :: "nat list"

definition setup_start :: "'addr list \<Rightarrow> 'addr setup_state" where
  "setup_start addrs = \<lparr>pending = addrs, taken = [], name_index = 0, freed = []\<rparr>"

definition take_address :: "'addr setup_state \<Rightarrow> 'addr setup_state res" where
  "take_address s = (if pending s = [] then Inl Undefined_Behaviour
     else Inr (s\<lparr>pending := butlast (pending s), taken := taken s @ [last (pending s)]\<rparr>))"

definition free_name :: "'addr setup_state \<Rightarrow> 'addr setup_state" where
  "free_name s = (if name_index s < length (pending s)
     then s\<lparr>freed := freed s @ [name_index s], name_index := Suc (name_index s)\<rparr> else s)"

fun run_setup :: "setup_event list \<Rightarrow> 'addr setup_state \<Rightarrow> 'addr setup_state res" where
  "run_setup [] s = Inr s"
| "run_setup (Take # es) s = bind_res (take_address s) (run_setup es)"
| "run_setup (Free # es) s = run_setup es (free_name s)"

lemma last_first: "xs \<noteq> [] \<Longrightarrow> last xs # rev (butlast xs) = rev xs"
  by (cases xs rule: rev_cases) simp_all

lemma run_setup_all:
  "count_list es Take = length (pending s) \<Longrightarrow> freed s = [0..<name_index s] \<Longrightarrow> \<exists>k \<le> max (name_index s) (length (pending s)).
    run_setup es s = Inr \<lparr>pending = [], taken = taken s @ rev (pending s), name_index = k, freed = [0..<k]\<rparr>"
proof (induction es s rule: run_setup.induct)
  case (1 s)
  then show ?case by (cases s) auto
next
  case (2 es s)
  from 2(2) have ne: "pending s \<noteq> []" by auto
  let ?s = "s\<lparr>pending := butlast (pending s), taken := taken s @ [last (pending s)]\<rparr>"
  have run: "take_address s = Inr ?s" using ne by (simp add: take_address_def)
  have "\<exists>k \<le> max (name_index ?s) (length (pending ?s)). run_setup es ?s
      = Inr \<lparr>pending = [], taken = taken ?s @ rev (pending ?s), name_index = k, freed = [0..<k]\<rparr>"
    using 2(2,3) by (intro 2(1)) simp_all
  with last_first [OF ne] run show ?case by (auto simp: le_max_iff_disj dest: le_trans)
next
  case (3 es s)
  have "freed (free_name s) = [0..<name_index (free_name s)]" "pending (free_name s) = pending s"
    "taken (free_name s) = taken s" "name_index (free_name s) \<le> max (name_index s) (length (pending s))"
    using 3(3) by (auto simp: free_name_def)
  with 3 show ?case by (auto simp: max_def split: if_splits)
qed

lemma run_setup_frees:
  "k \<le> length (pending s) - name_index s \<Longrightarrow> freed s = [0..<name_index s] \<Longrightarrow>
    run_setup (replicate k Free @ es) s
      = run_setup es (s\<lparr>name_index := name_index s + k, freed := [0..<name_index s + k]\<rparr>)"
proof (induction k arbitrary: s)
  case (Suc k)
  let ?s = "s\<lparr>freed := freed s @ [name_index s], name_index := Suc (name_index s)\<rparr>"
  have "free_name s = ?s" using Suc.prems(1) by (simp add: free_name_def)
  with Suc.IH [of ?s] Suc.prems show ?case by simp
next
  case 0
  then have "s\<lparr>freed := [0..<name_index s]\<rparr> = s" by (cases s) simp
  then show ?case by simp
qed

lemma run_setup_takes:
  "run_setup (replicate (length (pending s)) Take) s
    = Inr (s\<lparr>pending := [], taken := taken s @ rev (pending s)\<rparr>)"
proof (induction "length (pending s)" arbitrary: s)
  case (Suc k)
  then have ne: "pending s \<noteq> []" by auto
  let ?s = "s\<lparr>pending := butlast (pending s), taken := taken s @ [last (pending s)]\<rparr>"
  have len: "length (pending ?s) = k" using Suc(2) by simp
  have "run_setup (replicate k Take) ?s = Inr (?s\<lparr>pending := [], taken := taken ?s @ rev (pending ?s)\<rparr>)"
    using Suc(1) [of ?s] len by simp
  moreover have "run_setup (replicate (Suc k) Take) s = run_setup (replicate k Take) ?s"
    using ne by (simp add: take_address_def)
  ultimately show ?case using Suc(2) last_first [OF ne] by simp
qed simp

text \<open>The threads that connect to the peers of a response, under every schedule: each takes one address,
  no thread finds the list empty, and all addresses are taken, from the last to the first. Of the names of
  the threads the first \<open>k\<close> are freed, for some \<open>k\<close>; the others are leaked. Every \<open>k\<close> up to
  the number of threads is possible, as the list gets shorter while the names are freed.\<close>

theorem peer_threads:
  assumes "count_list es Take = length addrs" "n \<le> length addrs"
  shows "(\<exists>k \<le> length addrs. run_setup es (setup_start addrs)
      = Inr \<lparr>pending = [], taken = rev addrs, name_index = k, freed = [0..<k]\<rparr>)
    \<and> (\<exists>es'. count_list es' Take = length addrs \<and> run_setup es' (setup_start addrs)
      = Inr \<lparr>pending = [], taken = rev addrs, name_index = n, freed = [0..<n]\<rparr>)"
proof
  show "\<exists>k \<le> length addrs. run_setup es (setup_start addrs)
      = Inr \<lparr>pending = [], taken = rev addrs, name_index = k, freed = [0..<k]\<rparr>"
    using run_setup_all [of es "setup_start addrs"] assms(1) by (simp add: setup_start_def)
  let ?s = "(setup_start addrs)\<lparr>name_index := n, freed := [0..<n]\<rparr>" and ?takes = "replicate (length addrs) Take"
  have "count_list (replicate k x) x = k" for k and x :: setup_event by (induction k) simp_all
  moreover have "count_list (replicate n Free) Take = 0" by (rule count_notin) auto
  ultimately have takes: "count_list ?takes Take = length addrs" "count_list (replicate n Free) Take = 0" by blast+
  have "run_setup (replicate n Free @ ?takes) (setup_start addrs) = run_setup ?takes ?s"
    using run_setup_frees [of n "setup_start addrs" ?takes] assms(2) by (simp add: setup_start_def)
  moreover have "run_setup ?takes ?s = Inr \<lparr>pending = [], taken = rev addrs, name_index = n, freed = [0..<n]\<rparr>"
    using run_setup_takes [of ?s] by (simp add: setup_start_def)
  ultimately show "\<exists>es'. count_list es' Take = length addrs \<and> run_setup es' (setup_start addrs)
      = Inr \<lparr>pending = [], taken = rev addrs, name_index = n, freed = [0..<n]\<rparr>"
    using takes by (intro exI [of _ "replicate n Free @ ?takes"]) simp
qed

section \<open>Two connects at the same time\<close>

text \<open>
  The threads that connect to the peers of a response share the configuration. What two threads do
  to it: each subscribes (with its own address) and later restores what it found.
\<close>

datatype 'addr conf_event = Subscribe bool 'addr | Restore bool

fun run_conf :: "nat \<Rightarrow> nat option \<Rightarrow> 'addr conf_event list \<Rightarrow> (bool \<Rightarrow> saved_configuration option)
    \<Rightarrow> 'addr shared_configuration \<Rightarrow> 'addr shared_configuration" where
  "run_conf handler modl [] saved conf = conf"
| "run_conf handler modl (Subscribe t addr # es) saved conf =
    (let (sv, conf') = subscribe handler modl addr conf in run_conf handler modl es (saved(t := Some sv)) conf')"
| "run_conf handler modl (Restore t # es) saved conf =
    run_conf handler modl es saved (case saved t of None \<Rightarrow> conf | Some sv \<Rightarrow> unsubscribe sv conf)"

definition restored :: "'addr shared_configuration \<Rightarrow> 'addr shared_configuration \<Rightarrow> bool" where
  "restored conf conf' \<longleftrightarrow> subscriber conf' = subscriber conf \<and> cloneModule conf' = cloneModule conf
     \<and> streamModule conf' = streamModule conf"

text \<open>Connecting to two peers at the same time: of the six ways in which two threads can interleave, the
  configuration is restored in all but the two in which the thread that subscribed first also restores
  first; in these the handler and the module of the session stay subscribed for good.\<close>

theorem connect_interleavings:
  assumes "subscriber conf \<noteq> Some handler"
    and "es \<in> shuffles [Subscribe False a, Restore False] [Subscribe True b, Restore True]"
  shows "if es \<in> {[Subscribe False a, Subscribe True b, Restore False, Restore True],
                  [Subscribe True b, Subscribe False a, Restore True, Restore False]}
    then subscriber (run_conf handler modl es (\<lambda>_. None) conf) = Some handler
      \<and> streamModule (run_conf handler modl es (\<lambda>_. None) conf) = modl
    else restored conf (run_conf handler modl es (\<lambda>_. None) conf)"
  using assms by (auto simp: subscribe_def unsubscribe_def restored_def)

section \<open>An example\<close>

definition demo_bt_env :: "(unit, u32, unit PeerMessageData, (unit, unit, nat, (conn \<Rightarrow> nat) \<times> (conn \<Rightarrow> u32)) manager) bt_env" where
  "demo_bt_env = \<lparr>get_conf = \<lambda>_. None, set_conf = \<lambda>_ m. m, messageAllocator = \<lambda>_. True,
     allocatorConfiguration = \<lambda>_. True, send = \<lambda>_ _ m. Some m, notify_controller = \<lambda>_ _ m. Inr m\<rparr>"

definition demo_allocations :: "bool \<Rightarrow> allocations" where
  "demo_allocations ok = \<lparr>data_ok = True, handshake_ok = ok, container_ok = True, blocks = True, attempts = [True]\<rparr>"

definition demo_configuration :: "(unit, bencoding) bt_configuration" where
  "demo_configuration = \<lparr>connectionConfiguration = Some (), connectionManager = True, dispatchProactor = False,
     cfgController = True, cfgParser = True, cfgMetaInfo = Some demo_announcement,
     cfgMetaInfoFileName = ''example.torrent'', cfgTrackerConnection = Some (), cfgTrackerManager = True\<rparr>"

definition demo_bt_session :: "(unit, bencoding) bt_session" where
  "demo_bt_session = (case bt_initialize True demo_configuration (new_bt_session ''-LN0000-'') of
     Inr (_, sess) \<Rightarrow> sess | Inl _ \<Rightarrow> undefined)"

lemma demo_bt_initialize:
  "bt_initialize True demo_configuration (new_bt_session ''-LN0000-'') = Inr (True, demo_bt_session)"
  by (simp add: demo_bt_session_def bt_initialize_def demo_configuration_def session_initialize_def Let_def)

lemma demo_bt_session_fields:
  "sessionManager demo_bt_session" "btConfiguration demo_bt_session = Some demo_configuration"
  "trackerConnectionConfiguration demo_bt_session = Some ()" "trackerConnectionManager demo_bt_session"
  "\<not> isAsynch demo_bt_session" "sessionConnections demo_bt_session = {}" "peerStatus demo_bt_session = []"
  "trackerConnectionId demo_bt_session = 0" "connectionConfiguration demo_configuration = Some ()"
  by (simp_all add: demo_bt_session_def bt_initialize_def demo_configuration_def session_initialize_def Let_def
      new_bt_session_def new_session_def session.defs session_configuration.defs)

theorem bt_session_invariant_witness:
  "\<exists>sess. bt_reachable (on_manager (counter_ops id) quiet_env) demo_bt_env demo_bencoding (\<lambda>_. replicate 20 7)
      (sess, two_connections) \<and> sessionConnections sess = {5, 7} \<and> fst ` set (peerStatus sess) \<union> {5} = {7, 5}"
proof -
  let ?e = "on_manager (counter_ops id) quiet_env"
  let ?r = "bt_reachable ?e demo_bt_env demo_bencoding (\<lambda>_. replicate 20 7)"
  let ?s1 = "demo_bt_session\<lparr>trackerConnectionId := 5, sessionConnections := {5}\<rparr>"
  let ?s2 = "?s1\<lparr>sessionConnections := {7, 5}, peerStatus := [(7, new_peer_status)]\<rparr>"
  have r0: "?r (demo_bt_session, two_connections)" by (rule bt_start [OF demo_bt_initialize])
  have "trackerConnect_id 5 demo_bt_session = Inr ?s1"
    by (simp add: trackerConnect_id_def session_connect_id_def demo_bt_session_fields)
  then have r1: "?r (?s1, two_connections)" by (intro bt_more [OF r0] tracker_up [of 5]) simp_all
  have "bt_connect_id ?e demo_bt_env demo_bencoding (\<lambda>_. replicate 20 7) (demo_allocations False) 7 ?s1 two_connections
      = Some (Inr (?s2, two_connections))"
    by (simp add: bt_connect_id_def session_connect_id_def demo_bt_session_fields demo_bt_env_def demo_allocations_def)
  then have r2: "?r (?s2, two_connections)"
    by (intro bt_more [OF r1] peer_up [of 7 ?e demo_bt_env _ _ "demo_allocations False"]) simp_all
  from bt_session_invariant [OF this] have "fst ` set (peerStatus ?s2) \<union> {5} = {7, 5}" by simp
  with r2 show ?thesis by (intro exI [of _ ?s2] conjI) auto
qed

theorem handshake_references_witness:
  "case bt_connect_id (on_manager (counter_ops id) quiet_env) demo_bt_env demo_bencoding (\<lambda>_. replicate 20 7)
      (demo_allocations True) 7 demo_bt_session two_connections of
    None \<Rightarrow> False | Some (Inl f) \<Rightarrow> f = Assertion | Some (Inr (sess', m')) \<Rightarrow> balanced fst (\<lambda>_. 0) m'"
proof -
  have "\<forall>c. keeps fst (close_conn quiet_env c)" "send_keeps fst (send demo_bt_env)" "(7::u32) \<noteq> ACE_INVALID_HANDLE"
    using quiet_env_orderly by (simp_all add: orderly_def send_keeps_def demo_bt_env_def ACE_INVALID_HANDLE_def)
  from handshake_references [where bops = demo_bencoding and ?sha1.0 = "\<lambda>_. replicate 20 7"
        and a = "demo_allocations True" and sess = demo_bt_session,
      OF counter_ops_counting [of id] this(1,2) two_connections_balanced this(3)]
  moreover have "attempts (demo_allocations True) = [True]" by (simp add: demo_allocations_def)
  ultimately show ?thesis by (auto split: option.splits)
qed

theorem tracker_link_leaks_witness:
  "\<exists>m'. tracker_link (on_manager (counter_ops id) (quiet_env\<lparr>status_ok := \<lambda>_ _. False\<rparr>)) [] [] demo_bt_session 7
      two_connections = Inr m' \<and> balanced fst ((\<lambda>_. 0)(7 := 1)) m'"
proof -
  let ?te = "quiet_env\<lparr>status_ok := \<lambda>_ _. False\<rparr>"
  have te: "orderly fst ?te" using quiet_env_orderly by (simp add: orderly_def)
  have steps: "connector_initialize ?te () two_connections = (True, two_connections)"
    "connector_connect ?te 7 two_connections = (7, two_connections)" "(7::u32) \<noteq> ACE_INVALID_HANDLE"
    by (simp_all add: quiet_env_def ACE_INVALID_HANDLE_def)
  have "get_by_id (counter_ops id) 7 two_connections = Inr (Some 7,
      two_connections\<lparr>objects := (fst (objects two_connections), of_nat)\<rparr>\<lparr>objects :=
        ((fst (objects two_connections))(7 := Suc (fst (objects two_connections) 7)), of_nat)\<rparr>)"
    by (simp add: get_by_id_def get_by_handle_def hand_out_def two_connections_def counter_ops_def ACE_INVALID_HANDLE_def)
  from tracker_link_leaks [OF counter_ops_counting te _ two_connections_balanced demo_bt_session_fields(3,4,5)
      steps this, of "[]" "[]"]
  show ?thesis by simp
qed

theorem compact_peers_octets_witness:
  "compact_peers little_host (\<lambda>port ip. Some (in_memory little_host 4 ip, in_memory little_host 2 port))
      (octets 4 (0x0A000001 :: u32) @ octets 2 (6881 :: u16) @ [1, 2])
    = Some [(octets 4 (0x0A000001 :: u32), octets 2 (6881 :: u16))]"
  using compact_peers_octets [of "[1, 2]" little_host "[(0x0A000001, 6881)]"] by simp

theorem peer_threads_witness:
  "(\<exists>k \<le> 2. run_setup [Take, Free, Free, Take] (setup_start [10, 11 :: nat])
      = Inr \<lparr>pending = [], taken = [11, 10], name_index = k, freed = [0..<k]\<rparr>)
    \<and> (\<exists>es. run_setup es (setup_start [10, 11 :: nat]) = Inr \<lparr>pending = [], taken = [11, 10], name_index = 0, freed = []\<rparr>)"
  using peer_threads [of "[Take, Free, Free, Take]" "[10, 11 :: nat]" 0] by (simp add: numeral_2_eq_2) blast

theorem connect_interleavings_witness:
  "subscriber (run_conf 1 None [Subscribe False 10, Subscribe True 11, Restore False, Restore True] (\<lambda>_. None)
      \<lparr>peerAddress = 0 :: nat, subscriber = None, cloneModule = True, streamModule = None\<rparr>) = Some 1"
proof -
  let ?es = "[Subscribe False 10, Subscribe True 11, Restore False, Restore True] :: nat conf_event list"
  have "?es \<in> shuffles [Subscribe False 10, Restore False] [Subscribe True 11, Restore True]" by simp
  from connect_interleavings [OF _ this, of "\<lparr>peerAddress = 0 :: nat, subscriber = None, cloneModule = True,
      streamModule = None\<rparr>" 1 None] show ?thesis by simp
qed

end
