(* ===== verification/BitTorrent_Control.thy ===== *)
theory BitTorrent_Control
  imports BitTorrent_Session
begin

text \<open>
  The controller of the torrents (\<^verbatim>\<open>src/src/protocol/p2p/bittorrent/bittorrent_control.inl\<close>): it creates a
  session for each meta information file, announces it to its tracker, lists it under the name of the file, and
  takes it off the list when the session reports its end. What a session relies on of its controller is the
  locale \<open>session_controller\<close>.
\<close>

section \<open>State and environment\<close>

text \<open>
  The sessions are objects with an address; \<open>sessionObjects\<close> holds those that were not deleted.
  \<open>signals\<close> counts the broadcasts of \<^verbatim>\<open>condition_\<close>.
\<close>

record ('cc, 'e) control =
  controlConfiguration :: "('cc, 'e) bt_configuration option"
  sessions :: "(string \<times> nat) list"
  sessionObjects :: "nat \<Rightarrow> ('cc, 'e) bt_session option"
  signals :: nat

definition new_control :: "('cc, 'e) bt_configuration option \<Rightarrow> ('cc, 'e) control" where
  "new_control cfg = \<lparr>controlConfiguration = cfg, sessions = [], sessionObjects = \<lambda>_. None, signals = 0\<rparr>"

definition get_session :: "string \<Rightarrow> ('cc, 'e) control \<Rightarrow> nat option" where
  "get_session name ctl = map_find string_less name (sessions ctl)"

definition control_notify :: "string \<Rightarrow> BitTorrent_Event \<Rightarrow> ('cc, 'e) control \<Rightarrow> ('cc, 'e) control res" where
  "control_notify name event ctl =
    (case event of
       BITTORRENT_EVENT_CANCELLED \<Rightarrow>
         if get_session name ctl = None then Inl Assertion
         else Inr (ctl\<lparr>sessions := map_erase string_less name (sessions ctl), signals := Suc (signals ctl)\<rparr>)
     | BITTORRENT_EVENT_COMPLETE \<Rightarrow>
         if get_session name ctl = None then Inl Assertion
         else Inr (ctl\<lparr>sessions := map_erase string_less name (sessions ctl), signals := Suc (signals ctl)\<rparr>)
     | _ \<Rightarrow> Inr ctl)"

text \<open>
  What a request depends on besides the environments of the session: the parser of the file, the address of the new
  session object (\<open>None\<close>: no memory), the generated ids, the handler of the session, \<^verbatim>\<open>ACE_INET_Addr::set\<close>, the
  external address, and what other threads do to the session and its controller while the session connects to the
  tracker: its connections come and go, and the last one that goes takes it off the list.
\<close>

record ('addr, 'cc, 'e) request_env =
  parseMetaInfoFile :: "string \<Rightarrow> 'e Bencoding_Dictionary option"
  new_object :: "nat option"
  generated_id :: string
  generated_key :: string
  handler_initializes :: bool
  set_host :: "string \<Rightarrow> 'addr option"
  external_address :: "string option"
  reports :: "('cc, 'e) control \<Rightarrow> ('cc, 'e) control res"

text \<open>What the library is built with: the locale, the classification of characters, SHA-1 and the name of the agent.\<close>

record 'e build =
  classAlnum :: char_class
  classDigit :: char_class
  urlLocale :: url_locale
  bencodingOps :: "'e bencoding_ops"
  sha1Sum :: "string \<Rightarrow> u8 list"
  userAgent :: string

section \<open>Requests\<close>

text \<open>\<^verbatim>\<open>delete\<close>: the destructor of the session closes its connections.\<close>

definition delete_object :: "('cc, 'addr, 's) session_env \<Rightarrow> nat \<Rightarrow> ('cc, 'e) control \<Rightarrow> 's
    \<Rightarrow> (('cc, 'e) control \<times> 's) res" where
  "delete_object e p ctl s =
    (case sessionObjects ctl p of
       None \<Rightarrow> Inl Undefined_Behaviour
     | Some sess \<Rightarrow> bind_res (session_destroy e sess s) (\<lambda>s'. Inr (ctl\<lparr>sessionObjects := (sessionObjects ctl)(p := None)\<rparr>, s')))"

text \<open>The error path: \<open>remove\<close> is \<^verbatim>\<open>remove_session\<close>, \<open>c\<close> the connection to the tracker, if there is one.\<close>

definition request_failed :: "('cc, 'addr, 's) session_env \<Rightarrow> ('cc, 'addr, 's) session_env \<Rightarrow> bool \<Rightarrow> string
    \<Rightarrow> conn option \<Rightarrow> nat \<Rightarrow> ('cc, 'e) control \<Rightarrow> 's \<Rightarrow> (('cc, 'e) control \<times> 's) res" where
  "request_failed e te remove name c p ctl s =
    (let ctl' = (if remove then ctl\<lparr>sessions := map_erase string_less name (sessions ctl)\<rparr> else ctl)
     in bind_res (case c of None \<Rightarrow> Inr s | Some c' \<Rightarrow> release te c' s) (delete_object e p ctl'))"

text \<open>The announcement of the session at address \<open>p\<close>, which is on the list: steps 3 to 5 of the code.\<close>

definition announce :: "('cc, 'addr, 's) session_env \<Rightarrow> ('cc, 'addr, 's) session_env
    \<Rightarrow> ('cc, 'addr, HTTP_Record, 's) bt_env \<Rightarrow> ('addr, 'cc, 'e) request_env \<Rightarrow> 'e build \<Rightarrow> allocations
    \<Rightarrow> ('s \<Rightarrow> 's) list \<Rightarrow> ('s \<Rightarrow> 's) list \<Rightarrow> nat \<Rightarrow> nat option \<Rightarrow> ('cc, 'e) bt_configuration \<Rightarrow> 'cc
    \<Rightarrow> 'e Bencoding_Dictionary \<Rightarrow> string \<Rightarrow> nat \<Rightarrow> ('cc, 'e) bt_session \<Rightarrow> ('cc, 'e) control \<Rightarrow> 's
    \<Rightarrow> (('cc, 'e) control \<times> 's) res option" where
  "announce e te tb renv bld a polls waits handler modl cfg cc d name p sess ctl s =
    (let failed = (\<lambda>ctl s. Some (request_failed e te True name None p ctl s))
     in if \<not> data_ok a then failed ctl s
        else (case announce_target (classAlnum bld) (classDigit bld) (bencodingOps bld) d of
          Inl f \<Rightarrow> Some (Inl f)
        | Inr None \<Rightarrow> failed ctl s
        | Inr (Some (hostname, uri)) \<Rightarrow> (case set_host renv hostname of
            None \<Rightarrow> failed ctl s
          | Some addr \<Rightarrow> (case request_record (urlLocale bld) (bencodingOps bld) (sha1Sum bld) (userAgent bld) (external_address renv)
                (peerId sess) d hostname uri of
              Inl f \<Rightarrow> Some (Inl f)
            | Inr r \<Rightarrow>
                let sess1 = (if trackerKey sess = [] then sess\<lparr>trackerKey := generated_key renv\<rparr> else sess);
                    ctl1 = ctl\<lparr>sessionObjects := (sessionObjects ctl)(p := Some sess1)\<rparr>
                in if \<not> container_ok a then failed ctl1 s
                   else if \<not> allocatorConfiguration tb cc then Some (Inl Assertion)
                   else (case allocate_message (blocks a) (attempts a) of
                     None \<Rightarrow> None
                   | Some False \<Rightarrow> failed ctl1 s
                   | Some True \<Rightarrow> (case trackerConnect te tb polls waits handler modl sess1 addr s of
                       Inl f \<Rightarrow> Some (Inl f)
                     | Inr s1 \<Rightarrow> (case reports renv ctl1 of
                         Inl f \<Rightarrow> Some (Inl f)
                       | Inr ctl2 \<Rightarrow>
                           if \<not> cfgTrackerManager cfg then Some (Inl Undefined_Behaviour)
                           else (case look_address te addr s1 of
                             Inl f \<Rightarrow> Some (Inl f)
                           | Inr (None, s2) \<Rightarrow> failed ctl2 s2
                           | Inr (Some c, s2) \<Rightarrow> Some
                               (case if is_stream te c then send tb c r s2 else None of
                                  None \<Rightarrow> request_failed e te False name (Some c) p ctl2 s2
                                | Some s3 \<Rightarrow> bind_res (release te c s3) (\<lambda>s4. Inr (ctl2, s4)))))))))))"

definition request :: "('cc, 'addr, 's) session_env \<Rightarrow> ('cc, 'addr, 's) session_env
    \<Rightarrow> ('cc, 'addr, HTTP_Record, 's) bt_env \<Rightarrow> ('addr, 'cc, 'e) request_env \<Rightarrow> 'e build \<Rightarrow> allocations
    \<Rightarrow> ('s \<Rightarrow> 's) list \<Rightarrow> ('s \<Rightarrow> 's) list \<Rightarrow> nat \<Rightarrow> nat option \<Rightarrow> string \<Rightarrow> ('cc, 'e) control \<Rightarrow> 's
    \<Rightarrow> (('cc, 'e) control \<times> 's) res option" where
  "request e te tb renv bld a polls waits handler modl name ctl s =
    (case controlConfiguration ctl of
       None \<Rightarrow> Some (Inl Assertion)
     | Some cfg \<Rightarrow> (case cfgTrackerConnection cfg of
         None \<Rightarrow> Some (Inl Assertion)
       | Some cc \<Rightarrow>
           if \<not> messageAllocator tb cc \<or> \<not> cfgParser cfg \<or> cfgMetaInfo cfg \<noteq> None then Some (Inl Assertion)
           else (case parseMetaInfoFile renv name of
             None \<Rightarrow> Some (Inr (ctl, s))
           | Some d \<Rightarrow>
               let cfg1 = cfg\<lparr>cfgMetaInfo := Some d\<rparr>; ctl1 = ctl\<lparr>controlConfiguration := Some cfg1\<rparr>
               in (case new_object renv of
                 None \<Rightarrow> Some (Inr (ctl1, s))
               | Some p \<Rightarrow> (case bt_initialize (handler_initializes renv) cfg1 (new_bt_session (generated_id renv)) of
                   Inl f \<Rightarrow> Some (Inl f)
                 | Inr (ok, sess) \<Rightarrow>
                     let ctl2 = ctl1\<lparr>sessionObjects := (sessionObjects ctl1)(p := Some sess)\<rparr>
                     in if \<not> ok then Some (request_failed e te False name None p ctl2 s)
                        else announce e te tb renv bld a polls waits handler modl cfg1 cc d name p sess
                          (ctl2\<lparr>sessions := map_insert string_less name p (sessions ctl2)\<rparr>) s)))))"

section \<open>Stopping\<close>

text \<open>
  Closing the listed sessions without waiting. An exception of a session is caught; \<open>left\<close> is the state that it
  leaves.
\<close>

fun close_sessions :: "('cc, 'addr, 's) session_env \<Rightarrow> (nat \<Rightarrow> 's \<Rightarrow> 's) \<Rightarrow> ('cc, 'e) control
    \<Rightarrow> (string \<times> nat) list \<Rightarrow> 's \<Rightarrow> 's res" where
  "close_sessions e left ctl [] s = Inr s"
| "close_sessions e left ctl ((name, p) # rest) s =
    (case sessionObjects ctl p of
       None \<Rightarrow> Inl Undefined_Behaviour
     | Some sess \<Rightarrow> (case session_close e False [] sess s of
         Some (Inr (sess', s')) \<Rightarrow> close_sessions e left ctl rest s'
       | Some (Inl Uncaught) \<Rightarrow> close_sessions e left ctl rest (left p s)
       | Some (Inl f) \<Rightarrow> Inl f
       | None \<Rightarrow> Inl Undefined_Behaviour))"

text \<open>
  Waiting on the condition until the list is empty. Each element is what the other threads do before the
  caller gets its next chance to run; asleep it runs only when the condition has been signalled since it
  fell asleep (\<open>slept\<close> is the number of broadcasts at that time), and tests the list again.
  \<open>None\<close>: it still sleeps when the others are done.
\<close>

fun control_asleep :: "nat \<Rightarrow> (('cc, 'e) control \<Rightarrow> ('cc, 'e) control res) list \<Rightarrow> ('cc, 'e) control
    \<Rightarrow> ('cc, 'e) control res option" where
  "control_asleep slept [] ctl = None"
| "control_asleep slept (f # fs) ctl =
    (case f ctl of
       Inl x \<Rightarrow> Some (Inl x)
     | Inr ctl' \<Rightarrow>
         if signals ctl' = slept then control_asleep slept fs ctl'
         else if sessions ctl' = [] then Some (Inr ctl')
         else control_asleep (signals ctl') fs ctl')"

definition control_wait :: "(('cc, 'e) control \<Rightarrow> ('cc, 'e) control res) list \<Rightarrow> ('cc, 'e) control
    \<Rightarrow> ('cc, 'e) control res option" where
  "control_wait fs ctl = (if sessions ctl = [] then Some (Inr ctl) else control_asleep (signals ctl) fs ctl)"

definition control_stop :: "('cc, 'addr, 's) session_env \<Rightarrow> (nat \<Rightarrow> 's \<Rightarrow> 's)
    \<Rightarrow> (('cc, 'e) control \<Rightarrow> ('cc, 'e) control res) list \<Rightarrow> bool \<Rightarrow> ('cc, 'e) control \<Rightarrow> 's
    \<Rightarrow> (('cc, 'e) control \<times> 's) res option" where
  "control_stop e left fs waitForCompletion ctl s =
    (case close_sessions e left ctl (sessions ctl) s of
       Inl f \<Rightarrow> Some (Inl f)
     | Inr s' \<Rightarrow>
         (case if waitForCompletion then control_wait fs ctl else Some (Inr ctl) of
            None \<Rightarrow> None
          | Some (Inl f) \<Rightarrow> Some (Inl f)
          | Some (Inr ctl') \<Rightarrow> Some (Inr (ctl'\<lparr>sessions := []\<rparr>, s'))))"

section \<open>What a session relies on\<close>

text \<open>
  The controller knows a set of names. Reporting the end of a session takes its name off; reporting
  one that is not there is a failed assertion.
\<close>

locale session_controller =
  fixes report_end :: "string \<Rightarrow> BitTorrent_Event \<Rightarrow> 's \<Rightarrow> 's res"
    and listed :: "'s \<Rightarrow> string set"
  assumes report_listed: "name \<in> listed s \<Longrightarrow>
      \<exists>s'. report_end name BITTORRENT_EVENT_CANCELLED s = Inr s' \<and> listed s' = listed s - {name}"
    and report_unlisted: "name \<notin> listed s \<Longrightarrow> report_end name BITTORRENT_EVENT_CANCELLED s = Inl Assertion"
begin

lemma last_end:
  assumes "notify_controller b = report_end" "controller sess" "sessionConnections sess \<subseteq> {i}"
    and "metaInfoFileName sess \<in> listed s"
  shows "\<exists>s'. bt_disconnect_id b i sess s = Inr (sess\<lparr>sessionConnections := {},
      peerStatus := map_erase (<) i (peerStatus sess)\<rparr>, s') \<and> listed s' = listed s - {metaInfoFileName sess}"
proof -
  obtain s' where s': "report_end (metaInfoFileName sess) BITTORRENT_EVENT_CANCELLED s = Inr s'"
    "listed s' = listed s - {metaInfoFileName sess}"
    using report_listed [OF assms(4)] by blast
  have "sessionConnections sess - {i} = {}" using assms(3) by blast
  with s' assms(1,2) show ?thesis
    by (simp add: bt_disconnect_id_def session_disconnect_id_def tell_controller_def Let_def)
qed

lemma end_unlisted:
  assumes "notify_controller b = report_end" "controller sess" "sessionConnections sess \<subseteq> {i}"
    and "metaInfoFileName sess \<notin> listed s"
  shows "bt_disconnect_id b i sess s = Inl Assertion"
proof -
  have "sessionConnections sess - {i} = {}" using assms(3) by blast
  with assms(1,2) report_unlisted [OF assms(4)] show ?thesis
    by (simp add: bt_disconnect_id_def session_disconnect_id_def tell_controller_def Let_def)
qed

lemma not_last:
  assumes "\<not> sessionConnections sess \<subseteq> {i}"
  shows "bt_disconnect_id b i sess s = Inr (sess\<lparr>sessionConnections := sessionConnections sess - {i},
      peerStatus := map_erase (<) i (peerStatus sess)\<rparr>, s)"
  using assms by (auto simp: bt_disconnect_id_def session_disconnect_id_def tell_controller_def Let_def)

end

text \<open>The controller, in a state that also holds that of the connections.\<close>

definition notify_shared :: "string \<Rightarrow> BitTorrent_Event \<Rightarrow> ('cc, 'e) control \<times> 'm \<Rightarrow> (('cc, 'e) control \<times> 'm) res" where
  "notify_shared name event s = bind_res (control_notify name event (fst s)) (\<lambda>ctl. Inr (ctl, snd s))"

definition names :: "('cc, 'e) control \<Rightarrow> string set" where
  "names ctl = fst ` set (sessions ctl)"

lemma same_string: "\<not> string_less a b \<and> \<not> string_less b a \<longleftrightarrow> a = b"
  using string_less_total str.irrefl by blast

lemma map_find_names: "map_find string_less k xs = None \<longleftrightarrow> k \<notin> fst ` set xs"
proof (induction xs)
  case (Cons x xs)
  then show ?case using same_string [of k "fst x"] by (cases x) auto
qed simp

lemma names_erase: "fst ` set (map_erase string_less k xs) = fst ` set xs - {k}"
  using string_less_total by (force simp: map_erase_def str.irrefl)

lemma get_session_None: "get_session name ctl = None \<longleftrightarrow> name \<notin> names ctl"
  by (simp add: get_session_def names_def map_find_names)

interpretation control: session_controller notify_shared "names \<circ> fst"
  by unfold_locales (auto simp: notify_shared_def control_notify_def get_session_None names_def names_erase)


section \<open>The end of a session\<close>

text \<open>A session tells its controller more than once that it has ended, and the second report fails an
  assertion: when the last connection of a listed session goes, the session is taken off the list, and when a
  peer connects after that (the tracker has closed its connection, say, before the first peer comes) and goes
  again, the controller no longer knows the session.\<close>

theorem session_ends_twice:
  assumes "notify_controller b = notify_shared" "controller sess" "sessionConnections sess = {i}"
    and "metaInfoFileName sess \<in> names ctl"
  shows "\<exists>sess' ctl'. bt_disconnect_id b i sess (ctl, m) = Inr (sess', (ctl', m))
    \<and> names ctl' = names ctl - {metaInfoFileName sess}
    \<and> (\<forall>e bops sum a j sess'' m'. bt_connect_id e b bops sum a j sess' (ctl', m) = Some (Inr (sess'', (ctl', m')))
        \<longrightarrow> bt_disconnect_id b j sess'' (ctl', m') = Inl Assertion)"
proof -
  let ?sess = "sess\<lparr>sessionConnections := {}, peerStatus := map_erase (<) i (peerStatus sess)\<rparr>"
  have "sessionConnections sess \<subseteq> {i}" "metaInfoFileName sess \<in> (names \<circ> fst) (ctl, m)"
    using assms(3,4) by auto
  from control.last_end [OF assms(1,2) this] obtain ctl' m1 where
    run: "bt_disconnect_id b i sess (ctl, m) = Inr (?sess, (ctl', m1))"
      and gone: "names ctl' = names ctl - {metaInfoFileName sess}" by auto
  have same: "m1 = m"
    using run assms(1,2) assms(3)
    by (auto simp: bt_disconnect_id_def session_disconnect_id_def tell_controller_def notify_shared_def bind_res_def
        Let_def split: sum.splits fault.splits)
  have "bt_disconnect_id b j sess'' (ctl', m') = Inl Assertion"
    if "bt_connect_id e b bops sum a j ?sess (ctl', m) = Some (Inr (sess'', (ctl', m')))"
    for e bops sum a j sess'' m'
  proof (rule control.end_unlisted [OF assms(1)])
    from bt_connect_id_session [OF that] assms(2) gone
    show "controller sess''" "sessionConnections sess'' \<subseteq> {j}" "metaInfoFileName sess'' \<notin> (names \<circ> fst) (ctl', m')"
      by auto
  qed
  with run gone same show ?thesis by blast
qed

section \<open>Requests and the list\<close>

lemma erase_insert:
  "k \<notin> fst ` set xs \<Longrightarrow> map_erase string_less k (map_insert string_less k v xs) = xs"
proof (induction xs)
  case (Cons x xs)
  then have "map_erase string_less k xs = xs"
    by (auto simp: map_erase_def filter_id_conv) (metis fst_conv imageI same_string)
  with Cons same_string [of k "fst x"] show ?case by (cases x) (auto simp: map_erase_def str.irrefl)
qed (simp add: map_erase_def str.irrefl)

lemma delete_object_result:
  "delete_object e p ctl s = Inr (ctl', s') \<Longrightarrow> ctl' = ctl\<lparr>sessionObjects := (sessionObjects ctl)(p := None)\<rparr>"
  by (auto simp: delete_object_def bind_res_eq_Inr split: option.splits)

lemma request_failed_result:
  "request_failed e te remove name c p ctl s = Inr (ctl', s') \<Longrightarrow>
    ctl' = ctl\<lparr>sessions := (if remove then map_erase string_less name (sessions ctl) else sessions ctl),
      sessionObjects := (sessionObjects ctl)(p := None)\<rparr>"
  by (auto simp: request_failed_def bind_res_eq_Inr Let_def dest!: delete_object_result split: if_splits)

lemma erase_twice: "map_erase string_less k (map_erase string_less k xs) = map_erase string_less k xs"
  by (simp add: map_erase_def)

text \<open>
  What other threads do to the new session while it connects concerns that session only: its end is reported
  under the name of its file.
\<close>

definition own_reports :: "string \<Rightarrow> nat \<Rightarrow> (('cc, 'e) control \<Rightarrow> ('cc, 'e) control res) \<Rightarrow> bool" where
  "own_reports name p f \<longleftrightarrow> (\<forall>ctl ctl'. sessionObjects ctl p \<noteq> None \<and> f ctl = Inr ctl' \<longrightarrow>
     sessions ctl' \<in> {sessions ctl, map_erase string_less name (sessions ctl)}
     \<and> (\<exists>sess. sessionObjects ctl' = (sessionObjects ctl)(p := Some sess))
     \<and> controlConfiguration ctl' = controlConfiguration ctl)"

lemma own_reportsD:
  assumes "own_reports name p f" "f ctl = Inr ctl'" "sessionObjects ctl p \<noteq> None"
  obtains sess where "sessions ctl' = sessions ctl \<or> sessions ctl' = map_erase string_less name (sessions ctl)"
    "sessionObjects ctl' = (sessionObjects ctl)(p := Some sess)" "controlConfiguration ctl' = controlConfiguration ctl"
  using assms unfolding own_reports_def by blast

text \<open>The connection to the tracker that \<^verbatim>\<open>request ()\<close> finds after \<^verbatim>\<open>trackerConnect ()\<close>, and the state then.\<close>

definition tracker_found :: "('cc, 'addr, 's) session_env \<Rightarrow> ('cc, 'addr, HTTP_Record, 's) bt_env
    \<Rightarrow> ('s \<Rightarrow> 's) list \<Rightarrow> ('s \<Rightarrow> 's) list \<Rightarrow> nat \<Rightarrow> nat option \<Rightarrow> ('cc, 'e) bt_session \<Rightarrow> 'addr \<Rightarrow> 's
    \<Rightarrow> conn option \<Rightarrow> 's \<Rightarrow> bool" where
  "tracker_found te tb polls waits handler modl sess addr s q s2 \<longleftrightarrow>
     (\<exists>s1. trackerConnect te tb polls waits handler modl sess addr s = Inr s1 \<and> look_address te addr s1 = Inr (q, s2))"

text \<open>Why an announcement is not sent and rolled back.\<close>

definition not_announced :: "('cc, 'addr, 's) session_env
    \<Rightarrow> ('cc, 'addr, HTTP_Record, 's) bt_env \<Rightarrow> ('addr, 'cc, 'e) request_env \<Rightarrow> 'e build \<Rightarrow> allocations
    \<Rightarrow> ('s \<Rightarrow> 's) list \<Rightarrow> ('s \<Rightarrow> 's) list \<Rightarrow> nat \<Rightarrow> nat option
    \<Rightarrow> 'e Bencoding_Dictionary \<Rightarrow> 's \<Rightarrow> bool" where
  "not_announced te tb renv bld a polls waits handler modl d s \<longleftrightarrow>
     \<not> data_ok a \<or> \<not> container_ok a \<or> allocate_message (blocks a) (attempts a) = Some False \<or>
     announce_target (classAlnum bld) (classDigit bld) (bencodingOps bld) d = Inr None \<or>
     (\<exists>hostname uri. announce_target (classAlnum bld) (classDigit bld) (bencodingOps bld) d = Inr (Some (hostname, uri)) \<and>
        (set_host renv hostname = None \<or>
         (\<exists>addr sess s2. set_host renv hostname = Some addr
            \<and> tracker_found te tb polls waits handler modl (sess :: ('cc, 'e) bt_session) addr s None s2)))"

lemma request_failed_unlists:
  assumes "Some (request_failed e te True name None p ctl s) = Some (Inr (ctl', s'))"
  shows "sessions ctl' = map_erase string_less name (sessions ctl)"
    "sessionObjects ctl' = (sessionObjects ctl)(p := None)" "controlConfiguration ctl' = controlConfiguration ctl"
  using request_failed_result [of e te True name None p ctl s ctl' s'] assms by simp_all

lemma announce_result:
  assumes run: "announce e te tb renv bld a polls waits handler modl cfg cc d name p sess ctl s = Some (Inr (ctl', s'))"
    and own: "own_reports name p (reports renv)"
  obtains (failed) "not_announced te tb renv bld a polls waits handler modl d s"
      "sessions ctl' = map_erase string_less name (sessions ctl)"
      "sessionObjects ctl' = (sessionObjects ctl)(p := None)" "controlConfiguration ctl' = controlConfiguration ctl"
  | (found) hostname uri addr r sess1 c s2 ctl2 where
      "announce_target (classAlnum bld) (classDigit bld) (bencodingOps bld) d = Inr (Some (hostname, uri))"
      "set_host renv hostname = Some addr"
      "request_record (urlLocale bld) (bencodingOps bld) (sha1Sum bld) (userAgent bld) (external_address renv)
         (peerId sess1) d hostname uri = Inr r"
      "tracker_found te tb polls waits handler modl sess1 addr s (Some c) s2"
      "reports renv (ctl\<lparr>sessionObjects := (sessionObjects ctl)(p := Some sess1)\<rparr>) = Inr ctl2"
      "case if is_stream te c then send tb c r s2 else None of
         Some s3 \<Rightarrow> release te c s3 = Inr s' \<and> ctl' = ctl2
       | None \<Rightarrow> ctl' = ctl2\<lparr>sessionObjects := (sessionObjects ctl2)(p := None)\<rparr>"
proof (cases "data_ok a")
  case False
  with run failed show thesis
    by (simp add: announce_def not_announced_def request_failed_unlists)
next
  case data: True
  obtain tgt where target: "announce_target (classAlnum bld) (classDigit bld) (bencodingOps bld) d = Inr tgt"
    using run data by (auto simp: announce_def Let_def split: sum.splits)
  show thesis
  proof (cases "\<exists>hostname uri addr. tgt = Some (hostname, uri) \<and> set_host renv hostname = Some addr")
    case False
    then have "not_announced te tb renv bld a polls waits handler modl d s"
      using target by (cases tgt) (auto simp: not_announced_def)
    with run failed data target False show thesis
      by (auto simp: announce_def Let_def request_failed_unlists split: option.splits)
  next
    case True
    then obtain hostname uri addr where host: "tgt = Some (hostname, uri)" "set_host renv hostname = Some addr" by blast
    obtain r where r: "request_record (urlLocale bld) (bencodingOps bld) (sha1Sum bld) (userAgent bld)
        (external_address renv) (peerId sess) d hostname uri = Inr r"
      using run data target host by (auto simp: announce_def Let_def split: sum.splits)
    let ?sess = "if trackerKey sess = [] then sess\<lparr>trackerKey := generated_key renv\<rparr> else sess"
    let ?ctl = "ctl\<lparr>sessionObjects := (sessionObjects ctl)(p := Some ?sess)\<rparr>"
    show thesis
    proof (cases "container_ok a \<and> allocate_message (blocks a) (attempts a) \<noteq> Some False")
      case False
      then have "not_announced te tb renv bld a polls waits handler modl d s" by (auto simp: not_announced_def)
      with run failed data target host r False show thesis
        by (auto simp: announce_def Let_def request_failed_unlists split: if_splits option.splits bool.splits)
    next
      case ok: True
      with run data target host r have "allocate_message (blocks a) (attempts a) = Some True"
        by (auto simp: announce_def Let_def split: if_splits option.splits bool.splits)
      note start = data target host r ok this
      obtain s1 ctl2 q s2 where
        link: "trackerConnect te tb polls waits handler modl ?sess addr s = Inr s1" "reports renv ?ctl = Inr ctl2"
          "look_address te addr s1 = Inr (q, s2)"
        using run start by (auto simp: announce_def Let_def split: if_splits sum.splits)
      have found': "tracker_found te tb polls waits handler modl ?sess addr s q s2"
        using link by (auto simp: tracker_found_def)
      show thesis
      proof (cases q)
        case None
        then have "not_announced te tb renv bld a polls waits handler modl d s"
          using found' target host by (auto simp: not_announced_def)
        moreover have "Some (request_failed e te True name None p ctl2 s2) = Some (Inr (ctl', s'))"
          using run start link None by (simp add: announce_def Let_def split: if_splits)
        note u = request_failed_unlists [OF this]
        obtain sess2 where "sessions ctl2 = sessions ctl \<or> sessions ctl2 = map_erase string_less name (sessions ctl)"
          "sessionObjects ctl2 = (sessionObjects ctl)(p := Some sess2)"
          "controlConfiguration ctl2 = controlConfiguration ctl"
          by (rule own_reportsD [OF own link(2)]) simp_all
        ultimately show thesis
          by (intro failed) (use u in \<open>auto simp: erase_twice\<close>)
      next
        case (Some c)
        have end_case: "case if is_stream te c then send tb c r s2 else None of
            Some s3 \<Rightarrow> release te c s3 = Inr s' \<and> ctl' = ctl2
          | None \<Rightarrow> ctl' = ctl2\<lparr>sessionObjects := (sessionObjects ctl2)(p := None)\<rparr>"
          using run start link Some
          by (auto simp: announce_def Let_def bind_res_eq_Inr dest!: request_failed_result
              split: if_splits option.splits)
        show thesis
          by (rule found [OF _ host(2) _ _ link(2) end_case]) (use target host(1) r found' Some in simp_all)
      qed
    qed
  qed
qed

definition parsed_control :: "'e Bencoding_Dictionary \<Rightarrow> ('cc, 'e) control \<Rightarrow> ('cc, 'e) control" where
  "parsed_control d ctl =
     ctl\<lparr>controlConfiguration := map_option (\<lambda>cfg. cfg\<lparr>cfgMetaInfo := Some d\<rparr>) (controlConfiguration ctl)\<rparr>"

lemma request_result:
  assumes "request e te tb renv bld a polls waits handler modl name ctl s = Some (Inr (ctl', s'))"
  obtains (unparsed) "parseMetaInfoFile renv name = None" "ctl' = ctl"
  | (no_memory) d cfg where "parseMetaInfoFile renv name = Some d" "controlConfiguration ctl = Some cfg"
      "new_object renv = None" "ctl' = parsed_control d ctl"
  | (no_session) d cfg p where "parseMetaInfoFile renv name = Some d" "controlConfiguration ctl = Some cfg"
      "new_object renv = Some p" "\<not> handler_initializes renv"
      "ctl' = (parsed_control d ctl)\<lparr>sessionObjects := (sessionObjects ctl)(p := None)\<rparr>"
  | (announced) d cfg p cfg' cc sess where "parseMetaInfoFile renv name = Some d"
      "controlConfiguration ctl = Some cfg" "new_object renv = Some p"
      "announce e te tb renv bld a polls waits handler modl cfg' cc d name p sess
        ((parsed_control d ctl)\<lparr>sessionObjects := (sessionObjects ctl)(p := Some sess),
           sessions := map_insert string_less name p (sessions ctl)\<rparr>) s = Some (Inr (ctl', s'))"
proof -
  obtain cfg cc where cfg: "controlConfiguration ctl = Some cfg" "cfgTrackerConnection cfg = Some cc"
    and ok: "\<not> (\<not> messageAllocator tb cc \<or> \<not> cfgParser cfg \<or> cfgMetaInfo cfg \<noteq> None)"
    using assms by (auto simp: request_def split: option.splits if_splits)
  show thesis
  proof (cases "parseMetaInfoFile renv name")
    case None
    with cfg ok assms unparsed show thesis by (simp add: request_def)
  next
    case d: (Some d)
    show thesis
    proof (cases "new_object renv")
      case None
      with cfg ok assms d no_memory show thesis by (simp add: request_def parsed_control_def)
    next
      case p: (Some p)
      let ?cfg = "cfg\<lparr>cfgMetaInfo := Some d\<rparr>"
      from cfg ok assms d p obtain r sess where
        init: "bt_initialize (handler_initializes renv) ?cfg (new_bt_session (generated_id renv)) = Inr (r, sess)"
        by (auto simp: request_def Let_def split: sum.splits)
      show thesis
      proof (cases r)
        case False
        with init have "\<not> handler_initializes renv"
          by (auto simp: bt_initialize_def session_initialize_def Let_def split: if_splits)
        with False cfg ok assms d p init no_session show thesis
          by (auto simp: request_def parsed_control_def Let_def dest!: request_failed_result)
      next
        case True
        with cfg ok assms d p init announced show thesis
          by (simp add: request_def parsed_control_def Let_def)
      qed
    qed
  qed
qed

text \<open>C36: What a request for a name that is not listed yet makes of the list of sessions, while other threads
  report for that session only. It leaves the list and the objects as they were, and
  only for one of these reasons: the file cannot be parsed, the session cannot be initialised, memory is
  lacking, the announce URL or its host is of no use, or there is no connection to the tracker after
  trackerConnect (). Otherwise it has listed the session, and it sends the announcement on that
  connection: when this succeeds the session lives and is on the list unless its end was
  reported meanwhile; when the connection is not a stream connection or does not accept the message, the
  session is deleted but left on the list, so that the controller keeps a dangling pointer.\<close>

theorem request_outcomes:
  assumes "request e te tb renv bld a polls waits handler modl name ctl s = Some (Inr (ctl', s'))"
    and "new_object renv = Some p" "sessionObjects ctl p = None" "name \<notin> names ctl"
    and "own_reports name p (reports renv)"
  shows "sessions ctl' = sessions ctl \<and> sessionObjects ctl' = sessionObjects ctl
      \<and> (case parseMetaInfoFile renv name of None \<Rightarrow> True
         | Some d \<Rightarrow> \<not> handler_initializes renv \<or> not_announced te tb renv bld a polls waits handler modl d s)
    \<or> (\<exists>d hostname uri addr r sess c s2 ctl1 ctl2. parseMetaInfoFile renv name = Some d
      \<and> announce_target (classAlnum bld) (classDigit bld) (bencodingOps bld) d = Inr (Some (hostname, uri))
      \<and> set_host renv hostname = Some addr
      \<and> request_record (urlLocale bld) (bencodingOps bld) (sha1Sum bld) (userAgent bld) (external_address renv)
           (peerId sess) d hostname uri = Inr r
      \<and> tracker_found te tb polls waits handler modl sess addr s (Some c) s2
      \<and> sessions ctl1 = map_insert string_less name p (sessions ctl) \<and> sessionObjects ctl1 p = Some sess
      \<and> reports renv ctl1 = Inr ctl2 \<and> sessions ctl' = sessions ctl2
      \<and> (case if is_stream te c then send tb c r s2 else None of
           Some s3 \<Rightarrow> release te c s3 = Inr s' \<and> (\<exists>sess'. sessionObjects ctl' = (sessionObjects ctl)(p := Some sess'))
         | None \<Rightarrow> sessionObjects ctl' = sessionObjects ctl))"
    (is "?undone \<or> ?sent")
  using assms(1)
proof (cases rule: request_result)
  case (announced d cfg q cfg' cc sess)
  have q: "q = p" using announced(3) assms(2) by simp
  have same: "(sessionObjects ctl)(p := None) = sessionObjects ctl" using assms(3) by auto
  have erased: "map_erase string_less name (map_insert string_less name p (sessions ctl)) = sessions ctl"
    using assms(4) by (simp add: erase_insert names_def)
  note own = assms(5)
  show ?thesis
    using announced(4) [unfolded q] own
  proof (cases rule: announce_result)
    case failed
    then have ?undone using announced(1) erased same by simp
    then show ?thesis ..
  next
    case (found hostname uri addr r sess1 c s2 ctl2)
    from own_reportsD [OF own found(5)] obtain sess2 where
      objs: "sessionObjects ctl2 = (sessionObjects ctl)(p := Some sess2)" by auto
    let ?ctl1 = "(parsed_control d ctl)\<lparr>sessions := map_insert string_less name p (sessions ctl),
      sessionObjects := (sessionObjects ctl)(p := Some sess1)\<rparr>"
    have reported: "reports renv ?ctl1 = Inr ctl2" using found(5) by simp
    have "sessions ctl' = sessions ctl2"
      using found(6) by (auto split: option.splits)
    moreover have "case if is_stream te c then send tb c r s2 else None of
        Some s3 \<Rightarrow> release te c s3 = Inr s' \<and> (\<exists>sess'. sessionObjects ctl' = (sessionObjects ctl)(p := Some sess'))
      | None \<Rightarrow> sessionObjects ctl' = sessionObjects ctl"
      using found(6) objs same by (cases "if is_stream te c then send tb c r s2 else None") auto
    ultimately have ?sent
      using announced(1) found(1-4) reported
      by - (rule exI [of _ d], rule exI [of _ hostname], rule exI [of _ uri], rule exI [of _ addr],
        rule exI [of _ r], rule exI [of _ sess1], rule exI [of _ c], rule exI [of _ s2],
        rule exI [of _ ?ctl1], rule exI [of _ ctl2], simp)
    then show ?thesis ..
  qed
qed (use assms in \<open>auto simp: parsed_control_def\<close>)

text \<open>A controller handles one request: after a request whose file could be parsed - whatever became of
  it - the configuration has its meta information, which nothing resets, and the next request fails an assertion.\<close>

theorem request_once:
  assumes "request e te tb renv bld a polls waits handler modl name ctl s = Some (Inr (ctl', s'))"
    and "parseMetaInfoFile renv name \<noteq> None" "\<forall>p. own_reports name p (reports renv)"
  shows "request e' te' tb' renv' bld' a' polls' waits' handler' modl' name' ctl' s'' = Some (Inl Assertion)"
proof -
  have "\<exists>cfg. controlConfiguration ctl' = Some cfg \<and> cfgMetaInfo cfg \<noteq> None"
    using assms(1)
  proof (cases rule: request_result)
    case (announced d cfg q cfg' cc sess)
    show ?thesis
      using announced(4) assms(3) [rule_format]
    proof (cases rule: announce_result)
      case failed
      with announced(2) show ?thesis by (simp add: parsed_control_def)
    next
      case (found hostname uri addr r sess1 c s2 ctl2)
      from own_reportsD [OF assms(3) [rule_format, of q] found(5)] have "controlConfiguration ctl2 = controlConfiguration (parsed_control d ctl)"
        by auto
      with found(6) announced(2) show ?thesis
        by (auto simp: parsed_control_def split: option.splits)
    qed
  qed (use assms(2) in \<open>auto simp: parsed_control_def\<close>)
  then show ?thesis by (auto simp: request_def split: option.splits)
qed

section \<open>Stopping\<close>

lemma control_wait_drains:
  assumes "distinct ends" "set ends \<subseteq> names ctl"
  shows "case control_wait (map (\<lambda>name. control_notify name BITTORRENT_EVENT_CANCELLED) ends) ctl of
      None \<Rightarrow> set ends \<noteq> names ctl
    | Some (Inl _) \<Rightarrow> False
    | Some (Inr ctl') \<Rightarrow> set ends = names ctl \<and> sessions ctl' = [] \<and> sessionObjects ctl' = sessionObjects ctl"
  using assms
proof (induction ends arbitrary: ctl)
  case Nil
  then show ?case by (auto simp: names_def control_wait_def)
next
  case (Cons name ends)
  let ?ctl = "ctl\<lparr>sessions := map_erase string_less name (sessions ctl), signals := Suc (signals ctl)\<rparr>"
  have "name \<in> names ctl" using Cons.prems by auto
  then have n: "sessions ctl \<noteq> []" "control_notify name BITTORRENT_EVENT_CANCELLED ctl = Inr ?ctl"
    by (auto simp: names_def control_notify_def get_session_None)
  have e: "names ?ctl = names ctl - {name}" by (simp add: names_def names_erase)
  have "set ends \<subseteq> names ?ctl" "set ends = names ?ctl \<longleftrightarrow> set (name # ends) = names ctl"
    using Cons.prems \<open>name \<in> names ctl\<close> unfolding e by auto
  moreover have "control_wait (map (\<lambda>name. control_notify name BITTORRENT_EVENT_CANCELLED) (name # ends)) ctl
      = control_wait (map (\<lambda>name. control_notify name BITTORRENT_EVENT_CANCELLED) ends) ?ctl"
    using n by (simp add: control_wait_def)
  ultimately show ?case
    using Cons.IH [of ?ctl] Cons.prems(1) by (auto split: option.splits sum.splits)
qed

lemma close_ids_balanced:
  assumes "counting ops refs" "\<forall>c. keeps refs (close_conn e c)"
    and "balanced refs own m" "ACE_INVALID_HANDLE \<notin> set ids"
  shows "\<exists>m'. close_ids (on_manager ops e) ids m = Inr m' \<and> balanced refs own m'"
  using assms(3,4)
proof (induction ids arbitrary: m)
  case (Cons i ids)
  obtain q m1 where look: "get_by_id ops i m = Inr (q, m1)"
    using get_by_id_valid [OF assms(1), of i m] Cons.prems(2) by auto
  show ?case
  proof (cases q)
    case None
    with look by_id.look_none [of ops i m m1] Cons show ?thesis by (simp add: on_manager_def)
  next
    case (Some c)
    with look by_id.visit [OF assms(1) Cons.prems(1), of i c m1 "close_conn e c"] assms(2)
    obtain m2 where "manager_release ops c (close_conn e c m1) = Inr m2" "balanced refs own m2"
      by (auto dest: keepsD)
    with look Some Cons show ?thesis by (simp add: on_manager_def)
  qed
qed simp

definition closable :: "('cc, 'e) control \<Rightarrow> nat \<Rightarrow> bool" where
  "closable ctl p \<longleftrightarrow> (case sessionObjects ctl p of None \<Rightarrow> False
     | Some sess \<Rightarrow> sessionManager sess \<and> finite (sessionConnections sess) \<and> ACE_INVALID_HANDLE \<notin> sessionConnections sess)"

lemma close_sessions_balanced:
  assumes "counting ops refs" "\<forall>c. keeps refs (close_conn e c)"
    and "balanced refs own m" "\<forall>p \<in> snd ` set xs. closable ctl p"
  shows "\<exists>m'. close_sessions (on_manager ops e) left ctl xs m = Inr m' \<and> balanced refs own m'"
  using assms(3,4)
proof (induction xs arbitrary: m)
  case (Cons x xs)
  obtain name p where x: "x = (name, p)" by fastforce
  with Cons.prems(2) obtain sess where sess: "sessionObjects ctl p = Some sess" "sessionManager sess"
    "finite (sessionConnections sess)" "ACE_INVALID_HANDLE \<notin> sessionConnections sess"
    by (auto simp: closable_def split: option.splits)
  from close_ids_balanced [OF assms(1,2) Cons.prems(1), of "sorted_list_of_set (sessionConnections sess)"] sess
  obtain m1 where "close_ids (on_manager ops e) (sorted_list_of_set (sessionConnections sess)) m = Inr m1"
    "balanced refs own m1" by auto
  with Cons x sess show ?case by (simp add: session_close_def)
qed simp

text \<open>C37: Stopping and waiting, when all listed sessions exist, have a manager and hold finitely many,
  valid ids. While the controller sleeps on its
  condition some of the listed sessions report their ends, once each, in any order. Then no assertion
  fails, and stop () returns if and only if all of them report: every report signals the condition, so no
  wake-up is lost. No session is left on the list, the sessions themselves stay (nothing deletes
  them), and no reference to a connection is leaked.\<close>

theorem stop_completes:
  assumes "counting ops refs" "\<forall>c. keeps refs (close_conn e c)" "balanced refs own m"
    and "\<forall>p \<in> snd ` set (sessions ctl). closable ctl p" "distinct ends" "set ends \<subseteq> names ctl"
  shows "case control_stop (on_manager ops e) left (map (\<lambda>name. control_notify name BITTORRENT_EVENT_CANCELLED) ends)
        True ctl m of
      None \<Rightarrow> set ends \<noteq> names ctl
    | Some (Inl _) \<Rightarrow> False
    | Some (Inr (ctl', m')) \<Rightarrow> set ends = names ctl \<and> sessions ctl' = []
        \<and> sessionObjects ctl' = sessionObjects ctl \<and> balanced refs own m'"
proof -
  from close_sessions_balanced [OF assms(1-4)] obtain m' where
    "close_sessions (on_manager ops e) left ctl (sessions ctl) m = Inr m'" "balanced refs own m'" by blast
  with control_wait_drains [OF assms(5,6)] show ?thesis
    by (auto simp: control_stop_def split: option.splits sum.splits)
qed

text \<open>After stopping, with or without waiting, the end of any session that still has a connection fails an assertion: the
  list is empty and the controller does not know the session that reports to it. Without waiting this
  is every session whose last connection closes after the list was cleared.\<close>

theorem stopped_sessions_end:
  assumes "control_stop e left fs wait ctl m = Some (Inr (ctl', m'))"
    and "notify_controller b = notify_shared" "controller sess" "sessionConnections sess \<subseteq> {i}"
  shows "bt_disconnect_id b i sess (ctl', m'') = Inl Assertion"
proof (rule control.end_unlisted [OF assms(2-4)])
  have "sessions ctl' = []"
    using assms(1) by (auto simp: control_stop_def split: sum.splits option.splits if_splits)
  then show "metaInfoFileName sess \<notin> (names \<circ> fst) (ctl', m'')" by (simp add: names_def)
qed

section \<open>The order of the locks\<close>

text \<open>
  Of two threads that stop the controller and end a connection of the session at address \<open>p\<close>: the locks
  of controller and sessions that they take. \<^verbatim>\<open>stop\<close> holds the lock of the controller while it closes the
  sessions, each of which takes its own; \<^verbatim>\<open>disconnect (id)\<close> takes the lock of the session, and again to report.
  The second section of \<^verbatim>\<open>stop\<close> and the wait, which hold no other of these locks, and the locks of manager and
  connections are left out.
\<close>

datatype lock = Control_Lock | Session_Lock nat

datatype lock_op = Acquire lock | Release lock

definition stop_locks :: "('cc, 'e) control \<Rightarrow> lock_op list" where
  "stop_locks ctl = Acquire Control_Lock
     # concat (map (\<lambda>(name, p). [Acquire (Session_Lock p), Release (Session_Lock p)]) (sessions ctl))
     @ [Release Control_Lock]"

definition disconnect_locks :: "nat \<Rightarrow> u32 \<Rightarrow> ('cc, 'e) bt_session \<Rightarrow> lock_op list" where
  "disconnect_locks p i sess =
     [Acquire (Session_Lock p), Release (Session_Lock p), Acquire (Session_Lock p)]
     @ (if sessionConnections (session_disconnect_id i sess) = {} \<and> controller sess
        then [Acquire Control_Lock, Release Control_Lock] else [])
     @ [Release (Session_Lock p)]"

text \<open>The threads \<open>True\<close> and \<open>False\<close>: what they have still to do, and who holds the locks.\<close>

type_synonym lock_state = "(bool \<Rightarrow> lock_op list) \<times> (lock \<Rightarrow> bool option)"

inductive lock_step :: "lock_state \<Rightarrow> lock_state \<Rightarrow> bool" where
  acquire: "prog t = Acquire l # rest \<Longrightarrow> holder l = None \<Longrightarrow>
    lock_step (prog, holder) (prog(t := rest), holder(l := Some t))"
| release: "prog t = Release l # rest \<Longrightarrow> holder l = Some t \<Longrightarrow>
    lock_step (prog, holder) (prog(t := rest), holder(l := None))"

inductive_cases lock_stepE: "lock_step (prog, holder) x"

definition blocked :: "lock_state \<Rightarrow> bool \<Rightarrow> bool" where
  "blocked x t \<longleftrightarrow> (\<exists>l rest. fst x t = Acquire l # rest \<and> snd x l \<noteq> None)"

definition deadlock :: "lock_state \<Rightarrow> bool" where
  "deadlock x \<longleftrightarrow> (\<exists>t. fst x t \<noteq> []) \<and> (\<forall>t. fst x t \<noteq> [] \<longrightarrow> blocked x t)"

text \<open>The pairs of locks held and lock awaited in a program, and the locks that it holds at its end.\<close>

fun awaits :: "lock set \<Rightarrow> lock_op list \<Rightarrow> (lock set \<times> lock) set" where
  "awaits held [] = {}"
| "awaits held (Acquire l # ops) = insert (held, l) (awaits (insert l held) ops)"
| "awaits held (Release l # ops) = awaits (held - {l}) ops"

fun held_after :: "lock set \<Rightarrow> lock_op list \<Rightarrow> lock set" where
  "held_after held [] = held"
| "held_after held (Acquire l # ops) = held_after (insert l held) ops"
| "held_after held (Release l # ops) = held_after (held - {l}) ops"

definition held_by :: "lock_state \<Rightarrow> bool \<Rightarrow> lock set" where
  "held_by x t = {l. snd x l = Some t}"

definition on_track :: "(bool \<Rightarrow> lock_op list) \<Rightarrow> lock_state \<Rightarrow> bool" where
  "on_track progs x \<longleftrightarrow> (\<forall>t. awaits (held_by x t) (fst x t) \<subseteq> awaits {} (progs t) \<and>
     held_after (held_by x t) (fst x t) = held_after {} (progs t))"

lemma lock_step_on_track: "lock_step x y \<Longrightarrow> on_track progs x \<Longrightarrow> on_track progs y"
proof (induction rule: lock_step.induct)
  case (acquire prog t l rest holder)
  have "held_by (prog(t := rest), holder(l := Some t)) u
      = (if u = t then insert l (held_by (prog, holder) t) else held_by (prog, holder) u)" for u
    using acquire(2) by (auto simp: held_by_def)
  with acquire show ?case by (auto simp: on_track_def) (use acquire(1) in \<open>force\<close>)+
next
  case (release prog t l rest holder)
  have "held_by (prog(t := rest), holder(l := None)) u
      = (if u = t then held_by (prog, holder) t - {l} else held_by (prog, holder) u)" for u
    using release(2) by (auto simp: held_by_def)
  with release show ?case by (auto simp: on_track_def) (use release(1) in \<open>force\<close>)+
qed

lemma locks_on_track: "lock_step\<^sup>*\<^sup>* (progs, \<lambda>_. None) x \<Longrightarrow> on_track progs x"
proof (induction rule: rtranclp_induct)
  case base
  show ?case by (simp add: on_track_def held_by_def)
next
  case (step y z)
  then show ?case using lock_step_on_track by blast
qed

lemma awaits_sessions:
  "awaits {Control_Lock} (concat (map (\<lambda>(name, p). [Acquire (Session_Lock p), Release (Session_Lock p)]) xs) @ ops)
    = (\<lambda>x. ({Control_Lock}, Session_Lock (snd x))) ` set xs \<union> awaits {Control_Lock} ops"
  "held_after {Control_Lock} (concat (map (\<lambda>(name, p). [Acquire (Session_Lock p), Release (Session_Lock p)]) xs) @ ops)
    = held_after {Control_Lock} ops"
  by (induction xs) (auto simp: insert_Diff_if image_iff, force)

lemma stop_awaits:
  "awaits {} (stop_locks ctl) = insert ({}, Control_Lock) ((\<lambda>x. ({Control_Lock}, Session_Lock (snd x))) ` set (sessions ctl))"
  "held_after {} (stop_locks ctl) = {}"
  by (simp_all add: stop_locks_def awaits_sessions)

lemma disconnect_awaits:
  "awaits {} (disconnect_locks p i sess) = insert ({}, Session_Lock p)
    (if sessionConnections sess \<subseteq> {i} \<and> controller sess then {({Session_Lock p}, Control_Lock)} else {})"
  "held_after {} (disconnect_locks p i sess) = {}"
  by (auto simp: disconnect_locks_def session_disconnect_id_def insert_Diff_if)

lemma deadlock_shape:
  assumes track: "on_track progs x" and dead: "deadlock x"
    and final: "\<And>t. held_after {} (progs t) = {}" and self: "\<And>t h l. (h, l) \<in> awaits {} (progs t) \<Longrightarrow> l \<notin> h"
  shows "\<exists>t h l h' l'. (h, l) \<in> awaits {} (progs t) \<and> (h', l') \<in> awaits {} (progs (\<not> t)) \<and> l \<in> h' \<and> l' \<in> h"
proof -
  obtain prog holder where x: "x = (prog, holder)" by (cases x)
  have waiting: "(held_by x t, l) \<in> awaits {} (progs t)" if "prog t = Acquire l # rest" for t l rest
    using track that x by (auto simp: on_track_def dest: spec [of _ t])
  have finished: "held_by x t = {}" if "prog t = []" for t
    using track that final [of t] x by (auto simp: on_track_def dest: spec [of _ t])
  have other: "l \<in> held_by x (\<not> t)" if "prog t = Acquire l # rest" "holder l \<noteq> None" for t l rest
    using self [OF waiting [OF that(1)]] that(2) x by (auto simp: held_by_def)
  obtain t l rest where t: "prog t = Acquire l # rest" "holder l \<noteq> None"
    using dead x by (auto simp: deadlock_def blocked_def)
  then have "prog (\<not> t) \<noteq> []" using other finished by blast
  then obtain l' rest' where t': "prog (\<not> t) = Acquire l' # rest'" "holder l' \<noteq> None"
    using dead x unfolding deadlock_def blocked_def by auto
  from waiting [OF t(1)] waiting [OF t'(1)] other [OF t] other [OF t'] show ?thesis
    by (intro exI [of _ t] exI [of _ "held_by x t"] exI [of _ l] exI [of _ "held_by x (\<not> t)"] exI [of _ l']) simp
qed

lemma lock_steps_sessions:
  assumes "prog t = concat (map (\<lambda>(name, p). [Acquire (Session_Lock p), Release (Session_Lock p)]) xs) @ ops"
    and "\<forall>x \<in> set xs. holder (Session_Lock (snd x)) = None"
  shows "lock_step\<^sup>*\<^sup>* (prog, holder) (prog(t := ops), holder)"
  using assms
proof (induction xs arbitrary: prog)
  case Nil
  then have "prog(t := ops) = prog" by auto
  then show ?case by simp
next
  case (Cons x xs)
  obtain name p where x: "x = (name, p)" by fastforce
  let ?rest = "concat (map (\<lambda>(name, p). [Acquire (Session_Lock p), Release (Session_Lock p)]) xs) @ ops"
  let ?mid = "(prog(t := Release (Session_Lock p) # ?rest), holder(Session_Lock p := Some t))"
  have "lock_step (prog, holder) ?mid"
    using Cons.prems x by (intro lock_step.acquire) auto
  moreover have "lock_step ?mid (prog(t := ?rest), holder)"
    using lock_step.release [of "fst ?mid" t "Session_Lock p" ?rest "snd ?mid"] Cons.prems x by (simp add: fun_upd_idem)
  moreover have "lock_step\<^sup>*\<^sup>* (prog(t := ?rest), holder) (prog(t := ops), holder)"
    using Cons.IH [of "prog(t := ?rest)", OF fun_upd_same] Cons.prems(2) by (simp del: fun_upd_apply)
  ultimately show ?case by (meson converse_rtranclp_into_rtranclp)
qed

definition both :: "lock_op list \<Rightarrow> lock_op list \<Rightarrow> bool \<Rightarrow> lock_op list" where
  "both ops ops' t = (if t then ops else ops')"

lemma both_simps [simp]:
  "both ops ops' True = ops" "both ops ops' False = ops'"
  "(both ops ops')(True := ops'') = both ops'' ops'" "(both ops ops')(False := ops'') = both ops ops''"
  by (auto simp: both_def)

lemma lock_chain: "lock_step x y \<Longrightarrow> lock_step\<^sup>*\<^sup>* y z \<Longrightarrow> lock_step\<^sup>*\<^sup>* x z"
  by (rule converse_rtranclp_into_rtranclp)

lemma lock_deadlock:
  assumes "\<forall>x \<in> set xs. snd x \<noteq> p"
  shows "\<exists>x. lock_step\<^sup>*\<^sup>* (both (Acquire Control_Lock # concat (map (\<lambda>(name, p). [Acquire (Session_Lock p),
        Release (Session_Lock p)]) xs) @ Acquire (Session_Lock p) # ops)
      (Acquire (Session_Lock p) # Release (Session_Lock p) # Acquire (Session_Lock p) # Acquire Control_Lock # ops'),
      \<lambda>_. None) x \<and> deadlock x"
proof -
  let ?open = "concat (map (\<lambda>(name, p). [Acquire (Session_Lock p), Release (Session_Lock p)]) xs)"
  let ?t = "?open @ Acquire (Session_Lock p) # ops" and ?c = "Acquire Control_Lock # ops'"
  let ?h1 = "(\<lambda>_. None)(Session_Lock p := Some False)"
  let ?h2 = "?h1(Control_Lock := Some True)"
  note get = lock_step.acquire [of "both _ _"] and put = lock_step.release [of "both _ _"]
  have "lock_step\<^sup>*\<^sup>* (both ?t ?c, ?h2) (both (Acquire (Session_Lock p) # ops) ?c, ?h2)"
    using lock_steps_sessions [of "both ?t ?c" True xs _ ?h2] assms by simp
  with get [of "Acquire Control_Lock # ?t" ?c True Control_Lock ?t ?h1]
  have "lock_step\<^sup>*\<^sup>* (both (Acquire Control_Lock # ?t) ?c, ?h1) (both (Acquire (Session_Lock p) # ops) ?c, ?h2)"
    by (auto intro: lock_chain)
  with get [of "Acquire Control_Lock # ?t" "Acquire (Session_Lock p) # ?c" False "Session_Lock p" ?c "\<lambda>_. None"]
  have "lock_step\<^sup>*\<^sup>* (both (Acquire Control_Lock # ?t) (Acquire (Session_Lock p) # ?c), \<lambda>_. None)
      (both (Acquire (Session_Lock p) # ops) ?c, ?h2)" by (auto intro: lock_chain)
  with put [of "Acquire Control_Lock # ?t" "Release (Session_Lock p) # Acquire (Session_Lock p) # ?c" False
      "Session_Lock p" "Acquire (Session_Lock p) # ?c" ?h1]
  have "lock_step\<^sup>*\<^sup>* (both (Acquire Control_Lock # ?t) (Release (Session_Lock p) # Acquire (Session_Lock p) # ?c), ?h1)
      (both (Acquire (Session_Lock p) # ops) ?c, ?h2)" by (auto intro: lock_chain)
  with get [of "Acquire Control_Lock # ?t" "Acquire (Session_Lock p) # Release (Session_Lock p) # Acquire (Session_Lock p) # ?c"
      False "Session_Lock p" "Release (Session_Lock p) # Acquire (Session_Lock p) # ?c" "\<lambda>_. None"]
  have "lock_step\<^sup>*\<^sup>* (both (Acquire Control_Lock # ?t) (Acquire (Session_Lock p) # Release (Session_Lock p)
      # Acquire (Session_Lock p) # ?c), \<lambda>_. None) (both (Acquire (Session_Lock p) # ops) ?c, ?h2)"
    by (auto intro: lock_chain)
  moreover have "deadlock (both (Acquire (Session_Lock p) # ops) ?c, ?h2)"
    by (auto simp: deadlock_def blocked_def both_def)
  ultimately show ?thesis by blast
qed

text \<open>C21: The controller and the sessions take their locks in opposite orders: a thread that stops the
  controller and one that ends a connection of a session can block each other for good if and only if the session is
  on the list and the connection is its last, so that it reports to the controller.\<close>

theorem stop_deadlock:
  "(\<exists>x. lock_step\<^sup>*\<^sup>* (both (stop_locks ctl) (disconnect_locks p i sess), \<lambda>_. None) x \<and> deadlock x)
    \<longleftrightarrow> p \<in> snd ` set (sessions ctl) \<and> sessionConnections sess \<subseteq> {i} \<and> controller sess" (is "?dead \<longleftrightarrow> ?cond")
proof
  let ?progs = "both (stop_locks ctl) (disconnect_locks p i sess)"
  assume ?dead
  then obtain x where x: "on_track ?progs x" "deadlock x" using locks_on_track by blast
  have "held_after {} (?progs t) = {}" for t by (simp add: both_def stop_awaits disconnect_awaits)
  moreover have "l \<notin> h" if "(h, l) \<in> awaits {} (?progs t)" for t h l
    using that by (auto simp: both_def stop_awaits disconnect_awaits split: if_splits)
  ultimately obtain t h l h' l' where "(h, l) \<in> awaits {} (?progs t)" "(h', l') \<in> awaits {} (?progs (\<not> t))"
    "l \<in> h'" "l' \<in> h" using deadlock_shape [OF x] by blast
  then show ?cond by (cases t) (auto simp: stop_awaits disconnect_awaits split: if_splits)
next
  assume cond: ?cond
  then have "\<exists>x \<in> set (sessions ctl). snd x = p" by auto
  from split_list_first_prop [OF this] obtain xs x ys where
    split: "sessions ctl = xs @ x # ys" "snd x = p" "\<forall>x \<in> set xs. snd x \<noteq> p" by blast
  have "(case x of (name, q) \<Rightarrow> [Acquire (Session_Lock q), Release (Session_Lock q)])
      = [Acquire (Session_Lock p), Release (Session_Lock p)]"
    using split(2) by (cases x) simp
  moreover have "sessionConnections sess - {i} = {}" using cond by blast
  ultimately show ?dead
    using lock_deadlock [OF split(3)] cond
    by (simp add: stop_locks_def disconnect_locks_def session_disconnect_id_def split(1))
qed

section \<open>An example\<close>

text \<open>Environments in which all is well, save that the connection may not be a stream connection.\<close>

definition plain_env :: "bool \<Rightarrow> (unit, string, 's) session_env" where
  "plain_env stream = \<lparr>look_id = \<lambda>_ s. Inr (Some 3, s), look_address = \<lambda>_ s. Inr (Some 3, s), release = \<lambda>_ s. Inr s,
     close_conn = \<lambda>_ s. s, status_ok = \<lambda>_ _. True, is_stream = \<lambda>_. stream, wait_running = \<lambda>_ s. s,
     connector_initialize = \<lambda>_ s. (True, s), connector_connect = \<lambda>a s. (7, s)\<rparr>"

definition plain_bt_env :: "(string \<Rightarrow> BitTorrent_Event \<Rightarrow> 's \<Rightarrow> 's res) \<Rightarrow> (unit, string, 'msg, 's) bt_env" where
  "plain_bt_env report = \<lparr>get_conf = \<lambda>_. Some \<lparr>peerAddress = [], subscriber = None, cloneModule = False, streamModule = None\<rparr>,
     set_conf = \<lambda>_ s. s, messageAllocator = \<lambda>_. True,
     allocatorConfiguration = \<lambda>_. True, send = \<lambda>_ _ s. Some s, notify_controller = report\<rparr>"

definition demo_metainfo :: "(string \<times> bencoding) list" where
  "demo_metainfo = (''announce'', Text ''http://a/x'') # demo_torrent"

definition demo_request :: "(string, unit, bencoding) request_env" where
  "demo_request = \<lparr>parseMetaInfoFile = \<lambda>_. Some demo_metainfo, new_object = Some 1, generated_id = ''-LN0000-'',
     generated_key = ''key'', handler_initializes = True, set_host = Some, external_address = None, reports = Inr\<rparr>"

definition demo_build :: "bencoding build" where
  "demo_build = \<lparr>classAlnum = \<lambda>c. ascii_alpha c \<or> ascii_digit c, classDigit = ascii_digit,
     urlLocale = Some (ascii_digit, ascii_alpha), bencodingOps = demo_bencoding, sha1Sum = \<lambda>_. replicate 20 7, userAgent = []\<rparr>"

definition demo_control :: "(unit, bencoding) control" where
  "demo_control = new_control (Some (demo_configuration\<lparr>cfgMetaInfo := None\<rparr>))"

lemma demo_target:
  "announce_target (\<lambda>c. ascii_alpha c \<or> ascii_digit c) ascii_digit demo_bencoding demo_metainfo = Inr (Some (''a'', ''/x''))"
proof -
  have "parseURL (\<lambda>c. ascii_alpha c \<or> ascii_digit c) ascii_digit ''http://a/x'' = Inr (True, ''a'', ''/x'', False)"
    by code_simp
  then show ?thesis by (simp add: announce_target_def as_string_def demo_metainfo_def demo_bencoding_def)
qed

lemma demo_record:
  "\<exists>r. request_record (Some (ascii_digit, ascii_alpha)) demo_bencoding (\<lambda>_. replicate 20 7) [] None ''-LN0000-''
    demo_metainfo ''a'' ''/x'' = Inr r"
proof -
  have hash: "MetaInfoToInfoHash demo_bencoding (\<lambda>_. replicate 20 7) demo_metainfo = Inr (string_of (replicate 20 7))"
    by (simp add: MetaInfoToInfoHash_def demo_metainfo_def demo_torrent_def demo_bencoding_def as_dictionary_def c_string_def)
  have len: "MetaInfoToLength demo_bencoding demo_metainfo = Inr 1024"
    by (simp add: MetaInfoToLength_def demo_metainfo_def demo_torrent_def demo_bencoding_def as_dictionary_def
        as_list_def as_unsigned_def)
  show ?thesis unfolding request_record_def hash len bind_res_simps Let_def by blast
qed

lemma demo_run:
  "\<exists>ctl. request (plain_env stream) (plain_env stream) (plain_bt_env (\<lambda>_ _. Inr)) demo_request demo_build
      (demo_allocations True) [] [] 1 None ''a'' demo_control () = Some (Inr (ctl, ()))
    \<and> sessions ctl = [(''a'', 1)] \<and> (sessionObjects ctl 1 = None \<longleftrightarrow> \<not> stream)"
proof -
  note defs = request_def demo_control_def new_control_def demo_configuration_def plain_bt_env_def demo_request_def
    bt_initialize_def new_bt_session_def session_initialize_def announce_def demo_allocations_def demo_build_def
    new_session_def session.defs session_configuration.defs trackerConnect_def subscribe_def tracker_link_def
    plain_env_def ACE_INVALID_HANDLE_def restore_conf_def unsubscribe_def request_failed_def delete_object_def
    session_destroy_def Let_def
  obtain r where "request_record (Some (ascii_digit, ascii_alpha)) demo_bencoding (\<lambda>_. replicate 20 7) [] None
      ''-LN0000-'' demo_metainfo ''a'' ''/x'' = Inr r" using demo_record by blast
  then show ?thesis by (cases stream) (simp_all add: defs demo_target)
qed

lemma demo_control_fields:
  "sessions demo_control = []" "sessionObjects demo_control = (\<lambda>_. None)" "names demo_control = {}"
  by (simp_all add: demo_control_def new_control_def names_def)

lemma demo_own_reports: "own_reports name p (reports demo_request)"
proof -
  have "\<exists>sess. sessionObjects ctl = (sessionObjects ctl)(p := Some sess)" if "sessionObjects ctl p = Some y"
    for ctl :: "(unit, bencoding) control" and y
    using that by (metis fun_upd_triv)
  then show ?thesis by (auto simp: own_reports_def demo_request_def)
qed

text \<open>A tracker connection that is not a stream connection: the session is deleted and listed.\<close>

theorem request_outcomes_witness:
  "\<exists>ctl. request (plain_env False) (plain_env False) (plain_bt_env (\<lambda>_ _. Inr)) demo_request demo_build
      (demo_allocations True) [] [] 1 None ''a'' demo_control () = Some (Inr (ctl, ()))
    \<and> get_session ''a'' ctl = Some 1 \<and> sessionObjects ctl 1 = None"
proof -
  obtain ctl where ctl: "request (plain_env False) (plain_env False) (plain_bt_env (\<lambda>_ _. Inr)) demo_request demo_build
      (demo_allocations True) [] [] 1 None ''a'' demo_control () = Some (Inr (ctl, ()))"
    "sessions ctl = [(''a'', 1)]" "sessionObjects ctl 1 = None"
    using demo_run [of False] by blast
  have "new_object demo_request = Some 1" by (simp add: demo_request_def)
  from request_outcomes [OF ctl(1) this _ _ demo_own_reports] ctl(2,3)
  have "sessionObjects ctl = (\<lambda>_. None)"
    by (auto simp: demo_control_fields plain_env_def)
  with ctl show ?thesis by (auto simp: get_session_def str.irrefl)
qed

theorem request_once_witness:
  "\<exists>ctl. request (plain_env True) (plain_env True) (plain_bt_env (\<lambda>_ _. Inr)) demo_request demo_build
      (demo_allocations True) [] [] 1 None ''a'' demo_control () = Some (Inr (ctl, ()))
    \<and> request (plain_env True) (plain_env True) (plain_bt_env (\<lambda>_ _. Inr)) demo_request demo_build
      (demo_allocations True) [] [] 1 None ''b'' ctl () = Some (Inl Assertion)"
proof -
  obtain ctl where ctl: "request (plain_env True) (plain_env True) (plain_bt_env (\<lambda>_ _. Inr)) demo_request demo_build
      (demo_allocations True) [] [] 1 None ''a'' demo_control () = Some (Inr (ctl, ()))" using demo_run [of True] by blast
  have "parseMetaInfoFile demo_request ''a'' \<noteq> None" by (simp add: demo_request_def)
  from request_once [OF ctl this allI [OF demo_own_reports]] show ?thesis by (intro exI [of _ ctl] conjI ctl)
qed

definition listing :: "u32 set \<Rightarrow> (unit, bencoding) control" where
  "listing ids = demo_control\<lparr>sessions := [(''example.torrent'', 1)],
     sessionObjects := (\<lambda>_. None)(1 := Some (demo_bt_session\<lparr>sessionConnections := ids\<rparr>))\<rparr>"

lemma demo_bt_session_name:
  "controller demo_bt_session" "metaInfoFileName demo_bt_session = ''example.torrent''"
  by (simp_all add: demo_bt_session_def bt_initialize_def demo_configuration_def session_initialize_def Let_def)

lemma listing_names: "names (listing ids) = {''example.torrent''}"
  by (simp add: listing_def names_def)

definition controller_env :: "(unit, string, unit PeerMessageData, (unit, bencoding) control \<times> unit) bt_env" where
  "controller_env = plain_bt_env notify_shared"

theorem session_ends_twice_witness:
  "\<exists>sess ctl sess'. bt_disconnect_id controller_env 5 (demo_bt_session\<lparr>sessionConnections := {5}\<rparr>)
      (listing {5}, ()) = Inr (sess, (ctl, ()))
    \<and> bt_connect_id (plain_env True) controller_env demo_bencoding (\<lambda>_. replicate 20 7) (demo_allocations False)
        9 sess (ctl, ()) = Some (Inr (sess', (ctl, ())))
    \<and> bt_disconnect_id controller_env 9 sess' (ctl, ()) = Inl Assertion"
proof -
  let ?sess = "demo_bt_session\<lparr>sessionConnections := {5}\<rparr>"
  have b: "notify_controller controller_env = notify_shared" by (simp add: plain_bt_env_def controller_env_def)
  have sess: "controller ?sess" "sessionConnections ?sess = {5}" "metaInfoFileName ?sess \<in> names (listing {5})"
    by (simp_all add: demo_bt_session_name listing_names)
  from session_ends_twice [OF b sess, of "()"] obtain s' ctl where
    t: "bt_disconnect_id controller_env 5 ?sess (listing {5}, ()) = Inr (s', (ctl, ()))"
      and again: "\<forall>e bops sum a j s'' m'. bt_connect_id e controller_env bops sum a j s' (ctl, ()) = Some (Inr (s'', (ctl, m')))
        \<longrightarrow> bt_disconnect_id controller_env j s'' (ctl, m') = Inl Assertion" by (elim exE conjE) (rule that)
  from bt_disconnect_id_session [OF t]
  have "s' = ?sess\<lparr>sessionConnections := {}, peerStatus := map_erase (<) 5 (peerStatus ?sess)\<rparr>" by simp
  then obtain s'' where up: "bt_connect_id (plain_env True) controller_env demo_bencoding (\<lambda>_. replicate 20 7) (demo_allocations False)
      9 s' (ctl, ()) = Some (Inr (s'', (ctl, ())))"
    by (simp add: bt_connect_id_def session_connect_id_def demo_bt_session_fields plain_bt_env_def controller_env_def demo_allocations_def)
  with again have "bt_disconnect_id controller_env 9 s'' (ctl, ()) = Inl Assertion" by (elim allE) (rule mp)
  with t up show ?thesis by (intro exI conjI)
qed

lemma listing_closable: "\<forall>p \<in> snd ` set (sessions (listing {7})). closable (listing {7}) p"
  by (simp add: listing_def closable_def demo_bt_session_fields ACE_INVALID_HANDLE_def)

theorem stop_completes_witness:
  "\<exists>ctl m. control_stop (on_manager (counter_ops id) quiet_env) (\<lambda>_ m. m)
      [control_notify ''example.torrent'' BITTORRENT_EVENT_CANCELLED] True (listing {7}) two_connections
    = Some (Inr (ctl, m)) \<and> sessions ctl = [] \<and> balanced fst (\<lambda>_. 0) m"
proof -
  have "\<forall>c. keeps fst (close_conn quiet_env c)" using quiet_env_orderly by (simp add: orderly_def)
  from stop_completes [OF counter_ops_counting [of id] this two_connections_balanced listing_closable,
      of "[''example.torrent'']" "\<lambda>_ m. m"]
  show ?thesis by (auto simp: listing_names split: option.splits sum.splits)
qed

theorem stopped_sessions_end_witness:
  "\<exists>ctl. control_stop (plain_env True) (\<lambda>_ m. m) [] False (listing {5}) () = Some (Inr (ctl, ()))
    \<and> bt_disconnect_id controller_env 5 (demo_bt_session\<lparr>sessionConnections := {5}\<rparr>) (ctl, ())
      = Inl Assertion"
proof -
  have "\<exists>ctl. control_stop (plain_env True) (\<lambda>_ m. m) [] False (listing {5}) () = Some (Inr (ctl, ()))"
    by (simp add: control_stop_def listing_def session_close_def demo_bt_session_fields plain_env_def)
  then obtain ctl where ctl: "control_stop (plain_env True) (\<lambda>_ m. m) [] False (listing {5}) () = Some (Inr (ctl, ()))" by blast
  have "notify_controller controller_env = notify_shared" "controller (demo_bt_session\<lparr>sessionConnections := {5}\<rparr>)"
    "sessionConnections (demo_bt_session\<lparr>sessionConnections := {5}\<rparr>) \<subseteq> {5}"
    by (simp_all add: plain_bt_env_def controller_env_def demo_bt_session_name)
  from stopped_sessions_end [OF ctl this, of "()"] ctl show ?thesis by blast
qed

end
