(* ===== verification/BitTorrent_Bencoding.thy ===== *)
theory BitTorrent_Bencoding
  imports BitTorrent_Tools
begin

text \<open>
  The bencoding parser, with which the responses of the tracker are read: the rules of the scanner
  (\<^verbatim>\<open>bittorrent_bencoding_scanner.cpp\<close>), the grammar with its actions
  (\<^verbatim>\<open>bittorrent_bencoding_parser.cpp\<close>) and the stacks of the driver
  (\<^verbatim>\<open>bittorrent_bencoding_parser_driver.h\<close>), all under \<^verbatim>\<open>src/src/protocol/p2p/bittorrent/\<close>. The handler parses
  without blocking, so that the data is all there is.
\<close>

section \<open>The scanner\<close>

datatype bencoding_condition = B_initial | B_string | B_integer | B_list | B_key | B_value

datatype bencoding_token = B_END | B_INTEGER int | B_STRING string | B_LIST | B_DICTIONARY | END_OF_LIST | END_OF_DICTIONARY

definition number_char :: "char \<Rightarrow> bool" where
  "number_char c \<longleftrightarrow> c = CHR ''-'' \<or> (of_char c :: nat) \<in> {48..57}"

text \<open>
  Extraction of a number from a stream: a sign, then digits as far as there are any. Without one the
  result is 0; what is out of range becomes the nearest value, but a negated unsigned wraps.
\<close>

definition extracted :: "string \<Rightarrow> bool \<times> string" where
  "extracted s = (let negative = s \<noteq> [] \<and> hd s = CHR ''-''
    in (negative, takeWhile (\<lambda>c. number_char c \<and> c \<noteq> CHR ''-'') (if negative then tl s else s)))"

definition to_unsigned :: "string \<Rightarrow> u32" where
  "to_unsigned s = (case extracted s of (negative, ds) \<Rightarrow>
     if 2 ^ 32 \<le> parse_base 10 ds then - 1
     else if negative then - of_nat (parse_base 10 ds) else of_nat (parse_base 10 ds))"

definition to_int64 :: "string \<Rightarrow> int" where
  "to_int64 s = (case extracted s of (negative, ds) \<Rightarrow>
     if negative then max (- (2 ^ 63)) (- int (parse_base 10 ds)) else min (2 ^ 63 - 1) (int (parse_base 10 ds)))"

text \<open>
  One call of the scanner. The start conditions are kept on a stack; a pop of the empty stack is fatal
  (flex ends the process). The end of the data reaches \<^verbatim>\<open>yywrap\<close>, which asserts. \<open>len\<close> is
  \<^verbatim>\<open>string_length\<close>; the first character of a string comes from its rule, the rest from \<^verbatim>\<open>yyinput\<close>.
  A character without a rule ends the scan.
\<close>

type_synonym bencoding_scan = "bencoding_token \<times> bencoding_condition \<times> bencoding_condition list \<times> string"

definition popped :: "bencoding_condition list \<Rightarrow> (bencoding_condition \<Rightarrow> bencoding_condition list \<Rightarrow> 'a res) \<Rightarrow> 'a res" where
  "popped st f = (case st of [] \<Rightarrow> Inl Uncaught | k # st' \<Rightarrow> f k st')"

lemma popped_cong [fundef_cong]:
  "st = st' \<Longrightarrow> (\<And>k ks. st' = k # ks \<Longrightarrow> f k ks = g k ks) \<Longrightarrow> popped st f = popped st' g"
  by (cases st') (simp_all add: popped_def)

function bencoding_lex :: "bool \<Rightarrow> u32 \<Rightarrow> bencoding_condition \<Rightarrow> bencoding_condition list \<Rightarrow> string \<Rightarrow> bencoding_scan res" where
  "bencoding_lex asserting len k st [] = (if asserting then Inl Assertion else Inr (B_END, k, st, []))"
| "bencoding_lex asserting len k st (c # cs) = (case k of
     B_initial \<Rightarrow> if c = CHR ''d'' then Inr (B_DICTIONARY, B_key, B_key # st, cs) else Inr (B_END, k, st, cs)
   | B_string \<Rightarrow>
       if number_char c then bencoding_lex asserting (to_unsigned (takeWhile number_char (c # cs))) k st (dropWhile number_char cs)
       else if c = CHR '':'' then
         if len = 0 then popped st (\<lambda>k st. Inr (B_STRING [], k, st, cs)) else bencoding_lex asserting len k st cs
       else let n = unat (len - 1) in
         if length cs < n then Inl (if asserting then Assertion else Undefined_Behaviour)
         else popped st (\<lambda>k st. Inr (B_STRING (c # take n cs), k, st, drop n cs))
   | B_integer \<Rightarrow>
       if c = CHR ''e'' then popped st (\<lambda>k st. bencoding_lex asserting len k st cs)
       else if number_char c then Inr (B_INTEGER (to_int64 (takeWhile number_char (c # cs))), k, st, dropWhile number_char cs)
       else if c = CHR ''i'' then bencoding_lex asserting len k st cs
       else Inr (B_END, k, st, cs)
   | B_list \<Rightarrow>
       if c = CHR ''e'' then popped st (\<lambda>k st. Inr (END_OF_LIST, k, st, cs))
       else if number_char c then bencoding_lex asserting len B_string (k # st) (c # cs)
       else if c = CHR ''i'' then bencoding_lex asserting len B_integer (k # st) (c # cs)
       else if c = CHR ''l'' then Inr (B_LIST, k, st, cs)
       else if c = CHR ''d'' then Inr (B_DICTIONARY, B_key, k # st, cs)
       else Inr (B_END, k, st, cs)
   | B_key \<Rightarrow>
       if c = CHR ''e'' then popped st (\<lambda>k st. Inr (END_OF_DICTIONARY, k, st, cs))
       else if number_char c then bencoding_lex asserting len B_string (B_value # st) (c # cs)
       else Inr (B_END, k, st, cs)
   | B_value \<Rightarrow>
       if number_char c then bencoding_lex asserting len B_string (B_key # st) (c # cs)
       else if c = CHR ''i'' then bencoding_lex asserting len B_integer (B_key # st) (c # cs)
       else if c = CHR ''l'' then Inr (B_LIST, B_list, B_key # st, cs)
       else if c = CHR ''d'' then Inr (B_DICTIONARY, B_key, B_key # st, cs)
       else Inr (B_END, k, st, cs))"
  by pat_completeness auto
termination
  by (relation "measure (\<lambda>(_, _, k, _, s). 2 * length s + (if k = B_string \<or> k = B_integer then 0 else 1))")
    (auto simp: less_Suc_eq_le length_dropWhile_le intro: le_SucI split: if_splits)

declare bencoding_lex.simps(2) [simp del]

lemma bencoding_lex_shorter:
  "bencoding_lex asserting len k st s = Inr (t, k', st', s') \<Longrightarrow> t \<noteq> B_END \<Longrightarrow> length s' < length s"
proof (induction asserting len k st s rule: bencoding_lex.induct)
  case (2 asserting len k st c cs)
  show ?case
  proof (cases k)
    case B_string
    show ?thesis
    proof (cases "number_char c")
      case True
      with 2(1) [OF B_string True] 2(10,11) B_string have "length s' < length (dropWhile number_char cs)"
        by (simp add: bencoding_lex.simps(2))
      with length_dropWhile_le [of number_char cs] show ?thesis by simp
    next
      case False
      with 2(2) [OF B_string False] 2(10,11) B_string show ?thesis
        by (auto simp: bencoding_lex.simps(2) Let_def popped_def less_Suc_eq_le split: if_splits list.splits)
    qed
  next
    case B_integer
    show ?thesis
    proof (cases "c = CHR ''e''")
      case True
      with 2(3) [OF B_integer True] 2(10,11) B_integer show ?thesis
        by (cases st) (auto simp: bencoding_lex.simps(2) popped_def less_Suc_eq_le)
    next
      case False
      with 2(4) [OF B_integer False] 2(10,11) B_integer length_dropWhile_le [of number_char cs] show ?thesis
        by (auto simp: bencoding_lex.simps(2) less_Suc_eq_le split: if_splits)
    qed
  next
    case B_list
    with 2(5,6,10,11) show ?thesis
      by (auto simp: bencoding_lex.simps(2) [of _ _ B_list] popped_def split: if_splits list.splits)
  next
    case B_key
    with 2(7,10,11) show ?thesis
      by (auto simp: bencoding_lex.simps(2) [of _ _ B_key] popped_def split: if_splits list.splits)
  next
    case B_value
    with 2(8-11) show ?thesis
      by (auto simp: bencoding_lex.simps(2) [of _ _ B_value] split: if_splits)
  qed (use 2(10,11) in \<open>auto simp: bencoding_lex.simps(2) split: if_splits\<close>)
qed (simp split: if_splits)

section \<open>The grammar\<close>

datatype Bencoding_Element = B_integer_element int | B_string_element string | B_list_element "Bencoding_Element list"
  | B_dictionary_element "(string \<times> Bencoding_Element) list"

text \<open>
  The stacks of the driver. They hold pointers to the lists and dictionaries being built, which the
  elements take over when these are complete; here they hold the contents. The first dictionary that is
  pushed, the bottom of its stack, is the result.
\<close>

record bencoding_driver =
  dictionaries :: "(string \<times> Bencoding_Element) list list"
  keys :: "string list"
  lists :: "Bencoding_Element list list"

text \<open>
  Where the parser is: in a dictionary before a key or the end, before the value of a key, or in a
  list; the innermost first.
\<close>

datatype bencoding_frame = Dictionary_frame | Value_frame | List_frame

definition add_element :: "Bencoding_Element \<Rightarrow> bencoding_frame list \<Rightarrow> bencoding_driver
    \<Rightarrow> (bencoding_frame list \<times> bencoding_driver) option res" where
  "add_element x fs d = (case fs of
     List_frame # _ \<Rightarrow> (case lists d of
         l # ls \<Rightarrow> Inr (Some (fs, d\<lparr>lists := (l @ [x]) # ls\<rparr>))
       | [] \<Rightarrow> Inl Undefined_Behaviour)
   | Value_frame # fs' \<Rightarrow> (case (keys d, dictionaries d) of
         (k # ks, m # ms) \<Rightarrow> Inr (Some (fs', d\<lparr>keys := ks, dictionaries := (m @ [(k, x)]) # ms\<rparr>))
       | _ \<Rightarrow> Inl Undefined_Behaviour)
   | _ \<Rightarrow> Inr None)"

text \<open>A token, with the actions of the rules that it completes; \<open>None\<close> is a syntax error.\<close>

definition bencoding_action :: "bencoding_token \<Rightarrow> bencoding_frame list \<Rightarrow> bencoding_driver
    \<Rightarrow> (bencoding_frame list \<times> bencoding_driver) option res" where
  "bencoding_action t fs d = (case (t, fs) of
     (B_STRING s, Dictionary_frame # _) \<Rightarrow> Inr (Some (Value_frame # fs, d\<lparr>keys := s # keys d\<rparr>))
   | (END_OF_DICTIONARY, Dictionary_frame # fs') \<Rightarrow>
       if fs' = [] then Inr (Some ([], d))
       else (case dictionaries d of
         m # ms \<Rightarrow> add_element (B_dictionary_element m) fs' (d\<lparr>dictionaries := ms\<rparr>)
       | [] \<Rightarrow> Inl Undefined_Behaviour)
   | (_, Dictionary_frame # _) \<Rightarrow> Inr None
   | (END_OF_LIST, List_frame # fs') \<Rightarrow> (case lists d of
         l # ls \<Rightarrow> add_element (B_list_element l) fs' (d\<lparr>lists := ls\<rparr>)
       | [] \<Rightarrow> Inl Undefined_Behaviour)
   | (B_STRING s, _) \<Rightarrow> add_element (B_string_element s) fs d
   | (B_INTEGER i, _) \<Rightarrow> add_element (B_integer_element i) fs d
   | (B_LIST, _ # _) \<Rightarrow> Inr (Some (List_frame # fs, d\<lparr>lists := [] # lists d\<rparr>))
   | (B_DICTIONARY, _ # _) \<Rightarrow> Inr (Some (Dictionary_frame # fs, d\<lparr>dictionaries := [] # dictionaries d\<rparr>))
   | _ \<Rightarrow> Inr None)"

function bencoding_run :: "bool \<Rightarrow> bencoding_frame list \<Rightarrow> bencoding_driver
    \<Rightarrow> bencoding_condition \<times> bencoding_condition list \<times> string \<Rightarrow> (string \<times> Bencoding_Element) list option res" where
  "bencoding_run asserting fs d (k, st, s) = (case bencoding_lex asserting 0 k st s of
     Inl f \<Rightarrow> Inl f
   | Inr (t, k', st', s') \<Rightarrow>
       if t = B_END then Inr (if fs = [] then Some (last (dictionaries d)) else None)
       else (case bencoding_action t fs d of
         Inl f \<Rightarrow> Inl f
       | Inr None \<Rightarrow> Inr None
       | Inr (Some (fs', d')) \<Rightarrow> bencoding_run asserting fs' d' (k', st', s')))"
  by pat_completeness auto
termination
  by (relation "measure (\<lambda>(_, _, _, _, _, s). length s)") (auto dest!: sym [of _ "bencoding_lex _ _ _ _ _"] bencoding_lex_shorter)

declare bencoding_run.simps [simp del]

text \<open>The parse of the data of a message: a dictionary, or \<open>None\<close> when it fails.\<close>

definition bencoding_parse :: "bool \<Rightarrow> string \<Rightarrow> (string \<times> Bencoding_Element) list option res" where
  "bencoding_parse asserting s = bind_res (bencoding_lex asserting 0 B_initial [] s) (\<lambda>(t, r).
     if t = B_DICTIONARY then bencoding_run asserting [Dictionary_frame] \<lparr>dictionaries = [[]], keys = [], lists = []\<rparr> r
     else Inr None)"

text \<open>The elements as the rest of the program uses them.\<close>

fun bencoded :: "Bencoding_Element \<Rightarrow> string" where
  "bencoded (B_integer_element i) = CHR ''i'' # (if i < 0 then CHR ''-'' # dec (nat (- i)) else dec (nat i)) @ ''e''"
| "bencoded (B_string_element s) = dec (length s) @ CHR '':'' # s"
| "bencoded (B_list_element xs) = CHR ''l'' # concat (map bencoded xs) @ ''e''"
| "bencoded (B_dictionary_element m) =
    CHR ''d'' # concat (map (\<lambda>(k, x). dec (length k) @ CHR '':'' # k @ bencoded x) m) @ ''e''"

section \<open>The stacks\<close>

text \<open>As many open dictionaries, keys and lists as the parser is in.\<close>

definition stacks_match :: "bencoding_frame list \<Rightarrow> bencoding_driver \<Rightarrow> bool" where
  "stacks_match fs d \<longleftrightarrow> length (dictionaries d) = count_list fs Dictionary_frame
     \<and> length (keys d) = count_list fs Value_frame \<and> length (lists d) = count_list fs List_frame
     \<and> fs \<noteq> [] \<and> last fs = Dictionary_frame"

lemma open_dictionary: "fs \<noteq> [] \<Longrightarrow> last fs = Dictionary_frame \<Longrightarrow> 0 < count_list fs Dictionary_frame"
  by (metis count_notin last_in_set neq0_conv count_list_0_iff)

lemma add_element_stacks:
  assumes "stacks_match fs d"
  shows "case add_element x fs d of Inl _ \<Rightarrow> False | Inr None \<Rightarrow> True | Inr (Some (fs', d')) \<Rightarrow> stacks_match fs' d'"
proof (cases fs)
  case (Cons f fs')
  show ?thesis
  proof (cases f)
    case Value_frame
    with assms Cons have "fs' \<noteq> []" "last fs' = Dictionary_frame" by (auto simp: stacks_match_def split: if_splits)
    note open_dictionary [OF this]
    with assms Cons Value_frame obtain k ks m ms where "keys d = k # ks" "dictionaries d = m # ms"
      by (cases "keys d"; cases "dictionaries d") (auto simp: stacks_match_def)
    with assms Cons Value_frame \<open>fs' \<noteq> []\<close> show ?thesis by (simp add: add_element_def stacks_match_def)
  next
    case List_frame
    with assms Cons obtain l ls where "lists d = l # ls" by (cases "lists d") (auto simp: stacks_match_def)
    with assms Cons List_frame show ?thesis by (simp add: add_element_def stacks_match_def)
  qed (simp add: Cons add_element_def)
qed (use assms in \<open>simp add: stacks_match_def\<close>)

lemma action_stacks:
  assumes "stacks_match fs d"
  shows "case bencoding_action t fs d of Inl _ \<Rightarrow> False | Inr None \<Rightarrow> True
    | Inr (Some (fs', d')) \<Rightarrow> fs' = [] \<or> stacks_match fs' d'"
proof -
  obtain f fs' where fs: "fs = f # fs'" using assms by (cases fs) (auto simp: stacks_match_def)
  have add: "case add_element x fs d of Inl _ \<Rightarrow> False | Inr None \<Rightarrow> True
    | Inr (Some (fs', d')) \<Rightarrow> fs' = [] \<or> stacks_match fs' d'" if "stacks_match fs d" for x fs d
    using add_element_stacks [OF that, of x] by (auto split: sum.splits option.splits)
  show ?thesis
  proof (cases f)
    case Dictionary_frame
    show ?thesis
    proof (cases "t = END_OF_DICTIONARY \<and> fs' \<noteq> []")
      case True
      with assms fs Dictionary_frame obtain m ms where m: "dictionaries d = m # ms"
        by (cases "dictionaries d") (auto simp: stacks_match_def)
      with assms True fs Dictionary_frame have "stacks_match fs' (d\<lparr>dictionaries := ms\<rparr>)" by (auto simp: stacks_match_def)
      from add [OF this, of "B_dictionary_element m"] True fs Dictionary_frame m show ?thesis by (simp add: bencoding_action_def)
    next
      case False
      with assms fs Dictionary_frame show ?thesis by (cases t) (auto simp: bencoding_action_def stacks_match_def)
    qed
  next
    case Value_frame
    with assms fs add [OF assms] show ?thesis
      by (cases t) (auto simp: bencoding_action_def stacks_match_def split: if_splits)
  next
    case List_frame
    show ?thesis
    proof (cases "t = END_OF_LIST")
      case True
      with assms fs List_frame obtain l ls where l: "lists d = l # ls"
        by (cases "lists d") (auto simp: stacks_match_def)
      have "fs' \<noteq> []" using assms fs List_frame by (auto simp: stacks_match_def)
      with assms fs List_frame l have "stacks_match fs' (d\<lparr>lists := ls\<rparr>)" by (auto simp: stacks_match_def)
      from add [OF this, of "B_list_element l"] True fs List_frame l show ?thesis by (simp add: bencoding_action_def)
    next
      case False
      with assms fs List_frame add [OF assms] show ?thesis
        by (cases t) (auto simp: bencoding_action_def stacks_match_def)
    qed
  qed
qed

lemma lex_fault:
  "bencoding_lex True len k st s = Inl f \<Longrightarrow> f = Assertion \<or> f = Uncaught"
proof (induction "True" len k st s rule: bencoding_lex.induct)
  case (2 len k st c cs)
  show ?case
    by (cases k) (use 2 in \<open>auto simp: bencoding_lex.simps(2) popped_def Let_def split: if_splits list.splits\<close>)
qed simp

lemma run_fault:
  "fs = [] \<or> stacks_match fs d \<Longrightarrow> bencoding_run True fs d r = Inl f \<Longrightarrow> f = Assertion \<or> f = Uncaught"
proof (induction "True" fs d r rule: bencoding_run.induct)
  case (1 fs d k st s)
  show ?case
  proof (cases "bencoding_lex True 0 k st s")
    case (Inl f')
    with 1(3) lex_fault [OF Inl] show ?thesis by (simp add: bencoding_run.simps)
  next
    case (Inr r)
    obtain t k' st' s' where r: "r = (t, k', st', s')" by (cases r) auto
    show ?thesis
    proof (cases "t = B_END")
      case True
      with 1(3) Inr r show ?thesis by (simp add: bencoding_run.simps)
    next
      case False
      have "fs \<noteq> []"
      proof
        assume "fs = []"
        then have "bencoding_action t fs d = Inr None"
          by (cases t) (simp_all add: bencoding_action_def add_element_def)
        with 1(3) Inr r False show False by (simp add: bencoding_run.simps)
      qed
      with 1(2) action_stacks [of fs d t] 1(3) Inr r False obtain fs' d' where
        a: "bencoding_action t fs d = Inr (Some (fs', d'))" "fs' = [] \<or> stacks_match fs' d'"
        by (auto simp: bencoding_run.simps [of True fs] split: sum.splits option.splits)
      from 1(1) [OF Inr r [symmetric] refl refl False a(1) refl refl a(2)] 1(3) Inr r False a(1) show ?thesis
        by (simp add: bencoding_run.simps [of True fs])
    qed
  qed
qed

text \<open>C30: The driver keeps its stacks in step with the grammar: whatever the data, no action takes the top of an
  empty stack. All that a build with assertions can do to the process is to fail the
  assertion at the end of the data, or to end it where the scanner's stack is empty.\<close>

theorem bencoding_stacks_safe:
  "bencoding_parse True s \<notin> {Inl Undefined_Behaviour, Inl Unsupported}"
proof -
  have "stacks_match [Dictionary_frame] \<lparr>dictionaries = [[]], keys = [], lists = []\<rparr>" by (simp add: stacks_match_def)
  note run = run_fault [OF disjI2 [OF this]]
  have "f = Assertion \<or> f = Uncaught" if "bencoding_parse True s = Inl f" for f
  proof (cases "bencoding_lex True 0 B_initial [] s")
    case (Inl g)
    with that lex_fault [OF Inl] show ?thesis by (simp add: bencoding_parse_def)
  next
    case (Inr r)
    with that run [of "snd r" f] show ?thesis
      by (auto simp: bencoding_parse_def split: prod.splits if_splits)
  qed
  then show ?thesis by fastforce
qed

section \<open>Reading what was encoded\<close>

definition plain_text :: "string \<Rightarrow> bool" where
  "plain_text s \<longleftrightarrow> length s < 2 ^ 32 \<and> (s = [] \<or> (\<not> number_char (hd s) \<and> hd s \<noteq> CHR '':''))"

definition is_list :: "Bencoding_Element \<Rightarrow> bool" where
  "is_list x \<longleftrightarrow> (\<exists>xs. x = B_list_element xs)"

text \<open>The elements that the parser reads as they are meant.\<close>

fun plain_element :: "Bencoding_Element \<Rightarrow> bool" where
  "plain_element (B_integer_element i) \<longleftrightarrow> - (2 ^ 63) \<le> i \<and> i < 2 ^ 63"
| "plain_element (B_string_element s) \<longleftrightarrow> plain_text s"
| "plain_element (B_list_element xs) \<longleftrightarrow> (\<forall>x \<in> set xs. plain_element x \<and> \<not> is_list x)"
| "plain_element (B_dictionary_element m) \<longleftrightarrow> (\<forall>p \<in> set m. plain_text (fst p) \<and> plain_element (snd p))"

lemma dec_number_chars:
  assumes "c \<in> set (dec n)"
  shows "number_char c \<and> c \<noteq> CHR ''-''"
proof -
  obtain i where i: "c = digit_char i" "i < 10" using render_chars [of 10 n] assms by auto
  then have "(of_char c :: nat) = 48 + i" by (simp add: digit_char_def)
  with i(2) show ?thesis by (auto simp: number_char_def)
qed

lemma extracted_dec: "extracted (dec n) = (False, dec n)" "extracted (CHR ''-'' # dec n) = (True, dec n)"
proof -
  obtain c cs where c: "dec n = c # cs" using render_not_Nil by (cases "dec n") auto
  have "takeWhile (\<lambda>c. number_char c \<and> c \<noteq> CHR ''-'') (dec n) = dec n" using dec_number_chars by (simp add: takeWhile_eq_all_conv)
  moreover have "hd (dec n) \<noteq> CHR ''-''" using dec_number_chars [of c n] c by simp
  ultimately show "extracted (dec n) = (False, dec n)" "extracted (CHR ''-'' # dec n) = (True, dec n)"
    using render_not_Nil by (simp_all add: extracted_def Let_def)
qed

lemma to_unsigned_dec: "n < 2 ^ 32 \<Longrightarrow> to_unsigned (dec n) = of_nat n"
  by (simp add: to_unsigned_def extracted_dec parse_render)

definition dec_int :: "int \<Rightarrow> string" where
  "dec_int i = (if i < 0 then CHR ''-'' # dec (nat (- i)) else dec (nat i))"

lemma to_int64_dec: "- (2 ^ 63) \<le> i \<Longrightarrow> i < 2 ^ 63 \<Longrightarrow> to_int64 (dec_int i) = i"
  by (simp add: to_int64_def dec_int_def extracted_dec parse_render)

lemma number_run:
  assumes "list_all number_char w" "w \<noteq> []" "\<not> number_char c"
  shows "\<exists>d ds. w = d # ds \<and> number_char d \<and> takeWhile number_char (d # ds @ c # s) = w \<and> dropWhile number_char (ds @ c # s) = c # s"
proof -
  obtain d ds where w: "w = d # ds" using assms(2) by (cases w) auto
  with assms(1,3) have "takeWhile number_char (ds @ c # s) = ds" "dropWhile number_char (ds @ c # s) = c # s"
    by (auto simp: list_all_iff takeWhile_append dropWhile_append2)
  with w assms(1) show ?thesis by simp
qed

lemma dec_int_number: "list_all number_char (dec_int i)" "dec_int i \<noteq> []"
  using dec_number_chars render_not_Nil by (auto simp: dec_int_def list_all_iff number_char_def)

lemma not_number: "\<not> number_char CHR '':''" "\<not> number_char CHR ''e''" "\<not> number_char CHR ''i''"
    "\<not> number_char CHR ''l''" "\<not> number_char CHR ''d''"
  by (simp_all add: number_char_def)

lemma lex_text:
  assumes "plain_text w"
  shows "bencoding_lex a len B_string (k # st) (dec (length w) @ CHR '':'' # w @ rest) = Inr (B_STRING w, k, st, rest)"
proof -
  have "list_all number_char (dec (length w))" using dec_number_chars by (auto simp: list_all_iff)
  from number_run [OF this render_not_Nil not_number(1), of "w @ rest"] obtain d ds where
    d: "dec (length w) = d # ds" "number_char d" "takeWhile number_char (d # ds @ CHR '':'' # w @ rest) = dec (length w)"
    "dropWhile number_char (ds @ CHR '':'' # w @ rest) = CHR '':'' # w @ rest" by blast
  have "length w < 2 ^ 32" using assms by (simp add: plain_text_def)
  note u = to_unsigned_dec [OF this]
  have "bencoding_lex a len B_string (k # st) (dec (length w) @ CHR '':'' # w @ rest)
      = bencoding_lex a (of_nat (length w)) B_string (k # st) (CHR '':'' # w @ rest)"
    using d u by (simp add: bencoding_lex.simps(2))
  also have "\<dots> = Inr (B_STRING w, k, st, rest)"
  proof (cases w)
    case Nil
    then show ?thesis by (simp add: bencoding_lex.simps(2) not_number popped_def)
  next
    case (Cons c cs)
    have "unat ((of_nat (length w) :: u32) - 1) = length cs"
      using Cons assms by (simp add: plain_text_def unat_of_nat)
    moreover have "(of_nat (length w) :: u32) \<noteq> 0"
    proof
      assume z: "(of_nat (length w) :: u32) = 0"
      have "unat (of_nat (length w) :: u32) = length w" using assms by (simp add: plain_text_def unat_of_nat)
      then have "length w = 0" unfolding z by simp
      with Cons show False by simp
    qed
    ultimately show ?thesis
      using Cons assms by (simp add: bencoding_lex.simps(2) not_number popped_def plain_text_def Let_def del: of_nat_Suc)
  qed
  finally show ?thesis .
qed

lemma lex_text_at:
  assumes "plain_text w"
  shows "bencoding_lex a len B_key st (dec (length w) @ CHR '':'' # w @ rest) = Inr (B_STRING w, B_value, st, rest)"
    and "bencoding_lex a len B_value st (dec (length w) @ CHR '':'' # w @ rest) = Inr (B_STRING w, B_key, st, rest)"
    and "bencoding_lex a len B_list st (dec (length w) @ CHR '':'' # w @ rest) = Inr (B_STRING w, B_list, st, rest)"
proof -
  obtain c cs where c: "dec (length w) = c # cs" by (cases "dec (length w)") auto
  have n: "number_char c" "c \<noteq> CHR ''e''" "c \<noteq> CHR ''i''" using dec_number_chars [of c "length w"] c not_number by auto
  have l: "bencoding_lex a len B_string (k # st) (c # cs @ CHR '':'' # w @ rest) = Inr (B_STRING w, k, st, rest)" for k
    using lex_text [OF assms, of a len k st rest] c by simp
  show "bencoding_lex a len B_key st (dec (length w) @ CHR '':'' # w @ rest) = Inr (B_STRING w, B_value, st, rest)"
    using l n c by (simp add: bencoding_lex.simps(2) [of a len B_key])
  show "bencoding_lex a len B_value st (dec (length w) @ CHR '':'' # w @ rest) = Inr (B_STRING w, B_key, st, rest)"
    using l n c by (simp add: bencoding_lex.simps(2) [of a len B_value])
  show "bencoding_lex a len B_list st (dec (length w) @ CHR '':'' # w @ rest) = Inr (B_STRING w, B_list, st, rest)"
    using l n c by (simp add: bencoding_lex.simps(2) [of a len B_list])
qed

lemma lex_number:
  assumes "- (2 ^ 63) \<le> i" "i < 2 ^ 63"
  shows "bencoding_lex a len B_integer st (CHR ''i'' # dec_int i @ CHR ''e'' # rest)
    = Inr (B_INTEGER i, B_integer, st, CHR ''e'' # rest)"
proof -
  from number_run [OF dec_int_number not_number(2), of i rest] obtain d ds where
    d: "dec_int i = d # ds" "number_char d" "takeWhile number_char (d # ds @ CHR ''e'' # rest) = dec_int i"
    "dropWhile number_char (ds @ CHR ''e'' # rest) = CHR ''e'' # rest" by blast
  then have "d \<noteq> CHR ''e''" "d \<noteq> CHR ''i''" using not_number by auto
  with d to_int64_dec [OF assms] show ?thesis by (simp add: bencoding_lex.simps(2) not_number)
qed

lemma lex_number_at:
  assumes "- (2 ^ 63) \<le> i" "i < 2 ^ 63"
  shows "bencoding_lex a len B_value st (CHR ''i'' # dec_int i @ CHR ''e'' # rest)
      = Inr (B_INTEGER i, B_integer, B_key # st, CHR ''e'' # rest)"
    and "bencoding_lex a len B_list st (CHR ''i'' # dec_int i @ CHR ''e'' # rest)
      = Inr (B_INTEGER i, B_integer, B_list # st, CHR ''e'' # rest)"
  using lex_number [OF assms, of a len] by (simp_all add: bencoding_lex.simps(2) [of a len B_value]
      bencoding_lex.simps(2) [of a len B_list] not_number)

text \<open>The end of a number is read with the next token.\<close>

lemma run_number_end: "bencoding_run a fs d (B_integer, k # st, CHR ''e'' # rest) = bencoding_run a fs d (k, st, rest)"
  by (simp add: bencoding_run.simps bencoding_lex.simps(2) popped_def)

abbreviation driver :: "(string \<times> Bencoding_Element) list list \<Rightarrow> string list \<Rightarrow> Bencoding_Element list list \<Rightarrow> bencoding_driver" where
  "driver D K L \<equiv> \<lparr>dictionaries = D, keys = K, lists = L\<rparr>"

abbreviation encoded_items :: "Bencoding_Element list \<Rightarrow> string" where
  "encoded_items xs \<equiv> concat (map bencoded xs)"

abbreviation encoded_entries :: "(string \<times> Bencoding_Element) list \<Rightarrow> string" where
  "encoded_entries m \<equiv> concat (map (\<lambda>(k, x). dec (length k) @ CHR '':'' # k @ bencoded x) m)"

lemmas open_tokens = bencoding_lex.simps(2) [of _ 0 B_list] bencoding_lex.simps(2) [of _ 0 B_value]
  bencoding_lex.simps(2) [of _ 0 B_key]

text \<open>What reading an element does, as the value of a key and as an item of a list.\<close>

definition read_as_value :: "Bencoding_Element \<Rightarrow> bool" where
  "read_as_value x \<longleftrightarrow> (\<forall>a fs m ms k ks L st rest.
     bencoding_run a (Value_frame # fs) (driver (m # ms) (k # ks) L) (B_value, st, bencoded x @ rest)
     = bencoding_run a fs (driver ((m @ [(k, x)]) # ms) ks L) (B_key, st, rest))"

definition read_as_item :: "Bencoding_Element \<Rightarrow> bool" where
  "read_as_item x \<longleftrightarrow> (\<forall>a fs D K l ls st rest.
     bencoding_run a (List_frame # fs) (driver D K (l # ls)) (B_list, st, bencoded x @ rest)
     = bencoding_run a (List_frame # fs) (driver D K ((l @ [x]) # ls)) (B_list, st, rest))"

lemma run_items:
  assumes "\<forall>x \<in> set xs. read_as_item x"
  shows "bencoding_run a (List_frame # fs) (driver D K (l # ls)) (B_list, st, encoded_items xs @ rest)
    = bencoding_run a (List_frame # fs) (driver D K ((l @ xs) # ls)) (B_list, st, rest)"
  using assms
proof (induction xs arbitrary: l)
  case (Cons x xs)
  then show ?case by (simp add: read_as_item_def)
qed simp

lemma run_entries:
  assumes "\<forall>p \<in> set es. plain_text (fst p) \<and> read_as_value (snd p)"
  shows "bencoding_run a (Dictionary_frame # fs) (driver (m # ms) K L) (B_key, st, encoded_entries es @ rest)
    = bencoding_run a (Dictionary_frame # fs) (driver ((m @ es) # ms) K L) (B_key, st, rest)"
  using assms
proof (induction es arbitrary: m)
  case (Cons p es)
  obtain k x where p: "p = (k, x)" by (cases p) auto
  with Cons.prems have "plain_text k" "read_as_value x" by simp_all
  have "bencoding_run a (Dictionary_frame # fs) (driver (m # ms) K L) (B_key, st, encoded_entries (p # es) @ rest)
      = bencoding_run a (Value_frame # Dictionary_frame # fs) (driver (m # ms) (k # K) L)
          (B_value, st, bencoded x @ encoded_entries es @ rest)"
    using lex_text_at(1) [OF \<open>plain_text k\<close>, of a 0 st "bencoded x @ encoded_entries es @ rest"]
    by (subst bencoding_run.simps) (simp add: p bencoding_action_def)
  with \<open>read_as_value x\<close> Cons p show ?case by (simp add: read_as_value_def)
qed simp

lemma read_text: "plain_text s \<Longrightarrow> read_as_value (B_string_element s) \<and> read_as_item (B_string_element s)"
  by (auto simp: read_as_value_def read_as_item_def bencoding_run.simps [of _ "_ # _"] lex_text_at bencoding_action_def add_element_def)

lemma bencoded_number: "bencoded (B_integer_element i) @ rest = CHR ''i'' # dec_int i @ CHR ''e'' # rest"
  by (simp add: dec_int_def)

lemma read_number:
  "- (2 ^ 63) \<le> i \<Longrightarrow> i < 2 ^ 63 \<Longrightarrow> read_as_value (B_integer_element i) \<and> read_as_item (B_integer_element i)"
  unfolding read_as_value_def read_as_item_def bencoded_number
  by (simp add: bencoding_run.simps [of _ "_ # _" _ _ _ "_ # _ @ _"] lex_number_at bencoding_action_def add_element_def run_number_end)

lemma read_list:
  assumes "\<forall>x \<in> set xs. read_as_item x"
  shows "read_as_value (B_list_element xs)"
proof -
  have "bencoding_run a (Value_frame # fs) (driver (m # ms) (k # ks) L) (B_value, st, bencoded (B_list_element xs) @ rest)
     = bencoding_run a fs (driver ((m @ [(k, B_list_element xs)]) # ms) ks L) (B_key, st, rest)" for a fs m ms k ks L st rest
  proof -
    have "bencoding_run a (Value_frame # fs) (driver (m # ms) (k # ks) L) (B_value, st, bencoded (B_list_element xs) @ rest)
        = bencoding_run a (List_frame # Value_frame # fs) (driver (m # ms) (k # ks) ([] # L))
            (B_list, B_key # st, encoded_items xs @ CHR ''e'' # rest)"
      by (subst bencoding_run.simps) (simp add: open_tokens not_number bencoding_action_def)
    also have "\<dots> = bencoding_run a (List_frame # Value_frame # fs) (driver (m # ms) (k # ks) (xs # L))
            (B_list, B_key # st, CHR ''e'' # rest)"
      using run_items [OF assms, of a "Value_frame # fs" "m # ms" "k # ks" "[]" L] by simp
    also have "\<dots> = bencoding_run a fs (driver ((m @ [(k, B_list_element xs)]) # ms) ks L) (B_key, st, rest)"
      by (subst bencoding_run.simps) (simp add: open_tokens popped_def bencoding_action_def add_element_def)
    finally show ?thesis .
  qed
  then show ?thesis by (simp add: read_as_value_def)
qed

lemma read_dictionary:
  assumes "\<forall>p \<in> set es. plain_text (fst p) \<and> read_as_value (snd p)"
  shows "read_as_value (B_dictionary_element es) \<and> read_as_item (B_dictionary_element es)"
proof -
  have "bencoding_run a (Value_frame # fs) (driver (m # ms) (k # ks) L) (B_value, st, bencoded (B_dictionary_element es) @ rest)
     = bencoding_run a fs (driver ((m @ [(k, B_dictionary_element es)]) # ms) ks L) (B_key, st, rest)" for a fs m ms k ks L st rest
  proof -
    have "bencoding_run a (Value_frame # fs) (driver (m # ms) (k # ks) L) (B_value, st, bencoded (B_dictionary_element es) @ rest)
        = bencoding_run a (Dictionary_frame # Value_frame # fs) (driver ([] # m # ms) (k # ks) L)
            (B_key, B_key # st, encoded_entries es @ CHR ''e'' # rest)"
      by (subst bencoding_run.simps) (simp add: open_tokens not_number bencoding_action_def)
    also have "\<dots> = bencoding_run a (Dictionary_frame # Value_frame # fs) (driver (es # m # ms) (k # ks) L)
            (B_key, B_key # st, CHR ''e'' # rest)"
      using run_entries [OF assms, of a "Value_frame # fs" "[]"] by simp
    also have "\<dots> = bencoding_run a fs (driver ((m @ [(k, B_dictionary_element es)]) # ms) ks L) (B_key, st, rest)"
      by (subst bencoding_run.simps) (simp add: open_tokens popped_def bencoding_action_def add_element_def)
    finally show ?thesis .
  qed
  moreover have "bencoding_run a (List_frame # fs) (driver D K (l # ls)) (B_list, st, bencoded (B_dictionary_element es) @ rest)
     = bencoding_run a (List_frame # fs) (driver D K ((l @ [B_dictionary_element es]) # ls)) (B_list, st, rest)" for a fs D K l ls st rest
  proof -
    have "bencoding_run a (List_frame # fs) (driver D K (l # ls)) (B_list, st, bencoded (B_dictionary_element es) @ rest)
        = bencoding_run a (Dictionary_frame # List_frame # fs) (driver ([] # D) K (l # ls))
            (B_key, B_list # st, encoded_entries es @ CHR ''e'' # rest)"
      by (subst bencoding_run.simps) (simp add: open_tokens not_number bencoding_action_def)
    also have "\<dots> = bencoding_run a (Dictionary_frame # List_frame # fs) (driver (es # D) K (l # ls))
            (B_key, B_list # st, CHR ''e'' # rest)"
      using run_entries [OF assms, of a "List_frame # fs" "[]"] by simp
    also have "\<dots> = bencoding_run a (List_frame # fs) (driver D K ((l @ [B_dictionary_element es]) # ls)) (B_list, st, rest)"
      by (subst bencoding_run.simps) (simp add: open_tokens popped_def bencoding_action_def add_element_def)
    finally show ?thesis .
  qed
  ultimately show ?thesis by (simp add: read_as_value_def read_as_item_def)
qed

lemma read_element: "plain_element x \<Longrightarrow> read_as_value x \<and> (is_list x \<or> read_as_item x)"
proof (induction x)
  case (B_list_element xs)
  then have "\<forall>x \<in> set xs. read_as_item x" by auto
  then show ?case using read_list by (simp add: is_list_def)
next
  case (B_dictionary_element es)
  then have "\<forall>p \<in> set es. plain_text (fst p) \<and> read_as_value (snd p)" by (auto simp: snds.simps)
  then show ?case using read_dictionary by blast
qed (use read_text read_number in simp_all)

text \<open>The begin of a dictionary, as far as its entries are plain.\<close>

lemma parse_entries:
  assumes "\<forall>p \<in> set es. plain_text (fst p) \<and> plain_element (snd p)"
  shows "bencoding_parse a (CHR ''d'' # encoded_entries es @ rest)
    = bencoding_run a [Dictionary_frame] (driver [es] [] []) (B_key, [B_key], rest)"
proof -
  have es: "\<forall>p \<in> set es. plain_text (fst p) \<and> read_as_value (snd p)" using assms read_element by auto
  have "bencoding_parse a (CHR ''d'' # encoded_entries es @ rest)
      = bencoding_run a [Dictionary_frame] (driver [[]] [] []) (B_key, [B_key], encoded_entries es @ rest)"
    by (simp add: bencoding_parse_def bencoding_lex.simps(2))
  with run_entries [OF es, of a "[]" "[]" "[]" "[]" "[]"] show ?thesis by simp
qed

lemma parse_dictionary:
  assumes "plain_element (B_dictionary_element m)"
  shows "bencoding_parse a (bencoded (B_dictionary_element m) @ rest) = bencoding_run a [] (driver [m] [] []) (B_key, [], rest)"
proof -
  have "bencoding_parse a (bencoded (B_dictionary_element m) @ rest)
      = bencoding_run a [Dictionary_frame] (driver [m] [] []) (B_key, [B_key], CHR ''e'' # rest)"
    using parse_entries [of m a "CHR ''e'' # rest"] assms by simp
  also have "\<dots> = bencoding_run a [] (driver [m] [] []) (B_key, [], rest)"
    by (subst bencoding_run.simps) (simp add: open_tokens popped_def bencoding_action_def)
  finally show ?thesis .
qed

lemma parse_complete:
  assumes "plain_element (B_dictionary_element m)" "rest = [] \<or> \<not> number_char (hd rest)"
  shows "bencoding_parse a (bencoded (B_dictionary_element m) @ rest) =
    (if rest = [] then if a then Inl Assertion else Inr (Some m)
     else if hd rest = CHR ''e'' then Inl Uncaught else Inr (Some m))"
  unfolding parse_dictionary [OF assms(1)]
  using assms(2) by (cases rest) (simp_all add: bencoding_run.simps open_tokens popped_def)

text \<open>C11: Encoding and parsing: a dictionary of plain texts, numbers of 64 bits and lists without lists in them is
  parsed back exactly, whatever its depth. But the parser asks for the end of the data: where there is
  no more, a build with assertions fails one, and a letter \<open>e\<close> behind it ends the process.\<close>

theorem bencoding_roundtrip:
  assumes "plain_element (B_dictionary_element m)" "rest = [] \<or> \<not> number_char (hd rest)"
  shows "bencoding_parse a (bencoded (B_dictionary_element m) @ rest) =
    (if rest = [] then if a then Inl Assertion else Inr (Some m)
     else if hd rest = CHR ''e'' then Inl Uncaught else Inr (Some m))"
  by (rule parse_complete [OF assms])

section \<open>What it does not read\<close>

lemma parse_value:
  assumes "\<forall>p \<in> set es. plain_text (fst p) \<and> plain_element (snd p)" "plain_text k"
  shows "bencoding_parse a (bencoded (B_dictionary_element (es @ (k, x) # es')) @ rest)
    = bencoding_run a [Value_frame, Dictionary_frame] (driver [es] [k] [])
        (B_value, [B_key], bencoded x @ encoded_entries es' @ CHR ''e'' # rest)"
proof -
  let ?rest = "dec (length k) @ CHR '':'' # k @ bencoded x @ encoded_entries es' @ CHR ''e'' # rest"
  have "bencoding_parse a (bencoded (B_dictionary_element (es @ (k, x) # es')) @ rest)
      = bencoding_run a [Dictionary_frame] (driver [es] [] []) (B_key, [B_key], ?rest)"
    using parse_entries [OF assms(1), of a ?rest] by simp
  also have "\<dots> = bencoding_run a [Value_frame, Dictionary_frame] (driver [es] [k] [])
        (B_value, [B_key], bencoded x @ encoded_entries es' @ CHR ''e'' # rest)"
    using lex_text_at(1) [OF assms(2), of a 0 "[B_key]" "bencoded x @ encoded_entries es' @ CHR ''e'' # rest"]
    by (subst bencoding_run.simps) (simp add: bencoding_action_def)
  finally show ?thesis .
qed

lemma bencoded_start:
  assumes "\<forall>s. x \<noteq> B_string_element s"
  shows "\<exists>c cs. bencoded x = c # cs \<and> c \<in> {CHR ''i'', CHR ''l'', CHR ''d''}"
  using assms by (cases x) auto

text \<open>A list that begins with a list, unless a text follows it there, is never read, as in the \<open>announce-list\<close> of a
  torrent: the scanner does not push its start condition for the inner list, and the end of that list makes it leave
  the outer one. The parser then fails, whatever comes behind.\<close>

theorem bencoding_nested_list:
  assumes "\<forall>p \<in> set es. plain_text (fst p) \<and> plain_element (snd p)" "plain_text k"
    and "\<forall>x \<in> set xs. plain_element x \<and> \<not> is_list x"
    and "ys = [] \<or> (\<forall>s. hd ys \<noteq> B_string_element s)"
  shows "bencoding_parse a (bencoded (B_dictionary_element
      (es @ (k, B_list_element (B_list_element xs # ys)) # es')) @ rest) = Inr None"
proof -
  have "\<exists>c cs. concat (map bencoded ys) @ CHR ''e'' # s = c # cs \<and> c \<in> {CHR ''e'', CHR ''i'', CHR ''l'', CHR ''d''}" for s
  proof (cases ys)
    case (Cons y ys')
    with assms(4) bencoded_start [of y] show ?thesis by auto
  qed simp
  then obtain c cs where c: "encoded_items ys @ CHR ''e'' # encoded_entries es' @ CHR ''e'' # rest = c # cs"
    "c \<in> {CHR ''e'', CHR ''i'', CHR ''l'', CHR ''d''}" by blast
  have items: "\<forall>x \<in> set xs. read_as_item x" using assms(3) read_element by blast
  let ?fs = "[List_frame, Value_frame, Dictionary_frame]"
  have "bencoding_parse a (bencoded (B_dictionary_element (es @ (k, B_list_element (B_list_element xs # ys)) # es')) @ rest)
      = bencoding_run a ?fs (driver [es] [k] [[]])
          (B_list, [B_key, B_key], CHR ''l'' # encoded_items xs @ CHR ''e'' # c # cs)"
    unfolding parse_value [OF assms(1,2)]
    by (subst bencoding_run.simps) (simp add: open_tokens not_number bencoding_action_def c(1))
  also have "\<dots> = bencoding_run a (List_frame # ?fs) (driver [es] [k] [[], []])
      (B_list, [B_key, B_key], encoded_items xs @ CHR ''e'' # c # cs)"
    by (subst bencoding_run.simps) (simp add: open_tokens not_number bencoding_action_def)
  also have "\<dots> = bencoding_run a (List_frame # ?fs) (driver [es] [k] [xs, []]) (B_list, [B_key, B_key], CHR ''e'' # c # cs)"
    using run_items [OF items, of a ?fs "[es]" "[k]" "[]" "[[]]"] by simp
  also have "\<dots> = bencoding_run a ?fs (driver [es] [k] [[B_list_element xs]]) (B_key, [B_key], c # cs)"
    by (subst bencoding_run.simps) (simp add: open_tokens popped_def bencoding_action_def add_element_def)
  also have "\<dots> = Inr None"
    using c(2) by (subst bencoding_run.simps) (auto simp: open_tokens popped_def bencoding_action_def not_number)
  finally show ?thesis .
qed

lemma to_unsigned_digit: "n < 10 \<Longrightarrow> to_unsigned [digit_char n] = of_nat n"
  using to_unsigned_dec [of n] by (simp add: render_short)

lemma lex_digit_text:
  assumes "1 \<le> n" "n < 10" "length (digit_char n # v) < 2 ^ 32" "v \<noteq> []" "\<not> number_char (hd v)" "hd v \<noteq> CHR '':''" "n \<le> length v"
  shows "bencoding_lex a len B_value st (bencoded (B_string_element (digit_char n # v)) @ rest)
    = Inr (B_STRING (take n v), B_key, st, drop n v @ rest)"
proof -
  let ?w = "digit_char n # v"
  obtain c u where v: "v = c # u" using assms(4) by (cases v) auto
  have d: "number_char (digit_char n)" using dec_number_chars [of "digit_char n" n] assms(2) by (simp add: render_short)
  have "list_all number_char (dec (length ?w))" using dec_number_chars by (auto simp: list_all_iff)
  from number_run [OF this render_not_Nil not_number(1), of "?w @ rest"] obtain e es where
    e: "dec (length ?w) = e # es" "number_char e" "takeWhile number_char (e # es @ CHR '':'' # ?w @ rest) = dec (length ?w)"
    "dropWhile number_char (es @ CHR '':'' # ?w @ rest) = CHR '':'' # ?w @ rest" by blast
  have nz: "(of_nat (length ?w) :: u32) \<noteq> 0"
  proof
    assume z: "(of_nat (length ?w) :: u32) = 0"
    have "unat (of_nat (length ?w) :: u32) = length ?w" using assms(3) by (simp only: unat_of_nat) simp
    then have "length ?w = 0" unfolding z by simp
    then show False by simp
  qed
  have "e \<noteq> CHR ''e''" "e \<noteq> CHR ''i''" using e(2) not_number by auto
  then have "bencoding_lex a len B_value st (bencoded (B_string_element ?w) @ rest)
      = bencoding_lex a (of_nat (length ?w)) B_string (B_key # st) (CHR '':'' # ?w @ rest)"
    using e to_unsigned_dec [OF assms(3)] by (simp add: bencoding_lex.simps(2) del: of_nat_Suc)
  also have "\<dots> = bencoding_lex a (of_nat (length ?w)) B_string (B_key # st) (?w @ rest)"
    using nz by (subst bencoding_lex.simps(2)) (simp add: not_number del: of_nat_Suc)
  also have "\<dots> = bencoding_lex a (of_nat n) B_string (B_key # st) (v @ rest)"
    using d assms(5) to_unsigned_digit [OF assms(2)] v by (simp add: bencoding_lex.simps(2))
  also have "\<dots> = Inr (B_STRING (take n v), B_key, st, drop n v @ rest)"
  proof -
    obtain m where m: "n = Suc m" using assms(1) by (cases n) auto
    then have "unat ((of_nat n :: u32) - 1) = m" using assms(2) by (simp add: unat_of_nat)
    with m v assms(5-7) show ?thesis by (simp add: bencoding_lex.simps(2) popped_def Let_def del: of_nat_Suc)
  qed
  finally show ?thesis .
qed

text \<open>A text that begins with a digit is misread: behind the colon the scanner still takes digits for the length.
  When neither a digit nor an \<open>e\<close> is where the text of that length ends, the whole data is rejected. A
  compact list of peers begins with a digit when the first address begins with an octet from 49 to 57.\<close>

theorem bencoding_digit_text:
  assumes "\<forall>p \<in> set es. plain_text (fst p) \<and> plain_element (snd p)" "plain_text k"
    and "1 \<le> n" "n < 10" "length v < 2 ^ 32 - 1" "n < length v"
    and "\<not> number_char (hd v)" "hd v \<noteq> CHR '':''" "\<not> number_char (v ! n)" "v ! n \<noteq> CHR ''e''"
  shows "bencoding_parse a (bencoded (B_dictionary_element
      (es @ (k, B_string_element (digit_char n # v)) # es')) @ rest) = Inr None"
proof -
  let ?rest = "encoded_entries es' @ CHR ''e'' # rest"
  have "drop n v = v ! n # drop (Suc n) v" using assms(6) by (simp add: Cons_nth_drop_Suc)
  then have c: "drop n v @ ?rest = v ! n # drop (Suc n) v @ ?rest" by simp
  have l: "length (digit_char n # v) < 2 ^ 32" "v \<noteq> []" "n \<le> length v" using assms(5,6) by auto
  have "bencoding_parse a (bencoded (B_dictionary_element (es @ (k, B_string_element (digit_char n # v)) # es')) @ rest)
      = bencoding_run a [Dictionary_frame] (driver [es @ [(k, B_string_element (take n v))]] [] [])
          (B_key, [B_key], v ! n # drop (Suc n) v @ ?rest)"
    unfolding parse_value [OF assms(1,2)]
    using lex_digit_text [OF assms(3,4) l(1,2) assms(7,8) l(3), of a 0 "[B_key]" ?rest] c
    by (subst bencoding_run.simps) (simp add: bencoding_action_def add_element_def del: bencoded.simps)
  also have "\<dots> = Inr None"
    using assms(9,10) by (subst bencoding_run.simps) (simp add: open_tokens)
  finally show ?thesis .
qed

section \<open>Witnesses\<close>

lemma plain_texts: "plain_text ''announce-list''" "plain_text ''http://x''" "plain_text ''peers''" "plain_text ''interval''"
  by (simp_all add: plain_text_def number_char_def)

text \<open>A response as a tracker sends it.\<close>

definition response :: "(string \<times> Bencoding_Element) list" where
  "response = [(''interval'', B_integer_element 1800),
     (''peers'', B_list_element [B_dictionary_element [(''peers'', B_string_element ''http://x'')]])]"

theorem bencoding_roundtrip_witness:
  "bencoding_parse False (bencoded (B_dictionary_element response)) = Inr (Some response)
    \<and> bencoding_parse True (bencoded (B_dictionary_element response)) = Inl Assertion"
  using bencoding_roundtrip [of response "[]"] plain_texts by (simp add: response_def is_list_def del: bencoded.simps)

theorem bencoding_nested_list_witness:
  "bencoding_parse False (bencoded (B_dictionary_element
    [(''announce-list'', B_list_element [B_list_element [B_string_element ''http://x'']])])) = Inr None"
  using bencoding_nested_list [of "[]" "''announce-list''" "[B_string_element ''http://x'']" "[]" False "[]" "[]"] plain_texts
  by (simp add: is_list_def del: bencoded.simps)

theorem bencoding_digit_text_witness:
  "bencoding_parse False (bencoded (B_dictionary_element [(''peers'', B_string_element ''1abcde'')])) = Inr None"
  using bencoding_digit_text [of "[]" "''peers''" 1 "''abcde''" False "[]" "[]"] plain_texts
  by (simp add: number_char_def digit_char_def char_of_def bit_0 del: bencoded.simps)

end
