(* ===== verification/BitTorrent_Handlers.thy ===== *)
theory BitTorrent_Handlers
  imports BitTorrent_Session BitTorrent_Bencoding
begin

text \<open>
  The handlers between the streams of a torrent's connections and its session,
  \<^verbatim>\<open>src/src/protocol/p2p/bittorrent/bittorrent_streamhandler.inl\<close>: they keep the data of the streams, tell the
  session of their begin and end, and parse the responses of the tracker for it. What they push to a
  user interface is left out.
\<close>

section \<open>The handlers\<close>

record 'd stream_handler =
  sessionData :: "(u32 \<times> 'd) list"

text \<open>
  The session catches its own exceptions, but for those of a connection given back in \<^verbatim>\<open>connect\<close>: the handler
  goes on after one, from where it was thrown, which the model leaves as the fault.
\<close>

definition peer_start :: "('cc, 'addr, 's) session_env \<Rightarrow> ('cc, 'addr, unit PeerMessageData, 's) bt_env
    \<Rightarrow> 'e bencoding_ops \<Rightarrow> (string \<Rightarrow> u8 list) \<Rightarrow> allocations \<Rightarrow> u32 \<Rightarrow> 'd \<Rightarrow> 'd stream_handler
    \<Rightarrow> ('cc, 'e) bt_session \<Rightarrow> 's \<Rightarrow> ('d stream_handler \<times> ('cc, 'e) bt_session \<times> 's) res option" where
  "peer_start e b bops sha1 a i x h sess s =
    (let known = map_find (<) i (sessionData h) \<noteq> None;
         rest = (if known then map_erase (<) i (sessionData h) else sessionData h);
         h1 = h\<lparr>sessionData := map_insert (<) i x rest\<rparr>
     in map_option (\<lambda>r. bind_res r (\<lambda>(sess', s'). Inr (h1, sess', s'))) (bt_connect_id e b bops sha1 a i sess s))"

definition peer_end :: "('cc, 'addr, 'msg, 's) bt_env \<Rightarrow> u32 \<Rightarrow> 'd stream_handler
    \<Rightarrow> ('cc, 'e) bt_session \<Rightarrow> 's \<Rightarrow> ('d stream_handler \<times> ('cc, 'e) bt_session \<times> 's) res" where
  "peer_end b i h sess s =
    (let h1 = (if map_find (<) i (sessionData h) \<noteq> None then h\<lparr>sessionData := map_erase (<) i (sessionData h)\<rparr> else h)
     in bind_res (bt_disconnect_id b i sess s) (\<lambda>(sess', s'). Inr (h1, sess', s')))"

text \<open>That of the tracker asserts where that of the peers makes do.\<close>

definition tracker_start :: "u32 \<Rightarrow> 'd \<Rightarrow> 'd stream_handler \<Rightarrow> ('cc, 'e) bt_session
    \<Rightarrow> ('d stream_handler \<times> ('cc, 'e) bt_session) res" where
  "tracker_start i x h sess =
    (if map_find (<) i (sessionData h) \<noteq> None then Inl Assertion
     else bind_res (trackerConnect_id i sess) (\<lambda>sess'.
       Inr (h\<lparr>sessionData := map_insert (<) i x (sessionData h)\<rparr>, sess')))"

definition tracker_end :: "('cc, 'addr, 'msg, 's) bt_env \<Rightarrow> u32 \<Rightarrow> 'd stream_handler
    \<Rightarrow> ('cc, 'e) bt_session \<Rightarrow> 's \<Rightarrow> ('d stream_handler \<times> ('cc, 'e) bt_session \<times> 's) res" where
  "tracker_end b i h sess s =
    (if map_find (<) i (sessionData h) = None then Inl Assertion
     else bind_res (trackerDisconnect_id b i sess s) (\<lambda>(sess', s').
       Inr (h\<lparr>sessionData := map_erase (<) i (sessionData h)\<rparr>, sess', s')))"

text \<open>The elements as the session reads them, and the handling of a response: its data, parsed without waiting for more.\<close>

definition bencoding_elements :: "Bencoding_Element bencoding_ops" where
  "bencoding_elements =
    \<lparr>element_type = (\<lambda>x. case x of B_integer_element _ \<Rightarrow> BENCODING_TYPE_INTEGER
       | B_string_element _ \<Rightarrow> BENCODING_TYPE_STRING | B_list_element _ \<Rightarrow> BENCODING_TYPE_LIST
       | B_dictionary_element _ \<Rightarrow> BENCODING_TYPE_DICTIONARY),
     element_integer = (\<lambda>x. case x of B_integer_element i \<Rightarrow> i | _ \<Rightarrow> 0),
     element_string = (\<lambda>x. case x of B_string_element w \<Rightarrow> w | _ \<Rightarrow> []),
     element_list = (\<lambda>x. case x of B_list_element l \<Rightarrow> l | _ \<Rightarrow> []),
     element_dictionary = (\<lambda>x. case x of B_dictionary_element m \<Rightarrow> m | _ \<Rightarrow> []),
     bencode = (\<lambda>m. bencoded (B_dictionary_element m))\<rparr>"

definition tracker_notify :: "bool \<Rightarrow> host \<Rightarrow> (u16 \<Rightarrow> u32 \<Rightarrow> 'addr option) \<Rightarrow> string
    \<Rightarrow> ('cc, Bencoding_Element) bt_session \<Rightarrow> (('cc, Bencoding_Element) bt_session \<times> 'addr list) res" where
  "tracker_notify asserting hs set_address body sess =
    bind_res (bencoding_parse asserting body) (\<lambda>parsed. case parsed of
      None \<Rightarrow> Inr (sess, [])
    | Some record \<Rightarrow> notify_response hs set_address bencoding_elements record sess)"

section \<open>The handlers and the session\<close>

inductive handlers_step :: "('cc, 'addr, 's) session_env \<Rightarrow> ('cc, 'addr, unit PeerMessageData, 's) bt_env
    \<Rightarrow> (string \<Rightarrow> u8 list) \<Rightarrow> 'd stream_handler \<times> 'd stream_handler \<times> ('cc, Bencoding_Element) bt_session \<times> 's
    \<Rightarrow> 'd stream_handler \<times> 'd stream_handler \<times> ('cc, Bencoding_Element) bt_session \<times> 's \<Rightarrow> bool"
  for e :: "('cc, 'addr, 's) session_env" and b :: "('cc, 'addr, unit PeerMessageData, 's) bt_env"
    and sha1 :: "string \<Rightarrow> u8 list" where
  peer_begins: "i \<noteq> 0 \<Longrightarrow> peer_start e b bencoding_elements sha1 a i x p sess s = Some (Inr (p', sess', s')) \<Longrightarrow>
    handlers_step e b sha1 (p, t, sess, s) (p', t, sess', s')"
| peer_ends: "i \<in> fst ` set (sessionData p) \<Longrightarrow> peer_end b i p sess s = Inr (p', sess', s') \<Longrightarrow>
    handlers_step e b sha1 (p, t, sess, s) (p', t, sess', s')"
| tracker_begins: "i \<noteq> 0 \<Longrightarrow> tracker_start i x t sess = Inr (t', sess') \<Longrightarrow>
    handlers_step e b sha1 (p, t, sess, s) (p, t', sess', s)"
| tracker_ends: "i \<noteq> 0 \<Longrightarrow> tracker_end b i t sess s = Inr (t', sess', s') \<Longrightarrow>
    handlers_step e b sha1 (p, t, sess, s) (p, t', sess', s')"
| tracker_answers: "tracker_notify asserting hs (set_address :: u16 \<Rightarrow> u32 \<Rightarrow> 'addr option) body sess = Inr (sess', addrs) \<Longrightarrow>
    handlers_step e b sha1 (p, t, sess, s) (p, t, sess', s)"
| others: "handlers_step e b sha1 (p, t, sess, s) (p, t, sess, s')"

inductive_cases handlers_stepE: "handlers_step e b sha1 (p, t, sess, s) (p', t', sess', s')"

inductive handlers_reachable :: "('cc, 'addr, 's) session_env \<Rightarrow> ('cc, 'addr, unit PeerMessageData, 's) bt_env
    \<Rightarrow> (string \<Rightarrow> u8 list) \<Rightarrow> 'd stream_handler \<times> 'd stream_handler \<times> ('cc, Bencoding_Element) bt_session \<times> 's \<Rightarrow> bool"
  for e :: "('cc, 'addr, 's) session_env" and b :: "('cc, 'addr, unit PeerMessageData, 's) bt_env"
    and sha1 :: "string \<Rightarrow> u8 list" where
  handlers_start: "bt_initialize ok cfg (new_bt_session pid) = Inr (r, sess) \<Longrightarrow>
    handlers_reachable e b sha1 (\<lparr>sessionData = []\<rparr>, \<lparr>sessionData = []\<rparr>, sess, s)"
| handlers_more: "handlers_reachable e b sha1 x \<Longrightarrow> handlers_step e b sha1 x y \<Longrightarrow> handlers_reachable e b sha1 y"

text \<open>The ids whose data the handlers keep are those of the session.\<close>

definition in_step :: "'d stream_handler \<Rightarrow> 'd stream_handler \<Rightarrow> ('cc, 'e) bt_session \<Rightarrow> bool" where
  "in_step p t sess \<longleftrightarrow> fst ` set (sessionData p) = fst ` set (peerStatus sess)
     \<and> fst ` set (sessionData t) = (if trackerConnectionId sess = 0 then {} else {trackerConnectionId sess})"

lemma find_known:
  fixes i :: u32
  shows "map_find (<) i xs \<noteq> None \<longleftrightarrow> i \<in> fst ` set xs"
  by (induction xs) (auto split: if_splits)

lemma handlers_step_session:
  assumes "handlers_step e b sha1 (p, t, sess, s) (p', t', sess', s')" "in_step p t sess"
  shows "bt_step e b bencoding_elements sha1 (sess, s) (sess', s') \<and> in_step p' t' sess'"
proof (rule handlers_stepE [OF assms(1)], goal_cases)
  case (1 i a x)
  obtain h where c: "bt_connect_id e b bencoding_elements sha1 a i sess s = Some (Inr (sess', s'))"
    and p: "p' = p\<lparr>sessionData := map_insert (<) i x (if h then map_erase (<) i (sessionData p) else sessionData p)\<rparr>"
    using 1(3) by (auto simp: peer_start_def Let_def bind_res_eq_Inr split: option.splits)
  have "bt_step e b bencoding_elements sha1 (sess, s) (sess', s')" by (rule peer_up [OF 1(2) c])
  moreover have "in_step p' t' sess'"
    using bt_connect_id_session [OF c] assms(2) 1(1) p
    by (auto simp: in_step_def keys_map_insert keys_map_erase)
  ultimately show ?case by simp
next
  case (2 i)
  from 2(2) assms(2) have k: "map_find (<) i (sessionData p) \<noteq> None" "i \<in> fst ` set (peerStatus sess)"
    using find_known [of i "sessionData p"] by (auto simp: in_step_def)
  with 2(3) have d: "bt_disconnect_id b i sess s = Inr (sess', s')"
    "p' = p\<lparr>sessionData := map_erase (<) i (sessionData p)\<rparr>"
    by (auto simp: peer_end_def Let_def bind_res_eq_Inr)
  have "bt_step e b bencoding_elements sha1 (sess, s) (sess', s')" by (rule peer_down [OF k(2) d(1)])
  moreover have "in_step p' t' sess'"
    using bt_disconnect_id_session [OF d(1)] assms(2) 2(1) d(2)
    by (auto simp: in_step_def keys_map_erase)
  ultimately show ?case by simp
next
  case (3 i x)
  from 3 have c: "trackerConnect_id i sess = Inr sess'"
    "t' = t\<lparr>sessionData := map_insert (<) i x (sessionData t)\<rparr>"
    by (auto simp: tracker_start_def bind_res_eq_Inr split: if_splits)
  have "bt_step e b bencoding_elements sha1 (sess, s) (sess', s)" using 3 c(1) by (auto intro: tracker_up)
  moreover have "in_step p' t' sess'"
    using c assms(2) 3
    by (auto simp: in_step_def keys_map_insert trackerConnect_id_def
        session_connect_id_Inr split: if_splits)
  ultimately show ?case using 3 by simp
next
  case (4 i)
  from 4 have d: "trackerDisconnect_id b i sess s = Inr (sess', s')"
    "t' = t\<lparr>sessionData := map_erase (<) i (sessionData t)\<rparr>"
    by (auto simp: tracker_end_def bind_res_eq_Inr split: if_splits)
  have "bt_step e b bencoding_elements sha1 (sess, s) (sess', s')" using 4 d(1) by (auto intro: tracker_down)
  moreover have "in_step p' t' sess'"
    using trackerDisconnect_id_session [OF d(1)] assms(2) 4 d(2)
    by (auto simp: in_step_def keys_map_erase)
  ultimately show ?case by simp
next
  case (5 asserting hs set_address body addrs)
  have "bt_step e b bencoding_elements sha1 (sess, s) (sess', s) \<and> peerStatus sess' = peerStatus sess
      \<and> trackerConnectionId sess' = trackerConnectionId sess"
  proof (cases "bencoding_parse asserting body = Inr None")
    case True
    with 5 show ?thesis by (auto simp: tracker_notify_def intro: elsewhere)
  next
    case False
    with 5 obtain d where "notify_response hs set_address bencoding_elements d sess = Inr (sess', addrs)"
      by (auto simp: tracker_notify_def bind_res_eq_Inr split: option.splits)
    with notify_response_session [OF this] show ?thesis by (auto intro: answer)
  qed
  with 5 assms(2) show ?case by (simp add: in_step_def)
qed (use assms(2) in \<open>auto intro: elsewhere\<close>)

lemma handlers_reachable_session:
  "handlers_reachable e b sha1 x \<Longrightarrow> case x of (p, t, sess, s) \<Rightarrow>
    bt_reachable e b bencoding_elements sha1 (sess, s) \<and> in_step p t sess"
proof (induction rule: handlers_reachable.induct)
  case (handlers_start ok cfg pid r sess s)
  then show ?case
    using bt_initialize_fields [OF handlers_start] bt_start [OF handlers_start] by (simp add: in_step_def)
next
  case (handlers_more x y)
  obtain p t sess s p' t' sess' s' where xy: "x = (p, t, sess, s)" "y = (p', t', sess', s')"
    by (cases x; cases y) auto
  with handlers_more handlers_step_session [of e b sha1 p t sess s p' t' sess' s'] bt_more
  show ?case by fastforce
qed

text \<open>C13: The handlers drive the session as its step relation has it, and keep in step with it: whatever streams
  begin, end and answer, in any order, a state that is reached with them is one that the session reaches
  on its own, and the streams whose data they keep are exactly the peers with a status and the
  connection to the tracker.\<close>

theorem handlers_refine_session:
  assumes "handlers_reachable e b sha1 (p, t, sess, s)"
  shows "bt_reachable e b bencoding_elements sha1 (sess, s)
    \<and> fst ` set (sessionData p) = fst ` set (peerStatus sess)
    \<and> fst ` set (sessionData t) = (if trackerConnectionId sess = 0 then {} else {trackerConnectionId sess})"
  using handlers_reachable_session [OF assms] by (simp add: in_step_def)

text \<open>A stream that begins under an id whose last stream has not ended yet - descriptors are reused at once - is
  something that the handler provides for, but it never comes to that: the session still has a
  connection of that id, and its assertion fails.\<close>

theorem reused_id_asserts:
  assumes "handlers_reachable e b sha1 (p, t, sess, s)" "i \<in> fst ` set (sessionData p)"
  shows "peer_start e b bencoding_elements sha1 a i x p sess s = Some (Inl Assertion)"
proof -
  note r = handlers_reachable_session [OF assms(1), simplified]
  then have "bt_ok sess" using bt_reachable_ok by fastforce
  with r assms(2) have "i \<in> sessionConnections sess" by (auto simp: in_step_def bt_ok_def)
  then have "bt_connect_id e b bencoding_elements sha1 a i sess s = Some (Inl Assertion)"
    by (auto simp: bt_connect_id_def session_connect_id_def split: option.splits)
  then show ?thesis by (simp add: peer_start_def)
qed

section \<open>A response of the tracker\<close>

text \<open>C12: From the octets of a response to the peers: when it is a plain dictionary with a compact list of
  peers and without scrape data, a build without assertions stores it and reads the peers as they
  were written, in order, on hosts of either byte order. In a build with assertions every such response aborts the process,
  because the parser asks for the end of the data.\<close>

theorem tracker_response:
  assumes "plain_element (B_dictionary_element d)" "find_key ''files'' d = None"
    and "find_key ''peers'' d = Some (B_string_element (string_of
      (concat (map (\<lambda>(ip :: u32, port :: u16). octets 4 ip @ octets 2 port) peers))))"
  shows "tracker_notify asserting hs (\<lambda>port ip. Some (in_memory hs 4 ip, in_memory hs 2 port))
      (bencoded (B_dictionary_element d)) sess
    = (if asserting then Inl Assertion
       else Inr (sess\<lparr>trackerRequestResponse := Some d\<rparr>, map (\<lambda>(ip, port). (octets 4 ip, octets 2 port)) peers))"
proof -
  have p: "bencoding_parse asserting (bencoded (B_dictionary_element d)) = (if asserting then Inl Assertion else Inr (Some d))"
    using parse_complete [OF assms(1), of "[]" asserting] by (simp del: bencoded.simps)
  have "as_string bencoding_elements (find_key ''peers'' d) = Inr (string_of
      (concat (map (\<lambda>(ip :: u32, port :: u16). octets 4 ip @ octets 2 port) peers)))"
    by (simp add: assms(3) as_string_def bencoding_elements_def)
  with compact_peers_octets [of "[]" hs peers] assms(2)
  have "notify_response hs (\<lambda>port ip. Some (in_memory hs 4 ip, in_memory hs 2 port)) bencoding_elements d sess
      = Inr (sess\<lparr>trackerRequestResponse := Some d\<rparr>, map (\<lambda>(ip, port). (octets 4 ip, octets 2 port)) peers)"
    by (simp add: notify_response_def Let_def)
  with p show ?thesis by (simp add: tracker_notify_def del: bencoded.simps)
qed

section \<open>Witnesses\<close>

definition demo_response :: "(string \<times> Bencoding_Element) list" where
  "demo_response = [(''interval'', B_integer_element 1800),
     (''peers'', B_string_element (string_of (octets 4 (0x0A000001 :: u32) @ octets 2 (6881 :: u16))))]"

theorem tracker_response_witness:
  "tracker_notify False little_host (\<lambda>port ip. Some (in_memory little_host 4 ip, in_memory little_host 2 port))
      (bencoded (B_dictionary_element demo_response)) (new_bt_session ''-LN0000-'' :: (unit, Bencoding_Element) bt_session)
    = Inr ((new_bt_session ''-LN0000-'')\<lparr>trackerRequestResponse := Some demo_response\<rparr>,
        [(octets 4 (0x0A000001 :: u32), octets 2 (6881 :: u16))])"
proof -
  have o: "octets 4 (0x0A000001 :: u32) = [10, 0, 0, 1]" "octets 2 (6881 :: u16) = [26, 225]" by code_simp+
  have "plain_element (B_dictionary_element demo_response)"
    using plain_texts by (simp add: demo_response_def o plain_text_def string_of_def number_char_def char_of_def bit_0)
  moreover have "find_key ''files'' demo_response = None"
    "find_key ''peers'' demo_response = Some (B_string_element (string_of
      (concat (map (\<lambda>(ip :: u32, port :: u16). octets 4 ip @ octets 2 port) [(0x0A000001, 6881)]))))"
    by (simp_all add: demo_response_def)
  ultimately show ?thesis
    using tracker_response [of demo_response "[(0x0A000001, 6881)]" False little_host] by (simp del: bencoded.simps)
qed

text \<open>A session with a connection to the tracker and one to a peer.\<close>

definition demo_settings :: "(unit, Bencoding_Element) bt_configuration" where
  "demo_settings = \<lparr>connectionConfiguration = Some (), connectionManager = True, dispatchProactor = False,
     cfgController = True, cfgParser = True, cfgMetaInfo = Some [], cfgMetaInfoFileName = ''example.torrent'',
     cfgTrackerConnection = Some (), cfgTrackerManager = True\<rparr>"

definition demo_started :: "(unit, Bencoding_Element) bt_session" where
  "demo_started = (case bt_initialize True demo_settings (new_bt_session ''-LN0000-'') of Inr (_, sess) \<Rightarrow> sess)"

lemma demo_started:
  "bt_initialize True demo_settings (new_bt_session ''-LN0000-'') = Inr (True, demo_started)"
  "btConfiguration demo_started = Some demo_settings" "metaInfo demo_started = Some []" "sessionManager demo_started"
  "sessionConnections demo_started = {}" "peerStatus demo_started = []" "trackerConnectionId demo_started = 0"
  "connectionConfiguration demo_settings = Some ()"
  by (simp_all add: demo_started_def bt_initialize_def demo_settings_def session_initialize_def Let_def
      new_bt_session_def new_session_def session.defs session_configuration.defs)

abbreviation demo_streams :: "(unit, u32, (unit, unit, nat, (conn \<Rightarrow> nat) \<times> (conn \<Rightarrow> u32)) manager) session_env" where
  "demo_streams \<equiv> on_manager (counter_ops id) quiet_env"

lemma demo_reached:
  "\<exists>sess. handlers_reachable demo_streams demo_bt_env (\<lambda>_. replicate 20 7)
      (\<lparr>sessionData = [(7, ())]\<rparr>, \<lparr>sessionData = [(5, ())]\<rparr>, sess, two_connections)"
proof -
  let ?r = "handlers_reachable demo_streams demo_bt_env (\<lambda>_. replicate 20 7)"
  let ?s1 = "demo_started\<lparr>trackerConnectionId := 5, sessionConnections := {5}\<rparr>"
  let ?s2 = "?s1\<lparr>sessionConnections := {7, 5}, peerStatus := [(7, new_peer_status)]\<rparr>"
  have r0: "?r (\<lparr>sessionData = []\<rparr>, \<lparr>sessionData = []\<rparr>, demo_started, two_connections)"
    by (rule handlers_start [OF demo_started(1)])
  have "tracker_start 5 () \<lparr>sessionData = []\<rparr> demo_started = Inr (\<lparr>sessionData = [(5, ())]\<rparr>, ?s1)"
    by (simp add: tracker_start_def trackerConnect_id_def session_connect_id_def demo_started)
  then have r1: "?r (\<lparr>sessionData = []\<rparr>, \<lparr>sessionData = [(5, ())]\<rparr>, ?s1, two_connections)"
    by (intro handlers_more [OF r0] tracker_begins [of 5]) simp_all
  have "bt_connect_id demo_streams demo_bt_env bencoding_elements (\<lambda>_. replicate 20 7) (demo_allocations False) 7 ?s1
      two_connections = Some (Inr (?s2, two_connections))"
    by (simp add: bt_connect_id_def session_connect_id_def demo_started demo_bt_env_def demo_allocations_def)
  then have "peer_start demo_streams demo_bt_env bencoding_elements (\<lambda>_. replicate 20 7) (demo_allocations False) 7 ()
      \<lparr>sessionData = []\<rparr> ?s1 two_connections = Some (Inr (\<lparr>sessionData = [(7, ())]\<rparr>, ?s2, two_connections))"
    by (simp add: peer_start_def)
  then have "?r (\<lparr>sessionData = [(7, ())]\<rparr>, \<lparr>sessionData = [(5, ())]\<rparr>, ?s2, two_connections)"
    by (intro handlers_more [OF r1] peer_begins [of 7 demo_streams demo_bt_env _ "demo_allocations False"]) simp_all
  then show ?thesis ..
qed

theorem handlers_refine_session_witness:
  "\<exists>sess :: (unit, Bencoding_Element) bt_session.
    bt_reachable demo_streams demo_bt_env bencoding_elements (\<lambda>_. replicate 20 7) (sess, two_connections)
    \<and> {7} = fst ` set (peerStatus sess) \<and> trackerConnectionId sess = 5"
proof -
  from demo_reached obtain sess where r: "handlers_reachable demo_streams demo_bt_env (\<lambda>_. replicate 20 7)
      (\<lparr>sessionData = [(7, ())]\<rparr>, \<lparr>sessionData = [(5, ())]\<rparr>, sess, two_connections)" ..
  from handlers_refine_session [OF r] show ?thesis by (intro exI [of _ sess]) (auto split: if_splits)
qed

theorem reused_id_asserts_witness:
  "\<exists>sess. peer_start demo_streams demo_bt_env bencoding_elements (\<lambda>_. replicate 20 7) (demo_allocations False) 7 ()
    \<lparr>sessionData = [(7, ())]\<rparr> sess two_connections = Some (Inl Assertion)"
proof -
  from demo_reached obtain sess where r: "handlers_reachable demo_streams demo_bt_env (\<lambda>_. replicate 20 7)
      (\<lparr>sessionData = [(7, ())]\<rparr>, \<lparr>sessionData = [(5, ())]\<rparr>, sess, two_connections)" ..
  from reused_id_asserts [OF r] show ?thesis by (intro exI [of _ sess]) simp
qed

end
