(* ===== verification/DHCP_Streamer.thy ===== *)
theory DHCP_Streamer
  imports DHCP_Record
begin

text \<open>
  The marshalling of DHCP records, \<^verbatim>\<open>DHCP_Module_Streamer_T::handleDataMessage\<close> in
  \<^verbatim>\<open>src/src/protocol/dhcp/dhcp_module_streamer.inl\<close>: fixed fields in network byte order, the two
  padded strings, and the buffer of options. \<open>dhcp_wire\<close> is the message of RFC 2131 it is to
  produce, \<open>parse_dhcp\<close> reads one.
\<close>

section \<open>Steps\<close>

text \<open>
  Unlike the other streamers this one does not release the message when a copy fails: it jumps to
  \<open>error\<close>, logs and returns. A step gives the message and whether to go on.
\<close>

type_synonym 'm dhcp_step = "'m \<Rightarrow> ('m \<times> bool) res"

definition copy_or_error :: "('m, u8) mb_ops \<Rightarrow> u8 list res \<Rightarrow> 'm dhcp_step" where
  "copy_or_error ops chunk m =
    bind_res chunk (\<lambda>bs. Inr (case mb_copy ops bs m of None \<Rightarrow> (m, False) | Some m' \<Rightarrow> (m', True)))"

fun copy_chunks :: "('m, u8) mb_ops \<Rightarrow> u8 list res list \<Rightarrow> 'm dhcp_step" where
  "copy_chunks ops [] m = Inr (m, True)"
| "copy_chunks ops (c # cs) m =
    bind_res (copy_or_error ops c m) (\<lambda>(m', ok). if ok then copy_chunks ops cs m' else Inr (m', False))"

text \<open>\<^verbatim>\<open>memset\<close> and \<^verbatim>\<open>memcpy\<close> into a buffer on the stack; \<open>overwrite\<close> copies to an offset.\<close>

definition padded :: "nat \<Rightarrow> string \<Rightarrow> u8 list res" where
  "padded n s = (if n < length s then Inl Undefined_Behaviour
     else Inr (bytes_of s @ replicate (n - length s) 0))"

definition overwrite :: "u8 list \<Rightarrow> nat \<Rightarrow> u8 list \<Rightarrow> u8 list res" where
  "overwrite buf offset bs =
    (if length buf < offset + length bs then Inl Undefined_Behaviour
     else Inr (take offset buf @ bs @ drop (offset + length bs) buf))"

text \<open>The loop over the options.\<close>

fun put_options :: "DHCP_Options \<Rightarrow> u8 list \<Rightarrow> nat \<Rightarrow> (u8 list \<times> nat) res" where
  "put_options [] buf offset = Inr (buf, offset)"
| "put_options ((tag, data) # opts) buf offset =
    bind_res (overwrite buf offset [tag]) (\<lambda>buf.
    if 255 < length data then Inl Assertion
    else bind_res (overwrite buf (offset + 1) [word_of_nat (length data)]) (\<lambda>buf.
    bind_res (overwrite buf (offset + 2) (bytes_of data)) (\<lambda>buf.
    put_options opts buf (offset + 2 + length data))))"

definition options_buffer :: "host \<Rightarrow> DHCP_Options \<Rightarrow> u8 list res" where
  "options_buffer hs opts =
    bind_res (overwrite (replicate DHCP_OPTIONS_SIZE 0) 0 (in_memory hs 4 (swapped_long hs DHCP_MAGIC_COOKIE))) (\<lambda>buf.
    bind_res (put_options opts buf 4) (\<lambda>(buf, offset).
    overwrite buf offset [DHCP_OPTION_TAG_END]))"

text \<open>The chunks in the order in which they are copied; of the operation code the first byte in memory.\<close>

definition dhcp_chunks :: "host \<Rightarrow> DHCP_Record \<Rightarrow> u8 list res list" where
  "dhcp_chunks hs r =
    [Inr (take 1 (in_memory hs 4 (op_value (operation r)))), Inr [htype r], Inr [hlen r], Inr [hops r],
     Inr (in_memory hs 4 (swapped_long hs (xid r))),
     Inr (in_memory hs 2 (swapped_word hs (secs r))), Inr (in_memory hs 2 (swapped_word hs (flags r))),
     Inr (in_memory hs 4 (swapped_long hs (ciaddr r))), Inr (in_memory hs 4 (swapped_long hs (yiaddr r))),
     Inr (in_memory hs 4 (swapped_long hs (siaddr r))), Inr (in_memory hs 4 (swapped_long hs (giaddr r))),
     Inr (chaddr r), padded DHCP_SNAME_SIZE (sname r), padded DHCP_FILE_SIZE (bootfile r),
     options_buffer hs (options r)]"

text \<open>The message and whether it is passed on (always).\<close>

definition dhcp_handleDataMessage ::
  "host \<Rightarrow> ('m, u8) mb_ops \<Rightarrow> DHCP_Record \<Rightarrow> 'm \<Rightarrow> ('m \<times> bool) res" where
  "dhcp_handleDataMessage hs ops r m =
    (if mb_length ops m \<noteq> 0 then Inl Assertion
     else if mb_capacity ops m < DHCP_MESSAGE_SIZE then Inl Assertion
     else bind_res (copy_chunks ops (dhcp_chunks hs r) m) (\<lambda>(m', ok). Inr (m', True)))"

section \<open>The wire format\<close>

text \<open>An option: tag, length, data; the field starts with the cookie, ends with the end tag and is filled up.\<close>

definition wire_option :: "u8 \<times> string \<Rightarrow> u8 list" where
  "wire_option opt = fst opt # word_of_nat (length (snd opt)) # bytes_of (snd opt)"

definition wire_options :: "DHCP_Options \<Rightarrow> u8 list" where
  "wire_options opts = octets 4 DHCP_MAGIC_COOKIE @ concat (map wire_option opts) @ [255]"

definition fill_up :: "nat \<Rightarrow> u8 list \<Rightarrow> u8 list" where
  "fill_up n bs = bs @ replicate (n - length bs) 0"

definition dhcp_header :: "DHCP_Record \<Rightarrow> u8 list" where
  "dhcp_header r = [ucast (op_value (operation r)), htype r, hlen r, hops r]
     @ octets 4 (xid r) @ octets 2 (secs r) @ octets 2 (flags r)
     @ octets 4 (ciaddr r) @ octets 4 (yiaddr r) @ octets 4 (siaddr r) @ octets 4 (giaddr r)
     @ chaddr r @ fill_up 64 (bytes_of (sname r)) @ fill_up 128 (bytes_of (bootfile r))"

definition dhcp_wire :: "DHCP_Record \<Rightarrow> u8 list" where
  "dhcp_wire r = dhcp_header r @ fill_up 312 (wire_options (options r))"

text \<open>The records that have a message: the strings and the options fit.\<close>

definition fits :: "DHCP_Record \<Rightarrow> bool" where
  "fits r \<longleftrightarrow> length (sname r) \<le> 64 \<and> length (bootfile r) \<le> 128
     \<and> (\<forall>opt \<in> set (options r). length (snd opt) \<le> 255) \<and> length (wire_options (options r)) \<le> 312"

section \<open>The chunks are the message\<close>

lemma overwrite_split:
  "length as = offset \<Longrightarrow> length bs \<le> n \<Longrightarrow>
   overwrite (as @ replicate n 0) offset bs = Inr ((as @ bs) @ replicate (n - length bs) 0)"
  by (simp add: overwrite_def)

lemma overwrite_full:
  "length as = offset \<Longrightarrow> n < length bs \<Longrightarrow> overwrite (as @ replicate n 0) offset bs = Inl Undefined_Behaviour"
  by (simp add: overwrite_def)

lemma length_wire_option: "length (wire_option opt) = 2 + length (snd opt)"
  by (simp add: wire_option_def)

text \<open>Within its room the loop appends the options; a fault it has when an option is too long or there is no room.\<close>

lemma put_options_appends:
  assumes "length as = offset"
  shows "if (\<forall>opt \<in> set opts. length (snd opt) \<le> 255) \<and> length (concat (map wire_option opts)) \<le> n
    then put_options opts (as @ replicate n 0) offset =
      Inr (as @ concat (map wire_option opts) @ replicate (n - length (concat (map wire_option opts))) 0,
           offset + length (concat (map wire_option opts)))
    else \<exists>e. put_options opts (as @ replicate n 0) offset = Inl e"
  using assms
proof (induction opts arbitrary: as offset n)
  case (Cons opt opts)
  obtain tag data where opt: "opt = (tag, data)" by fastforce
  let ?l = "length data"
  show ?case
  proof (cases "?l \<le> 255 \<and> 2 + ?l \<le> n")
    case True
    then have n: "1 \<le> n" "1 \<le> n - 1" "?l \<le> n - 2" by linarith+
    let ?as = "as @ wire_option opt"
    have "put_options (opt # opts) (as @ replicate n 0) offset =
        put_options opts (?as @ replicate (n - (2 + ?l)) 0) (offset + 2 + ?l)"
    proof -
      have "overwrite (as @ replicate n 0) offset [tag] = Inr ((as @ [tag]) @ replicate (n - 1) 0)"
        using overwrite_split [of as offset "[tag]" n] Cons.prems n by simp
      moreover have "overwrite ((as @ [tag]) @ replicate (n - 1) 0) (offset + 1) [word_of_nat ?l]
          = Inr ((as @ [tag, word_of_nat ?l]) @ replicate (n - 2) 0)"
        using overwrite_split [of "as @ [tag]" "offset + 1" "[word_of_nat ?l]" "n - 1"] Cons.prems n
        by (simp add: numeral_2_eq_2)
      moreover have "overwrite ((as @ [tag, word_of_nat ?l]) @ replicate (n - 2) 0) (offset + 2) (bytes_of data)
          = Inr (?as @ replicate (n - (2 + ?l)) 0)"
        using overwrite_split [of "as @ [tag, word_of_nat ?l]" "offset + 2" "bytes_of data" "n - 2"] Cons.prems n opt
        by (simp add: wire_option_def)
      ultimately show ?thesis
        using True opt by simp
    qed
    moreover have "length ?as = offset + 2 + ?l"
      using Cons.prems opt by (simp add: length_wire_option)
    note Cons.IH [OF this, of "n - (2 + ?l)"]
    ultimately show ?thesis
      using True opt
      by (auto simp: length_wire_option le_diff_conv2 ac_simps simp del: put_options.simps split: if_splits)
  next
    case False
    have "\<exists>e. put_options (opt # opts) (as @ replicate n 0) offset = Inl e"
    proof (cases "n = 0")
      case True
      then show ?thesis
        using overwrite_full [of as offset 0 "[tag]"] Cons.prems opt by simp
    next
      case pos: False
      then have t: "overwrite (as @ replicate n 0) offset [tag] = Inr ((as @ [tag]) @ replicate (n - 1) 0)"
        using overwrite_split [of as offset "[tag]" n] Cons.prems by simp
      show ?thesis
      proof (cases "?l \<le> 255")
        case False
        with t opt show ?thesis by simp
      next
        case short: True
        show ?thesis
        proof (cases "n = 1")
          case True
          then show ?thesis
            using t opt short overwrite_full [of "as @ [tag]" "offset + 1" 0 "[word_of_nat ?l]"] Cons.prems
            by simp
        next
          case two: False
          have "overwrite ((as @ [tag]) @ replicate (n - 1) 0) (offset + 1) [word_of_nat ?l]
            = Inr ((as @ [tag, word_of_nat ?l]) @ replicate (n - 2) 0)"
            using overwrite_split [of "as @ [tag]" "offset + 1" "[word_of_nat ?l]" "n - 1"] Cons.prems pos two
            by (simp add: numeral_2_eq_2)
          moreover have "overwrite ((as @ [tag, word_of_nat ?l]) @ replicate (n - 2) 0) (offset + 2) (bytes_of data)
            = Inl Undefined_Behaviour"
            using overwrite_full [of "as @ [tag, word_of_nat ?l]" "offset + 2" "n - 2" "bytes_of data"]
              Cons.prems pos two False short by simp
          ultimately show ?thesis using t opt short by simp
        qed
      qed
    qed
    with False opt show ?thesis by (auto simp: length_wire_option)
  qed
qed simp

lemma options_buffer_wire:
  assumes "host_laws hs"
  shows "if (\<forall>opt \<in> set opts. length (snd opt) \<le> 255) \<and> length (wire_options opts) \<le> 312
    then options_buffer hs opts = Inr (fill_up 312 (wire_options opts))
    else \<exists>e. options_buffer hs opts = Inl e"
proof -
  let ?c = "octets 4 DHCP_MAGIC_COOKIE"
  let ?o = "concat (map wire_option opts)"
  have c: "overwrite (replicate DHCP_OPTIONS_SIZE 0) 0 (in_memory hs 4 (swapped_long hs DHCP_MAGIC_COOKIE))
      = Inr (?c @ replicate 308 0)"
    using overwrite_split [of "[]" 0 ?c DHCP_OPTIONS_SIZE] swapped_in_memory(1) [OF assms]
    by (simp add: DHCP_OPTIONS_SIZE_def)
  have len: "length (wire_options opts) = length ?o + 5" by (simp add: wire_options_def)
  show ?thesis
  proof (cases "(\<forall>opt \<in> set opts. length (snd opt) \<le> 255) \<and> length ?o \<le> 308")
    case False
    with len have "\<not> ((\<forall>opt \<in> set opts. length (snd opt) \<le> 255) \<and> length (wire_options opts) \<le> 312)"
      by auto
    moreover have "\<exists>e. put_options opts (?c @ replicate 308 0) 4 = Inl e"
      using put_options_appends [of ?c 4 opts 308] False by (simp split: if_splits)
    ultimately show ?thesis using c by (auto simp: options_buffer_def)
  next
    case True
    then have p: "options_buffer hs opts
        = overwrite ((?c @ ?o) @ replicate (308 - length ?o) 0) (4 + length ?o) [255]"
      using put_options_appends [of ?c 4 opts 308] c
      by (simp add: options_buffer_def DHCP_OPTION_TAG_END_def)
    show ?thesis
    proof (cases "length ?o = 308")
      case True
      then show ?thesis
        using p len overwrite_full [of "?c @ ?o" "4 + length ?o" 0 "[255]"] by simp
    next
      case less: False
      then have "1 \<le> 308 - length ?o" using True by linarith
      then show ?thesis
        using p len True less overwrite_split [of "?c @ ?o" "4 + length ?o" "[255]" "308 - length ?o"]
        by (auto simp: fill_up_def wire_options_def)
    qed
  qed
qed

lemma padded_fits:
  "padded n s = (if length s \<le> n then Inr (fill_up n (bytes_of s)) else Inl Undefined_Behaviour)"
  by (simp add: padded_def fill_up_def)

lemma first_byte_little: "take 1 (rev (octets 4 w)) = [ucast w]"
  by (simp add: eval_nat_numeral)

text \<open>The chunks of a record that fits, on a little endian host.\<close>

definition wire_chunks :: "DHCP_Record \<Rightarrow> u8 list list" where
  "wire_chunks r = [[ucast (op_value (operation r))], [htype r], [hlen r], [hops r], octets 4 (xid r),
     octets 2 (secs r), octets 2 (flags r), octets 4 (ciaddr r), octets 4 (yiaddr r), octets 4 (siaddr r),
     octets 4 (giaddr r), chaddr r, fill_up 64 (bytes_of (sname r)), fill_up 128 (bytes_of (bootfile r)),
     fill_up 312 (wire_options (options r))]"

lemma wire_chunks_concat: "concat (wire_chunks r) = dhcp_wire r"
  by (simp add: wire_chunks_def dhcp_wire_def dhcp_header_def)

lemma dhcp_chunks_fit:
  assumes "host_laws hs" "little_endian hs" "fits r"
  shows "dhcp_chunks hs r = map Inr (wire_chunks r)"
proof -
  have "take (Suc 0) (in_memory hs 4 (op_value (operation r))) = [ucast (op_value (operation r))]"
    using first_byte_little [of "op_value (operation r)"] assms(2) by (simp add: in_memory_def)
  then show ?thesis
    using assms(3) options_buffer_wire [OF assms(1), of "options r"]
    by (simp add: dhcp_chunks_def wire_chunks_def swapped_in_memory [OF assms(1)] padded_fits fits_def
        DHCP_SNAME_SIZE_def DHCP_FILE_SIZE_def)
qed

lemma dhcp_chunks_unfit:
  assumes "host_laws hs" "\<not> fits r"
  shows "\<exists>e cs cs'. dhcp_chunks hs r = map Inr cs @ Inl e # cs' \<and> length (concat cs) \<le> 44 + length (chaddr r) + 192"
proof -
  let ?cs = "[take 1 (in_memory hs 4 (op_value (operation r))), [htype r], [hlen r], [hops r], octets 4 (xid r),
     octets 2 (secs r), octets 2 (flags r), octets 4 (ciaddr r), octets 4 (yiaddr r), octets 4 (siaddr r),
     octets 4 (giaddr r), chaddr r]"
  have cs: "dhcp_chunks hs r = map Inr ?cs @ [padded 64 (sname r), padded 128 (bootfile r), options_buffer hs (options r)]"
    by (simp add: dhcp_chunks_def swapped_in_memory [OF assms(1)] DHCP_SNAME_SIZE_def DHCP_FILE_SIZE_def)
  consider "64 < length (sname r)" | "length (sname r) \<le> 64" "128 < length (bootfile r)"
    | "length (sname r) \<le> 64" "length (bootfile r) \<le> 128" by linarith
  then show ?thesis
  proof cases
    case 1
    with cs show ?thesis
      by (intro exI [of _ Undefined_Behaviour] exI [of _ ?cs]) (auto simp: padded_fits)
  next
    case 2
    with cs show ?thesis
      by (intro exI [of _ Undefined_Behaviour] exI [of _ "?cs @ [fill_up 64 (bytes_of (sname r))]"])
        (auto simp: padded_fits fill_up_def)
  next
    case 3
    then obtain e where "options_buffer hs (options r) = Inl e"
      using options_buffer_wire [OF assms(1), of "options r"] assms(2) by (auto simp: fits_def split: if_splits)
    with 3 cs show ?thesis
      by (intro exI [of _ e] exI [of _ "?cs @ [fill_up 64 (bytes_of (sname r)), fill_up 128 (bytes_of (bootfile r))]"])
        (auto simp: padded_fits fill_up_def)
  qed
qed

section \<open>Copying chunks\<close>

lemma copy_chunks_fit:
  assumes "mb_laws ops contents" "length (concat cs) \<le> mb_space ops m"
  shows "\<exists>m'. contents m' = contents m @ concat cs
    \<and> copy_chunks ops (map Inr cs @ rest) m = copy_chunks ops rest m'"
  using assms(2)
proof (induction cs arbitrary: m)
  case (Cons c cs)
  from Cons.prems have "length c \<le> mb_space ops m" by simp
  from mb_copy_fits [OF assms(1) this] obtain m1 where
    m1: "mb_copy ops c m = Some m1" "contents m1 = contents m @ c" "mb_space ops m1 = mb_space ops m - length c"
    by blast
  with Cons.IH [of m1] Cons.prems show ?case by (auto simp: copy_or_error_def)
qed auto

lemma copy_chunks_short:
  assumes "mb_laws ops contents" "mb_space ops m < length (concat cs)"
  shows "\<exists>m' k. copy_chunks ops (map Inr cs) m = Inr (m', False)
    \<and> k < length (concat cs) \<and> contents m' = contents m @ take k (concat cs)"
  using assms(2)
proof (induction cs arbitrary: m)
  case (Cons c cs)
  show ?case
  proof (cases "length c \<le> mb_space ops m")
    case True
    from mb_copy_fits [OF assms(1) this] obtain m1 where
      m1: "mb_copy ops c m = Some m1" "contents m1 = contents m @ c" "mb_space ops m1 = mb_space ops m - length c"
      by blast
    have "mb_space ops m1 < length (concat cs)"
      using Cons.prems True m1(3) by simp
    from Cons.IH [OF this] m1(2) obtain m' k where
      "copy_chunks ops (map Inr cs) m1 = Inr (m', False)" "k < length (concat cs)"
      "contents m' = contents m @ c @ take k (concat cs)" by fastforce
    with m1 show ?thesis
      by (intro exI [of _ m'] exI [of _ "length c + k"]) (simp add: copy_or_error_def)
  next
    case False
    then have "mb_copy ops c m = None" using mb_copy_full [OF assms(1)] by simp
    with False show ?thesis
      by (intro exI [of _ m] exI [of _ 0]) (auto simp: copy_or_error_def)
  qed
qed simp

lemma dhcp_wire_length:
  assumes "record_ok r" "fits r" shows "length (dhcp_wire r) = 548"
  using assms by (simp add: dhcp_wire_def dhcp_header_def fill_up_def fits_def record_ok_def DHCP_CHADDR_SIZE_def)

text \<open>C15: On a little endian host, with an empty message block that has room for a message, the handler
  streams a record exactly when its strings and options fit the message: it then produces the 548
  octets of the wire format, all integers in network byte order. A record that does not fit
  overruns a buffer of the handler or fails an assertion.\<close>

theorem dhcp_stream_outcome:
  assumes "host_laws hs" "little_endian hs" "mb_laws ops contents" "record_ok r"
    and "contents m = []" "DHCP_MESSAGE_SIZE \<le> mb_capacity ops m" "548 \<le> mb_space ops m"
  shows "if fits r
    then \<exists>m'. dhcp_handleDataMessage hs ops r m = Inr (m', True) \<and> contents m' = dhcp_wire r
           \<and> length (contents m') = 548
    else \<exists>e. dhcp_handleDataMessage hs ops r m = Inl e"
proof -
  have start: "dhcp_handleDataMessage hs ops r m
      = bind_res (copy_chunks ops (dhcp_chunks hs r) m) (\<lambda>(m', ok). Inr (m', True))"
    using assms by (simp add: dhcp_handleDataMessage_def mb_length_contents)
  show ?thesis
  proof (cases "fits r")
    case True
    have "length (concat (wire_chunks r)) \<le> mb_space ops m"
      using dhcp_wire_length [OF assms(4) True] assms(7) by (simp add: wire_chunks_concat)
    from copy_chunks_fit [OF assms(3) this, of "[]"] show ?thesis
      using start dhcp_chunks_fit [OF assms(1,2) True] True assms(5) dhcp_wire_length [OF assms(4) True]
      by (auto simp: wire_chunks_concat)
  next
    case False
    from dhcp_chunks_unfit [OF assms(1) this] obtain e cs cs' where
      cs: "dhcp_chunks hs r = map Inr cs @ Inl e # cs'" "length (concat cs) \<le> 44 + length (chaddr r) + 192"
      by blast
    then have "length (concat cs) \<le> mb_space ops m"
      using assms(4,7) by (simp add: record_ok_def DHCP_CHADDR_SIZE_def)
    from copy_chunks_fit [OF assms(3) this, of "Inl e # cs'"] show ?thesis
      using start cs(1) False by (auto simp: copy_or_error_def)
  qed
qed

text \<open>When the block has less room than a message needs, the record is not refused: the handler passes
  on the message with only a part of the octets in it.\<close>

theorem dhcp_truncated:
  assumes "host_laws hs" "little_endian hs" "mb_laws ops contents" "record_ok r" "fits r"
    and "contents m = []" "DHCP_MESSAGE_SIZE \<le> mb_capacity ops m" "mb_space ops m < 548"
  shows "\<exists>m' k. dhcp_handleDataMessage hs ops r m = Inr (m', True)
    \<and> k < 548 \<and> contents m' = take k (dhcp_wire r)"
proof -
  have "mb_space ops m < length (concat (wire_chunks r))"
    using dhcp_wire_length [OF assms(4,5)] assms(8) by (simp add: wire_chunks_concat)
  from copy_chunks_short [OF assms(3) this] show ?thesis
    using assms dhcp_wire_length [OF assms(4,5)]
    by (auto simp: dhcp_handleDataMessage_def mb_length_contents wire_chunks_concat dhcp_chunks_fit)
qed

section \<open>Reading a message\<close>

text \<open>A reader of the wire format: fields of fixed widths, then the options up to the end tag.\<close>

fun fields :: "nat list \<Rightarrow> u8 list \<Rightarrow> u8 list list" where
  "fields [] bs = [bs]"
| "fields (n # ns) bs = take n bs # fields ns (drop n bs)"

lemma fields_concat: "map length cs = ns \<Longrightarrow> fields ns (concat cs @ bs) = cs @ [bs]"
  by (induction cs arbitrary: ns) auto

fun parse_options :: "u8 list \<Rightarrow> DHCP_Options option" where
  "parse_options [] = None"
| "parse_options (tag # bs) =
    (if tag = 255 then Some []
     else if tag = 0 then parse_options bs
     else case bs of [] \<Rightarrow> None
     | l # rest \<Rightarrow> if length rest < unat l then None
         else map_option ((#) (tag, string_of (take (unat l) rest))) (parse_options (drop (unat l) rest)))"

definition read_op :: "u8 list \<Rightarrow> DHCP_Op option" where
  "read_op bs = (if bs = [1] then Some DHCP_OP_REQUEST else if bs = [2] then Some DHCP_OP_REPLY else None)"

definition read_number :: "u8 list \<Rightarrow> 'w::len word" where
  "read_number bs = word_of_nat (octets_value bs)"

definition read_text :: "u8 list \<Rightarrow> string" where
  "read_text bs = c_string bs"

definition parse_dhcp :: "u8 list \<Rightarrow> DHCP_Record option" where
  "parse_dhcp bs = (case fields [1, 1, 1, 1, 4, 2, 2, 4, 4, 4, 4, 16, 64, 128, 4] bs of
     [op_f, ht, hl, hp, x, s, f, ci, yi, si, gi, ch, sn, fi, ck, opts] \<Rightarrow>
       Option.bind (read_op op_f) (\<lambda>operation_value.
       Option.bind (parse_options opts) (\<lambda>options_value.
       Some \<lparr>operation = operation_value, htype = read_number ht, hlen = read_number hl,
         hops = read_number hp, xid = read_number x, secs = read_number s, flags = read_number f,
         ciaddr = read_number ci, yiaddr = read_number yi, siaddr = read_number si,
         giaddr = read_number gi, chaddr = ch, sname = read_text sn, bootfile = read_text fi,
         cookie = read_number ck, options = options_value\<rparr>))
   | _ \<Rightarrow> None)"

lemma read_number_octets:
  "read_number (octets 4 (w :: u32)) = w" "read_number (octets 2 (v :: u16)) = v" "read_number [b :: u8] = b"
  using octets_inverse [of 4 w] octets_inverse [of 2 v]
  by (simp_all add: read_number_def octets_value_def)

lemma read_text_fill_up:
  assumes "CHR 0x00 \<notin> set s"
  shows "read_text (fill_up n (bytes_of s)) = s"
proof -
  have "byte_of c \<noteq> 0" if "c \<in> set s" for c
    using assms that by (auto simp: byte_of_eq_0)
  then have "takeWhile (\<lambda>b. b \<noteq> 0) (bytes_of s @ replicate k 0) = bytes_of s" for k
    by (induction s) (auto simp: bytes_of_def takeWhile_replicate)
  then show ?thesis by (simp add: read_text_def c_string_def fill_up_def)
qed

lemma parse_wire_options:
  assumes "\<forall>opt \<in> set opts. length (snd opt) \<le> 255 \<and> fst opt \<noteq> 0 \<and> fst opt \<noteq> 255"
  shows "parse_options (concat (map wire_option opts) @ 255 # bs) = Some opts"
  using assms
proof (induction opts)
  case (Cons opt opts)
  obtain tag data where opt: "opt = (tag, data)" by fastforce
  have l: "unat (word_of_nat (length data) :: u8) = length data"
    using Cons.prems opt by (intro unat_of_small) simp
  have "parse_options (concat (map wire_option (opt # opts)) @ 255 # bs)
      = parse_options (tag # word_of_nat (length data) # bytes_of data @ concat (map wire_option opts) @ 255 # bs)"
    by (simp add: opt wire_option_def)
  also have "\<dots> = Some ((tag, data) # opts)"
    using Cons opt l by (subst parse_options.simps) simp
  finally show ?case by (simp add: opt)
qed simp

lemma parse_dhcp_wire:
  assumes "record_ok r" "fits r" "operation r = DHCP_OP_REQUEST \<or> operation r = DHCP_OP_REPLY"
    and "CHR 0x00 \<notin> set (sname r)" "CHR 0x00 \<notin> set (bootfile r)"
    and "\<forall>opt \<in> set (options r). fst opt \<noteq> 0 \<and> fst opt \<noteq> 255"
  shows "parse_dhcp (dhcp_wire r) = Some (r\<lparr>cookie := DHCP_MAGIC_COOKIE\<rparr>)"
proof -
  let ?o = "concat (map wire_option (options r)) @ 255 # replicate (312 - length (wire_options (options r))) 0"
  let ?cs = "[[ucast (op_value (operation r))], [htype r], [hlen r], [hops r], octets 4 (xid r),
     octets 2 (secs r), octets 2 (flags r), octets 4 (ciaddr r), octets 4 (yiaddr r), octets 4 (siaddr r),
     octets 4 (giaddr r), chaddr r, fill_up 64 (bytes_of (sname r)), fill_up 128 (bytes_of (bootfile r)),
     octets 4 DHCP_MAGIC_COOKIE]"
  have "dhcp_wire r = concat ?cs @ ?o"
    by (simp add: dhcp_wire_def dhcp_header_def wire_options_def fill_up_def [of 312])
  moreover have "map length ?cs = [1, 1, 1, 1, 4, 2, 2, 4, 4, 4, 4, 16, 64, 128, 4]"
    using assms(1,2) by (simp add: record_ok_def fits_def fill_up_def DHCP_CHADDR_SIZE_def)
  ultimately have f: "fields [1, 1, 1, 1, 4, 2, 2, 4, 4, 4, 4, 16, 64, 128, 4] (dhcp_wire r) = ?cs @ [?o]"
    by (metis fields_concat)
  have o: "parse_options ?o = Some (options r)"
    using assms(2,6) by (intro parse_wire_options) (simp add: fits_def)
  have "read_op [ucast (op_value (operation r))] = Some (operation r)"
    using assms(3) by (auto simp: read_op_def)
  then show ?thesis
    unfolding parse_dhcp_def f using o
    by (simp add: read_number_octets read_text_fill_up assms(4,5))
qed

text \<open>Nothing of a record is lost on the wire: a request or reply whose strings hold no NUL and
  whose options are not the pad and end tags is read back from the streamed octets exactly, with the
  magic cookie in place of its own.\<close>

theorem dhcp_roundtrip:
  assumes "host_laws hs" "little_endian hs" "mb_laws ops contents" "record_ok r" "fits r"
    and "operation r = DHCP_OP_REQUEST \<or> operation r = DHCP_OP_REPLY"
    and "CHR 0x00 \<notin> set (sname r)" "CHR 0x00 \<notin> set (bootfile r)"
    and "\<forall>opt \<in> set (options r). fst opt \<noteq> 0 \<and> fst opt \<noteq> 255"
    and "contents m = []" "DHCP_MESSAGE_SIZE \<le> mb_capacity ops m" "548 \<le> mb_space ops m"
  shows "\<exists>m'. dhcp_handleDataMessage hs ops r m = Inr (m', True)
    \<and> parse_dhcp (contents m') = Some (r\<lparr>cookie := DHCP_MAGIC_COOKIE\<rparr>)"
proof -
  have "length (concat (wire_chunks r)) \<le> mb_space ops m"
    using dhcp_wire_length [OF assms(4,5)] assms(12) by (simp add: wire_chunks_concat)
  from copy_chunks_fit [OF assms(3) this, of "[]"] show ?thesis
    using assms dhcp_chunks_fit [OF assms(1,2,5)] parse_dhcp_wire [OF assms(4-9)]
    by (auto simp: dhcp_handleDataMessage_def mb_length_contents wire_chunks_concat)
qed

lemma octets_four:
  "octets 4 w = [ucast (drop_bit 24 w), ucast (drop_bit 16 w), ucast (drop_bit 8 w), ucast w]"
proof -
  have "octets (Suc (Suc (Suc (Suc 0)))) w =
      [ucast (drop_bit 24 w), ucast (drop_bit 16 w), ucast (drop_bit 8 w), ucast w]" by simp
  then show ?thesis by (simp only: numeral_nat)
qed

lemma octets_op: "octets 4 (op_value x) = [0, 0, 0, ucast (op_value x)]"
  by (cases x) (simp_all add: octets_four)

text \<open>On a big endian host the first octet of the message is zero, neither a request nor a reply,
  whatever the record says: the handler copies the first byte in memory of an enumeration of four bytes.\<close>

theorem dhcp_big_endian:
  assumes "host_laws hs" "\<not> little_endian hs" "mb_laws ops contents" "record_ok r" "contents m = []"
    and "dhcp_handleDataMessage hs ops r m = Inr (m', True)" "0 < mb_space ops m"
  shows "hd (contents m') = 0"
proof -
  have o: "take 1 (in_memory hs 4 (op_value (operation r))) = [0]"
    using assms(2) octets_op [of "operation r"] by (simp add: in_memory_def)
  have grows: "\<exists>as. contents m2 = contents m1 @ as"
    if "copy_chunks ops cs m1 = Inr (m2, b)" for cs m1 m2 b
    using that
  proof (induction cs arbitrary: m1)
    case (Cons c cs)
    then show ?case
      using mb_copy_SomeD [OF assms(3)]
      by (fastforce simp: copy_or_error_def bind_res_eq_Inr split: option.splits if_splits)
  qed simp
  from mb_copy_fits [OF assms(3), of "[0]" m] assms(5,7) obtain m1 where
    m1: "mb_copy ops [0] m = Some m1" "contents m1 = [0]" by auto
  have "dhcp_chunks hs r = Inr [0] # tl (dhcp_chunks hs r)"
    using o by (simp add: dhcp_chunks_def)
  moreover have "copy_chunks ops (Inr [0] # cs) m = copy_chunks ops cs m1" for cs
    using m1(1) by (simp add: copy_or_error_def)
  ultimately have eq: "copy_chunks ops (dhcp_chunks hs r) m = copy_chunks ops (tl (dhcp_chunks hs r)) m1"
    by metis
  obtain b where "copy_chunks ops (tl (dhcp_chunks hs r)) m1 = Inr (m', b)"
    using assms(6) unfolding dhcp_handleDataMessage_def eq by (auto simp: bind_res_eq_Inr split: if_splits)
  from grows [OF this] m1(2) show ?thesis by auto
qed

section \<open>Witnesses\<close>

text \<open>A DISCOVER message, and message blocks with the capacity the handler asserts.\<close>

definition dhcp_discover :: DHCP_Record where
  "dhcp_discover = new_DHCP_Record
     \<lparr>operation := DHCP_OP_REQUEST, htype := 1, hlen := 6, xid := 0x3903F326, flags := 0x8000,
      sname := ''boot'', options := [(53, [CHR 0x01])]\<rparr>"

definition dhcp_block :: "(nat \<times> u8 list, u8) mb_ops" where
  "dhcp_block = bounded_block\<lparr>mb_capacity := \<lambda>m. 576\<rparr>"

lemma dhcp_block_laws: "mb_laws dhcp_block snd"
  by (auto simp: mb_laws_def dhcp_block_def bounded_block_def)

lemma dhcp_block_simps [simp]: "mb_capacity dhcp_block m = 576" "mb_space dhcp_block m = fst m"
  by (simp_all add: dhcp_block_def bounded_block_def)

lemma discover_ok: "record_ok dhcp_discover" "fits dhcp_discover"
  by (simp_all add: record_ok_def fits_def dhcp_discover_def new_DHCP_Record_def wire_options_def length_wire_option)

theorem dhcp_stream_outcome_witness:
  "\<exists>m'. dhcp_handleDataMessage little_host dhcp_block dhcp_discover (576, []) = Inr (m', True)
     \<and> length (snd m') = 548"
  using dhcp_stream_outcome [OF concrete_host_laws(1) _ dhcp_block_laws discover_ok(1), of "(576, [])"] discover_ok(2)
  by (auto simp: little_host_def DHCP_MESSAGE_SIZE_def)

theorem dhcp_truncated_witness:
  "\<exists>m' k. dhcp_handleDataMessage little_host dhcp_block dhcp_discover (100, []) = Inr (m', True)
     \<and> k < 548 \<and> snd m' = take k (dhcp_wire dhcp_discover)"
  using dhcp_truncated [OF concrete_host_laws(1) _ dhcp_block_laws discover_ok, of "(100, [])"]
  by (simp add: little_host_def DHCP_MESSAGE_SIZE_def)

theorem dhcp_roundtrip_witness:
  "\<exists>m'. dhcp_handleDataMessage little_host dhcp_block dhcp_discover (576, []) = Inr (m', True)
     \<and> parse_dhcp (snd m') = Some (dhcp_discover\<lparr>cookie := DHCP_MAGIC_COOKIE\<rparr>)"
proof -
  have "\<forall>opt \<in> set (options dhcp_discover). fst opt \<noteq> 0 \<and> fst opt \<noteq> 255"
    by (simp add: dhcp_discover_def new_DHCP_Record_def)
  moreover have "CHR 0x00 \<notin> set (sname dhcp_discover)" "CHR 0x00 \<notin> set (bootfile dhcp_discover)"
    "operation dhcp_discover = DHCP_OP_REQUEST"
    by (simp_all add: dhcp_discover_def new_DHCP_Record_def)
  ultimately show ?thesis
    using dhcp_roundtrip [OF concrete_host_laws(1) _ dhcp_block_laws discover_ok, of "(576, [])"]
    by (simp add: little_host_def DHCP_MESSAGE_SIZE_def)
qed

theorem dhcp_big_endian_witness:
  "\<exists>m'. dhcp_handleDataMessage big_host dhcp_block dhcp_discover (1, []) = Inr (m', True) \<and> hd (snd m') = 0"
proof -
  have "dhcp_chunks big_host dhcp_discover = Inr [0] # Inr [1] # drop 2 (dhcp_chunks big_host dhcp_discover)"
    using octets_op [of DHCP_OP_REQUEST]
    by (simp add: dhcp_chunks_def dhcp_discover_def new_DHCP_Record_def in_memory_def big_host_def)
  then have "copy_chunks dhcp_block (dhcp_chunks big_host dhcp_discover) (1, [])
      = copy_chunks dhcp_block (Inr [0] # Inr [1] # drop 2 (dhcp_chunks big_host dhcp_discover)) (1, [])"
    by metis
  also have "\<dots> = Inr ((0, [0]), False)"
    by (simp add: copy_or_error_def dhcp_block_def bounded_block_def)
  finally have run: "dhcp_handleDataMessage big_host dhcp_block dhcp_discover (1, []) = Inr ((0, [0]), True)"
    by (simp add: dhcp_handleDataMessage_def dhcp_block_def bounded_block_def DHCP_MESSAGE_SIZE_def)
  have "hd (snd (0::nat, [0::u8])) = 0"
    using run by (intro dhcp_big_endian [OF concrete_host_laws(2) _ dhcp_block_laws discover_ok(1) _ run])
      (simp_all add: big_host_def)
  with run show ?thesis by blast
qed

end
