(* ===== verification/DHCP_Parser.thy ===== *)
theory DHCP_Parser
  imports DHCP_Streamer
begin

text \<open>
  The parser of DHCP messages: the rules of the scanner (\<^verbatim>\<open>scripts/scanner.l\<close>, generated into
  \<^verbatim>\<open>dhcp_scanner.cpp\<close>), the actions of the grammar (\<^verbatim>\<open>scripts/parser.y\<close>, generated into
  \<^verbatim>\<open>dhcp_parser.cpp\<close>), \<^verbatim>\<open>DHCP_ParserDriver::parse\<close> and
  \<^verbatim>\<open>DHCP_Module_Parser_T::handleDataMessage\<close>, all under \<^verbatim>\<open>src/src/protocol/dhcp/\<close>. The tables of
  the automata are not modelled, only which rule matches; a message is one fragment.
\<close>

section \<open>The scanner\<close>

text \<open>
  The start conditions from \<^verbatim>\<open>op\<close> to \<^verbatim>\<open>file_\<close> each match a field of fixed width and then begin the
  next one; some assert that the value is not zero. At the end of the data the scanner ends; data
  too short for the field matches the last rule of the file, which asserts false.
\<close>

definition header_fields :: "(nat \<times> bool) list" where
  "header_fields = [(1, True), (1, True), (1, True), (1, False), (4, True), (2, False), (2, False),
     (4, False), (4, False), (4, False), (4, False), (DHCP_CHADDR_SIZE, False),
     (DHCP_SNAME_SIZE, False), (DHCP_FILE_SIZE, False)]"

definition scan_field :: "nat \<times> bool \<Rightarrow> u8 list \<Rightarrow> u8 list option res" where
  "scan_field spec bs =
    (if bs = [] then Inr None
     else if length bs < fst spec then Inl Assertion
     else if snd spec \<and> list_all (\<lambda>b. b = 0) (take (fst spec) bs) then Inl Assertion
     else Inr (Some (take (fst spec) bs)))"

text \<open>The fields, and the data behind them unless it ends before.\<close>

fun scan_fields :: "(nat \<times> bool) list \<Rightarrow> u8 list \<Rightarrow> (u8 list list \<times> u8 list option) res" where
  "scan_fields [] bs = Inr ([], Some bs)"
| "scan_fields (spec # specs) bs =
    bind_res (scan_field spec bs) (\<lambda>f. case f of
      None \<Rightarrow> Inr ([], None)
    | Some c \<Rightarrow> bind_res (scan_fields specs (drop (fst spec) bs)) (\<lambda>(cs, rest). Inr (c # cs, rest)))"

section \<open>The actions of the grammar\<close>

text \<open>
  The operation code is cast to the enumeration; a value that is none of its constants has no
  counterpart here (above 7 the cast has no defined result).
\<close>

definition cast_op :: "u8 list \<Rightarrow> DHCP_Op res" where
  "cast_op bs = (case map_of [(1, DHCP_OP_REQUEST), (2, DHCP_OP_REPLY), (3, DHCP_OP_MAX), (4, DHCP_OP_INVALID)]
       (octets_value bs) of None \<Rightarrow> Inl Undefined_Behaviour | Some x \<Rightarrow> Inr x)"

text \<open>
  The action of \<^verbatim>\<open>header\<close>. Integers were read as they lie in memory. \<^verbatim>\<open>xid\<close> is assigned swapped; for
  \<^verbatim>\<open>secs\<close> and \<^verbatim>\<open>flags\<close> the swap is an expression statement whose value is dropped; the addresses
  stay in network byte order.
\<close>

definition set_header :: "host \<Rightarrow> u8 list list \<Rightarrow> DHCP_Record \<Rightarrow> DHCP_Record res" where
  "set_header hs cs r = (case cs of
     [op_c, ht, hl, hp, x, s, f, ci, yi, si, gi, ch, sn, fi] \<Rightarrow>
       bind_res (cast_op op_c) (\<lambda>operation_value.
       Inr (r\<lparr>operation := operation_value, htype := from_memory hs ht, hlen := from_memory hs hl,
         hops := from_memory hs hp, xid := swapped_long hs (from_memory hs x),
         secs := from_memory hs s, flags := from_memory hs f,
         ciaddr := from_memory hs ci, yiaddr := from_memory hs yi, siaddr := from_memory hs si,
         giaddr := from_memory hs gi, chaddr := ch, sname := c_string sn, bootfile := c_string fi\<rparr>))
   | _ \<Rightarrow> Inl Undefined_Behaviour)"

text \<open>
  The rules \<^verbatim>\<open>option_tag\<close> and \<^verbatim>\<open>option_length\<close> with the actions of \<^verbatim>\<open>option\<close>: a pad is skipped, a value
  is inserted into the map (which keeps the first one of a tag), and the end tag accepts at once. The result
  tells whether the end tag was seen. The length is not checked: the value is copied from the
  message beyond its end.
\<close>

function scan_options :: "u8 list \<Rightarrow> DHCP_Options \<Rightarrow> (DHCP_Options \<times> bool) res" where
  "scan_options [] opts = Inr (opts, False)"
| "scan_options (tag # bs) opts =
    (if tag = DHCP_OPTION_TAG_END then Inr (opts, True)
     else if tag = DHCP_OPTION_TAG_PAD then scan_options bs opts
     else case bs of [] \<Rightarrow> Inr (opts, False)
     | l # rest \<Rightarrow> if length rest < unat l then Inl Undefined_Behaviour
         else scan_options (drop (unat l) rest) (map_insert (<) tag (string_of (take (unat l) rest)) opts))"
  by pat_completeness auto
termination by (relation "measure (length \<circ> fst)") auto

text \<open>
  \<^verbatim>\<open>DHCP_ParserDriver::parse\<close>: the record and the result. The action of \<^verbatim>\<open>message\<close>, which stores and
  checks the cookie, is reached only when the data ends without an end tag.
\<close>

definition dhcp_parse :: "host \<Rightarrow> u8 list \<Rightarrow> DHCP_Record \<Rightarrow> (DHCP_Record \<times> bool) res" where
  "dhcp_parse hs bs r =
    bind_res (scan_fields header_fields bs) (\<lambda>(cs, rest). case rest of
      None \<Rightarrow> Inr (r, False)
    | Some bs' \<Rightarrow>
        bind_res (set_header hs cs r) (\<lambda>r.
        bind_res (scan_field (4, True) bs') (\<lambda>c. case c of
          None \<Rightarrow> Inr (r, False)
        | Some ck \<Rightarrow>
            bind_res (scan_options (drop 4 bs') (options r)) (\<lambda>(opts, accepted).
              let r = r\<lparr>options := opts\<rparr> in
              if accepted then Inr (r, True)
              else let r = r\<lparr>cookie := from_memory hs ck\<rparr> in
                if cookie r = DHCP_MAGIC_COOKIE then Inr (r, True) else Inl Assertion))))"

text \<open>
  The handler of the module; \<open>boundary\<close> is the number of bytes that flex needs behind the data.
  The message, with the record as its data, is passed on whether or not it was parsed.
\<close>

definition parser_handleDataMessage ::
  "host \<Rightarrow> nat \<Rightarrow> ('m, u8) mb_ops \<Rightarrow> ('m \<Rightarrow> u8 list) \<Rightarrow> 'm \<Rightarrow> DHCP_Record \<Rightarrow> (DHCP_Record \<times> bool) res" where
  "parser_handleDataMessage hs boundary ops contents m r =
    (if mb_capacity ops m < mb_length ops m + boundary then Inl Assertion
     else bind_res (dhcp_parse hs (contents m) r) (\<lambda>(r, ok). Inr (r, True)))"

section \<open>The scanner reads the fields\<close>

text \<open>What a field must satisfy: its width, and a value when it asserts one.\<close>

definition field_ok :: "nat \<times> bool \<Rightarrow> u8 list \<Rightarrow> bool" where
  "field_ok spec c \<longleftrightarrow> length c = fst spec \<and> (snd spec \<longrightarrow> \<not> list_all (\<lambda>b. b = 0) c)"

lemma scan_field_Some:
  assumes "0 < fst spec"
  shows "scan_field spec bs = Inr (Some c) \<longleftrightarrow> field_ok spec c \<and> bs = c @ drop (fst spec) bs"
proof
  assume l: "scan_field spec bs = Inr (Some c)"
  then have "c = take (fst spec) bs" "fst spec \<le> length bs" "field_ok spec c"
    by (auto simp: scan_field_def field_ok_def split: if_splits)
  then show "field_ok spec c \<and> bs = c @ drop (fst spec) bs" by simp
next
  assume r: "field_ok spec c \<and> bs = c @ drop (fst spec) bs"
  then have "c = take (fst spec) bs" "fst spec \<le> length bs"
    by (metis append_eq_conv_conj field_ok_def, metis field_ok_def le_add1 length_append)
  with r assms show "scan_field spec bs = Inr (Some c)"
    by (auto simp: scan_field_def field_ok_def)
qed

lemma scan_fields_iff:
  assumes "\<forall>spec \<in> set specs. 0 < fst spec"
  shows "scan_fields specs bs = Inr (cs, Some rest) \<longleftrightarrow> list_all2 field_ok specs cs \<and> bs = concat cs @ rest"
  using assms
proof (induction specs arbitrary: bs cs)
  case (Cons spec specs)
  then have IH: "scan_fields specs bs = Inr (cs, Some rest) \<longleftrightarrow> list_all2 field_ok specs cs \<and> bs = concat cs @ rest"
    and n: "0 < fst spec" for bs cs by auto
  have "scan_fields (spec # specs) bs = Inr (cs, Some rest) \<longleftrightarrow>
      (\<exists>c cs'. scan_field spec bs = Inr (Some c) \<and> cs = c # cs' \<and> scan_fields specs (drop (fst spec) bs) = Inr (cs', Some rest))"
    by (auto simp: bind_res_eq_Inr split: option.splits)
  also have "\<dots> \<longleftrightarrow> (\<exists>c cs'. field_ok spec c \<and> bs = c @ drop (fst spec) bs \<and> cs = c # cs'
      \<and> list_all2 field_ok specs cs' \<and> drop (fst spec) bs = concat cs' @ rest)"
    unfolding scan_field_Some [OF n] IH by blast
  also have "\<dots> \<longleftrightarrow> list_all2 field_ok (spec # specs) cs \<and> bs = concat cs @ rest"
    by (auto simp: list_all2_Cons1 field_ok_def)
  finally show ?case .
qed auto

lemma scan_header:
  "scan_fields header_fields bs = Inr (cs, Some rest) \<longleftrightarrow> list_all2 field_ok header_fields cs \<and> bs = concat cs @ rest"
  by (rule scan_fields_iff) (simp add: header_fields_def DHCP_CHADDR_SIZE_def DHCP_SNAME_SIZE_def DHCP_FILE_SIZE_def)

text \<open>The options: those the reference reader finds, inserted one by one.\<close>

definition insert_options :: "DHCP_Options \<Rightarrow> DHCP_Options \<Rightarrow> DHCP_Options" where
  "insert_options = foldl (\<lambda>opts (tag, data). map_insert (<) tag data opts)"

lemma insert_options_Cons [simp]:
  "insert_options opts [] = opts"
  "insert_options opts ((tag, data) # os) = insert_options (map_insert (<) tag data opts) os"
  by (simp_all add: insert_options_def)

lemma scan_options_iff:
  "scan_options bs opts = Inr (opts', True) \<longleftrightarrow>
   (\<exists>os. parse_options bs = Some os \<and> opts' = insert_options opts os)"
proof (induction bs opts rule: scan_options.induct)
  case (2 tag bs opts)
  consider "tag = 255" | "tag = 0" | "tag \<noteq> 255" "tag \<noteq> 0" "bs = []"
    | l rest where "tag \<noteq> 255" "tag \<noteq> 0" "bs = l # rest" by (cases bs) auto
  then show ?case
  proof cases
    case 2
    with "2.IH"(1) show ?thesis
      by (simp add: DHCP_OPTION_TAG_END_def DHCP_OPTION_TAG_PAD_def)
  next
    case 4
    show ?thesis
    proof (cases "length rest < unat l")
      case False
      have tags: "tag \<noteq> DHCP_OPTION_TAG_END" "tag \<noteq> DHCP_OPTION_TAG_PAD"
        using 4 by (simp_all add: DHCP_OPTION_TAG_END_def DHCP_OPTION_TAG_PAD_def)
      have "scan_options (tag # bs) opts =
          scan_options (drop (unat l) rest) (map_insert (<) tag (string_of (take (unat l) rest)) opts)"
        using tags False 4 by simp
      moreover have "parse_options (tag # bs) =
          map_option ((#) (tag, string_of (take (unat l) rest))) (parse_options (drop (unat l) rest))"
        using False 4 by simp
      ultimately show ?thesis
        using "2.IH"(2) [OF tags 4(3) False]
        by (cases "parse_options (drop (unat l) rest)") (simp_all del: scan_options.simps parse_options.simps)
    qed (use 4 in \<open>simp add: DHCP_OPTION_TAG_END_def DHCP_OPTION_TAG_PAD_def\<close>)
  qed (auto simp: DHCP_OPTION_TAG_END_def DHCP_OPTION_TAG_PAD_def)
qed simp

lemma map_insert_last:
  "\<forall>x \<in> set xs. fst x < (k :: 'k::linorder) \<Longrightarrow> map_insert (<) k v xs = xs @ [(k, v)]"
  by (induction xs) auto

lemma insert_options_ordered:
  "ordered (<) (opts @ os) \<Longrightarrow> insert_options opts os = opts @ os"
proof (induction os arbitrary: opts)
  case (Cons x os)
  obtain k v where x: "x = (k, v)" by fastforce
  have "\<forall>y \<in> set opts. fst y < k"
    using Cons.prems x by (induction opts) auto
  then have "insert_options opts (x # os) = insert_options (opts @ [x]) os"
    by (simp add: x map_insert_last)
  with Cons show ?case by simp
qed simp

section \<open>Values\<close>

lemma octets_value_0: "octets_value bs = 0 \<longleftrightarrow> list_all (\<lambda>b. b = 0) bs"
  by (induction bs rule: rev_induct) (auto simp: unat_eq_0)

lemma read_number_0:
  "8 * length bs \<le> LENGTH('w) \<Longrightarrow> (read_number bs :: 'w::len word) = 0 \<longleftrightarrow> list_all (\<lambda>b. b = 0) bs"
proof -
  assume len: "8 * length bs \<le> LENGTH('w)"
  have "octets_value bs < 2 ^ (8 * length bs)"
    using octets_value_bound [of bs] by (simp add: power_mult)
  also have "\<dots> \<le> 2 ^ LENGTH('w)" using len by (intro power_increasing) simp_all
  finally have "unat (read_number bs :: 'w word) = octets_value bs"
    unfolding read_number_def by (rule unat_of_small)
  then show ?thesis using octets_value_0 [of bs] by (metis unat_eq_0)
qed

lemma from_in_memory: "LENGTH('w) \<le> 8 * n \<Longrightarrow> from_memory hs (in_memory hs n w) = (w :: 'w::len word)"
  by (simp add: from_memory_def in_memory_def octets_inverse)

lemma in_from_memory:
  "length bs = 4 \<Longrightarrow> in_memory hs 4 (from_memory hs bs :: u32) = bs"
  "length cs = 2 \<Longrightarrow> in_memory hs 2 (from_memory hs cs :: u16) = cs"
  using octets_of_value [of bs, where 'w = 32] octets_of_value [of "rev bs", where 'w = 32]
    octets_of_value [of cs, where 'w = 16] octets_of_value [of "rev cs", where 'w = 16]
  by (simp_all add: in_memory_def from_memory_def)

lemma from_memory_swapped:
  assumes "host_laws hs"
  shows "length bs = 4 \<Longrightarrow> from_memory hs bs = swapped_long hs (read_number bs)"
    and "length bs = 2 \<Longrightarrow> from_memory hs bs = swapped_word hs (read_number bs)"
proof -
  assume "length bs = 4"
  then have "octets 4 (read_number bs :: u32) = bs"
    using octets_of_value [of bs, where 'w = 32] by (simp add: read_number_def)
  then show "from_memory hs bs = swapped_long hs (read_number bs)"
    using from_in_memory [of 4 hs "swapped_long hs (read_number bs)"] swapped_in_memory(1) [OF assms, of "read_number bs"]
    by simp
next
  assume "length bs = 2"
  then have "octets 2 (read_number bs :: u16) = bs"
    using octets_of_value [of bs, where 'w = 16] by (simp add: read_number_def)
  then show "from_memory hs bs = swapped_word hs (read_number bs)"
    using from_in_memory [of 2 hs "swapped_word hs (read_number bs)"] swapped_in_memory(2) [OF assms, of "read_number bs"]
    by simp
qed

lemma from_memory_byte: "from_memory hs [b] = b" "read_number [b] = b"
  by (simp_all add: from_memory_def read_number_def octets_value_def)

lemma swapped_swapped:
  assumes "host_laws hs"
  shows "swapped_long hs (swapped_long hs w) = w" "swapped_word hs (swapped_word hs v) = v"
proof -
  let ?w = "SWAP_LONG hs (SWAP_LONG hs w)" and ?v = "SWAP_WORD hs (SWAP_WORD hs v)"
  have "octets 4 ?w = octets 4 w" "octets 2 ?v = octets 2 v"
    using assms by (simp_all add: host_laws_def)
  then have "?w = w" "?v = v"
    using octets_inverse [of 4 ?w] octets_inverse [of 4 w] octets_inverse [of 2 ?v] octets_inverse [of 2 v] by simp_all
  then show "swapped_long hs (swapped_long hs w) = w" "swapped_word hs (swapped_word hs v) = v"
    by (simp_all add: swapped_long_def swapped_word_def)
qed

section \<open>The parser against the reference reader\<close>

text \<open>
  What the parser makes of the record a message carries: all integers of two and four octets but the
  transaction id in network byte order, and no cookie.
\<close>

definition as_received :: "host \<Rightarrow> DHCP_Record \<Rightarrow> DHCP_Record" where
  "as_received hs r = r\<lparr>secs := swapped_word hs (secs r), flags := swapped_word hs (flags r),
     ciaddr := swapped_long hs (ciaddr r), yiaddr := swapped_long hs (yiaddr r),
     siaddr := swapped_long hs (siaddr r), giaddr := swapped_long hs (giaddr r),
     cookie := 0, options := insert_options [] (options r)\<rparr>"

text \<open>The values that are asserted not to be zero.\<close>

definition asserted_values :: "DHCP_Record \<Rightarrow> bool" where
  "asserted_values r \<longleftrightarrow> htype r \<noteq> 0 \<and> hlen r \<noteq> 0 \<and> xid r \<noteq> 0 \<and> cookie r \<noteq> 0"

lemma cast_op_iff:
  "length bs = 1 \<Longrightarrow> x = DHCP_OP_REQUEST \<or> x = DHCP_OP_REPLY \<Longrightarrow> cast_op bs = Inr x \<longleftrightarrow> read_op bs = Some x"
proof -
  assume "length bs = 1" and x: "x = DHCP_OP_REQUEST \<or> x = DHCP_OP_REPLY"
  then obtain b where b: "bs = [b]" by (auto simp: length_Suc_conv)
  have "octets_value [b] = n \<longleftrightarrow> b = word_of_nat n" if "n < 256" for n
    using that unat_of_small [of n, where 'w = 8] by (auto simp: octets_value_def)
  from this [of 1] this [of 2] show ?thesis
    using x by (auto simp: b cast_op_def read_op_def)
qed

lemma fields_cut:
  assumes "fields ns bs = cs @ [rest]" "length cs = length ns" "sum_list ns \<le> length bs"
  shows "bs = concat cs @ rest \<and> map length cs = ns"
  using assms
proof (induction ns arbitrary: bs cs)
  case (Cons n ns)
  then obtain c cs' where cs: "cs = c # cs'" by (cases cs) auto
  with Cons.prems have "c = take n bs" "fields ns (drop n bs) = cs' @ [rest]" "length cs' = length ns"
    "sum_list ns \<le> length (drop n bs)" by auto
  with Cons.IH Cons.prems(3) cs show ?case by (auto simp: min_def)
qed auto

text \<open>The fields as the reference reader reads them, and as the grammar does.\<close>

definition read_fields :: "u8 list list \<Rightarrow> DHCP_Options \<Rightarrow> DHCP_Record option" where
  "read_fields cs os = (case cs of
     [op_f, ht, hl, hp, x, s, f, ci, yi, si, gi, ch, sn, fi, ck] \<Rightarrow>
       map_option (\<lambda>operation_value.
         \<lparr>operation = operation_value, htype = read_number ht, hlen = read_number hl,
         hops = read_number hp, xid = read_number x, secs = read_number s, flags = read_number f,
         ciaddr = read_number ci, yiaddr = read_number yi, siaddr = read_number si,
         giaddr = read_number gi, chaddr = ch, sname = read_text sn, bootfile = read_text fi,
         cookie = read_number ck, options = os\<rparr>) (read_op op_f)
   | _ \<Rightarrow> None)"

lemma read_fields_header:
  assumes "host_laws hs" "list_all2 field_ok header_fields cs" "length ck = 4"
  shows "(\<exists>r1. set_header hs cs new_DHCP_Record = Inr r1 \<and> r' = r1\<lparr>options := insert_options [] os\<rparr>
      \<and> (operation r' = DHCP_OP_REQUEST \<or> operation r' = DHCP_OP_REPLY))
    \<longleftrightarrow> (\<exists>r. read_fields (cs @ [ck]) os = Some r \<and> r' = as_received hs r)"
proof -
  from assms(2) obtain op_f ht hl hp x s f ci yi si gi ch sn fi where
    cs: "cs = [op_f, [ht], [hl], [hp], x, s, f, ci, yi, si, gi, ch, sn, fi]"
    and l: "length op_f = 1" "length x = 4" "length s = 2" "length f = 2" "length ci = 4" "length yi = 4"
      "length si = 4" "length gi = 4"
    by (fastforce simp: header_fields_def list_all2_Cons1 field_ok_def length_Suc_conv)
  have "(cast_op op_f = Inr v \<and> (v = DHCP_OP_REQUEST \<or> v = DHCP_OP_REPLY)) \<longleftrightarrow> read_op op_f = Some v" for v
    using cast_op_iff [OF l(1), of v] by (auto simp: read_op_def split: if_splits)
  note op = this
  let ?r = "\<lambda>v. as_received hs \<lparr>operation = v, htype = ht, hlen = hl,
         hops = hp, xid = read_number x, secs = read_number s, flags = read_number f,
         ciaddr = read_number ci, yiaddr = read_number yi, siaddr = read_number si,
         giaddr = read_number gi, chaddr = ch, sname = read_text sn, bootfile = read_text fi,
         cookie = read_number ck, options = os\<rparr>"
  have h: "(\<exists>r1. set_header hs cs new_DHCP_Record = Inr r1 \<and> r' = r1\<lparr>options := insert_options [] os\<rparr>)
      \<longleftrightarrow> (\<exists>v. cast_op op_f = Inr v \<and> r' = ?r v)"
    using l by (auto simp: cs set_header_def bind_res_eq_Inr as_received_def new_DHCP_Record_def from_memory_byte
        from_memory_swapped [OF assms(1)] swapped_swapped [OF assms(1)] read_text_def)
  have o: "operation (?r v) = v" for v by (simp add: as_received_def)
  have "(\<exists>r. read_fields (cs @ [ck]) os = Some r \<and> r' = as_received hs r) \<longleftrightarrow> (\<exists>v. read_op op_f = Some v \<and> r' = ?r v)"
    by (auto simp: cs read_fields_def from_memory_byte)
  also have "\<dots> \<longleftrightarrow> (\<exists>v. cast_op op_f = Inr v \<and> r' = ?r v \<and> (operation r' = DHCP_OP_REQUEST \<or> operation r' = DHCP_OP_REPLY))"
    unfolding op [symmetric] using o by metis
  finally show ?thesis using h by blast
qed

definition wire_widths :: "nat list" where
  "wire_widths = [1, 1, 1, 1, 4, 2, 2, 4, 4, 4, 4, 16, 64, 128, 4]"

lemma fields_shape:
  "length (fields ns bs) = Suc (length ns)" "last (fields ns bs) = drop (sum_list ns) bs"
proof (induction ns arbitrary: bs)
  case (Cons n ns)
  {
    case 2
    have "fields ns (drop n bs) \<noteq> []" using Cons(1) [of "drop n bs"] by auto
    then show ?case using Cons(2) [of "drop n bs"] by (simp add: add.commute)
  }
qed auto

lemma parse_dhcp_cut:
  "parse_dhcp bs = Some r \<longleftrightarrow> (\<exists>cs rest os. bs = concat cs @ rest \<and> map length cs = wire_widths
     \<and> parse_options rest = Some os \<and> read_fields cs os = Some r)"
proof -
  have parse: "parse_dhcp bs = Option.bind (parse_options rest) (\<lambda>os. read_fields cs os)"
    if "fields wire_widths bs = cs @ [rest]" for cs rest
  proof -
    have "length (cs @ [rest]) = Suc (length wire_widths)" by (metis that fields_shape(1))
    then have "length cs = 15" by (simp add: wire_widths_def)
    then obtain a b c d e f g h i j k l m n p where "cs = [a, b, c, d, e, f, g, h, i, j, k, l, m, n, p]"
      by (auto simp: eval_nat_numeral length_Suc_conv)
    then show ?thesis
      using that unfolding parse_dhcp_def wire_widths_def
      by (cases "read_op a"; cases "parse_options rest") (simp_all add: read_fields_def)
  qed
  show ?thesis
  proof
    assume p: "parse_dhcp bs = Some r"
    let ?cs = "butlast (fields wire_widths bs)" and ?rest = "drop (sum_list wire_widths) bs"
    have f: "fields wire_widths bs = ?cs @ [?rest]"
      using fields_shape [of wire_widths bs] by (metis append_butlast_last_id length_0_conv nat.distinct(1))
    obtain os where os: "parse_options ?rest = Some os" "read_fields ?cs os = Some r"
      using p unfolding parse [OF f] by (auto simp: bind_eq_Some_conv)
    then have "?rest \<noteq> []" by auto
    then have "sum_list wire_widths \<le> length bs" by (metis drop_all nle_le)
    with fields_cut [OF f] fields_shape(1) [of wire_widths bs] os
    show "\<exists>cs rest os. bs = concat cs @ rest \<and> map length cs = wire_widths
       \<and> parse_options rest = Some os \<and> read_fields cs os = Some r" by auto
  next
    assume "\<exists>cs rest os. bs = concat cs @ rest \<and> map length cs = wire_widths
       \<and> parse_options rest = Some os \<and> read_fields cs os = Some r"
    then show "parse_dhcp bs = Some r"
      using parse fields_concat by (metis bind.simps(2))
  qed
qed

text \<open>What is known of accepted data.\<close>

lemma dhcp_parse_accepted:
  assumes p: "dhcp_parse hs bs r = Inr (r', True)"
  obtains cs ck rest r1 opts accepted where
    "bs = concat cs @ ck @ rest" "list_all2 field_ok header_fields cs" "field_ok (4, True) ck"
    "set_header hs cs r = Inr r1" "scan_options rest (options r1) = Inr (opts, accepted)"
    "r' = (if accepted then r1\<lparr>options := opts\<rparr> else r1\<lparr>options := opts, cookie := from_memory hs ck\<rparr>)"
    "accepted \<or> cookie r' = DHCP_MAGIC_COOKIE"
proof -
  obtain cs bs' where s1: "scan_fields header_fields bs = Inr (cs, Some bs')"
    using p unfolding dhcp_parse_def by (auto simp: bind_res_eq_Inr split: option.splits)
  note p = p [unfolded dhcp_parse_def s1 bind_res_simps prod.case option.case]
  obtain r1 where s2: "set_header hs cs r = Inr r1"
    using p unfolding bind_res_eq_Inr by (elim exE conjE) (rule that)
  note p = p [unfolded s2 bind_res_simps]
  obtain ck where s3: "scan_field (4, True) bs' = Inr (Some ck)"
    using p by (auto simp: bind_res_eq_Inr split: option.splits)
  note p = p [unfolded s3 bind_res_simps option.case]
  obtain opts accepted where s4: "scan_options (drop 4 bs') (options r1) = Inr (opts, accepted)"
    using p by (auto simp: bind_res_eq_Inr)
  note p = p [unfolded s4 bind_res_simps prod.case Let_def]
  have r': "r' = (if accepted then r1\<lparr>options := opts\<rparr> else r1\<lparr>options := opts, cookie := from_memory hs ck\<rparr>)"
      "accepted \<or> cookie r' = DHCP_MAGIC_COOKIE"
    using p by (auto split: if_splits)
  have ok: "list_all2 field_ok header_fields cs" "bs = concat cs @ bs'" "field_ok (4, True) ck" "bs' = ck @ drop 4 bs'"
    using s1 s3 scan_field_Some [of "(4, True)" bs' ck] by (simp_all add: scan_header)
  then have "bs = concat cs @ ck @ drop 4 bs'" by metis
  from that [OF this ok(1,3) s2 s4 r'] show thesis .
qed

lemma set_header_keeps: "set_header hs cs r = Inr r1 \<Longrightarrow> cookie r1 = cookie r \<and> options r1 = options r"
  by (auto simp: set_header_def bind_res_eq_Inr split: list.splits)

lemma dhcp_parse_cut:
  "dhcp_parse hs bs r = Inr (r', True) \<and> cookie r' = 0 \<and> cookie r = 0 \<longleftrightarrow>
   (\<exists>cs ck rest os r1. bs = concat cs @ ck @ rest \<and> list_all2 field_ok header_fields cs \<and> field_ok (4, True) ck
     \<and> parse_options rest = Some os \<and> set_header hs cs r = Inr r1 \<and> cookie r = 0
     \<and> r' = r1\<lparr>options := insert_options (options r1) os\<rparr>)" (is "?l \<longleftrightarrow> ?r")
proof
  assume l: ?l
  then have "dhcp_parse hs bs r = Inr (r', True)" by (elim conjE)
  then obtain cs ck rest r1 opts accepted where
    a: "bs = concat cs @ ck @ rest" "list_all2 field_ok header_fields cs" "field_ok (4, True) ck"
      "set_header hs cs r = Inr r1"
    and o: "scan_options rest (options r1) = Inr (opts, accepted)"
      "r' = (if accepted then r1\<lparr>options := opts\<rparr> else r1\<lparr>options := opts, cookie := from_memory hs ck\<rparr>)"
      "accepted \<or> cookie r' = DHCP_MAGIC_COOKIE" by (rule dhcp_parse_accepted)
  have acc: accepted using l o(3) by (auto simp: DHCP_MAGIC_COOKIE_def)
  obtain os where "parse_options rest = Some os" "opts = insert_options (options r1) os"
    using o(1) acc scan_options_iff [of rest "options r1" opts] by auto
  moreover have "cookie r = 0" using l by (elim conjE)
  ultimately show ?r using a o(2) acc
    by (intro exI [of _ cs] exI [of _ ck] exI [of _ rest] exI [of _ os] exI [of _ r1] conjI) simp_all
next
  note scan = scan_header scan_field_Some [of "(4, True)", simplified]
  assume ?r
  then obtain cs ck rest os r1 where
    bs: "bs = concat cs @ ck @ rest" "list_all2 field_ok header_fields cs" "field_ok (4, True) ck"
    and r: "parse_options rest = Some os" "set_header hs cs r = Inr r1" "cookie r = 0"
      "r' = r1\<lparr>options := insert_options (options r1) os\<rparr>" by blast
  have "scan_fields header_fields bs = Inr (cs, Some (ck @ rest))"
    using bs scan(1) by simp
  moreover have "length ck = 4" using bs(3) by (simp add: field_ok_def)
  then have "scan_field (4, True) (ck @ rest) = Inr (Some ck)" "drop 4 (ck @ rest) = rest"
    using bs(3) scan(2) [of "ck @ rest" ck] by simp_all
  moreover have "scan_options rest (options r1) = Inr (insert_options (options r1) os, True)"
    using r(1) by (simp add: scan_options_iff)
  ultimately show ?l using r set_header_keeps [OF r(2)] by (simp add: dhcp_parse_def)
qed

lemma read_fields_asserted:
  assumes "read_fields (cs @ [ck]) os = Some r" "length cs = 14"
  shows "list_all2 field_ok header_fields cs \<and> field_ok (4, True) ck
    \<longleftrightarrow> map length (cs @ [ck]) = wire_widths \<and> asserted_values r"
proof -
  from assms(2) obtain op_f ht hl hp x s f ci yi si gi ch sn fi where
    cs: "cs = [op_f, ht, hl, hp, x, s, f, ci, yi, si, gi, ch, sn, fi]"
    by (auto simp: eval_nat_numeral length_Suc_conv)
  have r: "read_op op_f \<noteq> None" "htype r = read_number ht" "hlen r = read_number hl" "xid r = read_number x"
    "cookie r = read_number ck"
    using assms(1) by (auto simp: cs read_fields_def)
  then have op: "\<not> list_all (\<lambda>b. b = 0) op_f" by (auto simp: read_op_def split: if_splits)
  have zero: "length b = 1 \<Longrightarrow> (read_number b :: u8) = 0 \<longleftrightarrow> list_all (\<lambda>b. b = 0) b"
    "length w = 4 \<Longrightarrow> (read_number w :: u32) = 0 \<longleftrightarrow> list_all (\<lambda>b. b = 0) w" for b w
    using read_number_0 [of b, where 'w = 8] read_number_0 [of w, where 'w = 32] by simp_all
  show ?thesis
    using op zero(1) [of ht] zero(1) [of hl] zero(2) [of x] zero(2) [of ck]
    by (auto simp: cs header_fields_def field_ok_def wire_widths_def asserted_values_def r(2-5)
        DHCP_CHADDR_SIZE_def DHCP_SNAME_SIZE_def DHCP_FILE_SIZE_def)
qed

lemma dhcp_parse_reads:
  assumes "host_laws hs"
  shows "dhcp_parse hs bs new_DHCP_Record = Inr (r', True) \<and> cookie r' = 0
      \<and> (operation r' = DHCP_OP_REQUEST \<or> operation r' = DHCP_OP_REPLY)
    \<longleftrightarrow> (\<exists>r. parse_dhcp bs = Some r \<and> asserted_values r \<and> r' = as_received hs r)" (is "?l \<longleftrightarrow> ?r")
proof
  assume ?l
  then have "dhcp_parse hs bs new_DHCP_Record = Inr (r', True) \<and> cookie r' = 0 \<and> cookie new_DHCP_Record = 0"
    and op: "operation r' = DHCP_OP_REQUEST \<or> operation r' = DHCP_OP_REPLY"
    by (simp_all add: new_DHCP_Record_def)
  then obtain cs ck rest os r1 where
    c: "bs = concat cs @ ck @ rest" "list_all2 field_ok header_fields cs" "field_ok (4, True) ck"
      "parse_options rest = Some os" "set_header hs cs new_DHCP_Record = Inr r1"
      "r' = r1\<lparr>options := insert_options (options r1) os\<rparr>"
    unfolding dhcp_parse_cut by (elim exE conjE) (rule that)
  have "options r1 = []"
    using c(5) by (auto simp: set_header_def new_DHCP_Record_def bind_res_eq_Inr split: list.splits)
  moreover have "length ck = 4" using c(3) by (simp add: field_ok_def)
  ultimately obtain r where r: "read_fields (cs @ [ck]) os = Some r" "r' = as_received hs r"
    using read_fields_header [OF assms c(2), of ck r' os] c(5,6) op by auto
  have "length cs = 14" using c(2) by (auto dest: list_all2_lengthD simp: header_fields_def)
  from read_fields_asserted [OF r(1) this] c(2,3)
  have "map length (cs @ [ck]) = wire_widths" "asserted_values r" by simp_all
  moreover have "bs = concat (cs @ [ck]) @ rest" using c(1) by simp
  ultimately have "parse_dhcp bs = Some r"
    unfolding parse_dhcp_cut using c(4) r(1) by (intro exI conjI)
  with \<open>asserted_values r\<close> r(2) show ?r by blast
next
  assume ?r
  then obtain r where r: "parse_dhcp bs = Some r" "asserted_values r" "r' = as_received hs r" by blast
  then obtain cs rest os where c: "bs = concat cs @ rest" "map length cs = wire_widths"
    "parse_options rest = Some os" "read_fields cs os = Some r"
    unfolding parse_dhcp_cut by blast
  have "length cs = 15" using c(2) by (simp add: wire_widths_def flip: length_map [of length])
  then obtain cs' ck where cs: "cs = cs' @ [ck]" "length cs' = 14"
    by (cases cs rule: rev_cases) auto
  have ok: "list_all2 field_ok header_fields cs'" "field_ok (4, True) ck"
    using read_fields_asserted [OF c(4) [unfolded cs(1)] cs(2)] c(2) r(2) cs(1) by simp_all
  then have "length ck = 4" by (simp add: field_ok_def)
  from read_fields_header [OF assms ok(1) this, of r' os] c(4) r(3) cs(1)
  obtain r1 where r1: "set_header hs cs' new_DHCP_Record = Inr r1" "r' = r1\<lparr>options := insert_options [] os\<rparr>"
    and op: "operation r' = DHCP_OP_REQUEST \<or> operation r' = DHCP_OP_REPLY" by blast
  have "options r1 = []"
    using r1(1) by (auto simp: set_header_def new_DHCP_Record_def bind_res_eq_Inr split: list.splits)
  then have "r' = r1\<lparr>options := insert_options (options r1) os\<rparr>" using r1(2) by simp
  moreover have "bs = concat cs' @ ck @ rest" using c(1) cs(1) by simp
  ultimately have "\<exists>cs ck rest os r1. bs = concat cs @ ck @ rest \<and> list_all2 field_ok header_fields cs
     \<and> field_ok (4, True) ck \<and> parse_options rest = Some os \<and> set_header hs cs new_DHCP_Record = Inr r1
     \<and> cookie new_DHCP_Record = 0 \<and> r' = r1\<lparr>options := insert_options (options r1) os\<rparr>"
    using ok c(3) r1(1)
    by (intro exI [of _ cs'] exI [of _ ck] exI [of _ rest] exI [of _ os] exI [of _ r1] conjI)
      (simp_all add: new_DHCP_Record_def)
  with op show ?l unfolding dhcp_parse_cut [symmetric] by blast
qed

text \<open>Whatever else is accepted has another operation code, or the cookie as it lies in memory and no end tag.\<close>

lemma dhcp_parse_rest:
  assumes "dhcp_parse hs bs new_DHCP_Record = Inr (r', True)"
    and "\<not> (cookie r' = 0 \<and> (operation r' = DHCP_OP_REQUEST \<or> operation r' = DHCP_OP_REPLY))"
  shows "hd bs \<in> {3, 4} \<or> take 4 (drop 236 bs) = in_memory hs 4 DHCP_MAGIC_COOKIE
    \<and> (\<exists>opts. scan_options (drop 240 bs) [] = Inr (opts, False)) \<and> cookie r' = DHCP_MAGIC_COOKIE"
proof -
  from assms(1) obtain cs ck rest r1 opts accepted where
    a: "bs = concat cs @ ck @ rest" "list_all2 field_ok header_fields cs" "field_ok (4, True) ck"
      "set_header hs cs new_DHCP_Record = Inr r1"
    and o: "scan_options rest (options r1) = Inr (opts, accepted)"
      "r' = (if accepted then r1\<lparr>options := opts\<rparr> else r1\<lparr>options := opts, cookie := from_memory hs ck\<rparr>)"
      "accepted \<or> cookie r' = DHCP_MAGIC_COOKIE" by (rule dhcp_parse_accepted)
  have ck: "length ck = 4" using a(3) by (simp add: field_ok_def)
  have "length (concat cs) = 236"
    using a(2) by (auto simp: header_fields_def list_all2_Cons1 field_ok_def DHCP_CHADDR_SIZE_def DHCP_SNAME_SIZE_def
        DHCP_FILE_SIZE_def)
  then have cut: "take 4 (drop 236 bs) = ck" "drop 240 bs = rest" using a(1) ck by simp_all
  have r1: "cookie r1 = 0" "options r1 = []"
    using set_header_keeps [OF a(4)] by (simp_all add: new_DHCP_Record_def)
  obtain b cs' where cs: "cs = [b] # cs'" "cast_op [b] = Inr (operation r1)"
    using a(2,4) by (auto simp: set_header_def header_fields_def list_all2_Cons1 field_ok_def length_Suc_conv
        bind_res_eq_Inr)
  show ?thesis
  proof (cases accepted)
    case True
    then have "operation r1 \<noteq> DHCP_OP_REQUEST \<and> operation r1 \<noteq> DHCP_OP_REPLY"
      using assms(2) o(2) r1(1) by simp
    then have "unat b = 3 \<or> unat b = 4"
      using cs(2) by (auto simp: cast_op_def octets_value_def split: if_splits)
    then have "b \<in> {3, 4}" by (auto simp: word_unat_eq_iff)
    then show ?thesis using a(1) cs(1) by simp
  next
    case False
    with o(2,3) have "from_memory hs ck = DHCP_MAGIC_COOKIE" "cookie r' = DHCP_MAGIC_COOKIE" by simp_all
    then show ?thesis
      using False o(1) r1(2) cut in_from_memory(1) [OF ck, of hs] by auto
  qed
qed


section \<open>Relaying a message\<close>

text \<open>What a record must satisfy to be streamed and read back.\<close>

definition streamable :: "DHCP_Record \<Rightarrow> bool" where
  "streamable r \<longleftrightarrow> record_ok r \<and> fits r \<and> (operation r = DHCP_OP_REQUEST \<or> operation r = DHCP_OP_REPLY)
     \<and> CHR 0x00 \<notin> set (sname r) \<and> CHR 0x00 \<notin> set (bootfile r)
     \<and> (\<forall>opt \<in> set (options r). fst opt \<noteq> 0 \<and> fst opt \<noteq> 255)"

text \<open>The record with its integers other than the transaction id reversed.\<close>

definition reversed :: "host \<Rightarrow> DHCP_Record \<Rightarrow> DHCP_Record" where
  "reversed hs r = r\<lparr>secs := swapped_word hs (secs r), flags := swapped_word hs (flags r),
     ciaddr := swapped_long hs (ciaddr r), yiaddr := swapped_long hs (yiaddr r),
     siaddr := swapped_long hs (siaddr r), giaddr := swapped_long hs (giaddr r)\<rparr>"

lemma as_received_reversed:
  "streamable r \<Longrightarrow> as_received hs r = (reversed hs r)\<lparr>cookie := 0\<rparr>"
  using insert_options_ordered [of "[]" "options r"]
  by (simp add: as_received_def reversed_def streamable_def record_ok_def)

lemma streamable_reversed: "streamable r \<Longrightarrow> streamable ((reversed hs r)\<lparr>cookie := c\<rparr>)"
  by (simp add: streamable_def reversed_def record_ok_def fits_def)

lemma stream_streamable:
  assumes "host_laws hs" "little_endian hs" "mb_laws ops contents" "streamable r"
    and "contents m = []" "DHCP_MESSAGE_SIZE \<le> mb_capacity ops m" "548 \<le> mb_space ops m"
  shows "\<exists>m'. dhcp_handleDataMessage hs ops r m = Inr (m', True) \<and> contents m' = dhcp_wire r"
proof -
  have r: "record_ok r" "fits r" using assms(4) by (simp_all add: streamable_def)
  have "length (concat (wire_chunks r)) \<le> mb_space ops m"
    using dhcp_wire_length [OF r] assms(7) by (simp add: wire_chunks_concat)
  from copy_chunks_fit [OF assms(3) this, of "[]"] show ?thesis
    using assms dhcp_chunks_fit [OF assms(1,2) r(2)]
    by (auto simp: dhcp_handleDataMessage_def mb_length_contents wire_chunks_concat)
qed

lemma parse_streamable: "streamable r \<Longrightarrow> parse_dhcp (dhcp_wire r) = Some (r\<lparr>cookie := DHCP_MAGIC_COOKIE\<rparr>)"
  unfolding streamable_def by (elim conjE) (rule parse_dhcp_wire)

lemma received_streamable:
  assumes "host_laws hs" "streamable r" "htype r \<noteq> 0" "hlen r \<noteq> 0" "xid r \<noteq> 0"
  shows "dhcp_parse hs (dhcp_wire r) new_DHCP_Record = Inr ((reversed hs r)\<lparr>cookie := 0\<rparr>, True)"
proof -
  let ?r = "r\<lparr>cookie := DHCP_MAGIC_COOKIE\<rparr>"
  have "streamable ?r" using assms(2) by (simp add: streamable_def record_ok_def fits_def)
  then have "as_received hs ?r = (reversed hs r)\<lparr>cookie := 0\<rparr>"
    by (simp add: as_received_reversed reversed_def)
  moreover have "asserted_values ?r" using assms by (simp add: asserted_values_def DHCP_MAGIC_COOKIE_def)
  ultimately show ?thesis
    using dhcp_parse_reads [OF assms(1), of "dhcp_wire r"] parse_streamable [OF assms(2)] by metis
qed

text \<open>A field that is asserted not to be zero, and is.\<close>

lemma scan_fields_fail:
  assumes "map length cs = map fst specs" "\<not> list_all2 field_ok specs cs" "\<forall>spec \<in> set specs. 0 < fst spec"
  shows "scan_fields specs (concat cs @ rest) = Inl Assertion"
  using assms
proof (induction specs arbitrary: cs)
  case (Cons spec specs)
  then obtain c cs' where cs: "cs = c # cs'" "length c = fst spec" by (cases cs) auto
  then have "c \<noteq> []" using Cons.prems(3) by auto
  then show ?case
  proof (cases "field_ok spec c")
    case True
    then have "scan_field spec (concat cs @ rest) = Inr (Some c)"
      using cs Cons.prems(3) scan_field_Some [of spec "concat cs @ rest" c] by simp
    with Cons True cs show ?thesis by simp
  next
    case False
    with cs \<open>c \<noteq> []\<close> show ?thesis by (auto simp: scan_field_def field_ok_def)
  qed
qed simp

lemma dhcp_parse_zero:
  assumes "parse_dhcp bs = Some r" "cookie r \<noteq> 0" "htype r = 0 \<or> hlen r = 0 \<or> xid r = 0"
  shows "dhcp_parse hs bs r0 = Inl Assertion"
proof -
  from assms(1) obtain cs rest os where c: "bs = concat cs @ rest" "map length cs = wire_widths"
    "read_fields cs os = Some r"
    unfolding parse_dhcp_cut by blast
  have "length cs = 15" using c(2) by (simp add: wire_widths_def flip: length_map [of length])
  then obtain cs' ck where cs: "cs = cs' @ [ck]" "length cs' = 14"
    by (cases cs rule: rev_cases) auto
  obtain a b d e f g h i j k l m n p where cs': "cs' = [a, b, d, e, f, g, h, i, j, k, l, m, n, p]"
    using cs(2) by (auto simp: eval_nat_numeral length_Suc_conv)
  have w: "map length cs' = map fst header_fields" "length ck = 4"
    using c(2) unfolding cs(1) cs' by (simp_all add: wire_widths_def header_fields_def DHCP_CHADDR_SIZE_def
        DHCP_SNAME_SIZE_def DHCP_FILE_SIZE_def)
  from cs' have "read_number ck = cookie r" using c(3) cs(1) by (auto simp: read_fields_def)
  then have "field_ok (4, True) ck"
    using w(2) assms(2) read_number_0 [of ck, where 'w = 32] by (simp add: field_ok_def)
  moreover have "\<not> asserted_values r" using assms(3) by (auto simp: asserted_values_def)
  ultimately have "\<not> list_all2 field_ok header_fields cs'"
    using read_fields_asserted [OF c(3) [unfolded cs(1)] cs(2)] c(2) cs(1) by simp
  moreover have "\<forall>spec \<in> set header_fields. 0 < fst spec"
    by (simp add: header_fields_def DHCP_CHADDR_SIZE_def DHCP_SNAME_SIZE_def DHCP_FILE_SIZE_def)
  ultimately have "scan_fields header_fields (concat cs' @ ck @ rest) = Inl Assertion"
    using scan_fields_fail [OF w(1)] by blast
  then show ?thesis unfolding dhcp_parse_def c(1) cs(1) by simp
qed

text \<open>C16: From record to record through the streamer's and the parser's module, on a little endian host: a
  streamable record (its strings and options fit, a request or reply) whose hardware type, hardware
  length and transaction id are not zero arrives with these, its strings, hardware address and options, but
  with the octets of \<^verbatim>\<open>secs\<close>, \<^verbatim>\<open>flags\<close> and the four addresses reversed and without a
  cookie; if one of the three is zero, parsing it fails an assertion.\<close>

theorem dhcp_received:
  assumes "host_laws hs" "little_endian hs" "mb_laws ops contents" "streamable r"
    and "contents m = []" "548 \<le> mb_space ops m"
    and "\<forall>m. DHCP_MESSAGE_SIZE \<le> mb_capacity ops m \<and> 548 + boundary \<le> mb_capacity ops m"
  shows "\<exists>m'. dhcp_handleDataMessage hs ops r m = Inr (m', True)
    \<and> parser_handleDataMessage hs boundary ops contents m' new_DHCP_Record =
        (if htype r = 0 \<or> hlen r = 0 \<or> xid r = 0 then Inl Assertion
         else Inr ((reversed hs r)\<lparr>cookie := 0\<rparr>, True))"
proof -
  have r: "record_ok r" "fits r" using assms(4) by (simp_all add: streamable_def)
  from stream_streamable [OF assms(1-5)] assms(6,7) obtain m' where
    m': "dhcp_handleDataMessage hs ops r m = Inr (m', True)" "contents m' = dhcp_wire r" by blast
  have "mb_length ops m' = 548"
    using assms(3) m'(2) dhcp_wire_length [OF r] by (simp add: mb_length_contents)
  then have room: "\<not> mb_capacity ops m' < mb_length ops m' + boundary" using assms(7) by (simp add: not_less)
  have "dhcp_parse hs (contents m') new_DHCP_Record =
      (if htype r = 0 \<or> hlen r = 0 \<or> xid r = 0 then Inl Assertion else Inr ((reversed hs r)\<lparr>cookie := 0\<rparr>, True))"
    using received_streamable [OF assms(1,4)] parse_streamable [OF assms(4)] m'(2)
      dhcp_parse_zero [of "dhcp_wire r" "r\<lparr>cookie := DHCP_MAGIC_COOKIE\<rparr>" hs new_DHCP_Record]
    by (auto simp: DHCP_MAGIC_COOKIE_def)
  with room m'(1) show ?thesis by (intro exI [of _ m']) (simp add: parser_handleDataMessage_def)
qed

text \<open>C32: Streaming and parsing do not fit together: on a little endian host a record that is streamed,
  parsed from these octets and streamed again arrives with its transaction id, strings, hardware
  address and options, but the octets of \<^verbatim>\<open>secs\<close>, \<^verbatim>\<open>flags\<close> and of all four addresses are in
  reverse order.\<close>

theorem dhcp_relay:
  assumes "host_laws hs" "little_endian hs" "mb_laws ops contents" "streamable r"
    and "htype r \<noteq> 0" "hlen r \<noteq> 0" "xid r \<noteq> 0"
    and "contents m = []" "DHCP_MESSAGE_SIZE \<le> mb_capacity ops m" "548 \<le> mb_space ops m"
  shows "\<exists>m1 r1 m2. dhcp_handleDataMessage hs ops r m = Inr (m1, True)
    \<and> dhcp_parse hs (contents m1) new_DHCP_Record = Inr (r1, True)
    \<and> dhcp_handleDataMessage hs ops r1 m = Inr (m2, True)
    \<and> parse_dhcp (contents m2) = Some ((reversed hs r)\<lparr>cookie := DHCP_MAGIC_COOKIE\<rparr>)"
proof -
  let ?r1 = "(reversed hs r)\<lparr>cookie := 0\<rparr>"
  have r1: "streamable ?r1" by (rule streamable_reversed [OF assms(4)])
  from stream_streamable [OF assms(1-4,8-10)] obtain m1 where
    m1: "dhcp_handleDataMessage hs ops r m = Inr (m1, True)" "contents m1 = dhcp_wire r" by blast
  from stream_streamable [OF assms(1-3) r1 assms(8-10)] obtain m2 where
    m2: "dhcp_handleDataMessage hs ops ?r1 m = Inr (m2, True)" "contents m2 = dhcp_wire ?r1" by blast
  show ?thesis
    using m1 m2 received_streamable [OF assms(1,4-7)] parse_streamable [OF r1]
    by (intro exI [of _ m1] exI [of _ ?r1] exI [of _ m2]) simp
qed

section \<open>The cookie\<close>

text \<open>Whatever the four octets of the cookie are (but not all zero), the parser accepts a message that has an end tag,
  and leaves the cookie of the record as it was. Without an end tag it compares them with the
  constant as it lies in memory, which on a little endian host is the reverse of the magic cookie: a
  correct cookie then fails the assertion.\<close>

theorem dhcp_cookie_check:
  assumes "list_all2 field_ok header_fields cs" "field_ok (4, True) ck" "cast_op (hd cs) = Inr v"
    and "scan_options rest (options r) = Inr (opts, accepted)"
  shows "if accepted then \<exists>r'. dhcp_parse hs (concat cs @ ck @ rest) r = Inr (r', True) \<and> cookie r' = cookie r
    else if ck = in_memory hs 4 DHCP_MAGIC_COOKIE
    then \<exists>r'. dhcp_parse hs (concat cs @ ck @ rest) r = Inr (r', True) \<and> cookie r' = DHCP_MAGIC_COOKIE
    else dhcp_parse hs (concat cs @ ck @ rest) r = Inl Assertion"
proof -
  have "scan_fields header_fields (concat cs @ ck @ rest) = Inr (cs, Some (ck @ rest))"
    using assms(1) by (simp add: scan_header)
  moreover have ck: "length ck = 4" using assms(2) by (simp add: field_ok_def)
  then have "scan_field (4, True) (ck @ rest) = Inr (Some ck)" "drop 4 (ck @ rest) = rest"
    using assms(2) scan_field_Some [of "(4, True)" "ck @ rest" ck] by simp_all
  moreover obtain r1 where "set_header hs cs r = Inr r1" "cookie r1 = cookie r" "options r1 = options r"
    using assms(1,3) by (auto simp: set_header_def header_fields_def list_all2_Cons1 bind_res_eq_Inr)
  ultimately have p: "dhcp_parse hs (concat cs @ ck @ rest) r =
      (if accepted then Inr (r1\<lparr>options := opts\<rparr>, True)
       else if from_memory hs ck = DHCP_MAGIC_COOKIE
         then Inr (r1\<lparr>options := opts, cookie := from_memory hs ck\<rparr>, True) else Inl Assertion)"
    and c: "cookie r1 = cookie r"
    using assms(4) by (auto simp: dhcp_parse_def)
  have "from_memory hs ck = DHCP_MAGIC_COOKIE \<longleftrightarrow> ck = in_memory hs 4 DHCP_MAGIC_COOKIE"
    using in_from_memory(1) [OF ck, of hs] from_in_memory [of 4 hs DHCP_MAGIC_COOKIE] by auto
  then show ?thesis unfolding p using c by (simp add: from_in_memory)
qed

section \<open>Witnesses\<close>

lemma discover_streamable: "streamable dhcp_discover"
  using discover_ok by (simp add: streamable_def) (simp add: dhcp_discover_def new_DHCP_Record_def)

lemma discover_values: "htype dhcp_discover \<noteq> 0 \<and> hlen dhcp_discover \<noteq> 0 \<and> xid dhcp_discover \<noteq> 0"
  by (simp add: dhcp_discover_def new_DHCP_Record_def)


theorem dhcp_received_witness:
  "\<exists>m'. dhcp_handleDataMessage little_host dhcp_block dhcp_discover (576, []) = Inr (m', True)
    \<and> parser_handleDataMessage little_host 2 dhcp_block snd m' new_DHCP_Record
        = Inr ((reversed little_host dhcp_discover)\<lparr>cookie := 0\<rparr>, True)"
  using dhcp_received [OF concrete_host_laws(1) _ dhcp_block_laws discover_streamable, of "(576, [])" 2] discover_values
  by (auto simp: little_host_def DHCP_MESSAGE_SIZE_def)

theorem dhcp_relay_witness:
  "\<exists>m1 r1 m2. dhcp_handleDataMessage little_host dhcp_block dhcp_discover (576, []) = Inr (m1, True)
    \<and> dhcp_parse little_host (snd m1) new_DHCP_Record = Inr (r1, True)
    \<and> dhcp_handleDataMessage little_host dhcp_block r1 (576, []) = Inr (m2, True)
    \<and> map_option flags (parse_dhcp (snd m2)) = Some 0x0080"
proof -
  have "swapped_word little_host 0x8000 = 0x0080" by code_simp
  moreover have "flags (reversed little_host dhcp_discover) = swapped_word little_host 0x8000"
    by (simp add: reversed_def dhcp_discover_def)
  ultimately show ?thesis
    using dhcp_relay [OF concrete_host_laws(1) _ dhcp_block_laws discover_streamable, of "(576, [])"] discover_values
    by (auto simp: little_host_def DHCP_MESSAGE_SIZE_def)
qed

text \<open>A header, and a correct cookie behind it with no options and no end tag.\<close>

definition header_example :: "u8 list list" where
  "header_example = [[1], [1], [6], [0], [0, 0, 0, 1], [0, 0], [0, 0], [0, 0, 0, 0], [0, 0, 0, 0],
     [0, 0, 0, 0], [0, 0, 0, 0], replicate 16 0, replicate 64 0, replicate 128 0]"

theorem dhcp_cookie_check_witness:
  "dhcp_parse little_host (concat header_example @ octets 4 DHCP_MAGIC_COOKIE @ []) new_DHCP_Record = Inl Assertion"
proof -
  have "list_all2 field_ok header_fields header_example"
    by (simp add: header_fields_def header_example_def field_ok_def DHCP_CHADDR_SIZE_def DHCP_SNAME_SIZE_def
        DHCP_FILE_SIZE_def)
  moreover have "octets 4 DHCP_MAGIC_COOKIE = [0x63, 0x82, 0x53, 0x63]" by code_simp
  then have "field_ok (4, True) (octets 4 DHCP_MAGIC_COOKIE)"
    "octets 4 DHCP_MAGIC_COOKIE \<noteq> in_memory little_host 4 DHCP_MAGIC_COOKIE"
    by (simp_all add: field_ok_def in_memory_def little_host_def)
  moreover have "cast_op (hd header_example) = Inr DHCP_OP_REQUEST"
    by (simp add: cast_op_def header_example_def octets_value_def)
  ultimately show ?thesis
    using dhcp_cookie_check [of header_example "octets 4 DHCP_MAGIC_COOKIE" DHCP_OP_REQUEST "[]" new_DHCP_Record
        "options new_DHCP_Record" False little_host]
    by simp
qed

end
