(* ===== verification/Net_Common_Tools.thy ===== *)
theory Net_Common_Tools
  imports Std_Regex
begin

text \<open>
  Addresses and protocol numbers as text: functions of \<^verbatim>\<open>src/src/net_common_tools.cpp\<close> with the
  enumerations of \<^verbatim>\<open>net_common.h\<close> and the constants of \<^verbatim>\<open>net_packet_headers.h\<close>. The rendering of
  an internet address belongs to \<^verbatim>\<open>ACE_INET_Addr\<close> and is an argument.
\<close>

section \<open>Protocol numbers\<close>

text \<open>The cases of \<open>IPProtocolToString\<close>, by the protocol numbers the labels stand for.\<close>

definition ip_protocols :: "(u8 \<times> string) list" where
  "ip_protocols =
    [(0, ''IPPROTO_IP/IPPROTO_HOPOPTS''), (1, ''IPPROTO_ICMP''), (2, ''IPPROTO_IGMP''),
    (4, ''IPPROTO_IPIP''), (6, ''IPPROTO_TCP''), (8, ''IPPROTO_EGP''), (12, ''IPPROTO_PUP''),
    (17, ''IPPROTO_UDP''), (22, ''IPPROTO_IDP''), (29, ''IPPROTO_TP''), (41, ''IPPROTO_IPV6''),
    (43, ''IPPROTO_ROUTING''), (44, ''IPPROTO_FRAGMENT''), (46, ''IPPROTO_RSVP''),
    (47, ''IPPROTO_GRE''), (50, ''IPPROTO_ESP''), (51, ''IPPROTO_AH''), (58, ''IPPROTO_ICMPV6''),
    (59, ''IPPROTO_NONE''), (60, ''IPPROTO_DSTOPTS''), (92, ''IPPROTO_MTP''),
    (98, ''IPPROTO_ENCAP''), (103, ''IPPROTO_PIM''), (108, ''IPPROTO_COMP''),
    (132, ''IPPROTO_SCTP''), (255, ''IPPROTO_RAW'')]"

definition IPProtocolToString :: "u8 \<Rightarrow> string" where
  "IPProtocolToString protocol =
    (case map_of ip_protocols protocol of None \<Rightarrow> [] | Some name \<Rightarrow> name)"

text \<open>The cases of \<open>EthernetProtocolTypeIdToString\<close>; the argument is in network byte order.\<close>

definition ethernet_protocols :: "(u16 \<times> string) list" where
  "ethernet_protocols =
    [(0x0060, ''ETH_P_LOOP''), (0x00FE, ''ETHERTYPE_GRE_ISO''), (0x0200, ''ETH_P_PUP''),
    (0x0201, ''ETH_P_PUPAT''), (0x0500, ''ETHERTYPE_SPRITE''), (0x0800, ''ETH_P_IP''),
    (0x0805, ''ETH_P_X25''), (0x0806, ''ETH_P_ARP''), (0x08FF, ''ETH_P_BPQ''),
    (0x0a00, ''ETH_P_IEEEPUP''), (0x0a01, ''ETH_P_IEEEPUPAT''), (0x0600, ''ETHERTYPE_NS''),
    (0x1000, ''ETHERTYPE_TRAIL''), (0x6000, ''ETH_P_DEC''), (0x6001, ''ETH_P_DNA_DL''),
    (0x6002, ''ETH_P_DNA_RC''), (0x6003, ''ETH_P_DNA_RT''), (0x6004, ''ETH_P_LAT''),
    (0x6005, ''ETH_P_DIAG''), (0x6006, ''ETH_P_CUST''), (0x6007, ''ETH_P_SCA''),
    (0x8035, ''ETH_P_RARP''), (0x8038, ''ETHERTYPE_LANBRIDGE''), (0x803c, ''ETHERTYPE_DECDNS''),
    (0x803e, ''ETHERTYPE_DECDTS''), (0x805b, ''ETHERTYPE_VEXP''), (0x805c, ''ETHERTYPE_VPROD''),
    (0x809B, ''ETH_P_ATALK''), (0x80F3, ''ETH_P_AARP''), (0x8100, ''ETH_P_8021Q''),
    (0x8137, ''ETH_P_IPX''), (0x86DD, ''ETH_P_IPV6''), (0x8808, ''ETHERTYPE_MPCP''),
    (0x8809, ''ETHERTYPE_SLOW''), (0x880b, ''ETHERTYPE_PPP''), (0x883E, ''ETH_P_WCCP''),
    (0x8847, ''ETH_P_MPLS_UC''), (0x8848, ''ETH_P_MPLS_MC''), (0x884c, ''ETH_P_ATMMPOA''),
    (0x8863, ''ETH_P_PPP_DISC''), (0x8864, ''ETH_P_PPP_SES''), (0x8870, ''ETHERTYPE_JUMBO''),
    (0x8884, ''ETH_P_ATMFATE''), (0x888e, ''ETHERTYPE_EAPOL''), (0x88A2, ''ETH_P_AOE''),
    (0x88CA, ''ETH_P_TIPC''), (0x9000, ''ETHERTYPE_LOOPBACK''), (0x9100, ''ETHERTYPE_VMAN''),
    (0xfefe, ''ETHERTYPE_ISO''), (0x0001, ''ETH_P_802_3''), (0x0002, ''ETH_P_AX25''),
    (0x0003, ''ETH_P_ALL''), (0x0004, ''ETH_P_802_2''), (0x0005, ''ETH_P_SNAP''),
    (0x0006, ''ETH_P_DDCMP''), (0x0007, ''ETH_P_WAN_PPP''), (0x0008, ''ETH_P_PPP_MP''),
    (0x0009, ''ETH_P_LOCALTALK''), (0x0010, ''ETH_P_PPPTALK''), (0x0011, ''ETH_P_TR_802_2''),
    (0x0015, ''ETH_P_MOBITEX''), (0x0016, ''ETH_P_CONTROL''), (0x0017, ''ETH_P_IRDA''),
    (0x0018, ''ETH_P_ECONET''), (0x0019, ''ETH_P_HDLC''), (0x001A, ''ETH_P_ARCNET'')]"

definition ETH_DATA_LEN :: u16 where "ETH_DATA_LEN = 1500"

definition EthernetProtocolTypeIdToString :: "(u16 \<Rightarrow> u16) \<Rightarrow> u16 \<Rightarrow> string" where
  "EthernetProtocolTypeIdToString ntohs frameType =
    (case map_of ethernet_protocols (ntohs frameType) of
       Some name \<Rightarrow> name
     | None \<Rightarrow> if ntohs frameType \<le> ETH_DATA_LEN then ''UNKNOWN_IEEE_802_3_FRAME_TYPE'' else [])"

section \<open>Layers\<close>

datatype Net_LinkLayerType =
    NET_LINKLAYER_802_3 | NET_LINKLAYER_802_11 | NET_LINKLAYER_PPP | NET_LINKLAYER_FDDI
  | NET_LINKLAYER_ATM | NET_LINKLAYER_MAX | NET_LINKLAYER_INVALID

datatype Net_TransportLayerType =
    NET_TRANSPORTLAYER_INVALID | NET_TRANSPORTLAYER_IP_CAST | NET_TRANSPORTLAYER_NETLINK
  | NET_TRANSPORTLAYER_TCP | NET_TRANSPORTLAYER_UDP | NET_TRANSPORTLAYER_SSL | NET_TRANSPORTLAYER_MAX

fun TransportLayerTypeToString :: "bool \<Rightarrow> Net_TransportLayerType \<Rightarrow> string" where
  "TransportLayerTypeToString linux NET_TRANSPORTLAYER_IP_CAST = ''IP''"
| "TransportLayerTypeToString linux NET_TRANSPORTLAYER_NETLINK = (if linux then ''Netlink'' else [])"
| "TransportLayerTypeToString linux NET_TRANSPORTLAYER_TCP = ''TCP''"
| "TransportLayerTypeToString linux NET_TRANSPORTLAYER_UDP = ''UDP''"
| "TransportLayerTypeToString linux _ = []"

fun LinkLayerTypeToString :: "Net_LinkLayerType \<Rightarrow> string" where
  "LinkLayerTypeToString NET_LINKLAYER_802_3 = ''IEEE 802.3''"
| "LinkLayerTypeToString NET_LINKLAYER_802_11 = ''IEEE 802.11''"
| "LinkLayerTypeToString NET_LINKLAYER_ATM = ''ATM''"
| "LinkLayerTypeToString NET_LINKLAYER_FDDI = ''FDDI''"
| "LinkLayerTypeToString NET_LINKLAYER_PPP = ''PPP''"
| "LinkLayerTypeToString _ = []"

section \<open>Addresses\<close>

text \<open>
  \<open>inet_to_string port address\<close> is what \<^verbatim>\<open>ACE_INET_Addr\<close> prints for the address, \<open>None\<close> when
  either of the two calls fails.
\<close>

definition cut_port :: "string \<Rightarrow> string" where
  "cut_port s = (if CHR '':'' \<in> set s then rev (tl (dropWhile (\<lambda>c. c \<noteq> CHR '':'') (rev s))) else s)"

definition IPAddressToString :: "(u16 \<Rightarrow> u32 \<Rightarrow> string option) \<Rightarrow> u16 \<Rightarrow> u32 \<Rightarrow> string" where
  "IPAddressToString inet_to_string port address =
    (case inet_to_string port address of None \<Rightarrow> []
     | Some s \<Rightarrow> if port = 0 then cut_port s else s)"

text \<open>\<open>string_to_addr\<close> is \<^verbatim>\<open>ACE_INET_Addr::string_to_addr\<close>, \<open>any_addr\<close> the default address.\<close>

definition stringToIPAddress :: "(string \<Rightarrow> 'a option) \<Rightarrow> 'a \<Rightarrow> string \<Rightarrow> 'a" where
  "stringToIPAddress string_to_addr any_addr address =
    (let s = (if CHR '':'' \<in> set address then address else address @ '':0'')
     in case string_to_addr s of None \<Rightarrow> any_addr | Some a \<Rightarrow> a)"

text \<open>The format \<^verbatim>\<open>%02x\<close> of an octet; the branch of the platforms without an API of their own.\<close>

definition hex2 :: "u8 \<Rightarrow> string" where
  "hex2 b = (let s = hex (unat b) in replicate (2 - length s) CHR ''0'' @ s)"

fun colon_separated :: "string list \<Rightarrow> string" where
  "colon_separated [] = []"
| "colon_separated [s] = s"
| "colon_separated (s # t # ss) = s @ '':'' @ colon_separated (t # ss)"

definition LinkLayerAddressToString :: "u8 list \<Rightarrow> Net_LinkLayerType \<Rightarrow> string res" where
  "LinkLayerAddressToString address type =
    (case type of
       NET_LINKLAYER_802_3 \<Rightarrow>
         if length address < 6 then Inl Undefined_Behaviour
         else Inr (colon_separated (map hex2 (take 6 address)))
     | NET_LINKLAYER_802_11 \<Rightarrow>
         if length address < 6 then Inl Undefined_Behaviour
         else Inr (colon_separated (map hex2 (take 6 address)))
     | NET_LINKLAYER_PPP \<Rightarrow> Inr []
     | NET_LINKLAYER_ATM \<Rightarrow> Inl Assertion
     | NET_LINKLAYER_FDDI \<Rightarrow> Inl Assertion
     | _ \<Rightarrow> Inr [])"

section \<open>Matching\<close>

text \<open>\<^verbatim>\<open>matchIPAddress\<close>: four groups of at most three digits, then a check of each group.\<close>

definition octet_regex :: regex where
  "octet_regex = Rep ascii_digit 0 (Some 3)"

definition ip_regex :: regex where
  "ip_regex = Seq (Cap 1 octet_regex)
    (Seq (Opt (Cap 2 (Seq (Lit ''.'') octet_regex)))
    (Seq (Opt (Cap 3 (Seq (Lit ''.'') octet_regex)))
         (Opt (Cap 4 (Seq (Lit ''.'') octet_regex)))))"

text \<open>
  The check of the groups from number \<open>i\<close> on. Reading an empty text from the stream leaves the
  number read before, \<open>number\<close>.
\<close>

fun check_groups :: "nat \<Rightarrow> nat \<Rightarrow> string option list \<Rightarrow> bool" where
  "check_groups i number [] = True"
| "check_groups i number (None # gs) = False"
| "check_groups i number (Some t # gs) =
     (let t' = (if 1 < i then drop 1 t else t);
          number' = (if t' = [] then number else parse_base 10 t')
      in if 255 < number' then False
         else if t' \<noteq> [] \<and> hd t' = CHR ''0'' \<and> 1 < length t' then False
         else check_groups (Suc i) number' gs)"

definition matchIPAddress :: "string \<Rightarrow> bool" where
  "matchIPAddress address =
    (case regex_match ip_regex address of
       None \<Rightarrow> False
     | Some groups \<Rightarrow> check_groups 1 0 [groups 1, groups 2, groups 3, groups 4])"

text \<open>\<^verbatim>\<open>URLToHostName\<close>: \<open>alpha\<close> is the class of letters.\<close>

definition host_regex :: "char_class \<Rightarrow> regex" where
  "host_regex alpha =
     Seq (Opt (Cap 1 (Seq (Rep alpha 1 None) (Lit ''://''))))
    (Seq (Cap 2 (Rep (\<lambda>c. c \<noteq> CHR ''/'' \<and> c \<noteq> CHR '':'') 1 None))
    (Seq (Opt (Cap 3 (Seq (Lit '':'') (Rep ascii_digit 1 (Some 5)))))
         (Opt (Cap 4 (Rep dot 1 None)))))"

definition URLToHostName :: "char_class \<Rightarrow> string \<Rightarrow> bool \<Rightarrow> bool \<Rightarrow> string" where
  "URLToHostName alpha URL returnProtocol returnPort =
    (case regex_match (host_regex alpha) URL of
       None \<Rightarrow> []
     | Some groups \<Rightarrow>
         (case groups 2 of
            None \<Rightarrow> []
          | Some host \<Rightarrow>
              (if returnProtocol then (case groups 1 of None \<Rightarrow> [] | Some p \<Rightarrow> p) else [])
              @ host
              @ (if returnPort then (case groups 3 of None \<Rightarrow> [] | Some p \<Rightarrow> p) else [])))"

section \<open>Properties\<close>

text \<open>What the check accepts of a group: at most three digits without a leading zero, no more than
  255; the empty text as well.\<close>

definition octet_text :: "string \<Rightarrow> bool" where
  "octet_text u \<longleftrightarrow> list_all ascii_digit u \<and> length u \<le> 3 \<and>
     (u \<noteq> [] \<longrightarrow> parse_base 10 u \<le> 255 \<and> (hd u = CHR ''0'' \<longrightarrow> length u = 1))"

definition group_value_ok :: "string \<Rightarrow> bool" where
  "group_value_ok u \<longleftrightarrow> (u \<noteq> [] \<longrightarrow> parse_base 10 u \<le> 255 \<and> (hd u = CHR ''0'' \<longrightarrow> length u = 1))"

lemma check_group:
  assumes "number \<le> 255"
  shows "check_groups i number (Some t # gs) \<longleftrightarrow>
    (let u = (if 1 < i then drop 1 t else t)
     in group_value_ok u \<and> check_groups (Suc i) (if u = [] then number else parse_base 10 u) gs)"
proof -
  have "Suc 0 < length u \<longleftrightarrow> length u \<noteq> Suc 0" if "u \<noteq> []" for u :: string
    using that by (cases u) auto
  with assms show ?thesis
    by (cases "drop 1 t = []"; cases "t = []") (auto simp: group_value_ok_def Let_def)
qed

lemma check_later_groups:
  "1 < i \<Longrightarrow> number \<le> 255 \<Longrightarrow>
     check_groups i number (map (\<lambda>u. Some (''.'' @ u)) us) \<longleftrightarrow> list_all group_value_ok us"
proof (induction us arbitrary: i number)
  case (Cons u us)
  have "group_value_ok u \<Longrightarrow> (if u = [] then number else parse_base 10 u) \<le> 255"
    using Cons.prems by (simp add: group_value_ok_def)
  with Cons check_group [of number i "''.'' @ u" "map (\<lambda>u. Some (''.'' @ u)) us"]
  show ?case by (auto simp: Let_def simp del: check_groups.simps)
qed simp

lemma check_all_groups:
  "check_groups 1 0 [Some a, Some (''.'' @ b), Some (''.'' @ c), Some (''.'' @ d)] \<longleftrightarrow>
     list_all group_value_ok [a, b, c, d]"
proof -
  have "group_value_ok a \<Longrightarrow> (if a = [] then 0 else parse_base 10 a) \<le> 255"
    by (simp add: group_value_ok_def)
  with check_group [of 0 1 a "map (\<lambda>u. Some (''.'' @ u)) [b, c, d]"]
    check_later_groups [of 2 "if a = [] then 0 else parse_base 10 a" "[b, c, d]"]
  show ?thesis by (auto simp: Let_def numeral_2_eq_2 simp del: check_groups.simps)
qed

lemma octet_text_iff: "octet_text u \<longleftrightarrow> list_all ascii_digit u \<and> length u \<le> 3 \<and> group_value_ok u"
  by (simp add: octet_text_def group_value_ok_def)

lemma octet_run:
  assumes "list_all ascii_digit u" "length u \<le> 3" "s = [] \<or> hd s = CHR ''.''"
  shows "first_run octet_regex (u @ s) ([], s)"
  unfolding octet_regex_def using assms by (intro first_Rep) (auto simp: ascii_digit_def)

lemma octet_part:
  assumes "list_all ascii_digit u" "length u \<le> 3" "s = [] \<or> hd s = CHR ''.''"
  shows "first_run (Opt (Cap n (Seq (Lit ''.'') octet_regex))) ((''.'' @ u) @ s) ([(n, ''.'' @ u)], s)"
  using first_Opt [OF first_Cap [of "Seq (Lit ''.'') octet_regex" "''.'' @ u" s "[]" n]]
    first_Seq [OF first_Lit [of "''.''" "u @ s"] octet_run [OF assms]] by simp

lemma octet_partD:
  assumes "(g, s') \<in> set (runs (Opt (Cap n (Seq (Lit ''.'') octet_regex))) s)"
  shows "(g = [] \<and> s' = s) \<or> (\<exists>u. g = [(n, ''.'' @ u)] \<and> s = (''.'' @ u) @ s'
    \<and> list_all ascii_digit u \<and> length u \<le> 3)"
proof -
  from runs_OptD [OF assms] consider "g = [] \<and> s' = s"
    | "(g, s') \<in> set (runs (Cap n (Seq (Lit ''.'') octet_regex)) s)" by blast
  then show ?thesis
  proof cases
    case 2
    from runs_CapD [OF this] obtain g' where g': "(g', s') \<in> set (runs (Seq (Lit ''.'') octet_regex) s)"
      "g = (n, take (length s - length s') s) # g'" by blast
    from runs_SeqD [OF g'(1)] obtain g1 s1 g2 where parts: "(g1, s1) \<in> set (runs (Lit ''.'') s)"
      "(g2, s') \<in> set (runs octet_regex s1)" "g' = g1 @ g2" by blast
    from parts(1) have one: "g1 = []" "s = ''.'' @ s1"
      by (auto split: if_splits) (metis append_Cons append_Nil append_take_drop_id)
    from runs_RepD [OF parts(2) [unfolded octet_regex_def]] obtain u where
      u: "g2 = []" "s1 = u @ s'" "list_all ascii_digit u" "length u \<le> 3" by auto
    with one parts(3) g'(2) show ?thesis by (auto intro!: exI [of _ u])
  qed blast
qed

text \<open>Recognising an address: exactly the texts of four groups separated by dots are matched, each group a
  decimal number up to 255 without a leading zero, or empty; so a text of dots alone passes for
  an address.\<close>

theorem matchIPAddress_iff:
  "matchIPAddress s \<longleftrightarrow> (\<exists>a b c d. s = a @ ''.'' @ b @ ''.'' @ c @ ''.'' @ d
     \<and> octet_text a \<and> octet_text b \<and> octet_text c \<and> octet_text d)"
proof
  assume "\<exists>a b c d. s = a @ ''.'' @ b @ ''.'' @ c @ ''.'' @ d
     \<and> octet_text a \<and> octet_text b \<and> octet_text c \<and> octet_text d"
  then obtain a b c d where s: "s = a @ (''.'' @ b) @ (''.'' @ c) @ (''.'' @ d) @ []"
    and o: "octet_text a" "octet_text b" "octet_text c" "octet_text d" by auto
  have digits: "list_all ascii_digit a" "length a \<le> 3" "list_all ascii_digit b" "length b \<le> 3"
    "list_all ascii_digit c" "length c \<le> 3" "list_all ascii_digit d" "length d \<le> 3"
    using o by (simp_all add: octet_text_def)
  have "first_run (Cap 1 octet_regex) (a @ (''.'' @ b) @ (''.'' @ c) @ (''.'' @ d) @ [])
      ([(1, a)], (''.'' @ b) @ (''.'' @ c) @ (''.'' @ d) @ [])"
    by (intro first_Cap octet_run digits) simp
  moreover have "first_run (Opt (Cap 2 (Seq (Lit ''.'') octet_regex)))
      ((''.'' @ b) @ (''.'' @ c) @ (''.'' @ d) @ []) ([(2, ''.'' @ b)], (''.'' @ c) @ (''.'' @ d) @ [])"
    by (intro octet_part digits) simp
  moreover have "first_run (Opt (Cap 3 (Seq (Lit ''.'') octet_regex)))
      ((''.'' @ c) @ (''.'' @ d) @ []) ([(3, ''.'' @ c)], (''.'' @ d) @ [])"
    by (intro octet_part digits) simp
  moreover have "first_run (Opt (Cap 4 (Seq (Lit ''.'') octet_regex))) ((''.'' @ d) @ []) ([(4, ''.'' @ d)], [])"
    by (intro octet_part digits) simp
  ultimately have "first_run ip_regex s
      ([(1, a)] @ [(2, ''.'' @ b)] @ [(3, ''.'' @ c)] @ [(4, ''.'' @ d)], [])"
    unfolding ip_regex_def s by (blast intro: first_Seq)
  from first_match [OF this] o show "matchIPAddress s"
    using check_all_groups [of a b c d]
    by (simp add: matchIPAddress_def octet_text_iff del: check_groups.simps)
next
  assume m: "matchIPAddress s"
  then obtain groups where "regex_match ip_regex s = Some groups"
    and check: "check_groups 1 0 [groups 1, groups 2, groups 3, groups 4]"
    by (auto simp: matchIPAddress_def split: option.splits)
  then obtain g where g: "(g, []) \<in> set (runs ip_regex s)" "groups = map_of (rev g)"
    using regex_matchD by blast
  from runs_SeqD [OF g(1) [unfolded ip_regex_def]] obtain g1 s1 h1 where
    r1: "(g1, s1) \<in> set (runs (Cap 1 octet_regex) s)" "g = g1 @ h1"
    and h1: "(h1, []) \<in> set (runs (Seq (Opt (Cap 2 (Seq (Lit ''.'') octet_regex)))
      (Seq (Opt (Cap 3 (Seq (Lit ''.'') octet_regex))) (Opt (Cap 4 (Seq (Lit ''.'') octet_regex))))) s1)"
    by blast
  from runs_SeqD [OF h1] obtain g2 s2 h2 where
    r2: "(g2, s2) \<in> set (runs (Opt (Cap 2 (Seq (Lit ''.'') octet_regex))) s1)" "h1 = g2 @ h2"
    and h2: "(h2, []) \<in> set (runs (Seq (Opt (Cap 3 (Seq (Lit ''.'') octet_regex)))
      (Opt (Cap 4 (Seq (Lit ''.'') octet_regex)))) s2)"
    by blast
  from runs_SeqD [OF h2] obtain g3 s3 g4 where
    r3: "(g3, s3) \<in> set (runs (Opt (Cap 3 (Seq (Lit ''.'') octet_regex))) s2)" "h2 = g3 @ g4"
    and r4: "(g4, []) \<in> set (runs (Opt (Cap 4 (Seq (Lit ''.'') octet_regex))) s3)"
    by blast
  note r = r1(1) r2(1) r3(1) r4
  have gs: "g = g1 @ g2 @ g3 @ g4" using r1(2) r2(2) r3(2) by simp
  from runs_CapD [OF r(1)] obtain g0 where g0: "(g0, s1) \<in> set (runs octet_regex s)"
    "g1 = (1, take (length s - length s1) s) # g0" by blast
  from runs_RepD [OF g0(1) [unfolded octet_regex_def]] obtain a where
    a: "g0 = []" "s = a @ s1" "list_all ascii_digit a" "length a \<le> 3" by auto
  then have g1: "g1 = [(1, a)]" using g0(2) by simp
  have all: "groups 2 \<noteq> None" "groups 3 \<noteq> None" "groups 4 \<noteq> None"
    using check by (auto simp: g1 Let_def split: if_splits elim!: check_groups.elims)
  have keys: "fst ` set g1 \<subseteq> {1}" "fst ` set g2 \<subseteq> {2}" "fst ` set g3 \<subseteq> {3}" "fst ` set g4 \<subseteq> {4}"
    using g1 octet_partD [OF r(2)] octet_partD [OF r(3)] octet_partD [OF r(4)] by auto
  have "k \<in> fst ` set g" if "groups k \<noteq> None" for k
    using that g(2) map_of_eq_None_iff [of "rev g" k] by auto
  then have k: "{2, 3, 4} \<subseteq> fst ` set g" using all by blast
  have u: "fst ` set g = fst ` set g1 \<union> fst ` set g2 \<union> fst ` set g3 \<union> fst ` set g4"
    unfolding gs by (simp add: image_Un Un_assoc)
  have "2 \<in> fst ` set g2" "3 \<in> fst ` set g3" "4 \<in> fst ` set g4"
    using k keys unfolding u by auto
  then have "g2 \<noteq> []" "g3 \<noteq> []" "g4 \<noteq> []" by auto
  then obtain b c d where b: "g2 = [(2, ''.'' @ b)]" "s1 = (''.'' @ b) @ s2" "list_all ascii_digit b" "length b \<le> 3"
    and c: "g3 = [(3, ''.'' @ c)]" "s2 = (''.'' @ c) @ s3" "list_all ascii_digit c" "length c \<le> 3"
    and d: "g4 = [(4, ''.'' @ d)]" "s3 = (''.'' @ d) @ []" "list_all ascii_digit d" "length d \<le> 3"
    using octet_partD [OF r(2)] octet_partD [OF r(3)] octet_partD [OF r(4)] by blast
  have "groups 1 = Some a" "groups 2 = Some (''.'' @ b)" "groups 3 = Some (''.'' @ c)" "groups 4 = Some (''.'' @ d)"
    using g(2) gs g1 b(1) c(1) d(1) by simp_all
  with check have "octet_text a \<and> octet_text b \<and> octet_text c \<and> octet_text d"
    using a b c d check_all_groups [of a b c d]
    by (simp add: octet_text_iff del: check_groups.simps)
  then show "\<exists>a b c d. s = a @ ''.'' @ b @ ''.'' @ c @ ''.'' @ d
     \<and> octet_text a \<and> octet_text b \<and> octet_text c \<and> octet_text d"
    using a(2) b(2) c(2) d(2) by auto
qed

lemma length_hex2: "length (hex2 b) = 2"
proof -
  have "unat b < 256" using unsigned_less [of b, where ?'a = nat] by simp
  then have "length (hex (unat b)) \<le> 2"
    by (cases "unat b < 16") (simp_all add: render_short render_step less_mult_imp_div_less)
  then show ?thesis by (simp add: hex2_def Let_def)
qed

lemma parse_base_zeros: "parse_base b (replicate k CHR ''0'' @ s) = parse_base b s"
proof (induction k)
  case (Suc k)
  have "digit_val CHR ''0'' = 0" by (simp add: digit_val_def)
  with Suc show ?case by (simp add: parse_base_def)
qed simp

lemma parse_hex2: "parse_base 16 (hex2 b) = unat b"
  by (simp add: hex2_def Let_def parse_base_zeros parse_render)

lemma list_of_six: "length xs = 6 \<Longrightarrow> \<exists>a b c d e f. xs = [a, b, c, d, e, f]"
  by (auto simp: length_Suc_conv eval_nat_numeral)

text \<open>The octets of a printed link layer address.\<close>

definition parse_octets :: "string \<Rightarrow> u8 list" where
  "parse_octets s = map (\<lambda>i. word_of_nat (parse_base 16 (take 2 (drop (3 * i) s)))) [0 ..< 6]"

text \<open>Printing a link layer address of an Ethernet or wireless interface takes 17 characters and
  loses nothing: the six octets can be read back from the text. The other link layers print no
  address, or abort the program (ATM and FDDI).\<close>

theorem LinkLayerAddress_roundtrip:
  assumes "6 \<le> length address"
  shows "if type \<in> {NET_LINKLAYER_802_3, NET_LINKLAYER_802_11}
    then \<exists>s. LinkLayerAddressToString address type = Inr s \<and> length s = 17
           \<and> parse_octets s = take 6 address
    else LinkLayerAddressToString address type =
      (if type \<in> {NET_LINKLAYER_ATM, NET_LINKLAYER_FDDI} then Inl Assertion else Inr [])"
proof -
  have len: "length (take 6 address) = 6" using assms by simp
  then obtain a b c d e f where six: "take 6 address = [a, b, c, d, e, f]"
    using list_of_six by blast
  have two: "\<exists>x y. hex2 q = [x, y]" for q
    using length_hex2 [of q] by (auto simp: length_Suc_conv eval_nat_numeral)
  obtain a1 a2 b1 b2 c1 c2 where abc: "hex2 a = [a1, a2]" "hex2 b = [b1, b2]" "hex2 c = [c1, c2]"
    using two by metis
  obtain d1 d2 e1 e2 f1 f2 where dxf: "hex2 d = [d1, d2]" "hex2 e = [e1, e2]" "hex2 f = [f1, f2]"
    using two by metis
  have rb: "word_of_nat (parse_base 16 (hex2 q)) = q" for q
    by (simp add: parse_hex2)
  have upto: "[0 ..< 6::nat] = [0, 1, 2, 3, 4, 5]" by (simp add: upt_rec eval_nat_numeral)
  let ?s = "colon_separated (map hex2 (take 6 address))"
  have "length ?s = 17"
    by (simp add: six abc dxf)
  moreover have "parse_octets ?s = take 6 address"
    using rb [of a] rb [of b] rb [of c] rb [of d] rb [of e] rb [of f]
    by (simp add: parse_octets_def six abc dxf upto)
  ultimately show ?thesis
    using assms by (cases type) (simp_all add: LinkLayerAddressToString_def)
qed

theorem LinkLayerAddress_roundtrip_witness:
  "\<exists>s. LinkLayerAddressToString [0, 26, 43, 60, 77, 255] NET_LINKLAYER_802_3 = Inr s
     \<and> parse_octets s = [0, 26, 43, 60, 77, 255]"
  using LinkLayerAddress_roundtrip [of "[0, 26, 43, 60, 77, 255]" NET_LINKLAYER_802_3]
  by auto

text \<open>The host name of a URL with a scheme: the text between the scheme and the first colon or slash,
  with the scheme and the port in front of and behind it when they are asked for.\<close>

theorem URLToHostName_components:
  fixes port :: "string option"
  defines "tail \<equiv> (case port of None \<Rightarrow> [] | Some p \<Rightarrow> '':'' @ p)"
  assumes alpha: "\<not> alpha CHR '':''" "list_all alpha scheme" "scheme \<noteq> []"
    and host: "host \<noteq> []" "CHR ''/'' \<notin> set host" "CHR '':'' \<notin> set host"
    and port: "\<And>p. port = Some p \<Longrightarrow> list_all ascii_digit p \<and> p \<noteq> [] \<and> length p \<le> 5"
    and path: "path = [] \<or> hd path = CHR ''/''" "list_all dot path"
  shows "URLToHostName alpha (scheme @ ''://'' @ host @ tail @ path) returnProtocol returnPort =
    (if returnProtocol then scheme @ ''://'' else []) @ host @ (if returnPort then tail else [])"
proof -
  have "first_run (Rep alpha 1 None) (scheme @ ''://'' @ host @ tail @ path) ([], ''://'' @ host @ tail @ path)"
    using alpha by (intro first_Rep) (auto simp: Suc_le_eq)
  from first_Seq [OF this first_Lit [of "''://''"]]
    first_Cap [of "Seq (Rep alpha 1 None) (Lit ''://'')" "scheme @ ''://''" "host @ tail @ path" "[]" 1]
  have "first_run (Cap 1 (Seq (Rep alpha 1 None) (Lit ''://''))) ((scheme @ ''://'') @ host @ tail @ path)
      ([(1, scheme @ ''://'')], host @ tail @ path)" by simp
  from first_Opt [OF this]
  have s1: "first_run (Opt (Cap 1 (Seq (Rep alpha 1 None) (Lit ''://''))))
      (scheme @ ''://'' @ host @ tail @ path) ([(1, scheme @ ''://'')], host @ tail @ path)" by simp
  have "tail @ path = [] \<or> \<not> (hd (tail @ path) \<noteq> CHR ''/'' \<and> hd (tail @ path) \<noteq> CHR '':'')"
    using path by (auto simp: tail_def split: option.splits)
  with host have "first_run (Rep (\<lambda>c. c \<noteq> CHR ''/'' \<and> c \<noteq> CHR '':'') 1 None) (host @ tail @ path) ([], tail @ path)"
    by (intro first_Rep) (auto simp: Suc_le_eq list_all_iff)
  from first_Cap [OF this]
  have s2: "first_run (Cap 2 (Rep (\<lambda>c. c \<noteq> CHR ''/'' \<and> c \<noteq> CHR '':'') 1 None)) (host @ tail @ path)
      ([(2, host)], tail @ path)" .
  have s3: "first_run (Opt (Cap 3 (Seq (Lit '':'') (Rep ascii_digit 1 (Some 5))))) (tail @ path)
      (case port of None \<Rightarrow> [] | Some p \<Rightarrow> [(3, '':'' @ p)], path)"
  proof (cases port)
    case None
    then show ?thesis
      using path(1) by (cases path) (auto simp: tail_def intro!: first_Opt_none)
  next
    case (Some p)
    have "first_run (Rep ascii_digit 1 (Some 5)) (p @ path) ([], path)"
      using port [OF Some] path(1) by (intro first_Rep) (auto simp: Suc_le_eq ascii_digit_def)
    from first_Opt [OF first_Cap [of _ "'':'' @ p" path "[]" 3]] first_Seq [OF first_Lit [of "'':''"] this]
    show ?thesis using Some by (simp add: tail_def)
  qed
  have "first_run (host_regex alpha) (scheme @ ''://'' @ host @ tail @ path)
      ([(1, scheme @ ''://'')] @ [(2, host)] @ (case port of None \<Rightarrow> [] | Some p \<Rightarrow> [(3, '':'' @ p)])
        @ (if path = [] then [] else [(4, path)]), [])"
    unfolding host_regex_def
    by (intro first_Seq [OF s1] first_Seq [OF s2] first_Seq [OF s3] first_rest path(2))
  from first_match [OF this] show ?thesis
    unfolding URLToHostName_def by (cases port; cases "path = []") (simp_all add: tail_def)
qed

theorem URLToHostName_components_witness:
  "URLToHostName ascii_alpha ''http://example.org:8080/a'' True True = ''http://example.org:8080''"
  using URLToHostName_components [of ascii_alpha "''http''" "''example.org''" "Some ''8080''" "''/a''" True True]
  by (simp add: ascii_alpha_def ascii_digit_def dot_def)

end
