(* ===== verification/DHCP_Tools.thy ===== *)
theory DHCP_Tools
  imports DHCP_Record Net_Common_Tools
begin

text \<open>
  \<^verbatim>\<open>src/src/protocol/dhcp/dhcp_tools.cpp\<close>: the names of operations, options and message types, the
  types of the option fields, and the textual form of a record (\<^verbatim>\<open>dump\<close>), which reads the data of
  each option through pointers into its string. The functions for \<^verbatim>\<open>dhclient\<close> run other programs
  and are not modelled.
\<close>

section \<open>Codes and names\<close>

fun OpToString :: "DHCP_Op \<Rightarrow> string" where
  "OpToString DHCP_OP_REQUEST = ''BOOTREQUEST''"
| "OpToString DHCP_OP_REPLY = ''BOOTREPLY''"
| "OpToString _ = ''INVALID/UNKNOWN''"

text \<open>
  An option and a message type are any byte cast to the enumeration; the tables hold the values
  of the enumerators of \<^verbatim>\<open>DHCP_Codes::OptionType\<close> and \<^verbatim>\<open>DHCP_Codes::MessageType\<close> that have a case.
\<close>

definition option_names :: "(u8 \<times> string) list" where
  "option_names =
    [(1, ''SUBNETMASK''), (2, ''TIMEOFFSET''), (3, ''GATEWAY''), (4, ''TIMESERVER''),
     (5, ''IEN116NAMESERVER''), (6, ''DOMAINNAMESERVER''), (7, ''LOGSERVER''), (8, ''COOKIESERVER''),
     (9, ''LPRSERVER''), (10, ''IMPRESSSERVER''), (11, ''RLPSERVER''), (12, ''HOSTNAME''),
     (13, ''BOOTFILESIZE''), (14, ''MERITDUMPFILE''), (15, ''DOMAINNAME''), (16, ''SWAPSERVER''),
     (17, ''ROOTPATH''), (26, ''IP_MTU''), (28, ''IP_BROADCASTADDRESS''), (42, ''DHCP_NTP_SERVER''),
     (43, ''DHCP_VENDORSPECIFICINFORMATION''), (51, ''DHCP_IPADDRESSLEASETIME''),
     (53, ''DHCP_MESSAGETYPE''), (54, ''DHCP_SERVERIDENTIFIER''), (58, ''DHCP_RENEWALT1TIME''),
     (59, ''DHCP_REBINDINGT2TIME''), (158, ''PCP_SERVER'')]"

definition OptionToString :: "u8 \<Rightarrow> string" where
  "OptionToString opt = (case map_of option_names opt of None \<Rightarrow> ''INVALID/UNKNOWN'' | Some s \<Rightarrow> s)"

definition message_type_names :: "(u8 \<times> string) list" where
  "message_type_names =
    [(1, ''DISCOVER''), (2, ''OFFER''), (3, ''REQUEST''), (4, ''DECLINE''), (5, ''ACK''), (6, ''NAK''),
     (7, ''RELEASE''), (8, ''INFORM''), (9, ''FORCERENEW''), (10, ''LEASEQUERY''),
     (11, ''LEASEUNASSIGNED''), (12, ''LEASEUNKNOWN''), (13, ''LEASEACTIVE''),
     (14, ''BULKLEASEQUERY''), (15, ''LEASEQUERYDONE''), (16, ''ACTIVELEASEQUERY''),
     (17, ''LEASEQUERYSTATUS''), (18, ''TLS'')]"

definition MessageTypeToString :: "u8 \<Rightarrow> string" where
  "MessageTypeToString t = (case map_of message_type_names t of None \<Rightarrow> ''INVALID/UNKNOWN'' | Some s \<Rightarrow> s)"

text \<open>The cast of a \<^verbatim>\<open>char\<close>, which is signed on the common platforms.\<close>

definition MessageTypeToType :: "string \<Rightarrow> int res" where
  "MessageTypeToType s = (case s of [c] \<Rightarrow> Inr (sint (byte_of c)) | _ \<Rightarrow> Inl Assertion)"

datatype field_type =
    DHCP_OPTION_FIELDTYPE_ADDRESS
  | DHCP_OPTION_FIELDTYPE_COMMAND
  | DHCP_OPTION_FIELDTYPE_INTEGER
  | DHCP_OPTION_FIELDTYPE_STRING
  | DHCP_OPTION_FIELDTYPE_ADDRESSES
  | DHCP_OPTION_FIELDTYPE_MAX
  | DHCP_OPTION_FIELDTYPE_INVALID

definition OptionToFieldType :: "u8 \<Rightarrow> field_type" where
  "OptionToFieldType opt =
    (if opt \<in> {1, 3, 6, 28, 54, 42} then DHCP_OPTION_FIELDTYPE_ADDRESS
     else if opt = 53 then DHCP_OPTION_FIELDTYPE_COMMAND
     else if opt \<in> {2, 26, 51, 58, 59} then DHCP_OPTION_FIELDTYPE_INTEGER
     else if opt \<in> {12, 15, 43} then DHCP_OPTION_FIELDTYPE_STRING
     else if opt = 158 then DHCP_OPTION_FIELDTYPE_ADDRESSES
     else DHCP_OPTION_FIELDTYPE_INVALID)"

definition dhcp_isRequest :: "DHCP_Record \<Rightarrow> bool" where
  "dhcp_isRequest r \<longleftrightarrow> operation r = DHCP_OP_REQUEST"

section \<open>Reading through pointers\<close>

text \<open>\<open>n\<close> bytes at offset \<open>k\<close> of the C string of an option: its data and a NUL.\<close>

definition peek :: "string \<Rightarrow> nat \<Rightarrow> nat \<Rightarrow> u8 list res" where
  "peek data k n =
    (if k + n \<le> length data + 1 then Inr (take n (drop k (bytes_of data @ [0]))) else Inl Undefined_Behaviour)"

definition peek_byte :: "string \<Rightarrow> nat \<Rightarrow> u8 res" where
  "peek_byte data k = bind_res (peek data k 1) (\<lambda>bs. Inr (hd bs))"

definition peek_long :: "host \<Rightarrow> string \<Rightarrow> nat \<Rightarrow> u32 res" where
  "peek_long hs data k = bind_res (peek data k 4) (\<lambda>bs. Inr (from_memory hs bs))"

definition dhcp_type :: "DHCP_Record \<Rightarrow> u8 res" where
  "dhcp_type r = (case map_find (<) 53 (options r) of None \<Rightarrow> Inl Assertion | Some data \<Rightarrow> peek_byte data 0)"

text \<open>\<^verbatim>\<open>rand_r\<close> gives a number and the next seed.\<close>

definition generateXID :: "('seed \<Rightarrow> int \<times> 'seed) \<Rightarrow> 'seed \<Rightarrow> u32 \<times> 'seed" where
  "generateXID rand_r seed = (let (n, seed') = rand_r seed in (word_of_int n, seed'))"

section \<open>The text of an option\<close>

type_synonym inet = "u16 \<Rightarrow> u32 \<Rightarrow> string option"

text \<open>\<open>n\<close> addresses from offset \<open>k\<close> on, numbered.\<close>

fun numbered :: "host \<Rightarrow> inet \<Rightarrow> string \<Rightarrow> nat \<Rightarrow> nat \<Rightarrow> nat \<Rightarrow> string res" where
  "numbered hs inet data k i 0 = Inr []"
| "numbered hs inet data k i (Suc n) =
    bind_res (peek_long hs data k) (\<lambda>ip.
    bind_res (numbered hs inet data (k + 4) (i + 1) n) (\<lambda>rest.
    Inr ([CHR 0x0A, CHR 0x09] @ ''#'' @ dec (i + 1) @ '': '' @ IPAddressToString inet 0 ip @ rest)))"

definition address_text :: "host \<Rightarrow> inet \<Rightarrow> string \<Rightarrow> string res" where
  "address_text hs inet data =
    (if length data mod 4 \<noteq> 0 then Inl Assertion
     else bind_res (peek_long hs data 0) (\<lambda>ip.
       if length data = 4 then Inr (IPAddressToString inet 0 ip)
       else numbered hs inet data 0 0 (length data div 4)))"

definition integer_text :: "host \<Rightarrow> string \<Rightarrow> string res" where
  "integer_text hs data =
    (if length data = 1 then bind_res (peek_byte data 0) (\<lambda>b. Inr (dec (unat b)))
     else if length data = 2 then
       bind_res (peek data 0 2) (\<lambda>bs. Inr (dec (unat (swapped_word hs (from_memory hs bs)))))
     else if length data = 4 then
       bind_res (peek_long hs data 0) (\<lambda>w. Inr (dec (unat (swapped_long hs w))))
     else Inr [])"

text \<open>
  The lists of option 158, from \<open>next_list\<close> on: \<open>p\<close> is the offset of the pointer, \<open>used\<close> the count
  \<^verbatim>\<open>used_bytes\<close>.
\<close>

function address_lists :: "host \<Rightarrow> inet \<Rightarrow> string \<Rightarrow> nat \<Rightarrow> nat \<Rightarrow> string res" where
  "address_lists hs inet data p used =
    (if length data < p then Inl Undefined_Behaviour
     else bind_res (peek_byte data p) (\<lambda>b.
       let n = unat b div 4; used' = used + n * 4
       in bind_res (numbered hs inet data (p + 1) 0 n) (\<lambda>text.
          if used' < length data
          then bind_res (address_lists hs inet data (p + 1 + n * 4) used') (\<lambda>rest. Inr (text @ rest))
          else Inr text)))"
  by pat_completeness auto
termination
  by (relation "measure (\<lambda>(hs, inet, data, p, used). length data + 1 - p)") auto

declare address_lists.simps [simp del]

definition addresses_text :: "host \<Rightarrow> inet \<Rightarrow> string \<Rightarrow> string res" where
  "addresses_text hs inet data =
    (if length data < 5 then Inl Assertion
     else bind_res (peek_byte data 0) (\<lambda>b.
       if unat b div 4 < 1 then Inl Assertion
       else bind_res (peek_long hs data 1) (\<lambda>ip.
         if unat b div 4 = 1 then Inr (IPAddressToString inet 0 ip)
         else address_lists hs inet data 1 1)))"

definition option_text :: "host \<Rightarrow> inet \<Rightarrow> u8 \<Rightarrow> string \<Rightarrow> string res" where
  "option_text hs inet opt data =
    (case OptionToFieldType opt of
       DHCP_OPTION_FIELDTYPE_ADDRESS \<Rightarrow> address_text hs inet data
     | DHCP_OPTION_FIELDTYPE_COMMAND \<Rightarrow>
         bind_res (peek_byte data 0) (\<lambda>b. Inr (MessageTypeToString b))
     | DHCP_OPTION_FIELDTYPE_STRING \<Rightarrow>
         Inr ([CHR 0x22] @ takeWhile (\<lambda>c. c \<noteq> CHR 0x00) data @ [CHR 0x22])
     | DHCP_OPTION_FIELDTYPE_INTEGER \<Rightarrow> integer_text hs data
     | DHCP_OPTION_FIELDTYPE_ADDRESSES \<Rightarrow> addresses_text hs inet data
     | _ \<Rightarrow> Inr [])"

fun options_text :: "host \<Rightarrow> inet \<Rightarrow> DHCP_Options \<Rightarrow> string res" where
  "options_text hs inet [] = Inr []"
| "options_text hs inet ((opt, data) # opts) =
    bind_res (option_text hs inet opt data) (\<lambda>text.
    bind_res (options_text hs inet opts) (\<lambda>rest.
    Inr (OptionToString opt @ '' ('' @ dec (unat opt) @ ''): '' @ [CHR 0x09] @ text @ [CHR 0x0A] @ rest)))"

section \<open>The text of a record\<close>

text \<open>A line with the name of a field, a colon, a space and a tab.\<close>

definition field_line :: "string \<Rightarrow> string \<Rightarrow> string" where
  "field_line name text = name @ '': '' @ [CHR 0x09] @ text @ [CHR 0x0A]"

definition in_quotes :: "string \<Rightarrow> string" where
  "in_quotes text = [CHR 0x22] @ text @ [CHR 0x22]"

definition dhcp_dump :: "host \<Rightarrow> inet \<Rightarrow> DHCP_Record \<Rightarrow> string res" where
  "dhcp_dump hs inet r =
    bind_res (LinkLayerAddressToString (chaddr r) NET_LINKLAYER_802_3) (\<lambda>mac.
    bind_res (options_text hs inet (options r)) (\<lambda>opts. Inr (
      field_line ''op'' (OpToString (operation r))
      @ field_line ''htype'' (dec (unat (htype r)))
      @ field_line ''hlen'' (dec (unat (hlen r)))
      @ field_line ''hops'' (dec (unat (hops r)))
      @ field_line ''xid'' (dec (unat (xid r)) @ '' (0x'' @ hex (unat (xid r)) @ '')'')
      @ field_line ''secs'' (dec (unat (secs r)))
      @ field_line ''flags'' (''0x'' @ hex (unat (flags r)))
      @ field_line ''ciaddr'' (IPAddressToString inet 0 (ciaddr r))
      @ field_line ''yiaddr'' (IPAddressToString inet 0 (yiaddr r))
      @ field_line ''siaddr'' (IPAddressToString inet 0 (siaddr r))
      @ field_line ''giaddr'' (IPAddressToString inet 0 (giaddr r))
      @ field_line ''chaddr'' mac
      @ field_line ''sname'' (in_quotes (sname r))
      @ field_line ''file'' (in_quotes (bootfile r))
      @ ''options ('' @ dec (length (options r)) @ ''):'' @ [CHR 0x0A]
      @ opts @ ''options /END'' @ [CHR 0x0A])))"

section \<open>When a record prints\<close>

lemma peek_ok: "k + n \<le> length data + 1 \<Longrightarrow> \<exists>bs. peek data k n = Inr bs"
  by (simp add: peek_def)

lemma peek_byte_ok: "k \<le> length data \<Longrightarrow> \<exists>b. peek_byte data k = Inr b"
  using peek_ok [of k 1 data] by (auto simp: peek_byte_def)

lemma peek_long_ok: "(\<exists>w. peek_long hs data k = Inr w) \<longleftrightarrow> k + 4 \<le> length data + 1"
  by (auto simp: peek_long_def peek_def)

lemma numbered_ok: "k + 4 * n \<le> length data + 1 \<Longrightarrow> \<exists>text. numbered hs inet data k i n = Inr text"
proof (induction n arbitrary: k i)
  case (Suc n)
  from Suc.prems obtain ip where "peek_long hs data k = Inr ip"
    using peek_long_ok [of hs data k] by auto
  with Suc.IH [of "k + 4" "i + 1"] Suc.prems show ?case by auto
qed simp

lemma numbered_overrun:
  "length data + 1 < k + 4 * n \<Longrightarrow> 0 < n \<Longrightarrow> numbered hs inet data k i n = Inl Undefined_Behaviour"
proof (induction n arbitrary: k i)
  case (Suc n)
  show ?case
  proof (cases "k + 4 \<le> length data + 1")
    case True
    then obtain ip where "peek_long hs data k = Inr ip" using peek_long_ok [of hs data k] by auto
    moreover from True Suc.prems have "0 < n" by (cases n) auto
    then have "numbered hs inet data (k + 4) (i + 1) n = Inl Undefined_Behaviour"
      using Suc.prems by (intro Suc.IH) auto
    ultimately show ?thesis by simp
  next
    case False
    then show ?thesis by (simp add: peek_long_def peek_def)
  qed
qed simp

text \<open>Which address options print: those that hold at least one address and nothing else.\<close>

lemma address_text_ok:
  "(\<exists>text. address_text hs inet data = Inr text) \<longleftrightarrow> data \<noteq> [] \<and> 4 dvd length data"
proof (cases "data \<noteq> [] \<and> 4 dvd length data")
  case True
  then have l: "4 \<le> length data" "length data mod 4 = 0" "4 * (length data div 4) = length data"
    by (auto intro: dvd_imp_le)
  from l(1) obtain ip where "peek_long hs data 0 = Inr ip" using peek_long_ok [of hs data 0] by auto
  moreover obtain t where "numbered hs inet data 0 0 (length data div 4) = Inr t"
    using numbered_ok [of 0 "length data div 4" data hs inet 0] l(3) by auto
  ultimately show ?thesis using True l(2) by (auto simp: address_text_def)
next
  case False
  then show ?thesis
    by (auto simp: address_text_def peek_long_def peek_def dvd_eq_mod_eq_0)
qed

lemma integer_text_ok: "\<exists>text. integer_text hs data = Inr text"
  by (auto simp: integer_text_def peek_byte_def peek_long_def peek_def)

lemma option_text_ok:
  assumes "opt \<noteq> 158"
  shows "(\<exists>text. option_text hs inet opt data = Inr text) \<longleftrightarrow>
    (OptionToFieldType opt = DHCP_OPTION_FIELDTYPE_ADDRESS \<longrightarrow> data \<noteq> [] \<and> 4 dvd length data)"
proof -
  have "OptionToFieldType opt \<noteq> DHCP_OPTION_FIELDTYPE_ADDRESSES"
    using assms by (auto simp: OptionToFieldType_def)
  then show ?thesis
    using integer_text_ok [of hs data] peek_byte_ok [of 0 data] address_text_ok [of hs inet data]
    by (cases "OptionToFieldType opt") (auto simp: option_text_def)
qed

lemma options_text_ok:
  "(\<exists>text. options_text hs inet opts = Inr text) \<longleftrightarrow>
   (\<forall>(opt, data) \<in> set opts. \<exists>text. option_text hs inet opt data = Inr text)"
  by (induction hs inet opts rule: options_text.induct) (auto simp: bind_res_eq_Inr)

text \<open>A record without PCP servers prints exactly when each of its address options (subnet mask, gateway,
  name servers, broadcast address, server identifier, time servers) holds at least one address and
  nothing else; an empty one is read behind its end.\<close>

theorem dhcp_dump_prints:
  assumes "record_ok r" "158 \<notin> fst ` set (options r)"
  shows "(\<exists>text. dhcp_dump hs inet r = Inr text) \<longleftrightarrow>
    (\<forall>(opt, data) \<in> set (options r). OptionToFieldType opt = DHCP_OPTION_FIELDTYPE_ADDRESS
       \<longrightarrow> data \<noteq> [] \<and> 4 dvd length data)"
proof -
  obtain mac where mac: "LinkLayerAddressToString (chaddr r) NET_LINKLAYER_802_3 = Inr mac"
    using assms(1) by (simp add: LinkLayerAddressToString_def record_ok_def DHCP_CHADDR_SIZE_def)
  have "(\<exists>text. dhcp_dump hs inet r = Inr text) \<longleftrightarrow> (\<exists>text. options_text hs inet (options r) = Inr text)"
    by (auto simp: dhcp_dump_def mac bind_res_eq_Inr)
  also have "\<dots> \<longleftrightarrow> (\<forall>(opt, data) \<in> set (options r). \<exists>text. option_text hs inet opt data = Inr text)"
    by (rule options_text_ok)
  also have "\<dots> \<longleftrightarrow> (\<forall>(opt, data) \<in> set (options r).
      OptionToFieldType opt = DHCP_OPTION_FIELDTYPE_ADDRESS \<longrightarrow> data \<noteq> [] \<and> 4 dvd length data)"
  proof (intro ball_cong refl, clarify)
    fix opt data assume "(opt, data) \<in> set (options r)"
    then have "opt \<noteq> 158" using assms(2) by force
    then show "(\<exists>text. option_text hs inet opt data = Inr text) \<longleftrightarrow>
        (OptionToFieldType opt = DHCP_OPTION_FIELDTYPE_ADDRESS \<longrightarrow> data \<noteq> [] \<and> 4 dvd length data)"
      by (rule option_text_ok)
  qed
  finally show ?thesis .
qed

text \<open>The list of PCP servers is misread: with one address the address is printed, but with two or more
  the length of the list is looked for behind itself, in the first octet of the first address, so
  that a list of two private addresses (10.x, 172.x, 192.168.x) is read behind its end.\<close>

theorem pcp_servers_misread:
  assumes "unat (byte_of n) = length addresses" "4 dvd length addresses" "addresses \<noteq> []"
  shows "if length addresses = 4
    then \<exists>ip. peek_long hs (n # addresses) 1 = Inr ip
           \<and> option_text hs inet 158 (n # addresses) = Inr (IPAddressToString inet 0 ip)
    else unat (byte_of (hd addresses)) div 4 * 4 > length addresses
      \<longrightarrow> option_text hs inet 158 (n # addresses) = Inl Undefined_Behaviour"
proof -
  have l: "4 \<le> length addresses" using assms(2,3) by (auto intro: dvd_imp_le)
  have d: "length addresses div 4 \<noteq> 0" "length addresses div 4 = 1 \<longleftrightarrow> length addresses = 4"
    using l assms(2) by auto
  have first: "peek_byte (n # addresses) 0 = Inr (byte_of n)"
    by (simp add: peek_byte_def peek_def bytes_of_def)
  obtain ip where ip: "peek_long hs (n # addresses) 1 = Inr ip"
    using peek_long_ok [of hs "n # addresses" 1] l by auto
  have "option_text hs inet 158 (n # addresses) =
    (if length addresses = 4 then Inr (IPAddressToString inet 0 ip)
     else address_lists hs inet (n # addresses) 1 1)"
    using l d by (simp add: option_text_def OptionToFieldType_def addresses_text_def first ip [unfolded One_nat_def] assms(1))
  moreover have "address_lists hs inet (n # addresses) 1 1 = Inl Undefined_Behaviour"
    if over: "unat (byte_of (hd addresses)) div 4 * 4 > length addresses"
  proof -
    have second: "peek_byte (n # addresses) 1 = Inr (byte_of (hd addresses))"
      using assms(3) by (cases addresses) (simp_all add: peek_byte_def peek_def bytes_of_def)
    have "numbered hs inet (n # addresses) 2 0 (unat (byte_of (hd addresses)) div 4) = Inl Undefined_Behaviour"
      using over by (intro numbered_overrun) auto
    then show ?thesis
      using second by (subst address_lists.simps) (simp add: Let_def numeral_2_eq_2)
  qed
  ultimately show ?thesis using ip by auto
qed

text \<open>A reply with a subnet mask.\<close>

definition dhcp_offer :: DHCP_Record where
  "dhcp_offer = new_DHCP_Record
     \<lparr>operation := DHCP_OP_REPLY, options := [(1, ''mask''), (53, [CHR 0x02])]\<rparr>"

theorem dhcp_dump_prints_witness:
  "\<exists>text. dhcp_dump little_host (\<lambda>port address. Some ''10.0.0.1:0'') dhcp_offer = Inr text"
proof -
  have "(4::nat) dvd Suc (Suc (Suc (Suc 0)))" by (rule dvdI [of _ _ 1]) simp
  then have "record_ok dhcp_offer" "158 \<notin> fst ` set (options dhcp_offer)"
    "\<forall>(opt, data) \<in> set (options dhcp_offer).
       OptionToFieldType opt = DHCP_OPTION_FIELDTYPE_ADDRESS \<longrightarrow> data \<noteq> [] \<and> 4 dvd length data"
    by (simp_all add: record_ok_def dhcp_offer_def new_DHCP_Record_def OptionToFieldType_def)
  then show ?thesis
    using dhcp_dump_prints [of dhcp_offer little_host "\<lambda>port address. Some ''10.0.0.1:0''"] by blast
qed

text \<open>Two addresses of the block 192.168.\<close>

theorem pcp_servers_misread_witness:
  "option_text little_host (\<lambda>port address. None) 158
     [CHR 0x08, CHR 0xC0, CHR 0xA8, CHR 0x00, CHR 0x01, CHR 0xC0, CHR 0xA8, CHR 0x00, CHR 0x02]
   = Inl Undefined_Behaviour"
proof -
  let ?a = "[CHR 0xC0, CHR 0xA8, CHR 0x00, CHR 0x01, CHR 0xC0, CHR 0xA8, CHR 0x00, CHR 0x02]"
  have "unat (byte_of CHR 0x08) = length ?a" "unat (byte_of (hd ?a)) = 192"
    by (simp_all add: unat_byte_of)
  moreover have "4 dvd length ?a" by (rule dvdI [of _ _ 2]) simp
  ultimately show ?thesis
    using pcp_servers_misread [of "CHR 0x08" ?a little_host "\<lambda>port address. None"] by simp
qed

end
