(* ===== verification/DHCP_Discover.thy ===== *)
theory DHCP_Discover
  imports DHCP_Parser DHCP_Tools Net_Session
begin

text \<open>
  The module that answers offers and learns the server
  (\<^verbatim>\<open>src/src/protocol/dhcp/dhcp_module_discover.inl\<close>): its reference to the connection of the
  session, its own connection, and the request it sends for an offer. Together with the parser and
  the streamer it is the client's half of the exchange of RFC 2131.
\<close>

section \<open>State\<close>

text \<open>
  The configuration: the connection configurations by name, those members of the stream
  configuration that the module reads or changes, and an own connection, which may be NULL.
\<close>

record 'addr discover_entry =
  peerAddress :: 'addr
  writeOnly :: bool
  interfaceIdentifier :: string
  defaultBufferSize :: "nat option"

record stream_setting =
  cloneModule :: bool
  finalModule :: "nat option"
  sessionId :: u32

record 'addr discover_configuration =
  entries :: "string \<Rightarrow> 'addr discover_entry option"
  ownConnection :: "conn option"
  streamSetting :: "stream_setting option"
  requestBroadcastReplies :: bool

text \<open>The module, with the three members of the session data it uses.\<close>

record 'addr discover =
  moduleName :: string
  discoverConfiguration :: "'addr discover_configuration"
  discoverHandle :: u32
  isSessionConnection :: bool
  sendRequestOnOffer :: bool
  sessionConnection :: "conn option"
  serverAddress :: 'addr
  sessionXid :: u32

text \<open>
  What the module calls beyond the lookups and connectors of \<open>session_env\<close> (there a connector
  is initialized with a flag that tells the broadcast connector, and a configuration).
  \<open>set_address\<close> is \<^verbatim>\<open>ACE_INET_Addr::set\<close> with a port and an address as they lie in memory, \<open>None\<close> for -1.
\<close>

record ('addr, 's) discover_env = "(bool \<times> 'addr discover_entry, 'addr, 's) session_env" +
  acquire :: "conn \<Rightarrow> 's \<Rightarrow> 's res"
  is_broadcast :: "'addr \<Rightarrow> bool"
  is_broadcast_stream :: "conn \<Rightarrow> bool"
  uses_reactor :: "bool \<Rightarrow> bool"
  is_any :: "'addr \<Rightarrow> bool"
  set_address :: "u16 \<Rightarrow> u32 \<Rightarrow> 'addr option"
  interface_mac :: "string \<Rightarrow> u8 list"
  allocate_message :: "nat \<Rightarrow> 's \<Rightarrow> bool \<times> 's"
  release_message :: "'s \<Rightarrow> 's"
  send_record :: "conn \<Rightarrow> DHCP_Record \<Rightarrow> 's \<Rightarrow> 's"
  dump_record :: "DHCP_Record \<Rightarrow> unit res"
  notify_abort :: "'s \<Rightarrow> 's"

text \<open>
  Whether the assertions of ACE are compiled in (they are not with \<^verbatim>\<open>ACE_NDEBUG\<close>) decides
  here whether an offer is answered at all, so it is the argument \<open>asserting\<close> of the operations. Without
  them the NULL pointer or the end iterator they guard is dereferenced.
\<close>

definition require :: "bool \<Rightarrow> 'a option \<Rightarrow> 'a res" where
  "require asserting p = (case p of
     None \<Rightarrow> Inl (if asserting then Assertion else Undefined_Behaviour) | Some x \<Rightarrow> Inr x)"

section \<open>Construction and initialization\<close>

definition new_discover :: "string \<Rightarrow> 'addr discover_configuration \<Rightarrow> 'addr \<Rightarrow> u32 \<Rightarrow> 'addr discover" where
  "new_discover name cfg address i = \<lparr>moduleName = name, discoverConfiguration = cfg,
     discoverHandle = ACE_INVALID_HANDLE, isSessionConnection = False, sendRequestOnOffer = False,
     sessionConnection = None, serverAddress = address, sessionXid = i\<rparr>"

definition discover_initialize :: "bool \<Rightarrow> 'addr discover_configuration \<Rightarrow> 'addr discover \<Rightarrow> 'addr discover" where
  "discover_initialize send cfg d = d\<lparr>sendRequestOnOffer := send, discoverConfiguration := cfg\<rparr>"

text \<open>The configuration under the name of the module, or else the one named Out, with its key.\<close>

definition find_entry :: "'addr discover \<Rightarrow> (string \<times> 'addr discover_entry) option" where
  "find_entry d = (case entries (discoverConfiguration d) (moduleName d) of
     Some x \<Rightarrow> Some (moduleName d, x)
   | None \<Rightarrow> map_option (Pair ''Out'') (entries (discoverConfiguration d) ''Out''))"

lemma find_entry_serverAddress [simp]: "find_entry (d\<lparr>serverAddress := a\<rparr>) = find_entry d"
  by (simp add: find_entry_def split: option.split)

section \<open>Connecting\<close>

text \<open>The handle and whether the connector uses the reactor; the reference of the lookup is given back on every path.\<close>

definition discover_connect :: "bool \<Rightarrow> ('addr, 's) discover_env \<Rightarrow> ('s \<Rightarrow> 's) list \<Rightarrow> ('s \<Rightarrow> 's) list
    \<Rightarrow> 'addr discover \<Rightarrow> 'addr \<Rightarrow> 's \<Rightarrow> ((u32 \<times> bool) \<times> 's) res" where
  "discover_connect asserting e polls waits d address s =
    bind_res (require asserting (find_entry d)) (\<lambda>(_, x).
      let bcast = is_broadcast e address;
          failed = (ACE_INVALID_HANDLE, False);
          (ok, s1) = connector_initialize e (bcast, x) s
      in if \<not> ok then Inr (failed, s1)
         else let (handle, s2) = connector_connect e address s1
              in if handle = ACE_INVALID_HANDLE then Inr (failed, s2)
                 else bind_res (if uses_reactor e bcast then look_id e handle s2 else poll_address (session_env.truncate e) address polls s2)
                   (\<lambda>(p, s3). case p of
                      None \<Rightarrow> Inr (failed, s3)
                    | Some c \<Rightarrow>
                        let (ready, s4) = wait_status (session_env.truncate e) c waits s3
                        in if ready \<and> (if bcast then is_broadcast_stream e c else is_stream e c)
                           then bind_res (release e c (wait_running e c s4)) (\<lambda>s5. Inr ((handle, uses_reactor e bcast), s5))
                           else bind_res (release e c s4) (\<lambda>s5. Inr (failed, s5))))"

section \<open>Session messages\<close>

text \<open>
  \<^verbatim>\<open>STREAM_SESSION_MESSAGE_BEGIN\<close>: the loop that waits for the connection with the id of the
  session. It keeps a connection that it found even when this is not up by the deadline.
\<close>

fun poll_session :: "('addr, 's) discover_env \<Rightarrow> u32 \<Rightarrow> conn option \<Rightarrow> ('s \<Rightarrow> 's) list \<Rightarrow> 's \<Rightarrow> (conn option \<times> 's) res" where
  "poll_session e i p [] s = (case p of None \<Rightarrow> look_id e i s | Some c \<Rightarrow> Inr (p, s))"
| "poll_session e i p (f # fs) s =
    bind_res (case p of None \<Rightarrow> look_id e i s | Some c \<Rightarrow> Inr (p, s)) (\<lambda>(p, s).
      case p of
        None \<Rightarrow> poll_session e i p fs (f s)
      | Some c \<Rightarrow> if status_ok e s c then Inr (p, s) else poll_session e i p fs (f s))"

definition discover_begin :: "bool \<Rightarrow> ('addr, 's) discover_env \<Rightarrow> ('s \<Rightarrow> 's) list \<Rightarrow> 'addr discover \<Rightarrow> 's
    \<Rightarrow> ('addr discover \<times> 's) res" where
  "discover_begin asserting e polls d s =
    (if asserting \<and> discoverHandle d \<noteq> ACE_INVALID_HANDLE then Inl Assertion
     else case ownConnection (discoverConfiguration d) of
       Some c \<Rightarrow> if asserting \<and> sessionConnection d \<noteq> None then Inl Assertion
         else Inr (d\<lparr>sessionConnection := Some c\<rparr>, s)
     | None \<Rightarrow> (case sessionConnection d of
         Some c \<Rightarrow> bind_res (acquire e c s) (\<lambda>s1. Inr (d\<lparr>isSessionConnection := True\<rparr>, s1))
       | None \<Rightarrow> bind_res (require asserting (streamSetting (discoverConfiguration d))) (\<lambda>st.
           if sessionId st = 0 then Inr (d, s)
           else bind_res (poll_session e (sessionId st) None polls s) (\<lambda>(p, s1). case p of
             None \<Rightarrow> Inr (d, notify_abort e s1)
           | Some c \<Rightarrow> Inr (d\<lparr>sessionConnection := Some c\<rparr>, s1)))))"

text \<open>
  \<^verbatim>\<open>STREAM_SESSION_MESSAGE_END\<close>, and the destructor, which leaves the handle and the flag as they
  are: the module's own connection is closed, a reference it took is given back, any other pointer is cleared.
\<close>

definition drop_connection :: "('addr, 's) discover_env \<Rightarrow> 'addr discover \<Rightarrow> 's \<Rightarrow> ('addr discover \<times> 's) res" where
  "drop_connection e d s =
    (case sessionConnection d of
       None \<Rightarrow> Inr (d, s)
     | Some c \<Rightarrow>
         if discoverHandle d \<noteq> ACE_INVALID_HANDLE
         then bind_res (release e c (close_conn e c s)) (\<lambda>s1. Inr (d\<lparr>sessionConnection := None\<rparr>, s1))
         else if isSessionConnection d then bind_res (release e c s) (\<lambda>s1. Inr (d, s1))
         else Inr (d\<lparr>sessionConnection := None\<rparr>, s))"

definition discover_end :: "('addr, 's) discover_env \<Rightarrow> 'addr discover \<Rightarrow> 's \<Rightarrow> ('addr discover \<times> 's) res" where
  "discover_end e d s =
    (if sessionConnection d = None then Inr (d, s)
     else bind_res (drop_connection e d s) (\<lambda>(d', s1).
       Inr (if discoverHandle d \<noteq> ACE_INVALID_HANDLE then d'\<lparr>discoverHandle := ACE_INVALID_HANDLE\<rparr>
            else if isSessionConnection d then d'\<lparr>isSessionConnection := False\<rparr> else d', s1)))"

definition discover_destroy :: "('addr, 's) discover_env \<Rightarrow> bool \<Rightarrow> 'addr discover \<Rightarrow> 's \<Rightarrow> 's res" where
  "discover_destroy e has_session_data d s =
    (if \<not> has_session_data then Inr s else bind_res (drop_connection e d s) (\<lambda>(_, s1). Inr s1))"

datatype session_message = Session_Begin | Session_End | Session_Other

definition discover_handleSessionMessage :: "bool \<Rightarrow> ('addr, 's) discover_env \<Rightarrow> ('s \<Rightarrow> 's) list \<Rightarrow> session_message
    \<Rightarrow> 'addr discover \<Rightarrow> 's \<Rightarrow> ('addr discover \<times> 's) res" where
  "discover_handleSessionMessage asserting e polls message d s = (case message of
     Session_Begin \<Rightarrow> discover_begin asserting e polls d s
   | Session_End \<Rightarrow> discover_end e d s
   | Session_Other \<Rightarrow> Inr (d, s))"

section \<open>Data messages\<close>

definition ETH_ALEN :: nat where "ETH_ALEN = 6"
definition DHCP_DEFAULT_SERVER_PORT :: u16 where "DHCP_DEFAULT_SERVER_PORT = 67"
definition DHCP_FLAGS_BROADCAST :: u16 where "DHCP_FLAGS_BROADCAST = 0x8000"
definition DHCP_MESSAGE_OFFER :: u8 where "DHCP_MESSAGE_OFFER = 2"

text \<open>The option tags of the requested address, the lease time, the message type and the server identifier.\<close>

definition OPTION_ADDRESS :: u8 where "OPTION_ADDRESS = 50"
definition OPTION_LEASE :: u8 where "OPTION_LEASE = 51"
definition OPTION_TYPE :: u8 where "OPTION_TYPE = 53"
definition OPTION_SERVER :: u8 where "OPTION_SERVER = 54"

text \<open>
  The connection of its own: while it connects, the address of the configuration is replaced and the final
  module of the stream hidden; both are put back on every path.
\<close>

definition set_fields :: "string \<Rightarrow> 'addr \<Rightarrow> bool \<Rightarrow> bool \<Rightarrow> nat option \<Rightarrow> 'addr discover \<Rightarrow> 'addr discover" where
  "set_fields key address wo clone module_p d =
    (let cfg = discoverConfiguration d in
     d\<lparr>discoverConfiguration := cfg
       \<lparr>entries := (entries cfg)(key := map_option (\<lambda>x. x\<lparr>peerAddress := address, writeOnly := wo\<rparr>) (entries cfg key)),
        streamSetting := map_option (\<lambda>st. st\<lparr>cloneModule := clone, finalModule := module_p\<rparr>) (streamSetting cfg)\<rparr>\<rparr>)"

definition discover_open :: "bool \<Rightarrow> ('addr, 's) discover_env \<Rightarrow> ('s \<Rightarrow> 's) list \<Rightarrow> ('s \<Rightarrow> 's) list
    \<Rightarrow> 'addr discover \<Rightarrow> 's \<Rightarrow> ('addr discover \<times> 's \<times> bool) res" where
  "discover_open asserting e polls waits d s =
    bind_res (require asserting (find_entry d)) (\<lambda>(key, x).
    bind_res (require asserting (streamSetting (discoverConfiguration d))) (\<lambda>st.
      let restore = set_fields key (peerAddress x) (writeOnly x) (cloneModule st) (finalModule st);
          d1 = set_fields key (serverAddress d) True False None d
      in bind_res (discover_connect asserting e polls waits d1 (serverAddress d1) s) (\<lambda>((handle, reactor), s1).
           let d2 = d1\<lparr>discoverHandle := handle\<rparr>
           in if handle = ACE_INVALID_HANDLE then Inr (restore d2, s1, False)
              else bind_res (if reactor then look_id e handle s1 else look_address e (serverAddress d2) s1) (\<lambda>(p, s2).
                Inr (restore (d2\<lparr>sessionConnection := p\<rparr>), s2, p \<noteq> None)))))"

text \<open>The server's address is learnt from any message while it is not known; the flag tells whether to go on.\<close>

definition discover_learn :: "bool \<Rightarrow> host \<Rightarrow> ('addr, 's) discover_env \<Rightarrow> ('s \<Rightarrow> 's) list \<Rightarrow> ('s \<Rightarrow> 's) list
    \<Rightarrow> 'addr discover \<Rightarrow> DHCP_Record \<Rightarrow> 's \<Rightarrow> ('addr discover \<times> 's \<times> bool) res" where
  "discover_learn asserting hs e polls waits d r s =
    (if \<not> is_any e (serverAddress d) then Inr (d, s, True)
     else case map_find (<) OPTION_SERVER (options r) of
       None \<Rightarrow> Inr (d, s, True)
     | Some data \<Rightarrow>
         if asserting \<and> length data \<noteq> 4 then Inl Assertion
         else bind_res (peek_long hs data 0) (\<lambda>ip.
           case set_address e (swapped_word hs DHCP_DEFAULT_SERVER_PORT) ip of
             None \<Rightarrow> Inr (d, s, False)
           | Some a \<Rightarrow>
               let d1 = d\<lparr>serverAddress := a\<rparr>
               in if sessionConnection d1 \<noteq> None then Inr (d1, s, True)
                  else discover_open asserting e polls waits d1 s))"

text \<open>The request for an offer.\<close>

definition discover_request :: "bool \<Rightarrow> host \<Rightarrow> bool \<Rightarrow> u8 list \<Rightarrow> DHCP_Record \<Rightarrow> DHCP_Record res" where
  "discover_request asserting hs broadcast_replies mac r =
    (if asserting \<and> \<not> DHCP_CHADDR_SIZE \<le> ETH_ALEN then Inl Assertion
     else bind_res (overwrite (replicate DHCP_CHADDR_SIZE 0) 0 (take ETH_ALEN mac)) (\<lambda>ch.
     bind_res (require asserting (map_find (<) OPTION_LEASE (options r))) (\<lambda>lease.
     bind_res (require asserting (map_find (<) OPTION_SERVER (options r))) (\<lambda>server.
     Inr (new_DHCP_Record\<lparr>operation := DHCP_OP_REQUEST, htype := 1, hlen := 6, xid := xid r, secs := secs r,
       flags := (if broadcast_replies then DHCP_FLAGS_BROADCAST else 0), chaddr := ch,
       options := map_insert (<) OPTION_SERVER server
         (map_insert (<) OPTION_TYPE [CHR 0x03]
         (map_insert (<) OPTION_LEASE lease
         (map_insert (<) OPTION_ADDRESS (string_of (in_memory hs 4 (yiaddr r))) [])))\<rparr>)))))"

definition discover_answer :: "bool \<Rightarrow> host \<Rightarrow> ('addr, 's) discover_env \<Rightarrow> 'addr discover \<Rightarrow> DHCP_Record \<Rightarrow> 's \<Rightarrow> 's res" where
  "discover_answer asserting hs e d r s =
    bind_res (require asserting (find_entry d)) (\<lambda>(_, x).
    bind_res (require asserting (defaultBufferSize x)) (\<lambda>n.
      let (ok, s1) = allocate_message e n s
      in if \<not> ok then Inr s1
         else bind_res (discover_request asserting hs (requestBroadcastReplies (discoverConfiguration d))
             (interface_mac e (interfaceIdentifier x)) r) (\<lambda>q.
           case sessionConnection d of
             None \<Rightarrow> Inr (release_message e s1)
           | Some c \<Rightarrow> if is_stream e c then Inr (send_record e c q s1) else Inr (release_message e s1))))"

text \<open>The type of a message, whose assertion guards an end iterator.\<close>

definition offered :: "bool \<Rightarrow> DHCP_Record \<Rightarrow> bool res" where
  "offered asserting r = (case dhcp_type r of
     Inl Assertion \<Rightarrow> require asserting None
   | Inl f \<Rightarrow> Inl f
   | Inr t \<Rightarrow> Inr (t = DHCP_MESSAGE_OFFER))"

text \<open>After the label \<^verbatim>\<open>continue_\<close>: only the state around the module changes.\<close>

definition discover_react :: "bool \<Rightarrow> host \<Rightarrow> ('addr, 's) discover_env \<Rightarrow> 'addr discover \<Rightarrow> DHCP_Record \<Rightarrow> 's \<Rightarrow> 's res" where
  "discover_react asserting hs e d r s =
    bind_res (if sendRequestOnOffer d then offered asserting r else Inr False) (\<lambda>offer.
      if \<not> offer then
        if operation r \<noteq> DHCP_OP_REPLY then Inr s
        else bind_res (dump_record e r) (\<lambda>_. Inr s)
      else if xid r \<noteq> sessionXid d then Inr s
      else discover_answer asserting hs e d r s)"

definition discover_handleDataMessage :: "bool \<Rightarrow> host \<Rightarrow> ('addr, 's) discover_env \<Rightarrow> ('s \<Rightarrow> 's) list \<Rightarrow> ('s \<Rightarrow> 's) list
    \<Rightarrow> 'addr discover \<Rightarrow> DHCP_Record \<Rightarrow> 's \<Rightarrow> ('addr discover \<times> 's) res" where
  "discover_handleDataMessage asserting hs e polls waits d r s =
    (if asserting \<and> (sessionConnection d = None \<or> find_entry d = None) then Inl Assertion
     else bind_res (discover_learn asserting hs e polls waits d r s) (\<lambda>(d1, s1, go_on).
       if \<not> go_on then Inr (d1, s1)
       else bind_res (discover_react asserting hs e d1 r s1) (\<lambda>s2. Inr (d1, s2))))"

section \<open>From an offer to the request\<close>

lemma map_find_member: "map_find (<) (k :: 'k::linorder) xs = Some v \<Longrightarrow> (k, v) \<in> set xs"
  by (induction xs) (auto split: if_splits)

text \<open>The request that RFC 2131 has for an offer, but for its seconds, which are those of the offer with their octets reversed.\<close>

definition rfc_request :: "host \<Rightarrow> bool \<Rightarrow> u8 list \<Rightarrow> string \<Rightarrow> string \<Rightarrow> DHCP_Record \<Rightarrow> DHCP_Record" where
  "rfc_request hs broadcast_replies mac lease server offer = new_DHCP_Record
     \<lparr>operation := DHCP_OP_REQUEST, htype := 1, hlen := 6, xid := xid offer,
      secs := swapped_word hs (secs offer), flags := (if broadcast_replies then DHCP_FLAGS_BROADCAST else 0),
      chaddr := mac @ replicate 10 0,
      options := [(OPTION_ADDRESS, string_of (octets 4 (yiaddr offer))), (OPTION_LEASE, lease),
        (OPTION_TYPE, [CHR 0x03]), (OPTION_SERVER, server)]\<rparr>"

lemmas option_tags = OPTION_ADDRESS_def OPTION_LEASE_def OPTION_TYPE_def OPTION_SERVER_def

lemma discover_request_received:
  assumes "host_laws hs" "length mac = 6"
    and "map_find (<) OPTION_LEASE (options offer) = Some lease" "map_find (<) OPTION_SERVER (options offer) = Some server"
  shows "discover_request False hs b mac ((reversed hs offer)\<lparr>cookie := 0\<rparr>) = Inr (rfc_request hs b mac lease server offer)"
proof -
  have "overwrite (replicate DHCP_CHADDR_SIZE 0) 0 (take ETH_ALEN mac) = Inr (mac @ replicate 10 0)"
    using overwrite_split [of "[]" 0 mac 16] assms(2) by (simp add: DHCP_CHADDR_SIZE_def ETH_ALEN_def)
  moreover have "in_memory hs 4 (swapped_long hs (yiaddr offer)) = octets 4 (yiaddr offer)"
    by (rule swapped_in_memory(1) [OF assms(1)])
  ultimately show ?thesis
    using assms(3,4) by (simp add: discover_request_def rfc_request_def reversed_def require_def option_tags)
qed

lemma rfc_request_streamable:
  assumes "length mac = 6" "length lease \<le> 255" "length server = 4"
  shows "streamable (rfc_request hs b mac lease server offer)"
  using assms by (simp add: streamable_def rfc_request_def new_DHCP_Record_def record_ok_def fits_def wire_options_def
      length_wire_option option_tags DHCP_CHADDR_SIZE_def)

text \<open>What the module and its environment must provide: it knows its connection, which is a stream, and can allocate.\<close>

definition ready_to_answer :: "('addr, 's) discover_env \<Rightarrow> 'addr discover \<Rightarrow> conn \<Rightarrow> u8 list \<Rightarrow> 's \<Rightarrow> 's \<Rightarrow> bool" where
  "ready_to_answer e d c mac s s1 \<longleftrightarrow> sessionConnection d = Some c \<and> is_stream e c \<and> sendRequestOnOffer d
     \<and> (\<exists>key x n. find_entry d = Some (key, x) \<and> defaultBufferSize x = Some n \<and> allocate_message e n s = (True, s1)
          \<and> interface_mac e (interfaceIdentifier x) = mac)
     \<and> (\<forall>port ip. is_any e (serverAddress d) \<longrightarrow> set_address e port ip \<noteq> None)"

lemma discover_learn_connected:
  assumes "ready_to_answer e d c mac s s1" "map_find (<) OPTION_SERVER (options r) = Some server" "length server = 4"
  shows "\<exists>a. discover_learn asserting hs e polls waits d r s = Inr (d\<lparr>serverAddress := a\<rparr>, s, True)"
proof (cases "is_any e (serverAddress d)")
  case True
  obtain ip where "peek_long hs server 0 = Inr ip" using peek_long_ok [of hs server 0] assms(3) by auto
  moreover obtain a where "set_address e (swapped_word hs DHCP_DEFAULT_SERVER_PORT) ip = Some a"
    using assms(1) True by (auto simp: ready_to_answer_def)
  ultimately show ?thesis
    using assms True by (intro exI [of _ a]) (simp add: discover_learn_def ready_to_answer_def)
next
  case False
  then show ?thesis
    by (intro exI [of _ "serverAddress d"]) (simp add: discover_learn_def)
qed

text \<open>C7: A build without assertions answers an offer as the protocol asks, through all three modules: an offer that
  arrives with the transaction id of the session and carries a lease time and a server identifier makes the
  module send a record whose streamed octets read as a request with that transaction id, the
  hardware address of the interface, the offered address and the identifier and lease time of
  the offer; only the seconds arrive with their octets reversed.\<close>

theorem offer_answered:
  assumes "host_laws hs" "little_endian hs" "mb_laws ops contents"
    and "contents m = []" "DHCP_MESSAGE_SIZE \<le> mb_capacity ops m" "548 \<le> mb_space ops m"
    and "streamable offer" "htype offer \<noteq> 0" "hlen offer \<noteq> 0" "xid offer \<noteq> 0"
    and "map_find (<) OPTION_TYPE (options offer) = Some [CHR 0x02]"
    and "map_find (<) OPTION_LEASE (options offer) = Some lease"
    and "map_find (<) OPTION_SERVER (options offer) = Some server" "length server = 4"
    and "ready_to_answer e d c mac s s1" "length mac = 6" "sessionXid d = xid offer"
  shows "\<exists>received d' q m'. dhcp_parse hs (dhcp_wire offer) new_DHCP_Record = Inr (received, True)
    \<and> discover_handleDataMessage False hs e polls waits d received s = Inr (d', send_record e c q s1)
    \<and> dhcp_handleDataMessage hs ops q m = Inr (m', True)
    \<and> parse_dhcp (contents m') = Some ((rfc_request hs (requestBroadcastReplies (discoverConfiguration d)) mac
        lease server offer)\<lparr>cookie := DHCP_MAGIC_COOKIE\<rparr>)"
proof -
  let ?r = "(reversed hs offer)\<lparr>cookie := 0\<rparr>"
    and ?q = "rfc_request hs (requestBroadcastReplies (discoverConfiguration d)) mac lease server offer"
  have r: "options ?r = options offer" "xid ?r = xid offer" by (simp_all add: reversed_def)
  have "length lease \<le> 255"
    using assms(7) map_find_member [OF assms(12)] by (fastforce simp: streamable_def fits_def)
  then have q: "streamable ?q" by (rule rfc_request_streamable [OF assms(16) _ assms(14)])
  from stream_streamable [OF assms(1-3) q assms(4-6)] parse_streamable [OF q] obtain m' where
    m': "dhcp_handleDataMessage hs ops ?q m = Inr (m', True)"
    "parse_dhcp (contents m') = Some (?q\<lparr>cookie := DHCP_MAGIC_COOKIE\<rparr>)" by metis
  from discover_learn_connected [OF assms(15), of ?r] r assms(13,14) obtain a where
    learn: "discover_learn False hs e polls waits d ?r s = Inr (d\<lparr>serverAddress := a\<rparr>, s, True)" by metis
  have "offered False ?r = Inr True"
    using assms(11) by (simp add: offered_def dhcp_type_def r(1) [simplified] option_tags peek_byte_def peek_def
        bytes_of_def byte_of_def DHCP_MESSAGE_OFFER_def)
  moreover note discover_request_received [OF assms(1,16,12,13)]
  ultimately have "discover_handleDataMessage False hs e polls waits d ?r s
      = Inr (d\<lparr>serverAddress := a\<rparr>, send_record e c ?q s1)"
    using learn assms(15,17) r(2)
    by (auto simp: discover_handleDataMessage_def discover_react_def ready_to_answer_def discover_answer_def require_def)
  with m' received_streamable [OF assms(1,7-10)] show ?thesis by blast
qed

lemma truncate_send [simp]: "session_env.truncate (e\<lparr>send_record := f\<rparr>) = session_env.truncate e"
  by (simp add: session_env.truncate_def)

lemma no_request: "discover_request True hs b mac r = Inl Assertion"
  by (simp add: discover_request_def DHCP_CHADDR_SIZE_def ETH_ALEN_def)

text \<open>C35: A build with assertions never sends a request: whatever the module receives, in whatever state,
  the outcome does not depend on what sending does, because each offer it would answer fails the assertion
  that the sixteen octets of a hardware address are no more than the six of an Ethernet one.\<close>

theorem offer_never_answered:
  "discover_handleDataMessage True hs (e\<lparr>send_record := f\<rparr>) polls waits d r s
    = discover_handleDataMessage True hs e polls waits d r s"
proof -
  have "discover_answer True hs (e\<lparr>send_record := f\<rparr>) d' r' s' = discover_answer True hs e d' r' s'" for d' r' s'
    by (simp add: discover_answer_def no_request Let_def cong: if_cong prod.case_cong)
  moreover have "discover_connect True (e\<lparr>send_record := f\<rparr>) polls waits d' a s'
      = discover_connect True e polls waits d' a s'" for d' a s'
    by (simp add: discover_connect_def Let_def cong: if_cong prod.case_cong option.case_cong)
  ultimately show ?thesis
    by (simp add: discover_handleDataMessage_def discover_react_def discover_learn_def discover_open_def Let_def
        cong: if_cong prod.case_cong option.case_cong)
qed

section \<open>The configuration\<close>

lemma require_Inr: "require asserting p = Inr x \<longleftrightarrow> p = Some x"
  by (simp add: require_def split: option.split)

lemma find_entry_key: "find_entry d = Some (key, x) \<Longrightarrow> entries (discoverConfiguration d) key = Some x"
  by (auto simp: find_entry_def split: option.splits)

lemma set_fields_restores:
  assumes "entries cfg key = Some x" "streamSetting cfg = Some st" "discoverConfiguration d = cfg"
    and "discoverConfiguration d' = discoverConfiguration (set_fields key address wo clone module_p d)"
  shows "discoverConfiguration (set_fields key (peerAddress x) (writeOnly x) (cloneModule st) (finalModule st) d') = cfg"
  using assms by (cases cfg) (simp add: set_fields_def Let_def fun_upd_idem)

lemma discover_open_configuration:
  assumes "discover_open asserting e polls waits d s = Inr (d', s', go_on)"
  shows "discoverConfiguration d' = discoverConfiguration d"
proof -
  obtain key x st where f: "find_entry d = Some (key, x)" "streamSetting (discoverConfiguration d) = Some st"
    using assms by (auto simp: discover_open_def bind_res_eq_Inr require_Inr)
  note restores = set_fields_restores [OF find_entry_key [OF f(1)] f(2) refl]
  obtain handle reactor s1 where c: "discover_connect asserting e polls waits
      (set_fields key (serverAddress d) True False None d) (serverAddress d) s = Inr ((handle, reactor), s1)"
    using assms f by (auto simp: discover_open_def bind_res_eq_Inr require_Inr Let_def set_fields_def)
  show ?thesis
    using assms restores unfolding discover_open_def
    by (auto simp: f require_def Let_def c bind_res_eq_Inr split: if_splits)
qed

text \<open>C34: The module does not keep what it borrows of the configuration: whatever a message makes it do, also when it
  connects to the server itself and fails, the address, the flags and the hidden final module of the
  configuration are in the end what they were.\<close>

theorem discover_configuration_kept:
  assumes "discover_handleDataMessage asserting hs e polls waits d r s = Inr (d', s')"
  shows "discoverConfiguration d' = discoverConfiguration d"
proof -
  obtain d1 s1 go_on where learn: "discover_learn asserting hs e polls waits d r s = Inr (d1, s1, go_on)"
    using assms by (auto simp: discover_handleDataMessage_def bind_res_eq_Inr split: if_splits)
  then have "d' = d1"
    using assms by (auto simp: discover_handleDataMessage_def bind_res_eq_Inr split: if_splits)
  moreover have "discoverConfiguration d1 = discoverConfiguration d"
    using learn by (auto simp: discover_learn_def bind_res_eq_Inr Let_def
        dest!: discover_open_configuration split: if_splits option.splits)
  ultimately show ?thesis by simp
qed

section \<open>References to connections\<close>

definition manager_acquire :: "('h, 'addr) conn_ops \<Rightarrow> conn \<Rightarrow> ('cfg, 'ud, 'time, 'h) manager
    \<Rightarrow> ('cfg, 'ud, 'time, 'h) manager res" where
  "manager_acquire ops c m =
    (case increase ops c (objects m) of None \<Rightarrow> Inl Uncaught | Some h \<Rightarrow> Inr (m\<lparr>objects := h\<rparr>))"

text \<open>The module on the connection manager.\<close>

definition discover_on_manager :: "('h, 'addr) conn_ops
    \<Rightarrow> ('addr, ('cfg, 'ud, 'time, 'h) manager) discover_env \<Rightarrow> ('addr, ('cfg, 'ud, 'time, 'h) manager) discover_env" where
  "discover_on_manager ops e = e\<lparr>look_id := get_by_id ops, look_address := (\<lambda>a. get_by_address ops a True),
     release := manager_release ops, acquire := manager_acquire ops\<rparr>"

lemma balanced_acquire:
  assumes "counting ops refs" "balanced refs own m"
  shows "\<exists>m'. manager_acquire ops c m = Inr m' \<and> balanced refs (own(c := Suc (own c))) m'"
proof -
  obtain h where "increase ops c (objects m) = Some h" "refs h = (refs (objects m))(c := Suc (refs (objects m) c))"
    using counting_increase [OF assms(1)] by metis
  with assms(2) show ?thesis by (auto simp: manager_acquire_def balanced_def)
qed

text \<open>Looking a connection up by the id of the session, however often.\<close>

lemma look_id_balanced:
  assumes "counting ops refs" "balanced refs own m" "i \<noteq> ACE_INVALID_HANDLE"
  shows "\<exists>p m'. get_by_id ops i m = Inr (p, m')
    \<and> balanced refs (case p of None \<Rightarrow> own | Some c \<Rightarrow> own(c := Suc (own c))) m'"
proof -
  obtain p m' where look: "get_by_id ops i m = Inr (p, m')" using get_by_id_valid [OF assms(1,3)] by blast
  with by_id.look_some [OF assms(1,2), of i _ m'] by_id.look_none [of ops i m m'] assms(2)
  show ?thesis by (cases p) auto
qed

lemma poll_session_found:
  assumes "\<forall>f \<in> set polls. keeps refs f" "balanced refs own m"
  shows "\<exists>m'. poll_session e i (Some c) polls m = Inr (Some c, m') \<and> balanced refs own m'"
  using assms by (induction polls arbitrary: m) (auto dest: keepsD)

lemma poll_session_balanced:
  assumes "counting ops refs" "i \<noteq> ACE_INVALID_HANDLE" "\<forall>f \<in> set polls. keeps refs f" "balanced refs own m"
  shows "\<exists>p m'. poll_session (discover_on_manager ops e) i None polls m = Inr (p, m')
    \<and> balanced refs (case p of None \<Rightarrow> own | Some c \<Rightarrow> own(c := Suc (own c))) m'"
  using assms(3,4)
proof (induction polls arbitrary: m)
  case Nil
  then show ?case
    using look_id_balanced [OF assms(1) _ assms(2), of own m] by (simp add: discover_on_manager_def)
next
  case (Cons f fs)
  obtain p m1 where look: "get_by_id ops i m = Inr (p, m1)"
    "balanced refs (case p of None \<Rightarrow> own | Some c \<Rightarrow> own(c := Suc (own c))) m1"
    using look_id_balanced [OF assms(1) Cons.prems(2) assms(2)] by blast
  let ?e = "discover_on_manager ops e"
  show ?case
  proof (cases p)
    case None
    with look Cons.prems have "balanced refs own (f m1)" by (auto dest: keepsD)
    with None look Cons.IH [of "f m1"] Cons.prems show ?thesis by (simp add: discover_on_manager_def)
  next
    case (Some c)
    let ?own = "own(c := Suc (own c))"
    from look Some Cons.prems have "balanced refs ?own (f m1)" by (auto dest: keepsD)
    then obtain m2 where "poll_session ?e i (Some c) fs (f m1) = Inr (Some c, m2)" "balanced refs ?own m2"
      using poll_session_found [of fs refs ?own "f m1" ?e i c] Cons.prems by auto
    with Some look show ?thesis by (auto simp: discover_on_manager_def)
  qed
qed

text \<open>Beginning and ending a session, by where the connection comes from.\<close>

definition idle :: "'addr discover \<Rightarrow> bool" where
  "idle d \<longleftrightarrow> discoverHandle d = ACE_INVALID_HANDLE \<and> \<not> isSessionConnection d
     \<and> (case ownConnection (discoverConfiguration d) of
          Some c \<Rightarrow> sessionConnection d = None
        | None \<Rightarrow> sessionConnection d = None \<longrightarrow> (case streamSetting (discoverConfiguration d) of
            None \<Rightarrow> False | Some st \<Rightarrow> sessionId st \<noteq> ACE_INVALID_HANDLE))"

definition found_by_id :: "'addr discover \<Rightarrow> 'addr discover \<Rightarrow> conn option" where
  "found_by_id d d1 = (if ownConnection (discoverConfiguration d) = None \<and> sessionConnection d = None
     then sessionConnection d1 else None)"

lemma begin_references:
  assumes "counting ops refs" "\<forall>f \<in> set polls. keeps refs f" "keeps refs (notify_abort e)"
    and "balanced refs own m" "idle d"
  shows "\<exists>d1 m1. discover_begin True (discover_on_manager ops e) polls d m = Inr (d1, m1)
    \<and> discoverHandle d1 = ACE_INVALID_HANDLE
    \<and> balanced refs (case found_by_id d d1 of Some c \<Rightarrow> own(c := Suc (own c))
        | None \<Rightarrow> if isSessionConnection d1 then own(the (sessionConnection d1) := Suc (own (the (sessionConnection d1)))) else own) m1
    \<and> (isSessionConnection d1 \<longrightarrow> sessionConnection d1 \<noteq> None \<and> found_by_id d d1 = None)"
proof -
  let ?cfg = "discoverConfiguration d"
  consider c where "ownConnection ?cfg = Some c"
    | c where "ownConnection ?cfg = None" "sessionConnection d = Some c"
    | "ownConnection ?cfg = None" "sessionConnection d = None" by (cases "ownConnection ?cfg"; cases "sessionConnection d") auto
  then show ?thesis
  proof cases
    case 1
    with assms(4,5) show ?thesis
      by (intro exI [of _ "d\<lparr>sessionConnection := Some c\<rparr>"] exI [of _ m])
        (simp add: discover_begin_def idle_def found_by_id_def)
  next
    case 2
    obtain m1 where "manager_acquire ops c m = Inr m1" "balanced refs (own(c := Suc (own c))) m1"
      using balanced_acquire [OF assms(1,4)] by blast
    with 2 assms(5) show ?thesis
      by (intro exI [of _ "d\<lparr>isSessionConnection := True\<rparr>"] exI [of _ m1])
        (simp add: discover_begin_def idle_def found_by_id_def discover_on_manager_def)
  next
    case 3
    then obtain st where st: "streamSetting ?cfg = Some st" "sessionId st \<noteq> ACE_INVALID_HANDLE"
      using assms(5) by (auto simp: idle_def split: option.splits)
    show ?thesis
    proof (cases "sessionId st = 0")
      case True
      with 3 st assms(4,5) show ?thesis
        by (intro exI [of _ d] exI [of _ m]) (simp add: discover_begin_def idle_def found_by_id_def require_def)
    next
      case False
      obtain p m1 where p: "poll_session (discover_on_manager ops e) (sessionId st) None polls m = Inr (p, m1)"
        "balanced refs (case p of None \<Rightarrow> own | Some c \<Rightarrow> own(c := Suc (own c))) m1"
        using poll_session_balanced [OF assms(1) st(2) assms(2,4)] by blast
      show ?thesis
      proof (cases p)
        case None
        then have "balanced refs own (notify_abort e m1)" using p(2) assms(3) by (auto dest: keepsD)
        moreover have "notify_abort (discover_on_manager ops e) = notify_abort e" by (simp add: discover_on_manager_def)
        ultimately show ?thesis
          using None 3 st False assms(5) p(1)
          by (intro exI [of _ d] exI [of _ "notify_abort e m1"])
            (simp add: discover_begin_def idle_def found_by_id_def require_def)
      next
        case (Some c)
        with 3 st False assms(5) p show ?thesis
          by (intro exI [of _ "d\<lparr>sessionConnection := Some c\<rparr>"] exI [of _ m1])
            (simp add: discover_begin_def idle_def found_by_id_def require_def)
      qed
    qed
  qed
qed

text \<open>C33: A connection that the module finds by the id of the session is never given back: a session that begins
  and ends, and the module's destruction after it, leave every reference as it was when the connection
  came from the configuration or from the session, but when the module looked it up itself, one
  reference to it stays, and the connection with it.\<close>

theorem discover_references:
  assumes "counting ops refs" "\<forall>f \<in> set polls. keeps refs f" "keeps refs (notify_abort e)"
    and "balanced refs own m" "idle d"
  shows "\<exists>d1 m1 d2 m2 m3. discover_begin True (discover_on_manager ops e) polls d m = Inr (d1, m1)
    \<and> discover_end (discover_on_manager ops e) d1 m1 = Inr (d2, m2)
    \<and> discover_destroy (discover_on_manager ops e) True d2 m2 = Inr m3
    \<and> balanced refs (case found_by_id d d1 of None \<Rightarrow> own | Some c \<Rightarrow> own(c := Suc (own c))) m3"
proof -
  let ?e = "discover_on_manager ops e"
  from begin_references [OF assms] obtain d1 m1 where
    b: "discover_begin True ?e polls d m = Inr (d1, m1)" "discoverHandle d1 = ACE_INVALID_HANDLE"
    and own: "balanced refs (case found_by_id d d1 of Some c \<Rightarrow> own(c := Suc (own c))
        | None \<Rightarrow> if isSessionConnection d1 then own(the (sessionConnection d1) := Suc (own (the (sessionConnection d1)))) else own) m1"
    and s: "isSessionConnection d1 \<Longrightarrow> sessionConnection d1 \<noteq> None \<and> found_by_id d d1 = None" by blast
  show ?thesis
  proof (cases "isSessionConnection d1")
    case False
    then obtain d2 where "discover_end ?e d1 m1 = Inr (d2, m1)" "discover_destroy ?e True d2 m1 = Inr m1"
      using b(2) by (cases "sessionConnection d1")
        (simp_all add: discover_end_def discover_destroy_def drop_connection_def)
    with b(1) own False show ?thesis
      by (intro exI [of _ d1] exI [of _ m1] exI [of _ d2] exI conjI) (simp_all split: option.splits)
  next
    case True
    with s obtain c where c: "sessionConnection d1 = Some c" "found_by_id d d1 = None" by blast
    with own True have "balanced refs (own(c := Suc (own c))) m1" by simp
    from balanced_release [OF assms(1) this, of c] obtain m2 where
      "manager_release ops c m1 = Inr m2" "balanced refs own m2" by auto
    with b c True show ?thesis
      by (intro exI [of _ d1] exI [of _ m1] exI [of _ "d1\<lparr>isSessionConnection := False\<rparr>"] exI [of _ m2])
        (simp add: discover_end_def discover_destroy_def drop_connection_def discover_on_manager_def)
  qed
qed

section \<open>An example\<close>

definition offer_example :: DHCP_Record where
  "offer_example = new_DHCP_Record\<lparr>operation := DHCP_OP_REPLY, htype := 1, hlen := 6, xid := 0x3903F326,
     secs := 4, yiaddr := 0xC0A8000A,
     options := [(51, [CHR 0x00, CHR 0x01, CHR 0x51, CHR 0x80]), (53, [CHR 0x02]),
       (54, [CHR 0xC0, CHR 0xA8, CHR 0x00, CHR 0x01])]\<rparr>"

text \<open>The state around the module is the manager; sending empties its list of connections, to be seen.\<close>

type_synonym demo_manager = "(unit, unit, nat, (conn \<Rightarrow> nat) \<times> (conn \<Rightarrow> u32)) manager"

definition demo_env :: "(u32, demo_manager) discover_env" where
  "demo_env = \<lparr>look_id = \<lambda>_ s. Inr (None, s), look_address = \<lambda>_ s. Inr (None, s), release = \<lambda>_ s. Inr s,
     close_conn = \<lambda>_ s. s, status_ok = \<lambda>_ _. True, is_stream = \<lambda>_. True,
     wait_running = \<lambda>_ s. s, connector_initialize = \<lambda>_ s. (True, s), connector_connect = \<lambda>a s. (a, s),
     acquire = \<lambda>_ s. Inr s, is_broadcast = \<lambda>_. False, is_broadcast_stream = \<lambda>_. False, uses_reactor = \<lambda>_. False,
     is_any = \<lambda>a. a = 0, set_address = \<lambda>_ ip. Some ip, interface_mac = \<lambda>_. [2, 0, 0, 0, 0, 1],
     allocate_message = \<lambda>_ s. (True, s), release_message = \<lambda>s. s, send_record = \<lambda>_ _ s. s\<lparr>connections := []\<rparr>,
     dump_record = \<lambda>_. Inr (), notify_abort = \<lambda>s. s\<rparr>"

definition demo_discover :: "conn option \<Rightarrow> u32 discover" where
  "demo_discover p = discover_initialize True
     \<lparr>entries = (\<lambda>_. None)(''Out'' \<mapsto> \<lparr>peerAddress = 0, writeOnly = False, interfaceIdentifier = ''eth0'',
         defaultBufferSize = Some 576\<rparr>),
      ownConnection = None, streamSetting = Some \<lparr>cloneModule = True, finalModule = None, sessionId = 7\<rparr>,
      requestBroadcastReplies = False\<rparr>
     ((new_discover ''Discover'' undefined 0 0x3903F326)\<lparr>sessionConnection := p\<rparr>)"

lemma offer_example_streamable: "streamable offer_example"
  by (simp add: streamable_def offer_example_def new_DHCP_Record_def record_ok_def fits_def wire_options_def
      length_wire_option DHCP_CHADDR_SIZE_def)

lemma demo_ready: "ready_to_answer demo_env (demo_discover (Some 3)) 3 [2, 0, 0, 0, 0, 1] m m"
  by (simp add: ready_to_answer_def demo_env_def demo_discover_def discover_initialize_def new_discover_def find_entry_def)

theorem offer_answered_witness:
  "\<exists>received d' q. dhcp_parse little_host (dhcp_wire offer_example) new_DHCP_Record = Inr (received, True)
    \<and> discover_handleDataMessage False little_host demo_env [] [] (demo_discover (Some 3)) received two_connections
       = Inr (d', two_connections\<lparr>connections := []\<rparr>)
    \<and> (\<exists>m'. dhcp_handleDataMessage little_host dhcp_block q (576, []) = Inr (m', True)
       \<and> map_option xid (parse_dhcp (snd m')) = Some 0x3903F326)"
proof -
  have o: "map_find (<) OPTION_TYPE (options offer_example) = Some [CHR 0x02]"
    "map_find (<) OPTION_LEASE (options offer_example) = Some [CHR 0x00, CHR 0x01, CHR 0x51, CHR 0x80]"
    "map_find (<) OPTION_SERVER (options offer_example) = Some [CHR 0xC0, CHR 0xA8, CHR 0x00, CHR 0x01]"
    "htype offer_example \<noteq> 0" "hlen offer_example \<noteq> 0" "xid offer_example = 0x3903F326"
    by (simp_all add: offer_example_def option_tags)
  have "sessionXid (demo_discover (Some 3)) = xid offer_example"
    by (simp add: o(6) demo_discover_def discover_initialize_def new_discover_def)
  from offer_answered [OF concrete_host_laws(1) _ dhcp_block_laws _ _ _ offer_example_streamable o(4,5) _ o(1-3) _
      demo_ready [of two_connections] _ this, of "(576, [])" "[]" "[]"]
  obtain received d' q m' where
    r: "dhcp_parse little_host (dhcp_wire offer_example) new_DHCP_Record = Inr (received, True)"
      "discover_handleDataMessage False little_host demo_env [] [] (demo_discover (Some 3)) received two_connections
         = Inr (d', send_record demo_env 3 q two_connections)"
      "dhcp_handleDataMessage little_host dhcp_block q (576, []) = Inr (m', True)"
      "\<exists>x. parse_dhcp (snd m') = Some x \<and> xid x = 0x3903F326"
    by (auto simp: o(6) little_host_def DHCP_MESSAGE_SIZE_def rfc_request_def)
  moreover have "send_record demo_env 3 q two_connections = two_connections\<lparr>connections := []\<rparr>"
    by (simp add: demo_env_def)
  ultimately show ?thesis
    by (intro exI [of _ received] exI [of _ d'] exI [of _ q] exI [of _ m'] conjI) auto
qed

theorem discover_configuration_kept_witness:
  "\<exists>d' s'. discover_handleDataMessage False little_host (demo_env\<lparr>connector_connect := \<lambda>_ s. (ACE_INVALID_HANDLE, s)\<rparr>) [] []
      (demo_discover None) offer_example two_connections = Inr (d', s')
    \<and> entries (discoverConfiguration d') = entries (discoverConfiguration (demo_discover None))"
proof -
  let ?e = "demo_env\<lparr>connector_connect := \<lambda>_ s. (ACE_INVALID_HANDLE, s)\<rparr>" and ?d = "demo_discover None"
  obtain d' s' where run:
    "discover_handleDataMessage False little_host ?e [] [] ?d offer_example two_connections = Inr (d', s')"
    by (simp add: discover_handleDataMessage_def discover_learn_def discover_open_def discover_connect_def demo_env_def
        demo_discover_def discover_initialize_def new_discover_def find_entry_def offer_example_def option_tags
        peek_long_def peek_def require_def set_fields_def Let_def)
  from discover_configuration_kept [OF this] run show ?thesis by auto
qed

theorem discover_references_witness:
  "\<exists>d1 m1 d2 m2 m3. discover_begin True (discover_on_manager (counter_ops id) demo_env) [] (demo_discover None) two_connections
      = Inr (d1, m1)
    \<and> discover_end (discover_on_manager (counter_ops id) demo_env) d1 m1 = Inr (d2, m2)
    \<and> discover_destroy (discover_on_manager (counter_ops id) demo_env) True d2 m2 = Inr m3 \<and> balanced fst (\<lambda>c. if c = 7 then 1 else 0) m3"
proof -
  let ?d = "demo_discover None" and ?e = "discover_on_manager (counter_ops id) demo_env"
  have i: "idle ?d" "keeps fst (notify_abort demo_env)"
    by (simp_all add: idle_def demo_discover_def discover_initialize_def new_discover_def keeps_def demo_env_def ACE_INVALID_HANDLE_def)
  obtain h where "increase (counter_ops id) 7 (objects two_connections) = Some h"
    using counting_increase [OF counter_ops_counting] by metis
  then have look: "get_by_id (counter_ops id) 7 two_connections = Inr (Some 7, two_connections\<lparr>objects := h\<rparr>)"
    by (simp add: get_by_id_def get_by_handle_def scan_find hand_out_def two_connections_simps ACE_INVALID_HANDLE_def)
  have "discover_begin True ?e [] ?d two_connections
      = Inr (?d\<lparr>sessionConnection := Some 7\<rparr>, two_connections\<lparr>objects := h\<rparr>)"
    using look by (simp add: discover_begin_def discover_on_manager_def demo_discover_def discover_initialize_def
        new_discover_def require_def)
  moreover have "found_by_id ?d (?d\<lparr>sessionConnection := Some 7\<rparr>) = Some 7"
    by (simp add: found_by_id_def demo_discover_def discover_initialize_def new_discover_def)
  moreover have "(\<lambda>_. 0)(7 := Suc 0) = (\<lambda>c::conn. if c = 7 then 1 else 0)" by auto
  ultimately show ?thesis
    using discover_references [OF counter_ops_counting _ i(2) two_connections_balanced i(1), of "[]"] by fastforce
qed

end
