(* ===== verification/Flex_Regex.thy ===== *)
theory Flex_Regex
  imports Net_Prelude
begin

text \<open>
  The patterns of a flex scanner: regular expressions over characters, their languages, and the longest match at the
  begin of a text, by derivatives. A scanner takes the rule with the longest match.
\<close>

section \<open>Patterns\<close>

datatype flex =
  FNone
| FEmpty
| FClass "char \<Rightarrow> bool"
| FSeq flex flex
| FAlt flex flex
| FStar flex

text \<open>The language of a pattern. Concatenations of words of a language are its repetitions.\<close>

fun lang :: "flex \<Rightarrow> string set" where
  "lang FNone = {}"
| "lang FEmpty = {[]}"
| "lang (FClass p) = {[c] |c. p c}"
| "lang (FSeq r s) = {u @ v |u v. u \<in> lang r \<and> v \<in> lang s}"
| "lang (FAlt r s) = lang r \<union> lang s"
| "lang (FStar r) = {concat ws |ws. set ws \<subseteq> lang r}"

text \<open>A literal text, a sequence and alternatives, an optional pattern, and one that is repeated at least once.\<close>

definition FChar :: "char \<Rightarrow> flex" where
  "FChar c = FClass (\<lambda>d. d = c)"

fun FText :: "string \<Rightarrow> flex" where
  "FText [] = FEmpty"
| "FText [c] = FChar c"
| "FText (c # d # s) = FSeq (FChar c) (FText (d # s))"

fun FSeqs :: "flex list \<Rightarrow> flex" where
  "FSeqs [] = FEmpty"
| "FSeqs [r] = r"
| "FSeqs (r # q # rs) = FSeq r (FSeqs (q # rs))"

fun FAlts :: "flex list \<Rightarrow> flex" where
  "FAlts [] = FNone"
| "FAlts [r] = r"
| "FAlts (r # q # rs) = FAlt r (FAlts (q # rs))"

definition FOpt :: "flex \<Rightarrow> flex" where "FOpt r = FAlt r FEmpty"

definition FPlus :: "flex \<Rightarrow> flex" where "FPlus r = FSeq r (FStar r)"

definition FTimes :: "nat \<Rightarrow> flex \<Rightarrow> flex" where "FTimes n r = FSeqs (replicate n r)"

section \<open>Matching\<close>

fun nullable :: "flex \<Rightarrow> bool" where
  "nullable FNone = False"
| "nullable FEmpty = True"
| "nullable (FClass p) = False"
| "nullable (FSeq r s) = (nullable r \<and> nullable s)"
| "nullable (FAlt r s) = (nullable r \<or> nullable s)"
| "nullable (FStar r) = True"

fun deriv :: "char \<Rightarrow> flex \<Rightarrow> flex" where
  "deriv c FNone = FNone"
| "deriv c FEmpty = FNone"
| "deriv c (FClass p) = (if p c then FEmpty else FNone)"
| "deriv c (FSeq r s) = (if nullable r then FAlt (FSeq (deriv c r) s) (deriv c s) else FSeq (deriv c r) s)"
| "deriv c (FAlt r s) = FAlt (deriv c r) (deriv c s)"
| "deriv c (FStar r) = FSeq (deriv c r) (FStar r)"

text \<open>The length of the longest match.\<close>

fun longest :: "flex \<Rightarrow> string \<Rightarrow> nat option" where
  "longest r [] = (if nullable r then Some 0 else None)"
| "longest r (c # s) = (case longest (deriv c r) s of
     Some n \<Rightarrow> Some (Suc n)
   | None \<Rightarrow> if nullable r then Some 0 else None)"

lemma nullable_lang: "nullable r \<longleftrightarrow> [] \<in> lang r"
  by (induction r) (auto intro: exI [of _ "[]"])

lemma Cons_concat:
  "(\<exists>ws. c # w = concat ws \<and> set ws \<subseteq> L) \<longleftrightarrow> (\<exists>u ws. c # u \<in> L \<and> w = u @ concat ws \<and> set ws \<subseteq> L)"
proof
  assume "\<exists>ws. c # w = concat ws \<and> set ws \<subseteq> L"
  then obtain ws where "c # w = concat ws" "set ws \<subseteq> L" by blast
  then show "\<exists>u ws. c # u \<in> L \<and> w = u @ concat ws \<and> set ws \<subseteq> L"
  proof (induction ws)
    case (Cons v ws)
    then show ?case by (cases v) auto
  qed simp
next
  assume "\<exists>u ws. c # u \<in> L \<and> w = u @ concat ws \<and> set ws \<subseteq> L"
  then obtain u ws where "c # w = concat ((c # u) # ws)" "set ((c # u) # ws) \<subseteq> L" by auto
  then show "\<exists>ws. c # w = concat ws \<and> set ws \<subseteq> L" by blast
qed

lemma deriv_lang: "w \<in> lang (deriv c r) \<longleftrightarrow> c # w \<in> lang r"
proof (induction r arbitrary: w)
  case (FSeq r s)
  have "c # w \<in> lang (FSeq r s) \<longleftrightarrow> (\<exists>u v. w = u @ v \<and> c # u \<in> lang r \<and> v \<in> lang s) \<or> [] \<in> lang r \<and> c # w \<in> lang s"
    by (auto simp: Cons_eq_append_conv)
  then show ?case using FSeq by (auto simp: nullable_lang)
next
  case (FStar r)
  have "c # w \<in> lang (FStar r) \<longleftrightarrow> (\<exists>ws. c # w = concat ws \<and> set ws \<subseteq> lang r)" by simp
  then show ?case using FStar by (auto simp: Cons_concat)
qed auto

text \<open>A whole text is a word of the language.\<close>

definition matches :: "flex \<Rightarrow> string \<Rightarrow> bool" where
  "matches r w = nullable (fold deriv w r)"

lemma matches_lang: "matches r w \<longleftrightarrow> w \<in> lang r"
  unfolding matches_def by (induction w arbitrary: r) (simp_all add: nullable_lang deriv_lang)

text \<open>A match is a word of the language at the begin of the text, and none is longer.\<close>

lemma longest_sound: "longest r s = Some n \<Longrightarrow> n \<le> length s \<and> take n s \<in> lang r"
proof (induction s arbitrary: r n)
  case (Cons c s)
  then show ?case
    by (auto simp: nullable_lang deriv_lang [symmetric] split: option.splits if_splits)
qed (auto simp: nullable_lang split: if_splits)

lemma longest_bound: "w \<in> lang r \<Longrightarrow> \<exists>n \<ge> length w. longest r (w @ t) = Some n"
proof (induction w arbitrary: r)
  case Nil
  then have "nullable r" by (simp add: nullable_lang)
  then show ?case by (cases t) (auto split: option.split)
next
  case (Cons c w)
  then have "w \<in> lang (deriv c r)" by (simp add: deriv_lang)
  from Cons.IH [OF this] show ?case by auto
qed

lemma longestI:
  assumes "w \<in> lang r" "\<And>w' t'. w @ t = w' @ t' \<Longrightarrow> w' \<in> lang r \<Longrightarrow> length w' \<le> length w"
  shows "longest r (w @ t) = Some (length w)"
proof -
  obtain n where n: "longest r (w @ t) = Some n" "length w \<le> n" using longest_bound [OF assms(1)] by blast
  from longest_sound [OF n(1)] have m: "n \<le> length (w @ t)" "take n (w @ t) \<in> lang r" by simp_all
  have "length (take n (w @ t)) \<le> length w"
    by (rule assms(2) [OF _ m(2), of "drop n (w @ t)"]) (rule append_take_drop_id [symmetric])
  then have "n \<le> length w" using m(1) by (simp only: length_take min_absorb2)
  with n show ?thesis by simp
qed

lemma longest_None: "(\<And>w t. s = w @ t \<Longrightarrow> w \<notin> lang r) \<Longrightarrow> longest r s = None"
  using longest_sound [of r s] append_take_drop_id [of _ s, symmetric] by (cases "longest r s") blast+

text \<open>A word without the last character of a match, by the first place where that character stands.\<close>

lemma until_first:
  assumes "c \<notin> set w" "w @ c # t = w' @ c # t'" "c \<notin> set w'"
  shows "w' = w"
  using assms
proof (induction w arbitrary: w')
  case Nil
  then show ?case by (cases w') auto
next
  case (Cons x w)
  then show ?case by (cases w') auto
qed


lemma lang_FChar [simp]: "lang (FChar c) = {[c]}"
  by (auto simp: FChar_def)

lemma lang_FText [simp]: "lang (FText s) = {s}"
  by (induction s rule: FText.induct) auto

lemma lang_Class_Seq [simp]: "lang (FSeq (FClass p) r) = {c # v |c v. p c \<and> v \<in> lang r}"
proof (intro set_eqI iffI)
  fix w assume "w \<in> {c # v |c v. p c \<and> v \<in> lang r}"
  then obtain c v where "w = [c] @ v" "[c] \<in> lang (FClass p)" "v \<in> lang r" by auto
  then show "w \<in> lang (FSeq (FClass p) r)" unfolding lang.simps(4) by blast
qed auto

lemma lang_Char_Seq [simp]: "lang (FSeq (FChar c) r) = {c # v |v. v \<in> lang r}"
  by (simp add: FChar_def)

lemma lang_Text_Seq [simp]: "lang (FSeq (FText s) r) = {s @ v |v. v \<in> lang r}"
  by auto

lemma lang_FPlus: "w \<in> lang (FPlus (FClass p)) \<longleftrightarrow> w \<noteq> [] \<and> list_all p w"
proof
  assume "w \<in> lang (FPlus (FClass p))"
  then obtain c ws where "w = c # concat ws" "p c" "set ws \<subseteq> {[d] |d. p d}" by (auto simp: FPlus_def)
  then show "w \<noteq> [] \<and> list_all p w" by (auto simp: list_all_iff)
next
  assume w: "w \<noteq> [] \<and> list_all p w"
  then obtain c v where v: "w = c # v" by (cases w) auto
  have "v = concat (map (\<lambda>d. [d]) v)" by simp
  moreover have "set (map (\<lambda>d. [d]) v) \<subseteq> {[d] |d. p d}" using w v by (auto simp: list_all_iff)
  ultimately have "v \<in> lang (FStar (FClass p))" unfolding lang.simps by blast
  moreover have "[c] \<in> lang (FClass p)" using w v by simp
  ultimately have "[c] @ v \<in> lang (FPlus (FClass p))" unfolding FPlus_def lang.simps(4) by blast
  with v show "w \<in> lang (FPlus (FClass p))" by simp
qed

section \<open>Characters of the words\<close>

text \<open>No word contains the character; every word does; every word begins with the quotation mark.\<close>

primrec avoids :: "char \<Rightarrow> flex \<Rightarrow> bool" where
  "avoids c FNone = True"
| "avoids c FEmpty = True"
| "avoids c (FClass p) = (\<not> p c)"
| "avoids c (FSeq r s) = (avoids c r \<and> avoids c s)"
| "avoids c (FAlt r s) = (avoids c r \<and> avoids c s)"
| "avoids c (FStar r) = avoids c r"

primrec needs :: "char \<Rightarrow> flex \<Rightarrow> bool" where
  "needs c FNone = True"
| "needs c FEmpty = False"
| "needs c (FClass p) = (\<forall>d. p d \<longrightarrow> d = c)"
| "needs c (FSeq r s) = (needs c r \<or> needs c s)"
| "needs c (FAlt r s) = (needs c r \<and> needs c s)"
| "needs c (FStar r) = False"

primrec quotes :: "flex \<Rightarrow> bool" where
  "quotes FNone = True"
| "quotes FEmpty = False"
| "quotes (FClass p) = (\<forall>d. p d \<longrightarrow> d = CHR 0x22)"
| "quotes (FSeq r s) = quotes r"
| "quotes (FAlt r s) = (quotes r \<and> quotes s)"
| "quotes (FStar r) = False"

text \<open>A line does not end before a quotation mark.\<close>

primrec calm :: "flex \<Rightarrow> bool" where
  "calm FNone = True"
| "calm FEmpty = True"
| "calm (FClass p) = (\<not> p (CHR 0x0D))"
| "calm (FSeq r s) = (calm r \<and> (quotes r \<or> calm s))"
| "calm (FAlt r s) = (calm r \<and> calm s)"
| "calm (FStar r) = calm r"

lemma avoids_lang: "avoids c r \<Longrightarrow> w \<in> lang r \<Longrightarrow> c \<notin> set w"
  by (induction r arbitrary: w) fastforce+

lemma needs_lang: "needs c r \<Longrightarrow> w \<in> lang r \<Longrightarrow> c \<in> set w"
  by (induction r arbitrary: w) auto

lemma quotes_lang: "quotes r \<Longrightarrow> w \<in> lang r \<Longrightarrow> \<exists>v. w = CHR 0x22 # v"
  by (induction r arbitrary: w) fastforce+

abbreviation unquoted :: "string \<Rightarrow> string" where "unquoted w \<equiv> takeWhile (\<lambda>c. c \<noteq> CHR 0x22) w"

lemma unquoted_append: "set (unquoted (u @ v)) \<subseteq> set (unquoted u) \<union> set (unquoted v)"
  by (induction u) auto

lemma unquoted_concat: "c \<in> set (unquoted (concat ws)) \<Longrightarrow> \<exists>w \<in> set ws. c \<in> set (unquoted w)"
  by (induction ws) (use unquoted_append in \<open>force+\<close>)

lemma calm_lang: "calm r \<Longrightarrow> w \<in> lang r \<Longrightarrow> CHR 0x0D \<notin> set (unquoted w)"
proof (induction r arbitrary: w)
  case (FSeq r s)
  then obtain u v where w: "w = u @ v" "u \<in> lang r" "v \<in> lang s" by auto
  show ?case
  proof (cases "quotes r")
    case True
    with w quotes_lang [of r u] show ?thesis by auto
  next
    case False
    with FSeq w have "CHR 0x0D \<notin> set (unquoted u) \<union> set (unquoted v)" by auto
    with w(1) unquoted_append [of u v] show ?thesis by blast
  qed
next
  case (FStar r)
  then show ?case using unquoted_concat by fastforce
qed auto

lemma FChar_chars [simp]:
  "avoids c (FChar d) \<longleftrightarrow> c \<noteq> d" "calm (FChar d) \<longleftrightarrow> CHR 0x0D \<noteq> d" "needs c (FChar d) \<longleftrightarrow> c = d" "quotes (FChar d) \<longleftrightarrow> CHR 0x22 = d"
  by (auto simp: FChar_def simp del: char.inject)

lemma avoids_FText [simp]: "avoids c (FText s) \<longleftrightarrow> c \<notin> set s"
  by (induction s rule: FText.induct) auto

lemma needs_FText [simp]: "needs c (FText s) \<longleftrightarrow> c \<in> set s"
  by (induction s rule: FText.induct) auto

lemma calm_FText: "c = CHR 0x0D \<Longrightarrow> c \<notin> set s \<Longrightarrow> calm (FText s)"
  by (induction s rule: FText.induct) auto

section \<open>Texts and lines\<close>

text \<open>A word up to the first place of a character that it does not contain.\<close>

lemma longest_until:
  assumes "avoids c r" "w \<in> lang r"
  shows "longest (FSeq r (FChar c)) (w @ c # t) = Some (Suc (length w))"
proof -
  have "longest (FSeq r (FChar c)) ((w @ [c]) @ t) = Some (length (w @ [c]))"
  proof (rule longestI)
    fix w' t' assume "(w @ [c]) @ t = w' @ t'" "w' \<in> lang (FSeq r (FChar c))"
    then obtain u where u: "w' = u @ [c]" "u \<in> lang r" "w @ c # t = u @ c # t'" by auto
    from until_first [OF avoids_lang [OF assms] u(3) avoids_lang [OF assms(1) u(2)]] u(1)
    show "length w' \<le> length (w @ [c])" by simp
  qed (use assms(2) in auto)
  then show ?thesis by simp
qed

lemma longest_until_None:
  assumes "avoids c r" "w \<notin> lang r" "c \<notin> set w"
  shows "longest (FSeq r (FChar c)) (w @ c # t) = None"
proof (rule longest_None)
  fix w' t' assume s: "w @ c # t = w' @ t'"
  show "w' \<notin> lang (FSeq r (FChar c))"
  proof
    assume "w' \<in> lang (FSeq r (FChar c))"
    then obtain u where u: "w' = u @ [c]" "u \<in> lang r" by auto
    from until_first [OF assms(3) _ avoids_lang [OF assms(1) u(2)], of t t'] s u assms(2) show False by auto
  qed
qed

lemma longest_text: "longest (FText s) (s @ t) = Some (length s)"
  by (rule longestI) auto

lemma longest_text_None: "\<nexists>t'. t = s @ t' \<Longrightarrow> longest (FText s) t = None"
  by (rule longest_None) auto

end
