(* ===== verification/HTTP_Scanner.thy ===== *)
theory HTTP_Scanner
  imports Flex_Regex Std_Regex HTTP_Streamer
begin

text \<open>
  The scanner of HTTP messages: the patterns of \<^verbatim>\<open>src/src/protocol/http/scripts/scanner.l\<close>, definition by definition, and the rules
  with their actions (\<^verbatim>\<open>http_scanner.cpp\<close>), for a parser that does not block and a message in a single fragment.
\<close>

section \<open>Characters\<close>

abbreviation code :: "char \<Rightarrow> nat" where "code \<equiv> of_char"

definition ctl :: "char \<Rightarrow> bool" where "ctl c \<longleftrightarrow> code c < 32 \<or> code c = 127"

definition decimal :: "char \<Rightarrow> bool" where "decimal c \<longleftrightarrow> code c \<in> {48..57}"

definition letter :: "char \<Rightarrow> bool" where "letter c \<longleftrightarrow> code c \<in> {65..90} \<union> {97..122}"

definition hexadecimal :: "char \<Rightarrow> bool" where
  "hexadecimal c \<longleftrightarrow> decimal c \<or> code c \<in> {65..70} \<union> {97..102}"

definition t_special :: "char \<Rightarrow> bool" where
  "t_special c \<longleftrightarrow> c \<in> set ''()<>@,;:\"/[]?={} '' \<or> code c \<in> {9, 92}"

definition token_char :: "char \<Rightarrow> bool" where
  "token_char c \<longleftrightarrow> code c < 128 \<and> \<not> ctl c \<or> t_special c"

definition blank_char :: "char \<Rightarrow> bool" where "blank_char c \<longleftrightarrow> code c \<in> {9, 10, 13, 32}"

definition comment_char :: "char \<Rightarrow> bool" where
  "comment_char c \<longleftrightarrow> (32 \<le> code c \<or> blank_char c) \<and> c \<notin> set ''()''"

definition quoted_char :: "char \<Rightarrow> bool" where
  "quoted_char c \<longleftrightarrow> 32 \<le> code c \<and> code c \<noteq> 34 \<or> blank_char c"

definition reserved :: "char \<Rightarrow> bool" where "reserved c \<longleftrightarrow> c \<in> set '';/?:@&=+''"

definition extra :: "char \<Rightarrow> bool" where "extra c \<longleftrightarrow> c \<in> set ''!*(),'' \<or> code c = 39"

definition safe :: "char \<Rightarrow> bool" where "safe c \<longleftrightarrow> c \<in> set ''$-_.''"

definition unsafe :: "char \<Rightarrow> bool" where "unsafe c \<longleftrightarrow> ctl c \<or> c \<in> set '' \"#%<>''"

definition national :: "char \<Rightarrow> bool" where
  "national c \<longleftrightarrow> \<not> (letter c \<or> decimal c \<or> reserved c \<or> extra c \<or> safe c \<or> unsafe c)"

definition unreserved :: "char \<Rightarrow> bool" where
  "unreserved c \<longleftrightarrow> national c \<or> letter c \<or> decimal c \<or> safe c \<or> extra c"

definition p_char :: "char \<Rightarrow> bool" where
  "p_char c \<longleftrightarrow> letter c \<or> decimal c \<or> safe c \<or> extra c \<or> c \<in> set ''%:@&=+'' \<or> national c"

definition reason_char :: "char \<Rightarrow> bool" where "reason_char c \<longleftrightarrow> 32 \<le> code c \<or> code c = 9"

section \<open>Patterns\<close>

definition SP :: flex where "SP = FChar CHR '' ''"
definition DIGIT :: flex where "DIGIT = FClass decimal"
definition HEX :: flex where "HEX = FClass hexadecimal"
definition CRLF :: flex where "CRLF = FText crlf"
definition TOKEN :: flex where "TOKEN = FClass token_char"
definition QUOTED_STRING :: flex where
  "QUOTED_STRING = FSeqs [FChar CHR 0x22, FStar (FClass quoted_char), FChar CHR 0x22]"
definition COMMENT :: flex where
  "COMMENT = FSeqs [FChar CHR 0x22, FStar (FClass comment_char), FChar CHR 0x22]"
definition WORD :: flex where "WORD = FAlt TOKEN QUOTED_STRING"
definition VERSION :: flex where "VERSION = FSeqs [FText ''HTTP/'', DIGIT, FChar CHR ''.'', DIGIT]"

text \<open>Identifiers of resources. A first segment is a single character.\<close>

definition ESCAPE :: flex where "ESCAPE = FSeqs [FChar CHR ''%'', HEX, HEX]"
definition RESERVED :: flex where "RESERVED = FClass reserved"
definition U_CHAR :: flex where "U_CHAR = FAlt (FClass unreserved) ESCAPE"
definition P_CHAR :: flex where "P_CHAR = FClass p_char"
definition F_SEGMENT :: flex where "F_SEGMENT = FTimes 1 P_CHAR"
definition SEGMENT :: flex where "SEGMENT = FStar P_CHAR"
definition PATH :: flex where "PATH = FSeq F_SEGMENT (FStar (FSeq (FChar CHR ''/'') SEGMENT))"
definition RELATIVE_PATH :: flex where "RELATIVE_PATH = FOpt PATH"
definition ABSOLUTE_PATH :: flex where "ABSOLUTE_PATH = FSeq (FChar CHR ''/'') RELATIVE_PATH"
definition SCHEME :: flex where "SCHEME = FPlus (FClass (\<lambda>c. letter c \<or> decimal c \<or> c \<in> set ''+-.''))"
definition ABSOLUTE_URI :: flex where
  "ABSOLUTE_URI = FSeqs [SCHEME, FChar CHR '':'', FStar (FAlt U_CHAR RESERVED)]"

text \<open>Dates.\<close>

definition WKDAY :: flex where
  "WKDAY = FAlts (map FText [''Mon'', ''Tue'', ''Wed'', ''Thu'', ''Fri'', ''Sat'', ''Sun''])"
definition MONTH :: flex where
  "MONTH = FAlts (map FText [''Jan'', ''Feb'', ''Mar'', ''Apr'', ''May'', ''Jun'', ''Jul'', ''Aug'', ''Sep'', ''Oct'', ''Nov'', ''Dec''])"
definition DATE1 :: flex where "DATE1 = FSeqs [FTimes 2 DIGIT, SP, MONTH, SP, FTimes 4 DIGIT]"
definition TIME_OF_DAY :: flex where
  "TIME_OF_DAY = FSeqs [FTimes 2 DIGIT, FChar CHR '':'', FTimes 2 DIGIT, FChar CHR '':'', FTimes 2 DIGIT]"
definition RFC1123_DATE :: flex where
  "RFC1123_DATE = FSeqs [WKDAY, FChar CHR '','', SP, DATE1, SP, TIME_OF_DAY, SP, FText ''GMT'']"
definition WEEKDAY :: flex where
  "WEEKDAY = FAlts (map FText [''Monday'', ''Tuesday'', ''Wednesday'', ''Thursday'', ''Friday'', ''Saturday'', ''Sunday''])"
definition DATE2 :: flex where
  "DATE2 = FSeqs [FTimes 2 DIGIT, FChar CHR ''-'', MONTH, FChar CHR ''-'', FTimes 2 DIGIT]"
definition RFC850_DATE :: flex where
  "RFC850_DATE = FSeqs [WEEKDAY, FChar CHR '','', SP, DATE2, SP, TIME_OF_DAY, SP, FText ''GMT'']"
definition ASCTIME_DATE :: flex where
  "ASCTIME_DATE = FSeqs [WKDAY, SP, DATE2, SP, TIME_OF_DAY, SP, FTimes 4 DIGIT]"
definition DATE :: flex where "DATE = FAlts [RFC1123_DATE, RFC850_DATE, ASCTIME_DATE]"

text \<open>Header fields. The value of \<open>Referer\<close> is, for want of braces, one of two literal texts.\<close>

definition CONTENT_CODING :: flex where
  "CONTENT_CODING = FAlts [FText ''x-gzip'', FText ''x-compress'', FPlus TOKEN]"
definition VALUE :: flex where "VALUE = FAlt (FPlus TOKEN) QUOTED_STRING"
definition TYPE_PARAMETER :: flex where "TYPE_PARAMETER = FSeqs [FPlus TOKEN, FChar CHR ''='', VALUE]"
definition MEDIA_TYPE :: flex where
  "MEDIA_TYPE = FSeqs [FPlus TOKEN, FChar CHR ''/'', FPlus TOKEN, FStar (FSeq (FChar CHR '';'') TYPE_PARAMETER)]"
definition PRODUCT :: flex where "PRODUCT = FSeq (FPlus TOKEN) (FOpt (FSeq (FChar CHR ''/'') (FPlus TOKEN)))"
definition HEADER :: flex where "HEADER = FSeqs [FPlus TOKEN, FChar CHR '':'', SP, FPlus TOKEN]"

definition PRAGMA_TOKEN :: flex where "PRAGMA_TOKEN = FSeq (FPlus TOKEN) (FOpt (FSeq (FChar CHR ''='') WORD))"
definition GENERAL_HEADER :: flex where
  "GENERAL_HEADER = FAlt (FSeqs [FText ''Date:'', SP, DATE])
     (FSeqs [FText ''Pragma:'', SP, FAlt (FText ''no-cache'') PRAGMA_TOKEN])"
definition REQUEST_HEADER :: flex where
  "REQUEST_HEADER = FAlts [FSeqs [FText ''Authorization:'', SP, FPlus TOKEN], FSeqs [FText ''From:'', SP, FPlus TOKEN],
     FSeqs [FText ''If-Modified-Since:'', SP, DATE],
     FSeqs [FText ''Referer:'', SP, FAlt (FText ''ABSOLUTE_URI'') (FText ''RELATIVE_URI'')],
     FSeqs [FText ''User-Agent:'', SP, FAlt PRODUCT COMMENT]]"

definition METHOD :: flex where "METHOD = FAlts (map FText [''GET'', ''HEAD'', ''POST''])"
definition REQUEST_URI :: flex where "REQUEST_URI = FAlt ABSOLUTE_URI ABSOLUTE_PATH"

definition REALM :: flex where "REALM = FSeq (FText ''realm='') QUOTED_STRING"
definition AUTH_PARAMETERS :: flex where
  "AUTH_PARAMETERS = FStar (FSeqs [FChar CHR '','', FPlus TOKEN, FChar CHR ''='', QUOTED_STRING])"
definition CHALLENGE :: flex where "CHALLENGE = FSeqs [FPlus TOKEN, SP, REALM, AUTH_PARAMETERS]"
definition RESPONSE_HEADER :: flex where
  "RESPONSE_HEADER = FAlts [FSeqs [FText ''Location:'', SP, ABSOLUTE_URI], FSeqs [FText ''Server:'', SP, FAlt PRODUCT COMMENT],
     FSeqs [FText ''WWW-Authenticate:'', SP, CHALLENGE]]"
definition REASON :: flex where "REASON = FStar (FClass reason_char)"
definition ENTITY_HEADER :: flex where
  "ENTITY_HEADER = FAlts [FSeqs [FText ''Allow:'', SP, FPlus METHOD], FSeqs [FText ''Content-Encoding:'', SP, CONTENT_CODING],
     FSeqs [FText ''Content-Length:'', SP, FPlus DIGIT], FSeqs [FText ''Content-Type:'', SP, MEDIA_TYPE],
     FSeqs [FText ''Expires:'', SP, DATE], FSeqs [FText ''Last-Modified:'', SP, DATE], HEADER]"

text \<open>Chunks.\<close>

definition CHUNK_EXTENSION :: flex where
  "CHUNK_EXTENSION = FSeq (FPlus TOKEN) (FOpt (FAlt (FSeq (FChar CHR ''='') (FPlus TOKEN)) QUOTED_STRING))"
definition CHUNK_LINE :: flex where
  "CHUNK_LINE = FSeq (FPlus HEX) (FStar (FSeq (FChar CHR '';'') CHUNK_EXTENSION))"


section \<open>Tokens\<close>

datatype http_condition =
  In_INITIAL | In_request | In_uri | In_version | In_request_headers | In_response | In_status | In_reason
| In_response_headers | In_body | In_chunked_body | In_chunk

datatype http_token =
  T_METHOD string | T_URI string | T_VERSION string | T_HEADER string | T_DELIMITER | T_STATUS string | T_REASON string
| T_BODY u32 | T_CHUNK | T_END_OF_FRAGMENT | T_END

text \<open>What the scanner and the parser use of the common library, and whether assertions are compiled.\<close>

record http_env =
  lower :: "string \<Rightarrow> string"
  strip :: "string \<Rightarrow> string"
  http_asserts :: bool

definition http_fault :: "http_env \<Rightarrow> fault" where
  "http_fault e = (if http_asserts e then Assertion else Undefined_Behaviour)"

text \<open>
  \<^verbatim>\<open>operator>>\<close> for an unsigned number of 32 bits: white space is skipped; a sign may stand before the digits,
  a minus negates the number; too large a number is stored as the largest, and without digits the number is zero.
\<close>

definition white :: "char \<Rightarrow> bool" where "white c \<longleftrightarrow> code c \<in> {9..13} \<union> {32}"

definition read_unsigned :: "nat \<Rightarrow> (char \<Rightarrow> bool) \<Rightarrow> string \<Rightarrow> u32" where
  "read_unsigned base p s =
    (let t = dropWhile white s;
         d = takeWhile p (if t \<noteq> [] \<and> hd t \<in> {CHR ''+'', CHR ''-''} then tl t else t);
         n = parse_base base (map to_lower d)
     in if 2 ^ 32 \<le> n then - 1 else if t \<noteq> [] \<and> hd t = CHR ''-'' then - word_of_nat n else word_of_nat n)"

definition HTTP_PRT_HEADER_TRANSFER_ENCODING_STRING :: string where
  "HTTP_PRT_HEADER_TRANSFER_ENCODING_STRING = ''Transfer-Encoding''"
definition HTTP_PRT_TRANSFER_ENCODING_CHUNKED_STRING :: string where
  "HTTP_PRT_TRANSFER_ENCODING_CHUNKED_STRING = ''chunked''"

definition find_header :: "http_env \<Rightarrow> string \<Rightarrow> headers \<Rightarrow> string option" where
  "find_header e k hs = map_find ci_less (lower e k) hs"

section \<open>Rules\<close>

text \<open>
  A rule takes a text from the current fragment: its token, the condition it leaves the scanner in, and what is left of the
  fragment. \<open>ending\<close> characters at the end of the match are not part of the value. A character that no rule begins with is the
  end of the fragment; it is not taken.
\<close>

type_synonym taken = "http_token \<times> http_condition \<times> string"

definition take_rule :: "flex \<Rightarrow> nat \<Rightarrow> (string \<Rightarrow> http_token) \<Rightarrow> http_condition \<Rightarrow> http_condition \<Rightarrow> string \<Rightarrow> taken" where
  "take_rule r ending f k' k s = (case longest r s of
     Some n \<Rightarrow> (f (take (n - ending) s), k', drop n s)
   | None \<Rightarrow> (T_END_OF_FRAGMENT, k, s))"

text \<open>Of two rules that match equally much the first is taken: a match of the second has to be longer.\<close>

definition longer :: "nat option \<Rightarrow> nat option \<Rightarrow> bool" where
  "longer m n \<longleftrightarrow> (case m of None \<Rightarrow> False | Some i \<Rightarrow> (case n of None \<Rightarrow> True | Some j \<Rightarrow> j < i))"

text \<open>The header fields, up to the empty line. The rules for the kinds of fields have the same action.\<close>

definition header_rule :: "flex \<Rightarrow> http_condition \<Rightarrow> http_condition \<Rightarrow> string \<Rightarrow> taken" where
  "header_rule lines k' k s =
    (if longer (longest CRLF s) (longest (FSeq lines CRLF) s) then take_rule CRLF 0 (\<lambda>_. T_DELIMITER) k' k s
     else take_rule (FSeq lines CRLF) 2 T_HEADER k k s)"

definition REQUEST_FIELDS :: flex where
  "REQUEST_FIELDS = FAlts [GENERAL_HEADER, REQUEST_HEADER, ENTITY_HEADER]"
definition RESPONSE_FIELDS :: flex where
  "RESPONSE_FIELDS = FAlts [GENERAL_HEADER, RESPONSE_HEADER, ENTITY_HEADER]"

text \<open>The empty line behind the header fields of a response: what follows depends on what the parser has stored of them.\<close>

definition body_condition :: "http_env \<Rightarrow> headers \<Rightarrow> http_condition" where
  "body_condition e hs =
    (if find_header e HTTP_PRT_HEADER_CONTENT_LENGTH_STRING hs \<noteq> None then In_body
     else case find_header e HTTP_PRT_HEADER_TRANSFER_ENCODING_STRING hs of
       Some v \<Rightarrow> if map to_lower (strip e v) = HTTP_PRT_TRANSFER_ENCODING_CHUNKED_STRING then In_chunked_body
                 else In_response_headers
     | None \<Rightarrow> In_response_headers)"

text \<open>
  The entity: all that there is of the fragment, which stays there. When its length is not the one announced the
  scanner goes on and finds the end of the data.
\<close>

definition body_rule :: "http_env \<Rightarrow> headers \<Rightarrow> string \<Rightarrow> taken res" where
  "body_rule e hs s = (case find_header e HTTP_PRT_HEADER_CONTENT_LENGTH_STRING hs of
     None \<Rightarrow> Inl (http_fault e)
   | Some v \<Rightarrow> (let n = read_unsigned 10 decimal v
       in Inr (if n - word_of_nat (length s) = 0 then (T_BODY n, In_INITIAL, s) else (T_END, In_body, s))))"

section \<open>Chunks\<close>

text \<open>
  The fragments of a message: those the scanner has left behind in one step, and the current one with those behind it.
  Only the action for a chunk moves on to another fragment.
\<close>

type_synonym scanned = "(http_token \<times> http_condition \<times> string list \<times> string list) res"

definition stay :: "string list \<Rightarrow> taken \<Rightarrow> scanned" where
  "stay rest x = (case x of (t, k, s) \<Rightarrow> Inr (t, k, [], s # rest))"

text \<open>
  The data of a chunk becomes a fragment of its own. In the next one the line end is skipped; when it was all
  that there is the scanner needs another fragment.
\<close>

definition chunk_data :: "http_env \<Rightarrow> u32 \<Rightarrow> string \<Rightarrow> string list \<Rightarrow> scanned" where
  "chunk_data e n s rest =
    (if length s < unat n then Inr (T_END_OF_FRAGMENT, In_chunk, [], s # rest)
     else case (if length s = unat n then rest else drop (unat n) s # rest) of
       [] \<Rightarrow> Inr (T_END, In_chunk, [], [s])
     | t # rest' \<Rightarrow>
         if length t < 2 then Inl (http_fault e)
         else if http_asserts e \<and> take 2 t \<noteq> crlf then Inl Assertion
         else if 2 < length t then Inr (T_CHUNK, In_chunked_body, [take (unat n) s], drop 2 t # rest')
         else if rest' = [] then Inr (T_END, In_chunk, [take (unat n) s], [[]])
         else Inr (T_CHUNK, In_chunked_body, [take (unat n) s, []], rest'))"

text \<open>The expression that the action applies to the line of a chunk: a number and extensions, none of them over a line end.\<close>

definition chunk_line_ok :: "string \<Rightarrow> bool" where
  "chunk_line_ok l \<longleftrightarrow> (let t = dropWhile hexadecimal l in t = [] \<or> 2 \<le> length t \<and> hd t = CHR '';'' \<and> list_all dot t)"

definition chunk_rule :: "http_env \<Rightarrow> nat \<Rightarrow> string \<Rightarrow> string list \<Rightarrow> scanned" where
  "chunk_rule e i s rest =
    (let l = take (i - 2) s; n = read_unsigned 16 hexadecimal (takeWhile hexadecimal l)
     in if \<not> chunk_line_ok l then Inr (T_END, In_chunked_body, [], s # rest)
        else if n = 0 then Inr (T_CHUNK, In_chunked_body, [], drop i s # rest)
        else chunk_data e n (drop i s) rest)"

definition chunked_rule :: "http_env \<Rightarrow> string \<Rightarrow> string list \<Rightarrow> scanned" where
  "chunked_rule e s rest = (case longest (FSeq CHUNK_LINE CRLF) s of
     Some i \<Rightarrow>
       if longer (longest (FSeq ENTITY_HEADER CRLF) s) (Some i)
       then stay rest (take_rule (FSeq ENTITY_HEADER CRLF) 2 T_HEADER In_chunked_body In_chunked_body s)
       else chunk_rule e i s rest
   | None \<Rightarrow> stay rest (header_rule ENTITY_HEADER In_INITIAL In_chunked_body s))"

section \<open>The scanner\<close>

text \<open>
  \<^verbatim>\<open>yylex\<close> of a parser that does not block (\<^verbatim>\<open>isBlocking ()\<close> is false, the branches in which it waits for
  another fragment in the middle of a message are not modelled): the next token of the current fragment, for the start condition and the
  headers stored so far.
\<close>

definition first_rule :: "string \<Rightarrow> taken" where
  "first_rule s =
    (if longest VERSION s \<noteq> None then take_rule (FSeq VERSION SP) 1 T_VERSION In_status In_response s
     else if longest METHOD s \<noteq> None then take_rule (FSeq METHOD SP) 1 T_METHOD In_uri In_request s
     else (T_END_OF_FRAGMENT, In_INITIAL, s))"

fun http_lex :: "http_env \<Rightarrow> http_condition \<Rightarrow> headers \<Rightarrow> string list \<Rightarrow> scanned" where
  "http_lex e k hs [] = Inl (http_fault e)"
| "http_lex e k hs ([] # rest) = Inr (T_END, k, [], [] # rest)"
| "http_lex e k hs ((c # s) # rest) = (case k of
     In_INITIAL \<Rightarrow> stay rest (first_rule (c # s))
   | In_request \<Rightarrow> stay rest (take_rule (FSeq METHOD SP) 1 T_METHOD In_uri k (c # s))
   | In_uri \<Rightarrow> stay rest (take_rule (FSeq REQUEST_URI SP) 1 T_URI In_version k (c # s))
   | In_version \<Rightarrow> stay rest (take_rule (FSeq VERSION CRLF) 2 T_VERSION In_request_headers k (c # s))
   | In_request_headers \<Rightarrow> stay rest (header_rule REQUEST_FIELDS In_body k (c # s))
   | In_response \<Rightarrow> stay rest (take_rule (FSeq VERSION SP) 1 T_VERSION In_status k (c # s))
   | In_status \<Rightarrow> stay rest (take_rule (FSeq (FTimes 3 DIGIT) SP) 1 T_STATUS In_reason k (c # s))
   | In_reason \<Rightarrow> stay rest (take_rule (FSeq REASON CRLF) 2 T_REASON In_response_headers k (c # s))
   | In_response_headers \<Rightarrow> stay rest (header_rule RESPONSE_FIELDS (body_condition e hs) k (c # s))
   | In_body \<Rightarrow> bind_res (body_rule e hs (c # s)) (stay rest)
   | In_chunked_body \<Rightarrow> chunked_rule e (c # s) rest
   | In_chunk \<Rightarrow> stay rest (take_rule (FSeq CHUNK_LINE CRLF) 0 (\<lambda>_. T_CHUNK) In_chunked_body k (c # s)))"

section \<open>Lines\<close>

text \<open>A line without quotation marks, up to its end.\<close>

definition plain_line :: "string \<Rightarrow> bool" where
  "plain_line w \<longleftrightarrow> CHR 0x0D \<notin> set w \<and> CHR 0x22 \<notin> set w"

lemma rule_line_unique:
  assumes "calm r" "u \<in> lang r" "plain_line w" "w @ crlf @ t = u @ crlf @ t'"
  shows "u = w"
proof (cases "length u" "length w" rule: linorder_cases)
  case less
  then have "u @ [CHR 0x0D] = take (Suc (length u)) (w @ crlf @ t)" using assms(4) by (simp add: crlf_def)
  also have "\<dots> = take (Suc (length u)) w" using less by simp
  finally have "CHR 0x0D \<in> set w" by (metis in_set_takeD last_in_set snoc_eq_iff_butlast)
  with assms(3) show ?thesis by (simp add: plain_line_def)
next
  case equal
  with assms(4) show ?thesis by simp
next
  case greater
  then have "w @ [CHR 0x0D] = take (Suc (length w)) (u @ crlf @ t')" using assms(4) [symmetric] by (simp add: crlf_def)
  also have "\<dots> = take (Suc (length w)) u" using greater by simp
  finally obtain v where v: "u = w @ CHR 0x0D # v"
    by (metis append_Cons append_assoc append_take_drop_id self_append_conv2)
  have "unquoted u = w @ unquoted (CHR 0x0D # v)"
    using assms(3) unfolding v plain_line_def by (subst takeWhile_append2) auto
  then have "CHR 0x0D \<in> set (unquoted u)" by simp
  with calm_lang [OF assms(1,2)] show ?thesis by simp
qed

lemma lang_CRLF [simp]: "lang CRLF = {crlf}"
  by (simp add: CRLF_def)

lemma longest_line:
  assumes "calm r" "plain_line w"
  shows "longest (FSeq r CRLF) (w @ crlf @ t) = (if w \<in> lang r then Some (length w + 2) else None)"
proof (cases "w \<in> lang r")
  case True
  have "longest (FSeq r CRLF) ((w @ crlf) @ t) = Some (length (w @ crlf))"
  proof (rule longestI)
    fix w' t' assume "(w @ crlf) @ t = w' @ t'" "w' \<in> lang (FSeq r CRLF)"
    then obtain u where u: "w' = u @ crlf" "u \<in> lang r" "w @ crlf @ t = u @ crlf @ t'" by auto
    from rule_line_unique [OF assms(1) u(2) assms(2) u(3)] u(1) show "length w' \<le> length (w @ crlf)" by simp
  qed (use True in auto)
  with True show ?thesis by (simp add: crlf_def)
next
  case False
  have "longest (FSeq r CRLF) (w @ crlf @ t) = None"
  proof (rule longest_None)
    fix w' t' assume s: "w @ crlf @ t = w' @ t'"
    show "w' \<notin> lang (FSeq r CRLF)"
    proof
      assume "w' \<in> lang (FSeq r CRLF)"
      with s obtain u where u: "u \<in> lang r" "w @ crlf @ t = u @ crlf @ t'" by auto
      from rule_line_unique [OF assms(1) u(1) assms(2) u(2)] u(1) False show False by simp
    qed
  qed
  with False show ?thesis by simp
qed

section \<open>The characters of the patterns\<close>

lemmas flex_defs = FOpt_def FPlus_def FTimes_def numeral_eq_Suc
lemmas character_defs = ctl_def decimal_def letter_def hexadecimal_def t_special_def token_char_def blank_char_def
  comment_char_def quoted_char_def reserved_def extra_def safe_def unsafe_def national_def unreserved_def p_char_def reason_char_def
lemmas pattern_defs =
  REQUEST_FIELDS_def RESPONSE_FIELDS_def SP_def DIGIT_def HEX_def TOKEN_def QUOTED_STRING_def COMMENT_def
  WORD_def VERSION_def ESCAPE_def RESERVED_def U_CHAR_def P_CHAR_def F_SEGMENT_def SEGMENT_def PATH_def
  RELATIVE_PATH_def ABSOLUTE_PATH_def SCHEME_def ABSOLUTE_URI_def WKDAY_def MONTH_def DATE1_def
  TIME_OF_DAY_def RFC1123_DATE_def WEEKDAY_def DATE2_def RFC850_DATE_def ASCTIME_DATE_def DATE_def
  CONTENT_CODING_def VALUE_def TYPE_PARAMETER_def MEDIA_TYPE_def PRODUCT_def HEADER_def PRAGMA_TOKEN_def
  GENERAL_HEADER_def REQUEST_HEADER_def METHOD_def REQUEST_URI_def REALM_def AUTH_PARAMETERS_def CHALLENGE_def
  RESPONSE_HEADER_def REASON_def ENTITY_HEADER_def CHUNK_EXTENSION_def CHUNK_LINE_def

lemma not_return [simp]:
  "\<not> token_char (CHR 0x0D)" "\<not> decimal (CHR 0x0D)" "\<not> hexadecimal (CHR 0x0D)" "\<not> letter (CHR 0x0D)"
  "\<not> unreserved (CHR 0x0D)" "\<not> reserved (CHR 0x0D)"
  by (simp_all add: character_defs)

lemma calm_texts [simp]: "CHR 0x0D \<notin> set s \<Longrightarrow> calm (FText s)"
  by (simp add: calm_FText)

lemma calm_fields [simp]: "calm REQUEST_FIELDS" "calm RESPONSE_FIELDS" "calm ENTITY_HEADER" "calm CHUNK_LINE"
  by (simp_all add: pattern_defs flex_defs)

lemma colon_fields [simp]: "needs CHR '':'' REQUEST_FIELDS" "needs CHR '':'' RESPONSE_FIELDS" "needs CHR '':'' ENTITY_HEADER"
  by (simp_all add: pattern_defs flex_defs)

lemma spaceless [simp]: "avoids CHR '' '' REQUEST_URI" "avoids CHR '' '' VERSION" "avoids CHR '' '' METHOD" "avoids CHR '' '' (FTimes 3 DIGIT)"
  by (simp_all add: pattern_defs flex_defs character_defs)

end
