(* ===== verification/HTTP_Parser.thy ===== *)
theory HTTP_Parser
  imports HTTP_Scanner
begin

text \<open>
  The parser of HTTP messages: the grammar \<^verbatim>\<open>scripts/parser.y\<close> with its actions, the driver (\<^verbatim>\<open>http_parser_driver.inl\<close>) and the
  module \<^verbatim>\<open>HTTP_Module_Parser_T\<close> (\<^verbatim>\<open>http_module_parser.inl\<close>) that collects the fragments of a session and passes a parsed message on.
  The parser does not block (\<^verbatim>\<open>Common_ParserConfiguration::block\<close>).
\<close>

section \<open>The state of a parse\<close>

text \<open>The start condition and the record, the fragments that are done with, and those from the current one.\<close>

record http_parse =
  p_condition :: http_condition
  p_record :: HTTP_Record
  p_behind :: "string list"
  p_ahead :: "string list"

definition http_scan :: "http_env \<Rightarrow> http_parse \<Rightarrow> (http_token \<times> http_parse) res" where
  "http_scan e p = bind_res (http_lex e (p_condition p) (headers (p_record p)) (p_ahead p))
     (\<lambda>(t, k, b, a). Inr (t, p\<lparr>p_condition := k, p_behind := p_behind p @ b, p_ahead := a\<rparr>))"

section \<open>Header fields\<close>

text \<open>The expression \<open>^([^:]+):\s(.+)$\<close>.\<close>

definition header_regex :: regex where
  "header_regex = Seq (Cap 1 (Rep (\<lambda>c. c \<noteq> CHR '':'') 1 None))
     (Seq (Lit '':'') (Seq (Rep white 1 (Some 1)) (Cap 2 (Rep dot 1 None))))"

definition HTTP_PRT_HEADER_CONTENT_ENCODING_STRING :: string where
  "HTTP_PRT_HEADER_CONTENT_ENCODING_STRING = ''Content-Encoding''"

text \<open>
  A field is stored under its name in lower case, or dropped when it has not the form of one. The upcall for an encoding is
  not implemented by the modules: it fails an assertion.
\<close>

definition add_header :: "http_env \<Rightarrow> string \<Rightarrow> http_parse \<Rightarrow> http_parse res" where
  "add_header e h p = (case regex_match header_regex h of
     None \<Rightarrow> Inr p
   | Some g \<Rightarrow> (case (g 1, g 2) of
       (Some k, Some v) \<Rightarrow>
         if k = HTTP_PRT_HEADER_CONTENT_ENCODING_STRING \<and> http_asserts e then Inl Assertion
         else Inr (p\<lparr>p_record := (p_record p)\<lparr>headers := map_put ci_less (lower e k) v (headers (p_record p))\<rparr>\<rparr>)
     | _ \<Rightarrow> Inl (http_fault e)))"

text \<open>A step takes text from the fragments; every field and every chunk is at least a character.\<close>

definition unread :: "http_parse \<Rightarrow> nat" where "unread p = length (concat (p_ahead p))"

definition repeats :: "http_token \<Rightarrow> bool" where
  "repeats t \<longleftrightarrow> (case t of T_HEADER _ \<Rightarrow> True | T_CHUNK \<Rightarrow> True | _ \<Rightarrow> False)"

lemma repeats_simps [simp]: "repeats (T_HEADER h)" "repeats T_CHUNK" "\<not> repeats T_END_OF_FRAGMENT" "\<not> repeats T_END"
  by (simp_all add: repeats_def)

lemma take_rule_progress:
  "take_rule r ending f k' k s = (t, j, s') \<Longrightarrow> repeats t \<Longrightarrow> \<not> nullable r \<Longrightarrow> length s' < length s"
proof -
  assume a: "take_rule r ending f k' k s = (t, j, s')" "repeats t" "\<not> nullable r"
  then obtain n where n: "longest r s = Some n" "s' = drop n s"
    by (auto simp: take_rule_def split: option.splits)
  from longest_sound [OF n(1)] a(3) have "n \<le> length s" "take n s \<noteq> []"
    by (auto simp: nullable_lang simp del: take_eq_Nil)
  with n(2) show "length s' < length s" by (cases n) auto
qed

lemma take_rule_token:
  "take_rule r ending f k' k s = (t, j, s') \<Longrightarrow> t = T_END_OF_FRAGMENT \<or> (\<exists>w. t = f w)"
  by (auto simp: take_rule_def split: option.splits)

lemma line_not_nullable [simp]: "\<not> nullable CRLF" "\<not> nullable SP"
  by (simp_all add: CRLF_def crlf_def SP_def FChar_def)

lemma header_rule_progress:
  "header_rule r k' k s = (t, j, s') \<Longrightarrow> repeats t \<Longrightarrow> length s' < length s"
  using take_rule_progress [of CRLF _ _ _ _ s t j s'] take_rule_progress [of "FSeq r CRLF" _ _ _ _ s t j s']
  by (auto simp: header_rule_def split: if_splits)

lemma chunk_rule_progress:
  assumes "chunk_rule e i s rest = Inr (t, k', b, a)" "0 < i" "i \<le> length s" "repeats t"
  shows "length (concat a) < length (concat (s # rest))"
  using assms
  by (auto simp: chunk_rule_def chunk_data_def Let_def split: if_splits list.splits)

lemma chunked_rule_progress:
  assumes "chunked_rule e s rest = Inr (t, k', b, a)" "repeats t"
  shows "length (concat a) < length (concat (s # rest))"
proof (cases "longest (FSeq CHUNK_LINE CRLF) s")
  case None
  with assms header_rule_progress show ?thesis by (fastforce simp: chunked_rule_def stay_def split: prod.splits)
next
  case (Some i)
  then have i: "0 < i" "i \<le> length s"
    using longest_sound [OF Some] nullable_lang [of "FSeq CHUNK_LINE CRLF"] by (cases i; force)+
  show ?thesis
  proof (cases "longer (longest (FSeq ENTITY_HEADER CRLF) s) (Some i)")
    case True
    with Some assms show ?thesis
      using take_rule_progress [of "FSeq ENTITY_HEADER CRLF" 2 T_HEADER In_chunked_body In_chunked_body s t]
      by (auto simp: chunked_rule_def stay_def split: prod.splits)
  next
    case False
    with Some assms chunk_rule_progress i show ?thesis by (auto simp: chunked_rule_def)
  qed
qed

lemma first_rule_single: "first_rule s = (t, j, s') \<Longrightarrow> \<not> repeats t"
  by (auto simp: first_rule_def repeats_def dest: take_rule_token split: if_splits)

lemma body_rule_single: "body_rule e hs s = Inr (t, j, s') \<Longrightarrow> \<not> repeats t"
  by (auto simp: body_rule_def repeats_def Let_def split: option.splits if_splits)

lemma stay_eq: "stay rest x = Inr (t, k, b, a) \<longleftrightarrow> b = [] \<and> (\<exists>s. x = (t, k, s) \<and> a = s # rest)"
  by (cases x) (auto simp: stay_def)

lemma lex_progress:
  assumes "http_lex e k hs fs = Inr (t, k', b, a)" "repeats t"
  shows "length (concat a) < length (concat fs)"
  using assms
proof (cases "(e, k, hs, fs)" rule: http_lex.cases)
  case (3 e' k'' hs' c s rest)
  with assms show ?thesis
    by (cases k)
      (auto simp: stay_eq bind_res_eq_Inr repeats_def
        dest!: take_rule_progress header_rule_progress
        dest: first_rule_single body_rule_single chunked_rule_progress split: http_token.splits)
qed auto

lemma scan_progress: "http_scan e p = Inr (t, p') \<Longrightarrow> repeats t \<Longrightarrow> unread p' < unread p"
  by (auto simp: http_scan_def bind_res_eq_Inr unread_def split: prod.splits dest: lex_progress)

lemma add_header_unread: "add_header e h p = Inr p' \<Longrightarrow> unread p' = unread p"
  by (auto simp: add_header_def unread_def split: option.splits if_splits)

definition to_read :: "http_token \<Rightarrow> http_parse \<Rightarrow> nat" where
  "to_read t p = (if repeats t then Suc (unread p) else 0)"

lemma scan_to_read:
  assumes "http_scan e p1 = Inr (t', p2)" "repeats t" "unread p1 = unread p"
  shows "to_read t' p2 < to_read t p"
  using assms scan_progress [OF assms(1)] by (simp add: to_read_def)

section \<open>The grammar\<close>

text \<open>
  The lists of header fields and of chunks, from the token that has been read. A field is stored before the next token
  is read: the scanner relies on this. The result is the token behind the list.
\<close>

function headers_from :: "http_env \<Rightarrow> http_token \<Rightarrow> http_parse \<Rightarrow> (http_token \<times> http_parse) res" where
  "headers_from e t p = (case t of
     T_HEADER h \<Rightarrow> (case add_header e h p of
       Inl f \<Rightarrow> Inl f
     | Inr p1 \<Rightarrow> (case http_scan e p1 of
         Inl f \<Rightarrow> Inl f
       | Inr (t', p2) \<Rightarrow> headers_from e t' p2))
   | _ \<Rightarrow> Inr (t, p))"
  by pat_completeness auto
termination
  by (relation "measure (\<lambda>(e, t, p). to_read t p)") (auto intro: scan_to_read dest: add_header_unread)

function chunks_from :: "http_env \<Rightarrow> http_token \<Rightarrow> http_parse \<Rightarrow> (http_token \<times> http_parse) res" where
  "chunks_from e t p = (case t of
     T_CHUNK \<Rightarrow> (case http_scan e p of
       Inl f \<Rightarrow> Inl f
     | Inr (t', p') \<Rightarrow> chunks_from e t' p')
   | _ \<Rightarrow> Inr (t, p))"
  by pat_completeness auto
termination
  by (relation "measure (\<lambda>(e, t, p). to_read t p)") (auto intro: scan_to_read)


declare headers_from.simps [simp del] chunks_from.simps [simp del]

definition next_token :: "http_env \<Rightarrow> http_parse \<Rightarrow> (http_token \<Rightarrow> http_parse \<Rightarrow> 'a res) \<Rightarrow> 'a res" where
  "next_token e p f = bind_res (http_scan e p) (\<lambda>(t, p'). f t p')"

definition http_headers :: "http_env \<Rightarrow> http_parse \<Rightarrow> (http_token \<times> http_parse) res" where
  "http_headers e p = next_token e p (headers_from e)"

lemma headers_from_eq:
  "headers_from e (T_HEADER h) p = bind_res (add_header e h p) (http_headers e)"
  "headers_from e T_DELIMITER p = Inr (T_DELIMITER, p)"
  by (simp_all add: headers_from.simps [of e "T_HEADER h"] headers_from.simps [of e T_DELIMITER]
    http_headers_def next_token_def bind_res_def split: sum.split prod.split)

lemma chunks_from_eq:
  "chunks_from e T_CHUNK p = next_token e p (chunks_from e)"
  "chunks_from e T_DELIMITER p = Inr (T_DELIMITER, p)"
  by (simp_all add: chunks_from.simps [of e T_CHUNK] chunks_from.simps [of e T_DELIMITER]
    next_token_def bind_res_def split: sum.split prod.split)

abbreviation set_record :: "(HTTP_Record \<Rightarrow> HTTP_Record) \<Rightarrow> http_parse \<Rightarrow> http_parse" where
  "set_record f p \<equiv> p\<lparr>p_record := f (p_record p)\<rparr>"

text \<open>
  The start of a message: the request or status line and the header fields. The result is the token behind them, \<open>None\<close> after a
  syntax error. The version of a request is looked up with its prefix, that of a response without.
\<close>

definition request_head :: "http_env \<Rightarrow> string \<Rightarrow> http_parse \<Rightarrow> (http_token option \<times> http_parse) res" where
  "request_head e m p = next_token e p (\<lambda>t p. case t of
     T_URI u \<Rightarrow> next_token e p (\<lambda>t p. case t of
       T_VERSION v \<Rightarrow>
         bind_res (http_headers e (set_record (\<lambda>r. r\<lparr>version := VersionToType v, URI := u\<rparr>) p)) (\<lambda>(t, p).
           Inr (Some t, set_record (\<lambda>r. r\<lparr>http_method := MethodToType m\<rparr>) p))
     | _ \<Rightarrow> Inr (None, p))
   | _ \<Rightarrow> Inr (None, p))"

definition response_head :: "http_env \<Rightarrow> string \<Rightarrow> http_parse \<Rightarrow> (http_token option \<times> http_parse) res" where
  "response_head e v p = next_token e p (\<lambda>t p. case t of
     T_STATUS c \<Rightarrow> next_token e p (\<lambda>t p. case t of
       T_REASON w \<Rightarrow>
         bind_res (http_headers e (set_record (\<lambda>r. r\<lparr>reason := w, status := parse_base 10 c\<rparr>) p)) (\<lambda>(t, p).
           Inr (Some t, set_record (\<lambda>r. r\<lparr>version :=
             VersionToType (drop (length HTTP_PRT_VERSION_STRING_PREFIX) v)\<rparr>) p))
     | _ \<Rightarrow> Inr (None, p))
   | _ \<Rightarrow> Inr (None, p))"

definition http_head :: "http_env \<Rightarrow> http_parse \<Rightarrow> (http_token option \<times> http_parse) res" where
  "http_head e p = next_token e p (\<lambda>t p. case t of
     T_METHOD m \<Rightarrow> request_head e m p
   | T_VERSION v \<Rightarrow> response_head e v p
   | _ \<Rightarrow> Inr (None, p))"

text \<open>
  The content: an entity of the announced length, which the parser compares again, or chunks, further header fields and an empty
  line. \<open>True\<close>: the record is complete (\<^verbatim>\<open>YYACCEPT\<close>).
\<close>

definition http_body :: "http_env \<Rightarrow> http_token \<Rightarrow> http_parse \<Rightarrow> (bool \<times> http_parse) res" where
  "http_body e t p = (case t of
     T_BODY n \<Rightarrow> (case find_header e HTTP_PRT_HEADER_CONTENT_LENGTH_STRING (headers (p_record p)) of
       None \<Rightarrow> Inl (http_fault e)
     | Some v \<Rightarrow> Inr (n = read_unsigned 10 decimal v, p))
   | T_CHUNK \<Rightarrow> bind_res (next_token e p (chunks_from e)) (\<lambda>(t, p).
       bind_res (headers_from e t p) (\<lambda>(t, p). Inr (t = T_DELIMITER, p)))
   | _ \<Rightarrow> Inr (False, p))"

definition http_yyparse :: "http_env \<Rightarrow> http_parse \<Rightarrow> (bool \<times> http_parse) res" where
  "http_yyparse e p = bind_res (http_head e p) (\<lambda>(t, p).
     if t = Some T_DELIMITER then next_token e p (http_body e) else Inr (False, p))"

section \<open>The driver and the module\<close>

text \<open>
  \<^verbatim>\<open>HTTP_ParserDriver_T::parse\<close>: a new record, and the start condition of the last parse. The result is the record, when there is
  one, the start condition, and the fragments as the scanner leaves them.
\<close>

definition http_parse_fragments ::
  "http_env \<Rightarrow> http_condition \<Rightarrow> string list \<Rightarrow> (HTTP_Record option \<times> http_condition \<times> string list) res" where
  "http_parse_fragments e k fs =
    bind_res (http_yyparse e \<lparr>p_condition = k, p_record = new_HTTP_Record, p_behind = [], p_ahead = fs\<rparr>)
      (\<lambda>(done, p). Inr (if done then Some (p_record p) else None, p_condition p, p_behind p @ p_ahead p))"

text \<open>The module: its start condition, the fragments from \<^verbatim>\<open>headFragment_\<close> (none for NULL), and the format of the session.\<close>

record http_module =
  m_condition :: http_condition
  m_fragments :: "string list"
  m_format :: "compression_format option"

text \<open>
  \<^verbatim>\<open>handleDataMessage\<close> and \<^verbatim>\<open>record\<close>. A message has space for the two characters that end a buffer of the scanner. A record and its
  fragments are passed on when the parse succeeds; otherwise the fragments are kept and parsed again, from the first, with the next one.
\<close>

definition COMMON_PARSER_FLEX_BUFFER_BOUNDARY_SIZE :: nat where
  "COMMON_PARSER_FLEX_BUFFER_BOUNDARY_SIZE = 2"

definition http_handleDataMessage ::
  "http_env \<Rightarrow> nat \<Rightarrow> string \<Rightarrow> http_module \<Rightarrow> ((HTTP_Record \<times> string list) option \<times> http_module) res" where
  "http_handleDataMessage e space s m =
    (if space < COMMON_PARSER_FLEX_BUFFER_BOUNDARY_SIZE then Inl (http_fault e)
     else bind_res (http_parse_fragments e (m_condition m) (m_fragments m @ [s])) (\<lambda>(r, k, fs). case r of
       None \<Rightarrow> Inr (None, m\<lparr>m_condition := k, m_fragments := fs\<rparr>)
     | Some r \<Rightarrow> Inr (Some (r, fs), m\<lparr>m_condition := k, m_fragments := [],
         m_format := (case map_find ci_less HTTP_PRT_HEADER_CONTENT_ENCODING_STRING (headers r) of
             None \<Rightarrow> m_format m
           | Some v \<Rightarrow> Some (EncodingToCompressionFormat to_lower v))\<rparr>)))"

definition new_http_module :: http_module where
  "new_http_module = \<lparr>m_condition = In_INITIAL, m_fragments = [], m_format = None\<rparr>"

text \<open>\<^verbatim>\<open>handleSessionMessage\<close>: at the end of the session the fragments are released. The start condition stays.\<close>

definition http_session_end :: "http_module \<Rightarrow> http_module" where
  "http_session_end m = m\<lparr>m_fragments := []\<rparr>"

text \<open>The data of a session, message after message: what is passed on.\<close>

fun http_receive :: "http_env \<Rightarrow> string list \<Rightarrow> http_module \<Rightarrow> ((HTTP_Record \<times> string list) list \<times> http_module) res" where
  "http_receive e [] m = Inr ([], m)"
| "http_receive e (s # ss) m =
    bind_res (http_handleDataMessage e COMMON_PARSER_FLEX_BUFFER_BOUNDARY_SIZE s m) (\<lambda>(r, m').
      bind_res (http_receive e ss m') (\<lambda>(rs, m''). Inr ((case r of None \<Rightarrow> rs | Some x \<Rightarrow> x # rs), m'')))"

end
