(* ===== verification/HTTP_Receive.thy ===== *)
theory HTTP_Receive
  imports HTTP_Parser
begin

text \<open>
  What the parser of HTTP messages makes of the text of a message: requests and responses with and without content, a content in chunks,
  and what it never accepts.
\<close>

section \<open>Rules on the texts they are made for\<close>

lemma take_space:
  "avoids CHR '' '' r \<Longrightarrow> w \<in> lang r \<Longrightarrow> take_rule (FSeq r SP) (Suc 0) f k' k (w @ CHR '' '' # t) = (f w, k', t)"
  by (simp add: take_rule_def SP_def longest_until)

lemma take_space_None:
  "avoids CHR '' '' r \<Longrightarrow> w \<notin> lang r \<Longrightarrow> CHR '' '' \<notin> set w \<Longrightarrow>
    take_rule (FSeq r SP) (Suc 0) f k' k (w @ CHR '' '' # t) = (T_END_OF_FRAGMENT, k, w @ CHR '' '' # t)"
  by (simp add: take_rule_def SP_def longest_until_None)

lemma take_line:
  "calm r \<Longrightarrow> plain_line w \<Longrightarrow> w \<in> lang r \<Longrightarrow> take_rule (FSeq r CRLF) 2 f k' k (w @ crlf @ t) = (f w, k', t)"
  by (simp add: take_rule_def longest_line) (simp add: crlf_def)

lemma longest_CRLF: "longest CRLF (crlf @ t) = Some 2"
  using longest_text [of crlf t] by (simp add: CRLF_def) (simp add: crlf_def)

lemma longest_CRLF_None: "w \<noteq> [] \<Longrightarrow> plain_line w \<Longrightarrow> longest CRLF (w @ t) = None"
  by (rule longest_None, cases w) (auto simp: plain_line_def crlf_def simp del: char.inject)

lemma plain_line_append [simp]: "plain_line (u @ v) \<longleftrightarrow> plain_line u \<and> plain_line v"
  by (auto simp: plain_line_def)

lemma needs_not_Nil: "needs c r \<Longrightarrow> [] \<notin> lang r"
  using needs_lang by fastforce

lemma header_field:
  "calm r \<Longrightarrow> plain_line w \<Longrightarrow> w \<in> lang r \<Longrightarrow> w \<noteq> [] \<Longrightarrow> header_rule r k' k (w @ crlf @ t) = (T_HEADER w, k, t)"
  by (simp add: header_rule_def longest_CRLF_None longer_def take_line)

lemma header_blank:
  assumes "calm r" "needs c r"
  shows "header_rule r k' k (crlf @ t) = (T_DELIMITER, k', t)"
proof -
  have "longest (FSeq r CRLF) ([] @ crlf @ t) = None"
    using assms needs_not_Nil by (subst longest_line) (auto simp: plain_line_def)
  then show ?thesis by (simp add: header_rule_def longest_CRLF longer_def take_rule_def) (simp add: crlf_def)
qed

section \<open>Header fields\<close>

text \<open>A field that can be a line of its own, and is no other field.\<close>

definition field_char :: "char \<Rightarrow> bool" where "field_char c \<longleftrightarrow> token_char c \<and> c \<noteq> CHR 0x22"

definition plain_field :: "string \<times> string \<Rightarrow> bool" where
  "plain_field f \<longleftrightarrow> (case f of (k, v) \<Rightarrow> k \<noteq> [] \<and> v \<noteq> [] \<and> list_all field_char (k @ v) \<and> CHR '':'' \<notin> set k)"

lemma list_all_not: "list_all p w \<Longrightarrow> \<not> p c \<Longrightarrow> c \<notin> set w"
  by (auto simp: list_all_iff)

lemma field_chars:
  assumes "list_all field_char w"
  shows "plain_line w" "list_all token_char w" "list_all dot w"
proof -
  have "\<not> field_char (CHR 0x0D)" "\<not> field_char (CHR 0x22)" by (simp_all add: field_char_def)
  with list_all_not [OF assms] show "plain_line w" by (simp add: plain_line_def)
  show "list_all token_char w" using assms by (simp add: field_char_def list_all_iff)
  have "\<not> field_char (CHR 0x0A)" "\<not> field_char (CHR 0x0D)" by (simp_all add: field_char_def character_defs)
  with list_all_not [OF assms] show "list_all dot w" by (auto simp: dot_def list_all_iff)
qed

definition field_text :: "string \<times> string \<Rightarrow> string" where
  "field_text f = fst f @ '': '' @ snd f"

lemma header_line_text: "header_line f = field_text f @ crlf"
  by (simp add: header_line_def field_text_def)

lemma HEADER_lang:
  assumes "k \<noteq> []" "v \<noteq> []" "list_all token_char k" "list_all token_char v"
  shows "k @ '': '' @ v \<in> lang HEADER"
proof -
  have "k \<in> lang (FPlus TOKEN)" "v \<in> lang (FPlus TOKEN)" using assms by (simp_all add: TOKEN_def lang_FPlus)
  then show ?thesis by (fastforce simp: HEADER_def SP_def)
qed

lemma plain_field_line:
  assumes "plain_field f"
  shows "plain_line (field_text f)" "field_text f \<noteq> []" "field_text f \<in> lang ENTITY_HEADER"
    "field_text f \<in> lang REQUEST_FIELDS" "field_text f \<in> lang RESPONSE_FIELDS"
proof -
  obtain k v where f: "f = (k, v)" by (cases f)
  with assms have kv: "k \<noteq> []" "v \<noteq> []" "list_all field_char k" "list_all field_char v" by (auto simp: plain_field_def)
  have "plain_line '': ''" by (simp add: plain_line_def)
  then show "plain_line (field_text f)" using kv field_chars(1) by (simp only: f field_text_def plain_line_append fst_conv snd_conv)
  show "field_text f \<noteq> []" by (simp add: f field_text_def)
  have "field_text f \<in> lang HEADER"
    using HEADER_lang [OF kv(1,2) field_chars(2) [OF kv(3)] field_chars(2) [OF kv(4)]]
    by (simp only: f field_text_def fst_conv snd_conv)
  then show e: "field_text f \<in> lang ENTITY_HEADER" by (simp add: ENTITY_HEADER_def)
  then show "field_text f \<in> lang REQUEST_FIELDS" "field_text f \<in> lang RESPONSE_FIELDS"
    by (simp_all add: REQUEST_FIELDS_def RESPONSE_FIELDS_def)
qed

lemma field_regex:
  assumes "plain_field (k, v)"
  shows "\<exists>g. regex_match header_regex (field_text (k, v)) = Some g \<and> g 1 = Some k \<and> g 2 = Some v"
proof -
  have kv: "k \<noteq> []" "list_all (\<lambda>c. c \<noteq> CHR '':'') k" "v \<noteq> []" "list_all dot v"
    using assms field_chars(3) by (auto simp: plain_field_def list_all_iff)
  have "first_run (Cap 1 (Rep (\<lambda>c. c \<noteq> CHR '':'') 1 None)) (k @ '': '' @ v) ([(1, k)], '': '' @ v)"
    using kv by (intro first_Cap first_Rep) (auto simp: Suc_le_eq)
  moreover have "first_run (Lit '':'') ('':'' @ '' '' @ v) ([], '' '' @ v)" by (rule first_Lit)
  moreover have "first_run (Rep white 1 (Some 1)) ('' '' @ v) ([], v)"
    by (simp add: first_run_def run_length_def white_def)
  moreover have "first_run (Cap 2 (Rep dot 1 None)) (v @ []) ([(2, v)], [])"
    using kv by (intro first_Cap first_Rep) (auto simp: Suc_le_eq)
  ultimately have "first_run header_regex (k @ '': '' @ v) ([(1, k)] @ [] @ [] @ [(2, v)], [])"
    unfolding header_regex_def by (intro first_Seq) simp_all
  from first_match [OF this] show ?thesis by (simp add: field_text_def)
qed


text \<open>What the common library does to a text: a name is changed in the case of its letters only, and \<open>strip\<close> removes white space
  at both ends.\<close>

definition common_strings :: "http_env \<Rightarrow> bool" where
  "common_strings e \<longleftrightarrow> (\<forall>s. lower e s = map to_lower s) \<and>
     (\<forall>s. s \<noteq> [] \<longrightarrow> \<not> white (hd s) \<longrightarrow> \<not> white (last s) \<longrightarrow> strip e s = s)"

definition folds :: "http_env \<Rightarrow> bool" where "folds e \<longleftrightarrow> (\<forall>k. folded (lower e k) = folded k)"

lemma to_lower_idem [simp]: "to_lower (to_lower c) = to_lower c"
  by (auto simp: to_lower_def)

lemma to_lower_NUL: "to_lower c = CHR 0x00 \<longleftrightarrow> c = CHR 0x00"
proof
  assume "to_lower c = CHR 0x00"
  then have "(of_char (to_lower c) :: nat) = 0" by simp
  then have "(of_char c :: nat) = of_char (CHR 0x00)" by (simp add: of_char_to_lower split: if_splits)
  then show "c = CHR 0x00" by (simp only: of_char_eq_iff)
qed (simp add: to_lower_def)

lemma folds_lower: "common_strings e \<Longrightarrow> folds e"
  by (simp add: common_strings_def folds_def folded_def c_str_def takeWhile_map comp_def to_lower_NUL)

text \<open>The fields that a list of lines stores.\<close>

definition put_all :: "http_env \<Rightarrow> headers \<Rightarrow> headers \<Rightarrow> headers" where
  "put_all e hs = fold (\<lambda>(k, v). map_put ci_less (lower e k) v) hs"

lemma put_all_simps [simp]:
  "put_all e [] acc = acc" "put_all e ((k, v) # hs) acc = put_all e hs (map_put ci_less (lower e k) v acc)"
  by (simp_all add: put_all_def)

definition storable :: "http_env \<Rightarrow> headers \<Rightarrow> bool" where
  "storable e hs \<longleftrightarrow> (\<forall>f \<in> set hs. plain_field f) \<and>
     (http_asserts e \<longrightarrow> HTTP_PRT_HEADER_CONTENT_ENCODING_STRING \<notin> fst ` set hs)"

lemma add_plain_field:
  assumes "storable e ((k, v) # hs)"
  shows "add_header e (field_text (k, v)) p =
    Inr (set_record (\<lambda>r. r\<lparr>headers := map_put ci_less (lower e k) v (headers r)\<rparr>) p)"
proof -
  have "plain_field (k, v)" using assms by (simp add: storable_def)
  from field_regex [OF this] obtain g where
    "regex_match header_regex (field_text (k, v)) = Some g" "g 1 = Some k" "g 2 = Some v" by blast
  with assms show ?thesis by (auto simp: add_header_def storable_def)
qed

text \<open>Header fields and the empty line, in a start condition whose rule for them is the given one.\<close>

lemma scan_one:
  assumes "p_ahead p = s # rest" "s \<noteq> []" "http_lex e (p_condition p) (headers (p_record p)) (s # rest) = stay rest (t, k, s')"
  shows "http_scan e p = Inr (t, p\<lparr>p_condition := k, p_ahead := s' # rest\<rparr>)"
  using assms by (simp add: http_scan_def stay_def)

lemma scan_field:
  assumes "\<And>hs c s rest. http_lex e k hs ((c # s) # rest) = stay rest (header_rule r (k' hs) k (c # s))"
    and "calm r" "plain_field f" "field_text f \<in> lang r" "p_condition p = k" "p_ahead p = [header_line f @ s]"
  shows "http_headers e p = bind_res (add_header e (field_text f) (p\<lparr>p_condition := k, p_ahead := [s]\<rparr>)) (http_headers e)"
proof -
  from plain_field_line(2) [OF assms(3)] obtain c w where w: "field_text f = c # w" by (cases "field_text f") auto
  have "header_rule r (k' (headers (p_record p))) k (field_text f @ crlf @ s) = (T_HEADER (field_text f), k, s)"
    using assms(2,4) plain_field_line(1,2) [OF assms(3)] by (intro header_field) simp_all
  with assms(1) have "http_lex e k (headers (p_record p)) [field_text f @ crlf @ s] = stay [] (T_HEADER (field_text f), k, s)"
    unfolding w by (simp only: append_Cons)
  then have "http_scan e p = Inr (T_HEADER (field_text f), p\<lparr>p_condition := k, p_ahead := [s]\<rparr>)"
    using assms(5,6) plain_field_line(2) [OF assms(3)] by (intro scan_one) (simp_all add: header_line_text)
  then show ?thesis by (simp add: http_headers_def [of e p] next_token_def [of e p] headers_from_eq)
qed

lemma scan_headers:
  assumes lex: "\<And>hs c s rest. http_lex e k hs ((c # s) # rest) = stay rest (header_rule r (k' hs) k (c # s))"
    and r: "calm r" "needs CHR '':'' r" and "\<And>f. f \<in> set hs \<Longrightarrow> field_text f \<in> lang r" "storable e hs"
    and "p_condition p = k" "p_ahead p = [concat (map header_line hs) @ crlf @ t]"
  shows "http_headers e p = Inr (T_DELIMITER,
    p\<lparr>p_record := (p_record p)\<lparr>headers := put_all e hs (headers (p_record p))\<rparr>,
      p_condition := k' (put_all e hs (headers (p_record p))), p_ahead := [t]\<rparr>)"
  using assms(4-)
proof (induction hs arbitrary: p)
  case Nil
  have "crlf @ t = CHR 0x0D # CHR 0x0A # t" by (simp add: crlf_def)
  with lex [of _ "CHR 0x0D" "CHR 0x0A # t"] header_blank [OF r]
  have "http_lex e k (headers (p_record p)) [crlf @ t] = stay [] (T_DELIMITER, k' (headers (p_record p)), t)" by metis
  with Nil have "http_scan e p = Inr (T_DELIMITER, p\<lparr>p_condition := k' (headers (p_record p)), p_ahead := [t]\<rparr>)"
    by (intro scan_one) (auto simp: crlf_def)
  then show ?case by (simp add: http_headers_def next_token_def headers_from_eq)
next
  case (Cons f hs)
  obtain a v where f: "f = (a, v)" by (cases f)
  let ?s = "concat (map header_line hs) @ crlf @ t"
  have "plain_field f" "storable e hs" "p_ahead p = [header_line f @ ?s]" "field_text f \<in> lang r"
    using Cons.prems by (auto simp: storable_def)
  with scan_field [OF lex r(1)] Cons.prems(3)
  have "http_headers e p = bind_res (add_header e (field_text f) (p\<lparr>p_condition := k, p_ahead := [?s]\<rparr>)) (http_headers e)" by blast
  moreover have "add_header e (field_text f) q = Inr (set_record (\<lambda>r. r\<lparr>headers := map_put ci_less (lower e a) v (headers r)\<rparr>) q)" for q
    using Cons.prems(2) unfolding f by (rule add_plain_field)
  ultimately show ?case
    using Cons.IH [of "set_record (\<lambda>r. r\<lparr>headers := map_put ci_less (lower e a) v (headers r)\<rparr>) (p\<lparr>p_condition := k, p_ahead := [?s]\<rparr>)"]
      Cons.prems \<open>storable e hs\<close>
    by (simp add: f)
qed

text \<open>The upcall for an encoding is compiled to an assertion that fails.\<close>

lemma scan_encoding:
  assumes lex: "\<And>hs c s rest. http_lex e k hs ((c # s) # rest) = stay rest (header_rule r (k' hs) k (c # s))"
    and r: "calm r" and asserts: "http_asserts e"
    and "\<And>f. f \<in> set hs \<Longrightarrow> field_text f \<in> lang r \<and> plain_field f" "HTTP_PRT_HEADER_CONTENT_ENCODING_STRING \<in> fst ` set hs"
    and "p_condition p = k" "p_ahead p = [concat (map header_line hs) @ t]"
  shows "http_headers e p = Inl Assertion"
  using assms(4-)
proof (induction hs arbitrary: p)
  case (Cons f hs)
  obtain a v where f: "f = (a, v)" by (cases f)
  let ?s = "concat (map header_line hs) @ t"
  let ?p = "p\<lparr>p_condition := k, p_ahead := [?s]\<rparr>"
  have pf: "plain_field f" "field_text f \<in> lang r" "p_ahead p = [header_line f @ ?s]" using Cons.prems by auto
  with scan_field [OF lex r] Cons.prems(3)
  have step: "http_headers e p = bind_res (add_header e (field_text f) ?p) (http_headers e)" by blast
  obtain g where "regex_match header_regex (field_text f) = Some g" "g 1 = Some a" "g 2 = Some v"
    using field_regex pf(1) unfolding f by blast
  then have add: "add_header e (field_text f) ?p = (if a = HTTP_PRT_HEADER_CONTENT_ENCODING_STRING then Inl Assertion
      else Inr (set_record (\<lambda>r. r\<lparr>headers := map_put ci_less (lower e a) v (headers r)\<rparr>) ?p))"
    using asserts by (simp add: add_header_def)
  show ?case
  proof (cases "a = HTTP_PRT_HEADER_CONTENT_ENCODING_STRING")
    case False
    with Cons show ?thesis unfolding step add by (simp add: f)
  qed (simp add: step add)
qed simp

section \<open>The head of a message\<close>

lemma lex_Cons:
  "s \<noteq> [] \<Longrightarrow> http_lex e In_INITIAL hs (s # rest) = stay rest (first_rule s)"
  "s \<noteq> [] \<Longrightarrow> http_lex e In_uri hs (s # rest) = stay rest (take_rule (FSeq REQUEST_URI SP) (Suc 0) T_URI In_version In_uri s)"
  "s \<noteq> [] \<Longrightarrow> http_lex e In_version hs (s # rest) =
     stay rest (take_rule (FSeq VERSION CRLF) 2 T_VERSION In_request_headers In_version s)"
  "s \<noteq> [] \<Longrightarrow> http_lex e In_status hs (s # rest) = stay rest (take_rule (FSeq (FTimes 3 DIGIT) SP) (Suc 0) T_STATUS In_reason In_status s)"
  "s \<noteq> [] \<Longrightarrow> http_lex e In_reason hs (s # rest) =
     stay rest (take_rule (FSeq REASON CRLF) 2 T_REASON In_response_headers In_reason s)"
  "s \<noteq> [] \<Longrightarrow> http_lex e In_body hs (s # rest) = bind_res (body_rule e hs s) (stay rest)"
  "s \<noteq> [] \<Longrightarrow> http_lex e In_chunked_body hs (s # rest) = chunked_rule e s rest"
  by (cases s; simp)+

lemma VERSION_lang: "w \<in> lang VERSION \<longleftrightarrow> (\<exists>a b. w = ''HTTP/'' @ [a, CHR ''.'', b] \<and> decimal a \<and> decimal b)"
  by (auto simp: VERSION_def DIGIT_def simp del: lang.simps(4) FText.simps)

lemma METHOD_lang: "w \<in> lang METHOD \<longleftrightarrow> w \<in> {''GET'', ''HEAD'', ''POST''}"
  by (auto simp: METHOD_def)

lemma decimal_plain: "decimal c \<Longrightarrow> c \<noteq> CHR 0x0D \<and> c \<noteq> CHR 0x22"
  by (auto simp: decimal_def simp del: char.inject)

lemma VERSION_line: "w \<in> lang VERSION \<Longrightarrow> plain_line w \<and> calm VERSION \<and> w \<noteq> []"
  by (auto simp: VERSION_lang plain_line_def decimal_plain [THEN conjunct1] decimal_plain [THEN conjunct2] pattern_defs
    dest: decimal_plain)

lemma first_rule_method:
  assumes "m \<in> lang METHOD"
  shows "first_rule (m @ CHR '' '' # t) = (T_METHOD m, In_uri, t)"
proof -
  have "longest VERSION (m @ CHR '' '' # t) = None"
    using assms by (intro longest_None) (auto simp: METHOD_lang VERSION_lang)
  moreover have "longest METHOD (m @ CHR '' '' # t) \<noteq> None" using longest_bound [OF assms] by force
  ultimately show ?thesis using assms by (simp add: first_rule_def take_space)
qed

lemma first_rule_version:
  assumes "v \<in> lang VERSION"
  shows "first_rule (v @ CHR '' '' # t) = (T_VERSION v, In_status, t)"
proof -
  have "longest VERSION (v @ CHR '' '' # t) \<noteq> None" using longest_bound [OF assms] by force
  then show ?thesis using assms by (simp add: first_rule_def take_space)
qed

lemma request_head_text:
  assumes "m \<in> lang METHOD" "u \<in> lang REQUEST_URI" "v \<in> lang VERSION" "storable e hs"
  shows "http_head e \<lparr>p_condition = In_INITIAL, p_record = r, p_behind = b,
      p_ahead = [m @ '' '' @ u @ '' '' @ v @ crlf @ concat (map header_line hs) @ crlf @ t]\<rparr> =
    Inr (Some T_DELIMITER, \<lparr>p_condition = In_body, p_record = r\<lparr>version := VersionToType v, URI := u,
      headers := put_all e hs (headers r), http_method := MethodToType m\<rparr>, p_behind = b, p_ahead = [t]\<rparr>)"
proof -
  let ?f = "concat (map header_line hs) @ crlf @ t"
  have head: "http_headers e \<lparr>p_condition = In_request_headers, p_record = q, p_behind = b, p_ahead = [?f]\<rparr> =
      Inr (T_DELIMITER, \<lparr>p_condition = In_body, p_record = q\<lparr>headers := put_all e hs (headers q)\<rparr>, p_behind = b, p_ahead = [t]\<rparr>)" for q
    using assms(4) by (subst scan_headers [where k = In_request_headers and k' = "\<lambda>_. In_body" and r = REQUEST_FIELDS])
      (auto simp: storable_def plain_field_line)
  have u: "take_rule (FSeq REQUEST_URI SP) (Suc 0) T_URI In_version In_uri (u @ CHR '' '' # v @ crlf @ ?f) = (T_URI u, In_version, v @ crlf @ ?f)"
    using assms(2) by (intro take_space) simp_all
  have v: "take_rule (FSeq VERSION CRLF) 2 T_VERSION In_request_headers In_version (v @ crlf @ ?f) = (T_VERSION v, In_request_headers, ?f)"
    using assms(3) VERSION_line by (intro take_line) blast+
  have "v @ crlf @ ?f \<noteq> []" by (simp add: crlf_def)
  then show ?thesis
    using first_rule_method [OF assms(1)] u v head
    by (simp add: http_head_def request_head_def next_token_def http_scan_def lex_Cons stay_def)
qed


lemma three_digits: "c \<in> lang (FTimes 3 DIGIT) \<longleftrightarrow> length c = 3 \<and> list_all decimal c"
proof -
  have "lang (FTimes 3 DIGIT) = {[x, y, z] |x y z. decimal x \<and> decimal y \<and> decimal z}"
    by (auto simp: FTimes_def DIGIT_def numeral_eq_Suc simp del: lang.simps(4))
  then show ?thesis by (auto simp: length_Suc_conv numeral_eq_Suc)
qed

lemma REASON_lang: "w \<in> lang REASON \<longleftrightarrow> list_all reason_char w"
proof
  assume "w \<in> lang REASON"
  then obtain ws where "w = concat ws" "set ws \<subseteq> {[c] |c. reason_char c}" by (auto simp: REASON_def)
  then show "list_all reason_char w" by (fastforce simp: list_all_iff)
next
  assume a: "list_all reason_char w"
  then have "set (map (\<lambda>c. [c]) w) \<subseteq> lang (FClass reason_char)" by (auto simp: list_all_iff)
  moreover have "w = concat (map (\<lambda>c. [c]) w)" by simp
  ultimately show "w \<in> lang REASON" unfolding REASON_def lang.simps by blast
qed

lemma REASON_calm: "calm REASON"
  by (simp add: REASON_def reason_char_def)

lemma response_line:
  assumes "v \<in> lang VERSION" "length c = 3" "list_all decimal c" "list_all reason_char w" "CHR 0x22 \<notin> set w"
  shows "http_head e \<lparr>p_condition = In_INITIAL, p_record = r, p_behind = b, p_ahead = [v @ '' '' @ c @ '' '' @ w @ crlf @ f]\<rparr> =
    bind_res (http_headers e \<lparr>p_condition = In_response_headers, p_record = r\<lparr>reason := w, status := parse_base 10 c\<rparr>,
        p_behind = b, p_ahead = [f]\<rparr>)
      (\<lambda>(t, p). Inr (Some t, set_record (\<lambda>r. r\<lparr>version := VersionToType (drop (length HTTP_PRT_VERSION_STRING_PREFIX) v)\<rparr>) p))"
proof -
  have c: "take_rule (FSeq (FTimes 3 DIGIT) SP) (Suc 0) T_STATUS In_reason In_status (c @ CHR '' '' # w @ crlf @ f) =
      (T_STATUS c, In_reason, w @ crlf @ f)"
    using assms(2,3) by (intro take_space) (simp_all add: three_digits)
  have "\<not> reason_char (CHR 0x0D)" by (simp add: reason_char_def)
  then have "plain_line w" using assms(5) list_all_not [OF assms(4)] by (simp add: plain_line_def)
  then have w: "take_rule (FSeq REASON CRLF) 2 T_REASON In_response_headers In_reason (w @ crlf @ f) =
      (T_REASON w, In_response_headers, f)"
    using assms(4) by (intro take_line) (simp_all add: REASON_lang REASON_calm)
  have "c \<noteq> []" "w @ crlf @ f \<noteq> []" using assms(2) by (auto simp: crlf_def)
  then show ?thesis
    using first_rule_version [OF assms(1)] c w
    by (simp add: http_head_def response_head_def next_token_def http_scan_def lex_Cons stay_def)
qed

lemma response_head_text:
  assumes "v \<in> lang VERSION" "length c = 3" "list_all decimal c" "list_all reason_char w" "CHR 0x22 \<notin> set w" "storable e hs"
  shows "http_head e \<lparr>p_condition = In_INITIAL, p_record = r, p_behind = b,
      p_ahead = [v @ '' '' @ c @ '' '' @ w @ crlf @ concat (map header_line hs) @ crlf @ t]\<rparr> =
    Inr (Some T_DELIMITER, \<lparr>p_condition = body_condition e (put_all e hs (headers r)),
      p_record = r\<lparr>reason := w, status := parse_base 10 c, headers := put_all e hs (headers r),
        version := VersionToType (drop (length HTTP_PRT_VERSION_STRING_PREFIX) v)\<rparr>, p_behind = b, p_ahead = [t]\<rparr>)"
proof -
  have "http_headers e \<lparr>p_condition = In_response_headers, p_record = q, p_behind = b,
        p_ahead = [concat (map header_line hs) @ crlf @ t]\<rparr> =
      Inr (T_DELIMITER, \<lparr>p_condition = body_condition e (put_all e hs (headers q)),
        p_record = q\<lparr>headers := put_all e hs (headers q)\<rparr>, p_behind = b, p_ahead = [t]\<rparr>)" for q
    using assms(6) by (subst scan_headers [where k = In_response_headers and k' = "body_condition e" and r = RESPONSE_FIELDS])
      (auto simp: storable_def plain_field_line)
  then show ?thesis unfolding response_line [OF assms(1-5)] by simp
qed

lemma response_head_encoding:
  assumes "v \<in> lang VERSION" "length c = 3" "list_all decimal c" "list_all reason_char w" "CHR 0x22 \<notin> set w"
    and "\<forall>f \<in> set hs. plain_field f" "HTTP_PRT_HEADER_CONTENT_ENCODING_STRING \<in> fst ` set hs" "http_asserts e"
  shows "http_head e \<lparr>p_condition = In_INITIAL, p_record = r, p_behind = b,
      p_ahead = [v @ '' '' @ c @ '' '' @ w @ crlf @ concat (map header_line hs) @ t]\<rparr> = Inl Assertion"
proof -
  have "http_headers e \<lparr>p_condition = In_response_headers, p_record = q, p_behind = b,
      p_ahead = [concat (map header_line hs) @ t]\<rparr> = Inl Assertion" for q
    using assms(6-8) by (intro scan_encoding [where k = In_response_headers and k' = "body_condition e" and r = RESPONSE_FIELDS])
      (auto simp: plain_field_line)
  then show ?thesis unfolding response_line [OF assms(1-5)] by simp
qed

section \<open>What the parser never gets past\<close>

text \<open>A fragment on which the scanner does not move keeps the parser from all that comes after it.\<close>

definition blocked :: "http_env \<Rightarrow> http_condition \<Rightarrow> string \<Rightarrow> bool" where
  "blocked e k f \<longleftrightarrow> (\<exists>t \<in> {T_END, T_END_OF_FRAGMENT}. \<forall>hs rest. http_lex e k hs (f # rest) = Inr (t, k, [], f # rest))"

lemma blocked_empty: "blocked e k []"
  by (simp add: blocked_def)

lemma blocked_parse:
  assumes "blocked e k f"
  shows "http_parse_fragments e k (f # rest) = Inr (None, k, f # rest)"
proof -
  obtain t where "t \<in> {T_END, T_END_OF_FRAGMENT}" "\<And>hs rest. http_lex e k hs (f # rest) = Inr (t, k, [], f # rest)"
    using assms unfolding blocked_def by blast
  then show ?thesis
    by (auto simp: http_parse_fragments_def http_yyparse_def http_head_def next_token_def http_scan_def)
qed

lemma blocked_receive:
  assumes "blocked e (m_condition m) f" "m_fragments m = f # rest"
  shows "http_receive e ss m = Inr ([], m\<lparr>m_fragments := f # rest @ ss\<rparr>)"
  using assms
proof (induction ss arbitrary: m rest)
  case Nil
  then show ?case by (cases m) simp
next
  case (Cons s ss)
  then show ?case by (simp add: http_handleDataMessage_def blocked_parse COMMON_PARSER_FLEX_BUFFER_BOUNDARY_SIZE_def)
qed

text \<open>A message whose head is read completely, with nothing behind it.\<close>

lemma bodiless_receive:
  assumes "http_head e \<lparr>p_condition = In_INITIAL, p_record = new_HTTP_Record, p_behind = [], p_ahead = [s]\<rparr> =
    Inr (Some T_DELIMITER, \<lparr>p_condition = k, p_record = r, p_behind = [], p_ahead = [[]]\<rparr>)"
  shows "http_receive e (s # ss) new_http_module = Inr ([], new_http_module\<lparr>m_condition := k, m_fragments := [] # ss\<rparr>)"
proof -
  have "http_parse_fragments e In_INITIAL [s] = Inr (None, k, [[]])"
    using assms by (simp add: http_parse_fragments_def http_yyparse_def next_token_def http_scan_def http_body_def)
  then show ?thesis
    by (simp add: http_handleDataMessage_def COMMON_PARSER_FLEX_BUFFER_BOUNDARY_SIZE_def new_http_module_def
      blocked_receive [where f = "[]" and rest = "[]"] blocked_empty)
qed


section \<open>Messages as the streamer makes them\<close>

text \<open>The versions that the scanner knows, and the identifier that a request names.\<close>

definition scanned_version :: "http_version \<Rightarrow> bool" where
  "scanned_version v \<longleftrightarrow> v \<in> {HTTP_VERSION_0_9, HTTP_VERSION_1_0, HTTP_VERSION_1_1}"

definition request_target :: "HTTP_Record \<Rightarrow> string" where
  "request_target r = URI r @
    (if http_method r = HTTP_METHOD_GET \<and> form r \<noteq> [] then ''?'' @ form_text (form r) else [])"

definition sent_headers :: "HTTP_Record \<Rightarrow> headers" where
  "sent_headers r = printed_headers (isRequest r) (headers r)"

lemma version_text:
  "scanned_version v \<Longrightarrow> ''HTTP/'' @ VersionToString v \<in> lang VERSION"
  "scanned_version v \<Longrightarrow> VersionToType (''HTTP/'' @ VersionToString v) = HTTP_VERSION_INVALID"
  "scanned_version v \<Longrightarrow> VersionToType (VersionToString v) = v"
  unfolding scanned_version_def VERSION_lang
  by (auto simp: decimal_def VersionToType_def)

lemma request_buffer:
  assumes "http_parts r = Inr (buffer, content, r')" "http_method r \<in> {HTTP_METHOD_GET, HTTP_METHOD_POST}"
  shows "buffer = MethodToString (http_method r) @ '' '' @ request_target r @ '' '' @ (''HTTP/'' @ VersionToString (version r)) @ crlf @
    concat (map header_line (sent_headers r')) @ crlf"
proof -
  have "isRequest r' = isRequest r" "isRequest r"
    using assms by (auto simp: http_parts_def isRequest_def less_http_method_def bind_res_eq_Inr)
  with http_parts_text [OF assms(1)] assms(2) show ?thesis
    by (auto simp: start_line_def request_target_def header_block_def sent_headers_def)
qed

lemma streamed_request:
  assumes "http_parts r = Inr (buffer, content, r')" "http_method r \<in> {HTTP_METHOD_GET, HTTP_METHOD_POST}"
    "request_target r \<in> lang REQUEST_URI" "scanned_version (version r)" "storable e (sent_headers r')"
  shows "http_head e \<lparr>p_condition = In_INITIAL, p_record = new_HTTP_Record, p_behind = [], p_ahead = [buffer @ content]\<rparr> =
    Inr (Some T_DELIMITER, \<lparr>p_condition = In_body,
      p_record = new_HTTP_Record\<lparr>URI := request_target r, http_method := http_method r, headers := put_all e (sent_headers r') []\<rparr>,
      p_behind = [], p_ahead = [content]\<rparr>)"
proof -
  have m: "MethodToString (http_method r) \<in> lang METHOD" "MethodToType (MethodToString (http_method r)) = http_method r"
    using assms(2) by (auto simp: METHOD_lang MethodToType_def)
  show ?thesis
    unfolding request_buffer [OF assms(1,2)]
    using request_head_text [OF m(1) assms(3) version_text(1) [OF assms(4)] assms(5), of new_HTTP_Record "[]" content]
      version_text(2) [OF assms(4)] m(2)
    by (simp add: new_HTTP_Record_def)
qed

lemma decimal_dec: "list_all decimal (dec n)"
proof -
  have "decimal (digit_char i)" if "i < 10" for i using that by (simp add: decimal_def digit_char_def)
  with render_chars [of 10 n] show ?thesis by (auto simp: list_all_iff)
qed

lemma length_dec:
  assumes "100 \<le> n" "n < 1000"
  shows "length (dec n) = 3"
proof -
  have "n div 10 div 10 < 10" using assms(2) by (simp add: div_less_iff_less_mult)
  moreover have "10 \<le> n div 10" using div_le_mono [OF assms(1), of 10] by simp
  moreover have "10 \<le> n" using assms(1) by simp
  ultimately have "dec n = [digit_char (n div 10 div 10), digit_char (n div 10 mod 10), digit_char (n mod 10)]"
    by (simp add: render_step [of 10 n] render_step [of 10 "n div 10"] render_short)
  then show ?thesis by simp
qed

definition plain_reason :: "string \<Rightarrow> bool" where
  "plain_reason w \<longleftrightarrow> list_all reason_char w \<and> CHR 0x22 \<notin> set w"

lemma StatusToReason_plain: "plain_reason (StatusToReason n)"
proof -
  have "plain_reason x \<Longrightarrow> plain_reason y \<Longrightarrow> plain_reason (if b then x else y)" for b x y by simp
  note branch = this
  show ?thesis unfolding StatusToReason_def by (intro branch) (simp_all add: plain_reason_def reason_char_def)
qed

lemma response_buffer:
  assumes "http_parts r = Inr (buffer, content, r')" "\<not> isRequest r"
  shows "r' = r" "content = []" "buffer = (''HTTP/'' @ VersionToString (version r)) @ '' '' @ dec (status r) @ '' '' @
      StatusToReason (status r) @ crlf @ concat (map header_line (sent_headers r')) @ crlf"
  using assms by (auto simp: http_parts_def status_line_def HTTP_PRT_VERSION_STRING_PREFIX_def header_block_def sent_headers_def)

lemma reason_plain: "list_all reason_char (StatusToReason n)" "CHR 0x22 \<notin> set (StatusToReason n)"
  using StatusToReason_plain by (simp_all add: plain_reason_def)

lemma streamed_response:
  assumes "http_parts r = Inr (buffer, content, r')" "\<not> isRequest r" "100 \<le> status r" "status r < 1000"
    "scanned_version (version r)" "storable e (sent_headers r')"
  shows "http_head e \<lparr>p_condition = In_INITIAL, p_record = new_HTTP_Record, p_behind = [], p_ahead = [buffer @ t]\<rparr> =
    Inr (Some T_DELIMITER, \<lparr>p_condition = body_condition e (put_all e (sent_headers r') []),
      p_record = new_HTTP_Record\<lparr>reason := StatusToReason (status r), status := status r,
        headers := put_all e (sent_headers r') [], version := version r\<rparr>, p_behind = [], p_ahead = [t]\<rparr>)"
  unfolding response_buffer(3) [OF assms(1,2)]
  using response_head_text [OF version_text(1) [OF assms(5)] length_dec [OF assms(3,4)] decimal_dec reason_plain assms(6),
      where r = new_HTTP_Record and b = "[]" and t = t]
  by (simp add: version_text(3) [OF assms(5)] HTTP_PRT_VERSION_STRING_PREFIX_def parse_render new_HTTP_Record_def)

lemma streamed_encoding:
  assumes "http_parts r = Inr (buffer, content, r')" "\<not> isRequest r" "100 \<le> status r" "status r < 1000" "scanned_version (version r)"
    and "\<forall>f \<in> set (sent_headers r'). plain_field f" "HTTP_PRT_HEADER_CONTENT_ENCODING_STRING \<in> fst ` set (sent_headers r')" "http_asserts e"
  shows "http_head e \<lparr>p_condition = In_INITIAL, p_record = q, p_behind = [], p_ahead = [buffer @ t]\<rparr> = Inl Assertion"
  using response_head_encoding [OF version_text(1) [OF assms(5)] length_dec [OF assms(3,4)] decimal_dec reason_plain assms(6-8),
    where r = q and b = "[]" and t = "crlf @ t"]
  unfolding response_buffer(3) [OF assms(1,2)] by simp

section \<open>The stored header fields\<close>

lemma ci_equal: "\<not> ci_less a b \<and> \<not> ci_less b a \<longleftrightarrow> folded a = folded b"
  using nats_less_total [of "folded a" "folded b"] by (auto simp: ci_less_def nats_less_irrefl)

lemma put_all_ordered: "ordered ci_less acc \<Longrightarrow> ordered ci_less (put_all e hs acc)"
  by (induction hs arbitrary: acc) (auto simp: ci.ordered_map_put)

lemma put_all_other:
  assumes "folds e" "folded k \<notin> (folded \<circ> fst) ` set hs"
  shows "map_find ci_less k (put_all e hs acc) = map_find ci_less k acc"
  using assms(2)
proof (induction hs arbitrary: acc)
  case (Cons f hs)
  obtain a v where f: "f = (a, v)" by (cases f)
  have "ci_less k (lower e a) \<or> ci_less (lower e a) k"
    using Cons.prems assms(1) ci_equal [of k "lower e a"] by (auto simp: f folds_def)
  with Cons show ?case by (simp add: f ci.find_put_other)
qed simp

lemma map_find_folded:
  "folded a = folded b \<Longrightarrow> map_find ci_less a xs = map_find ci_less b xs"
  by (induction xs) (auto simp: ci_less_def)

lemma put_all_find:
  assumes "folds e" "ordered ci_less acc" "distinct (map (folded \<circ> fst) hs)" "(k', v) \<in> set hs" "folded k' = folded k"
  shows "map_find ci_less k (put_all e hs acc) = Some v"
  using assms(2-4)
proof (induction hs arbitrary: acc)
  case (Cons f hs)
  obtain a w where f: "f = (a, w)" by (cases f)
  have acc: "ordered ci_less (map_put ci_less (lower e a) w acc)" by (rule ci.ordered_map_put [OF Cons.prems(1)])
  show ?case
  proof (cases "(k', v) \<in> set hs")
    case True
    with Cons.IH [OF acc] Cons.prems(2) show ?thesis by (simp add: f)
  next
    case False
    then have a: "a = k'" "w = v" using Cons.prems(3) by (auto simp: f)
    have k: "folded (lower e a) = folded k" using assms(1,5) a by (simp add: folds_def)
    have "folded k \<notin> (folded \<circ> fst) ` set hs" using Cons.prems(2) assms(5) by (auto simp: f a)
    then have "map_find ci_less k (put_all e (f # hs) acc) = map_find ci_less (lower e a) (map_put ci_less (lower e a) w acc)"
      using put_all_other [OF assms(1)] map_find_folded [OF k [symmetric]] by (simp add: f)
    also have "\<dots> = Some v" using ci.find_map_put [OF Cons.prems(1)] a(2) by simp
    finally show ?thesis .
  qed
qed simp

lemma put_all_iff:
  assumes "folds e" "distinct (map (folded \<circ> fst) hs)"
  shows "map_find ci_less k (put_all e hs []) = Some v \<longleftrightarrow> (\<exists>k'. (k', v) \<in> set hs \<and> folded k' = folded k)"
proof (cases "folded k \<in> (folded \<circ> fst) ` set hs")
  case True
  then obtain k' w where w: "(k', w) \<in> set hs" "folded k' = folded k" by force
  then have "map_find ci_less k (put_all e hs []) = Some w" using put_all_find [OF assms(1) _ assms(2) w] by simp
  moreover have "w = v" if "(k'', v) \<in> set hs" "folded k'' = folded k" for k''
    using that w assms(2) inj_onD [of "folded \<circ> fst" "set hs" "(k'', v)" "(k', w)"] by (simp add: distinct_map)
  ultimately show ?thesis using w by auto
next
  case False
  with put_all_other [OF assms(1), of k hs "[]"] show ?thesis by force
qed

lemma ordered_folded: "ordered ci_less hs \<Longrightarrow> distinct (map (folded \<circ> fst) hs)"
proof (induction hs)
  case (Cons f hs)
  have "folded (fst f) \<noteq> folded (fst g)" if "g \<in> set hs" for g
    using Cons.prems that ci_equal [of "fst f" "fst g"] by (cases f) auto
  with Cons show ?case by auto
qed simp

lemma sent_headers_distinct:
  assumes "ordered ci_less (headers r)"
  shows "distinct (map (folded \<circ> fst) (sent_headers r))"
proof -
  have d: "distinct (map (folded \<circ> fst) (headers r))" by (rule ordered_folded [OF assms])
  then have "distinct (sent_headers r)" by (simp add: sent_headers_def printed_headers_distinct distinct_map)
  moreover have "inj_on (folded \<circ> fst) (set (sent_headers r))"
    using d by (auto simp: distinct_map sent_headers_def printed_headers_set intro: inj_on_subset)
  ultimately show ?thesis by (simp add: distinct_map)
qed

section \<open>Numbers\<close>

lemma code_digit: "i < 16 \<Longrightarrow> (of_char (digit_char i) :: nat) = (if i < 10 then 48 + i else 87 + i)"
  by (simp add: digit_char_def)

lemma digit_facts:
  assumes "i < 16"
  shows "\<not> white (digit_char i)" "digit_char i \<noteq> CHR ''+''" "digit_char i \<noteq> CHR ''-''" "to_lower (digit_char i) = digit_char i"
proof -
  have c: "(of_char (digit_char i) :: nat) \<in> {48..57} \<union> {97..102}" using assms by (auto simp: code_digit)
  then show "\<not> white (digit_char i)" "to_lower (digit_char i) = digit_char i" by (auto simp: white_def to_lower_def)
  show "digit_char i \<noteq> CHR ''+''" "digit_char i \<noteq> CHR ''-''" using c by auto
qed

lemma read_rendered:
  assumes "n < 2 ^ 32" "2 \<le> b" "b \<le> 16" "\<And>i. i < b \<Longrightarrow> p (digit_char i)"
  shows "read_unsigned b p (render b n) = word_of_nat n"
proof -
  have d: "\<exists>i < 16. c = digit_char i \<and> p c" if c: "c \<in> set (render b n)" for c
  proof -
    obtain i where "i < b" "c = digit_char i" using render_chars [OF assms(2), of n] c by blast
    with assms(3,4) show ?thesis by (intro exI [of _ i]) simp
  qed
  obtain c w where w: "render b n = c # w" by (cases "render b n") auto
  then obtain i where i: "i < 16" "c = digit_char i" using d [of c] by auto
  have c: "\<not> white c" "c \<noteq> CHR ''+''" "c \<noteq> CHR ''-''" unfolding i(2) by (rule digit_facts [OF i(1)])+
  have "\<forall>c \<in> set (render b n). p c" using d by blast
  then have "takeWhile p (render b n) = render b n" by (simp only: takeWhile_eq_all_conv)
  moreover have "map to_lower (render b n) = render b n"
    by (rule map_idI) (metis d digit_facts(4))
  ultimately show ?thesis
    using c parse_render [of b n] assms(1-3) by (simp add: read_unsigned_def w Let_def del: char.inject)
qed


section \<open>Content\<close>

lemma decimal_digit: "i < 10 \<Longrightarrow> decimal (digit_char i)"
  by (simp add: decimal_def code_digit)

lemma hexadecimal_digit: "i < 16 \<Longrightarrow> hexadecimal (digit_char i)"
  by (simp add: hexadecimal_def decimal_def code_digit)

lemma lex_body:
  assumes "find_header e HTTP_PRT_HEADER_CONTENT_LENGTH_STRING hs = Some (dec (length s))" "length s < 2 ^ 32" "s \<noteq> []"
  shows "http_lex e In_body hs [s] = Inr (T_BODY (word_of_nat (length s)), In_INITIAL, [], [s])"
  using assms read_rendered [of "length s" 10 decimal] decimal_digit
  by (simp add: lex_Cons body_rule_def stay_def)

text \<open>A content in chunks, with the last chunk and an empty line behind it.\<close>

definition chunk_text :: "string \<Rightarrow> string" where
  "chunk_text c = hex (length c) @ crlf @ c @ crlf"

definition chunked_text :: "string list \<Rightarrow> string" where
  "chunked_text cs = concat (map chunk_text cs) @ ''0'' @ crlf @ crlf"

definition chunk_ok :: "string \<Rightarrow> bool" where
  "chunk_ok c \<longleftrightarrow> c \<noteq> [] \<and> length c < 2 ^ 32"

lemma hex_line:
  shows "list_all hexadecimal (hex n)" "plain_line (hex n)" "hex n \<in> lang CHUNK_LINE" "CHR '':'' \<notin> set (hex n)"
proof -
  show h: "list_all hexadecimal (hex n)" using render_chars [of 16 n] hexadecimal_digit by (auto simp: list_all_iff)
  have "\<not> hexadecimal (CHR 0x0D)" "\<not> hexadecimal (CHR 0x22)" "\<not> hexadecimal CHR '':''" by (simp_all add: hexadecimal_def decimal_def)
  with list_all_not [OF h] show "plain_line (hex n)" "CHR '':'' \<notin> set (hex n)" by (simp_all add: plain_line_def)
  have "hex n \<in> lang (FPlus HEX)" using h by (simp add: HEX_def lang_FPlus)
  moreover have "[] \<in> lang (FStar (FSeq (FChar CHR '';'') CHUNK_EXTENSION))" by (auto intro: exI [of _ "[]"])
  ultimately have "hex n @ [] \<in> lang CHUNK_LINE" unfolding CHUNK_LINE_def lang.simps(4) by blast
  then show "hex n \<in> lang CHUNK_LINE" by simp
qed

lemma unat_word32: "n < 2 ^ 32 \<Longrightarrow> unat (word_of_nat n :: u32) = n"
  by (simp add: unsigned_of_nat take_bit_nat_eq_self)

lemma chunk_line_of:
  assumes "list_all hexadecimal h" "plain_line h" "h \<in> lang CHUNK_LINE" "CHR '':'' \<notin> set h"
    "read_unsigned 16 hexadecimal h = word_of_nat n" "n < 2 ^ 32"
  shows "chunked_rule e (h @ crlf @ t) rest =
    (if n = 0 then Inr (T_CHUNK, In_chunked_body, [], t # rest) else chunk_data e (word_of_nat n) t rest)"
proof -
  have "h \<notin> lang ENTITY_HEADER" using assms(4) needs_lang [OF colon_fields(3)] by blast
  then have field: "longest (FSeq ENTITY_HEADER CRLF) (h @ crlf @ t) = None"
    using assms(2) by (simp add: longest_line)
  have line: "longest (FSeq CHUNK_LINE CRLF) (h @ crlf @ t) = Some (length h + 2)"
    using assms(2,3) by (simp add: longest_line)
  have each: "\<forall>x \<in> set h. hexadecimal x" using assms(1) by (simp add: list_all_iff)
  from each have all: "takeWhile hexadecimal h = h" "dropWhile hexadecimal h = []"
    by (simp_all only: takeWhile_eq_all_conv dropWhile_eq_Nil_conv)
  have zero: "(word_of_nat n :: u32) = 0 \<longleftrightarrow> n = 0"
  proof
    assume "(word_of_nat n :: u32) = 0"
    then have "unat (word_of_nat n :: u32) = unat (0 :: u32)" by (rule arg_cong)
    then show "n = 0" unfolding unat_word32 [OF assms(6)] by simp
  qed simp
  have two: "length crlf = 2" by (simp add: crlf_def)
  have "chunk_rule e (length h + 2) (h @ crlf @ t) rest =
      (if n = 0 then Inr (T_CHUNK, In_chunked_body, [], t # rest) else chunk_data e (word_of_nat n) t rest)"
    using two zero each by (simp add: chunk_rule_def chunk_line_ok_def all assms(5))
  then show ?thesis by (simp only: chunked_rule_def line field longer_def option.case if_False)
qed

lemma chunk_line:
  "n < 2 ^ 32 \<Longrightarrow> chunked_rule e (hex n @ crlf @ t) rest =
    (if n = 0 then Inr (T_CHUNK, In_chunked_body, [], t # rest) else chunk_data e (word_of_nat n) t rest)"
  by (rule chunk_line_of [OF hex_line read_rendered]) (simp_all add: hexadecimal_digit)


lemma lex_chunk:
  assumes "chunk_ok c" "u \<noteq> []"
  shows "http_lex e In_chunked_body hs [chunk_text c @ u] = Inr (T_CHUNK, In_chunked_body, [c], [u])"
proof -
  have c: "length c < 2 ^ 32" "c \<noteq> []" using assms(1) by (simp_all add: chunk_ok_def)
  have n: "unat (word_of_nat (length c) :: u32) = length c" by (rule unat_word32 [OF c(1)])
  have two: "length crlf = 2" "take 2 crlf = crlf" by (simp_all add: crlf_def)
  have "chunk_data e (word_of_nat (length c)) (c @ crlf @ u) [] = Inr (T_CHUNK, In_chunked_body, [c], [u])"
    unfolding chunk_data_def n using two assms(2) by simp
  then have "chunked_rule e (hex (length c) @ crlf @ c @ crlf @ u) [] = Inr (T_CHUNK, In_chunked_body, [c], [u])"
    using chunk_line [OF c(1)] c(2) by simp
  then show ?thesis by (simp add: chunk_text_def lex_Cons)
qed

lemma lex_last_chunk:
  "http_lex e In_chunked_body hs [''0'' @ crlf @ u] = Inr (T_CHUNK, In_chunked_body, [], [u])"
  "http_lex e In_chunked_body hs [crlf] = Inr (T_DELIMITER, In_INITIAL, [], [[]])"
proof -
  have "hex 0 = ''0''" by (simp add: render_short digit_char_def char_of_def bit_0)
  then show "http_lex e In_chunked_body hs [''0'' @ crlf @ u] = Inr (T_CHUNK, In_chunked_body, [], [u])"
    using chunk_line [of 0 e u "[]"] lex_Cons(7) [of "''0'' @ crlf @ u"] by simp
  have "[] \<notin> lang CHUNK_LINE" by (simp add: CHUNK_LINE_def FPlus_def HEX_def)
  moreover have "plain_line []" by (simp add: plain_line_def)
  ultimately have "longest (FSeq CHUNK_LINE CRLF) ([] @ crlf @ []) = None"
    by (subst longest_line) simp_all
  moreover have "crlf \<noteq> []" by (simp add: crlf_def)
  ultimately show "http_lex e In_chunked_body hs [crlf] = Inr (T_DELIMITER, In_INITIAL, [], [[]])"
    using header_blank [of ENTITY_HEADER "CHR '':''" In_INITIAL In_chunked_body "[]"]
    by (simp add: lex_Cons chunked_rule_def stay_def)
qed

lemma chunked_text_Nil: "chunked_text cs \<noteq> []"
  by (simp add: chunked_text_def)

lemma scan_chunks:
  assumes "\<forall>c \<in> set cs. chunk_ok c" "p_condition p = In_chunked_body" "p_ahead p = [chunked_text cs]"
  shows "next_token e p (chunks_from e) =
    Inr (T_DELIMITER, p\<lparr>p_condition := In_INITIAL, p_behind := p_behind p @ cs, p_ahead := [[]]\<rparr>)"
  using assms
proof (induction cs arbitrary: p)
  case Nil
  then have "http_scan e p = Inr (T_CHUNK, p\<lparr>p_condition := In_chunked_body, p_ahead := [crlf]\<rparr>)"
    using lex_last_chunk(1) [of e "headers (p_record p)" crlf] by (simp add: http_scan_def chunked_text_def)
  moreover have "http_scan e (p\<lparr>p_condition := In_chunked_body, p_ahead := [crlf]\<rparr>) =
      Inr (T_DELIMITER, p\<lparr>p_condition := In_INITIAL, p_ahead := [[]]\<rparr>)"
    using lex_last_chunk(2) by (simp add: http_scan_def)
  ultimately show ?case by (simp add: next_token_def chunks_from_eq)
next
  case (Cons c cs)
  have "chunked_text (c # cs) = chunk_text c @ chunked_text cs" by (simp add: chunked_text_def)
  then have "http_scan e p = Inr (T_CHUNK, p\<lparr>p_behind := p_behind p @ [c], p_ahead := [chunked_text cs]\<rparr>)"
    using Cons.prems lex_chunk [of c "chunked_text cs" e "headers (p_record p)"] chunked_text_Nil
    by (cases p) (simp add: http_scan_def)
  then show ?case
    using Cons.IH [of "p\<lparr>p_behind := p_behind p @ [c], p_ahead := [chunked_text cs]\<rparr>"] Cons.prems
    by (simp add: next_token_def [of e p] chunks_from_eq)
qed

lemma chunks_body:
  assumes "\<forall>c \<in> set cs. chunk_ok c" "p_condition p = In_chunked_body" "p_ahead p = [chunked_text cs]"
  shows "next_token e p (http_body e) =
    Inr (True, p\<lparr>p_condition := In_INITIAL, p_behind := p_behind p @ cs, p_ahead := [[]]\<rparr>)"
proof -
  obtain p1 where p1: "http_scan e p = Inr (T_CHUNK, p1)"
  proof (cases cs)
    case Nil
    with assms that lex_last_chunk(1) [of e "headers (p_record p)" crlf] show ?thesis by (simp add: http_scan_def chunked_text_def)
  next
    case (Cons c cs')
    then have "chunked_text cs = chunk_text c @ chunked_text cs'" by (simp add: chunked_text_def)
    with Cons assms that lex_chunk [of c "chunked_text cs'" e "headers (p_record p)"] chunked_text_Nil [of cs']
    show ?thesis by (simp add: http_scan_def)
  qed
  then have "next_token e p (http_body e) = bind_res (next_token e p (chunks_from e)) (\<lambda>(t, p).
      bind_res (headers_from e t p) (\<lambda>(t, p). Inr (t = T_DELIMITER, p)))"
    by (simp add: next_token_def [of e p] http_body_def chunks_from_eq)
  then show ?thesis by (simp add: scan_chunks [OF assms] headers_from_eq)
qed


section \<open>Properties\<close>

text \<open>A message that is complete is passed on at once, and the module is ready for the next one.\<close>

lemma handle_complete:
  assumes "http_head e \<lparr>p_condition = In_INITIAL, p_record = new_HTTP_Record, p_behind = [], p_ahead = [s]\<rparr> = Inr (Some T_DELIMITER, p)"
    and "next_token e p (http_body e) = Inr (True, p')"
  shows "\<exists>m. http_handleDataMessage e COMMON_PARSER_FLEX_BUFFER_BOUNDARY_SIZE s new_http_module =
      Inr (Some (p_record p', p_behind p' @ p_ahead p'), m) \<and> m_condition m = p_condition p' \<and> m_fragments m = []"
  using assms by (simp add: http_handleDataMessage_def new_http_module_def http_parse_fragments_def http_yyparse_def)

lemma content_length_sent:
  assumes "folds e" "ordered ci_less (headers r)" "map_find ci_less HTTP_PRT_HEADER_CONTENT_LENGTH_STRING (headers r) = Some v" "isRequest r"
  shows "find_header e HTTP_PRT_HEADER_CONTENT_LENGTH_STRING (put_all e (sent_headers r) []) = Some v"
proof -
  let ?n = "''Content-Length''"
  obtain k where k: "(k, v) \<in> set (headers r)" "\<not> ci_less ?n k" "\<not> ci_less k ?n"
    using map_find_SomeD assms(3) unfolding HTTP_PRT_HEADER_CONTENT_LENGTH_STRING_def by fast
  then have "(k, v) \<in> set (sent_headers r)"
    using content_length_not_response [OF k(2,3)] assms(4) by (simp add: sent_headers_def printed_headers_set)
  moreover have "folded k = folded (lower e ?n)"
    using conjI [OF k(2,3)] assms(1) unfolding ci_equal folds_def by simp
  ultimately show ?thesis
    using put_all_iff [OF assms(1) sent_headers_distinct [OF assms(2)]]
    unfolding find_header_def HTTP_PRT_HEADER_CONTENT_LENGTH_STRING_def by blast
qed

lemma sent_iff:
  assumes "folds e" "ordered ci_less (headers r)"
  shows "map_find ci_less k (put_all e (sent_headers r) []) = Some v \<longleftrightarrow>
    (\<exists>k'. (k', v) \<in> set (headers r) \<and> folded k' = folded k \<and>
      \<not> isHeaderType k' (if isRequest r then HTTP_HEADER_RESPONSE else HTTP_HEADER_REQUEST))"
  using put_all_iff [OF assms(1) sent_headers_distinct [OF assms(2)], of k v]
  by (auto simp: sent_headers_def printed_headers_set)

lemma form_text_not_Nil: "f \<noteq> [] \<Longrightarrow> form_text f \<noteq> []"
  by (cases f rule: form_text.cases) auto

lemma post_parts:
  assumes "http_parts r = Inr (buffer, content, r')" "http_method r = HTTP_METHOD_POST" "ordered ci_less (headers r)"
  shows "isRequest r'" "ordered ci_less (headers r')" "content \<noteq> []"
    "map_find ci_less HTTP_PRT_HEADER_CONTENT_LENGTH_STRING (headers r') = Some (dec (length content))"
proof -
  have f: "form r \<noteq> []" "content = butlast (form_entries (form r))"
    "r' = r\<lparr>headers := map_put ci_less HTTP_PRT_HEADER_CONTENT_TYPE_STRING HTTP_PRT_MIMETYPE_WWWURLENCODING_STRING
       (map_put ci_less HTTP_PRT_HEADER_CONTENT_LENGTH_STRING (dec (length content)) (headers r))\<rparr>"
    using assms(1,2) by (auto simp: http_parts_def isRequest_def less_http_method_def request_line_def
      form_entries_Nil Let_def split: if_splits)
  show "content \<noteq> []" using f(1,2) form_text_not_Nil by (simp add: butlast_form_entries)
  show "isRequest r'" using assms(2) by (simp add: f(3) isRequest_def less_http_method_def)
  show "ordered ci_less (headers r')" using assms(3) by (simp add: f(3) ci.ordered_map_put)
  have "ci_less ''Content-Length'' ''Content-Type''" by (simp add: ci_eval)
  then show "map_find ci_less HTTP_PRT_HEADER_CONTENT_LENGTH_STRING (headers r') = Some (dec (length content))"
    unfolding f(3) HTTP_PRT_HEADER_CONTENT_LENGTH_STRING_def HTTP_PRT_HEADER_CONTENT_TYPE_STRING_def
    by (simp add: ci.find_put_other ci.find_map_put assms(3))
qed

text \<open>C9: A POST request with a form whose URI is one of the scanner's language (first path segments of one character), sent and received in
  one message by a parser that does not block: what the streamer puts into a message block with room for it is parsed when it arrives.
  The record has the method, the identifier and exactly the header fields that were sent, found under their names in any case; the form
  itself is not restored, but passed on untouched as the content; and the version is lost: it is looked up with its prefix, and
  never found.\<close>

theorem http_roundtrip:
  assumes "common_strings e" "http_parts r = Inr (buffer, content, r')" "http_method r = HTTP_METHOD_POST" "ordered ci_less (headers r)"
    and "URI r \<in> lang REQUEST_URI" "scanned_version (version r)" "storable e (sent_headers r')" "length content < 2 ^ 32"
    and "mb_laws ops contents" "contents m0 = []" "length (buffer @ content) \<le> mb_space ops m0"
  shows "\<exists>m1 p m. handleDataMessage ops (r, m0) = Inr (r', Some m1, True) \<and>
    http_handleDataMessage e COMMON_PARSER_FLEX_BUFFER_BOUNDARY_SIZE (contents m1) new_http_module = Inr (Some (p, [content]), m) \<and> m_condition m = In_INITIAL \<and> m_fragments m = [] \<and>
    http_method p = HTTP_METHOD_POST \<and> URI p = URI r \<and> version p = HTTP_VERSION_INVALID \<and>
    (\<forall>k v. map_find ci_less k (headers p) = Some v \<longleftrightarrow>
      (\<exists>k'. (k', v) \<in> set (headers r') \<and> folded k' = folded k \<and> \<not> isHeaderType k' HTTP_HEADER_RESPONSE))"
proof -
  let ?r = "new_HTTP_Record\<lparr>URI := URI r, http_method := HTTP_METHOD_POST, headers := put_all e (sent_headers r') []\<rparr>"
  note post = post_parts [OF assms(2,3,4)]
  have target: "request_target r = URI r" by (simp add: request_target_def assms(3))
  have head: "http_head e \<lparr>p_condition = In_INITIAL, p_record = new_HTTP_Record, p_behind = [], p_ahead = [buffer @ content]\<rparr> =
      Inr (Some T_DELIMITER, \<lparr>p_condition = In_body, p_record = ?r, p_behind = [], p_ahead = [content]\<rparr>)"
    using streamed_request [OF assms(2) _ _ assms(6,7)] assms(3,5) target by simp
  have len: "find_header e HTTP_PRT_HEADER_CONTENT_LENGTH_STRING (headers ?r) = Some (dec (length content))"
    using content_length_sent [OF folds_lower [OF assms(1)] post(2,4,1)] by simp
  have body: "next_token e \<lparr>p_condition = In_body, p_record = ?r, p_behind = [], p_ahead = [content]\<rparr> (http_body e) =
      Inr (True, \<lparr>p_condition = In_INITIAL, p_record = ?r, p_behind = [], p_ahead = [content]\<rparr>)"
    using lex_body [OF len assms(8) post(3)] len read_rendered [OF assms(8), of 10 decimal] decimal_digit
    by (simp add: next_token_def http_scan_def http_body_def)
  obtain m1 where "handleDataMessage ops (r, m0) = Inr (r', Some m1, True)" "contents m1 = buffer @ content"
    using http_streams [OF assms(9,10,2)] assms(11) by auto
  with handle_complete [OF head body] sent_iff [OF folds_lower [OF assms(1)] post(2)] post(1) show ?thesis
    by (auto simp: new_HTTP_Record_def)
qed

text \<open>C26: A message without content never arrives at a parser that does not block. Whatever a server or a client streams without content - a GET
  request, any response, but not a HEAD request - the parser waits for a content that does not come, and since it starts again with the
  fragment that is used up, nothing that follows in the session is ever passed on.\<close>

theorem http_bodiless:
  assumes "http_parts r = Inr (buffer, [], r')" "http_method r \<noteq> HTTP_METHOD_HEAD" "scanned_version (version r)"
    and "isRequest r \<Longrightarrow> request_target r \<in> lang REQUEST_URI" "\<not> isRequest r \<Longrightarrow> 100 \<le> status r \<and> status r < 1000"
    and "storable e (sent_headers r')"
  shows "\<exists>m. http_receive e (buffer # ss) new_http_module = Inr ([], m)"
proof (cases "isRequest r")
  case True
  with assms(2) have "http_method r \<in> {HTTP_METHOD_GET, HTTP_METHOD_POST}"
    by (cases "http_method r") (simp_all add: isRequest_def less_http_method_def)
  from bodiless_receive [OF streamed_request [OF assms(1) this assms(4) [OF True] assms(3,6), simplified]] show ?thesis by blast
next
  case False
  with assms(5) have s: "100 \<le> status r" "status r < 1000" by simp_all
  from bodiless_receive [OF streamed_response [OF assms(1) False s assms(3,6), of "[]", simplified]] show ?thesis by blast
qed


lemma long_segment:
  assumes "d \<noteq> CHR ''/''"
  shows "CHR ''/'' # c # d # w \<notin> lang REQUEST_URI"
proof
  assume "CHR ''/'' # c # d # w \<in> lang REQUEST_URI"
  then consider (uri) "CHR ''/'' # c # d # w \<in> lang ABSOLUTE_URI" | (path) "CHR ''/'' # c # d # w \<in> lang ABSOLUTE_PATH"
    by (auto simp: REQUEST_URI_def)
  then show False
  proof cases
    case uri
    then obtain s t where "CHR ''/'' # c # d # w = s @ t" "s \<in> lang SCHEME" by (auto simp: ABSOLUTE_URI_def)
    then show False by (cases s) (auto simp: SCHEME_def lang_FPlus letter_def decimal_def)
  next
    case path
    then have "c # d # w \<in> lang PATH" by (simp add: ABSOLUTE_PATH_def RELATIVE_PATH_def FOpt_def)
    then obtain ws where ws: "d # w = concat ws" "set ws \<subseteq> lang (FSeq (FChar CHR ''/'') SEGMENT)"
      by (auto simp: PATH_def F_SEGMENT_def FTimes_def P_CHAR_def)
    then show False using assms by (cases ws) auto
  qed
qed

text \<open>C27: A request for anything but a path of one character (or of segments behind it), such as \<open>/index.html\<close>, is not
  understood by a parser that does not block: the definition of a first segment is of a single character. The parser stops in front of
  the path, for good: whatever follows in the session, nothing is passed on.\<close>

theorem http_uri_rejected:
  assumes "h \<in> {''GET'', ''HEAD'', ''POST''}" "u = CHR ''/'' # c # d # w" "d \<noteq> CHR ''/''" "CHR '' '' \<notin> set u"
  shows "\<exists>m. http_receive e ((h @ '' '' @ u @ '' '' @ t) # ss) new_http_module = Inr ([], m)"
proof -
  let ?u = "u @ '' '' @ t"
  have "take_rule (FSeq REQUEST_URI SP) (Suc 0) T_URI In_version In_uri ?u = (T_END_OF_FRAGMENT, In_uri, ?u)"
    using take_space_None [of REQUEST_URI u] long_segment [OF assms(3)] assms(2,4) by simp
  moreover have "?u \<noteq> []" by simp
  ultimately have uri: "http_lex e In_uri hs (?u # rest) = Inr (T_END_OF_FRAGMENT, In_uri, [], ?u # rest)" for hs rest
    using lex_Cons(2) [of ?u e hs rest] by (simp add: stay_def)
  have "h \<in> lang METHOD" using assms(1) by (simp add: METHOD_lang)
  from first_rule_method [OF this, of ?u] have "http_parse_fragments e In_INITIAL [h @ '' '' @ ?u] = Inr (None, In_uri, [?u])"
    using uri [of _ "[]"] lex_Cons(1) [of "h @ '' '' @ ?u" e _ "[]"]
    by (simp add: http_parse_fragments_def http_yyparse_def http_head_def request_head_def next_token_def http_scan_def stay_def)
  moreover have "blocked e In_uri ?u" using uri by (auto simp: blocked_def)
  ultimately show ?thesis
    by (simp add: http_handleDataMessage_def COMMON_PARSER_FLEX_BUFFER_BOUNDARY_SIZE_def new_http_module_def
      blocked_receive [where f = ?u and rest = "[]"])
qed

text \<open>C28: With assertions compiled the parser does not survive a response with a \<open>Content-Encoding\<close>, whatever comes behind its
  head: the modules implement the upcall for the encoding as an assertion that fails.\<close>

theorem http_encoding_asserts:
  assumes "http_parts r = Inr (buffer, content, r')" "\<not> isRequest r" "100 \<le> status r" "status r < 1000" "scanned_version (version r)"
    and "\<forall>f \<in> set (headers r). plain_field f" "(HTTP_PRT_HEADER_CONTENT_ENCODING_STRING, v) \<in> set (headers r)" "http_asserts e"
  shows "http_handleDataMessage e COMMON_PARSER_FLEX_BUFFER_BOUNDARY_SIZE (buffer @ t) new_http_module = Inl Assertion"
proof -
  have "(HTTP_PRT_HEADER_CONTENT_ENCODING_STRING, v) \<in> set (sent_headers r)" "\<forall>f \<in> set (sent_headers r). plain_field f"
    using assms(2,6,7) by (auto simp: sent_headers_def printed_headers_set isHeaderType.simps HTTP_PRT_HEADER_CONTENT_ENCODING_STRING_def)
  then show ?thesis
    using streamed_encoding [OF assms(1-5) _ _ assms(8), of new_HTTP_Record t] response_buffer(1) [OF assms(1,2)]
    by (force simp: http_handleDataMessage_def new_http_module_def http_parse_fragments_def http_yyparse_def)
qed

lemma header_not_request:
  assumes "folded k = folded HTTP_PRT_HEADER_TRANSFER_ENCODING_STRING"
  shows "\<not> isHeaderType k HTTP_HEADER_REQUEST"
proof
  assume "isHeaderType k HTTP_HEADER_REQUEST"
  then have "k = ''Authorization'' \<or> k = ''From'' \<or> k = ''If-Modified-Since'' \<or> k = ''Referer'' \<or> k = ''User-Agent''"
    by (simp only: isHeaderType.simps)
  moreover have "folded ''Authorization'' \<noteq> folded ''Transfer-Encoding''" "folded ''From'' \<noteq> folded ''Transfer-Encoding''"
    "folded ''If-Modified-Since'' \<noteq> folded ''Transfer-Encoding''" "folded ''Referer'' \<noteq> folded ''Transfer-Encoding''"
    "folded ''User-Agent'' \<noteq> folded ''Transfer-Encoding''"
    by (simp_all add: ci_eval)
  ultimately show False using assms unfolding HTTP_PRT_HEADER_TRANSFER_ENCODING_STRING_def by (elim disjE) (simp_all only:)
qed

lemma map_find_NoneD: "map_find ci_less k hs = None \<Longrightarrow> (k', v) \<in> set hs \<Longrightarrow> folded k' \<noteq> folded k"
  by (induction hs) (auto simp: ci_less_def nats_less_irrefl split: if_splits)

lemma lower_white: "white c \<Longrightarrow> to_lower c = c"
  by (auto simp: white_def to_lower_def)

lemma stripped_chunked:
  assumes "common_strings e" "map to_lower v = ''chunked''"
  shows "map to_lower (strip e v) = ''chunked''"
proof -
  have "c \<in> set v \<Longrightarrow> \<not> white c" for c
  proof
    assume c: "c \<in> set v" "white c"
    then have "c \<in> set (map to_lower v)" using lower_white [OF c(2)] by force
    then show False using c(2) unfolding assms(2) by (auto simp: white_def)
  qed
  moreover have "v \<noteq> []" using assms(2) by auto
  ultimately have "strip e v = v" using assms(1) by (simp add: common_strings_def)
  with assms(2) show ?thesis by simp
qed

text \<open>C10: A response in chunks is put together, when its head and all its chunks arrive in a single message, by a parser that does not block:
  whatever texts a server sends as chunks behind the head that the streamer makes of a record, what is passed on is their concatenation,
  without the lines that frame them, and a record with the status, the reason, the version and the header fields that were sent. The
  module is ready for the next message.\<close>

theorem http_chunked:
  assumes "common_strings e" "http_parts r = Inr (buffer, content, r')" "\<not> isRequest r" "ordered ci_less (headers r)"
    and "100 \<le> status r" "status r < 1000" "scanned_version (version r)" "storable e (sent_headers r)"
    and "map_find ci_less HTTP_PRT_HEADER_CONTENT_LENGTH_STRING (headers r) = None"
    and "map_find ci_less HTTP_PRT_HEADER_TRANSFER_ENCODING_STRING (headers r) = Some v" "map to_lower v = ''chunked''"
    and "\<forall>c \<in> set cs. chunk_ok c"
  shows "\<exists>p fs m. http_handleDataMessage e COMMON_PARSER_FLEX_BUFFER_BOUNDARY_SIZE (buffer @ chunked_text cs) new_http_module =
      Inr (Some (p, fs), m) \<and> concat fs = concat cs \<and> m_condition m = In_INITIAL \<and> m_fragments m = [] \<and>
    status p = status r \<and> reason p = StatusToReason (status r) \<and> version p = version r \<and>
    (\<forall>k v. map_find ci_less k (headers p) = Some v \<longleftrightarrow>
      (\<exists>k'. (k', v) \<in> set (headers r) \<and> folded k' = folded k \<and> \<not> isHeaderType k' HTTP_HEADER_REQUEST))"
proof -
  let ?hs = "put_all e (sent_headers r) []"
  let ?r = "new_HTTP_Record\<lparr>reason := StatusToReason (status r), status := status r, headers := ?hs, version := version r\<rparr>"
  have r': "r' = r" using assms(2,3) by (simp add: http_parts_def)
  note folds = folds_lower [OF assms(1)]
  note iff = sent_iff [OF folds assms(4)]
  have len: "find_header e HTTP_PRT_HEADER_CONTENT_LENGTH_STRING ?hs = None"
  proof (cases "find_header e HTTP_PRT_HEADER_CONTENT_LENGTH_STRING ?hs")
    case (Some x)
    then obtain k where "(k, x) \<in> set (headers r)" "folded k = folded HTTP_PRT_HEADER_CONTENT_LENGTH_STRING"
      using iff folds by (auto simp: find_header_def folds_def)
    with map_find_NoneD [OF assms(9)] show ?thesis by blast
  qed
  obtain k where k: "(k, v) \<in> set (headers r)" "folded HTTP_PRT_HEADER_TRANSFER_ENCODING_STRING = folded k"
    using map_find_SomeD [OF assms(10)] unfolding ci_equal by blast
  have "find_header e HTTP_PRT_HEADER_TRANSFER_ENCODING_STRING ?hs = Some v"
    unfolding find_header_def iff using k header_not_request [OF k(2) [symmetric]] folds assms(3) by (auto simp: folds_def)
  with len stripped_chunked [OF assms(1,11)] have "body_condition e ?hs = In_chunked_body"
    by (simp add: body_condition_def HTTP_PRT_TRANSFER_ENCODING_CHUNKED_STRING_def)
  then have head: "http_head e \<lparr>p_condition = In_INITIAL, p_record = new_HTTP_Record, p_behind = [], p_ahead = [buffer @ chunked_text cs]\<rparr> =
      Inr (Some T_DELIMITER, \<lparr>p_condition = In_chunked_body, p_record = ?r, p_behind = [], p_ahead = [chunked_text cs]\<rparr>)"
    using streamed_response [OF assms(2,3,5,6,7), of e "chunked_text cs"] assms(8) by (simp add: r')
  have body: "next_token e \<lparr>p_condition = In_chunked_body, p_record = ?r, p_behind = [], p_ahead = [chunked_text cs]\<rparr> (http_body e) =
      Inr (True, \<lparr>p_condition = In_INITIAL, p_record = ?r, p_behind = cs, p_ahead = [[]]\<rparr>)"
    using chunks_body [OF assms(12), of "\<lparr>p_condition = In_chunked_body, p_record = ?r, p_behind = [], p_ahead = [chunked_text cs]\<rparr>" e]
    by simp
  from handle_complete [OF head body] iff assms(3) show ?thesis
    by (auto simp: new_HTTP_Record_def)
qed


section \<open>Witnesses\<close>

definition trim :: "string \<Rightarrow> string" where
  "trim s = rev (dropWhile white (rev (dropWhile white s)))"

definition http_demo :: http_env where
  "http_demo = \<lparr>lower = map to_lower, strip = trim, http_asserts = True\<rparr>"

lemma demo_strings: "common_strings http_demo"
proof -
  have "dropWhile white t = t" if "t \<noteq> []" "\<not> white (hd t)" for t using that by (cases t) simp_all
  then have "trim s = s" if "s \<noteq> []" "\<not> white (hd s)" "\<not> white (last s)" for s
    using that by (simp add: trim_def hd_rev)
  then show ?thesis by (simp add: common_strings_def http_demo_def)
qed

lemma http_demo_fields:
  "storable http_demo [(''Date'', ''d''), (''Server'', ''s'')]"
  "storable http_demo [(''Transfer-Encoding'', ''chunked'')]"
  "storable http_demo [(''content-length'', ''8''), (''Content-Type'', ''application/x-www-form-urlencoded'')]"
  by (code_simp)+

lemma demo_uri: "''/a'' \<in> lang REQUEST_URI"
proof -
  have "matches REQUEST_URI ''/a''" by code_simp
  then show ?thesis by (simp add: matches_lang)
qed

lemma demo_post:
  "isRequest post_record" "request_target post_record = ''/a''" "form post_record = [(''k'', ''v''), (''x'', ''yz'')]"
  "\<exists>buffer r'. http_parts post_record = Inr (buffer, ''k=v&x=yz'', r') \<and>
    sent_headers r' = [(''content-length'', ''8''), (''Content-Type'', ''application/x-www-form-urlencoded'')] \<and> length buffer \<le> 150"
proof -
  let ?h = "[(''content-length'', ''8''), (''Content-Type'', ''application/x-www-form-urlencoded'')]"
  show "isRequest post_record" "request_target post_record = ''/a''" "form post_record = [(''k'', ''v''), (''x'', ''yz'')]"
    by (simp_all add: post_record_def new_HTTP_Record_def isRequest_def less_http_method_def request_target_def)
  have h: "map_put ci_less ''Content-Type'' ''application/x-www-form-urlencoded''
      (map_put ci_less ''Content-Length'' ''8'' [(''content-length'', ''0'')]) = ?h"
    by (simp add: map_put_def ci_eval)
  have d: "dec (Suc (Suc (Suc (Suc (Suc (Suc (Suc (Suc 0)))))))) = ''8''" by (simp add: render_eval)
  have "http_parts post_record = Inr (''POST /a HTTP/1.1'' @ crlf @ header_block True ?h, ''k=v&x=yz'', post_record\<lparr>headers := ?h\<rparr>)"
    using h d by (simp add: http_parts_def post_record_def new_HTTP_Record_def isRequest_def less_http_method_def request_line_def
      form_entries_def Let_def HTTP_PRT_HEADER_CONTENT_LENGTH_STRING_def HTTP_PRT_HEADER_CONTENT_TYPE_STRING_def
      HTTP_PRT_MIMETYPE_WWWURLENCODING_STRING_def HTTP_PRT_VERSION_STRING_PREFIX_def)
  moreover have "sent_headers (post_record\<lparr>headers := ?h\<rparr>) = ?h"
    by (simp add: sent_headers_def printed_headers_def headers_of_type_def isHeaderType.simps isRequest_def
      less_http_method_def post_record_def new_HTTP_Record_def)
  moreover have "length (''POST /a HTTP/1.1'' @ crlf @ header_block True ?h) \<le> 150"
    by (simp add: header_block_def printed_headers_def headers_of_type_def isHeaderType.simps header_line_def crlf_def)
  ultimately show "\<exists>buffer r'. http_parts post_record = Inr (buffer, ''k=v&x=yz'', r') \<and> sent_headers r' = ?h \<and> length buffer \<le> 150" by blast
qed

text \<open>A form is sent and received; the field for its length is found under a name that nobody wrote.\<close>

theorem http_roundtrip_witness:
  "\<exists>r' m1 p m. handleDataMessage bounded_block (post_record, (200, [])) = Inr (r', Some m1, True) \<and>
    http_handleDataMessage http_demo COMMON_PARSER_FLEX_BUFFER_BOUNDARY_SIZE (snd m1) new_http_module = Inr (Some (p, [''k=v&x=yz'']), m) \<and> URI p = ''/a'' \<and> map_find ci_less ''CONTENT-LENGTH'' (headers p) = Some ''8''"
proof -
  obtain buffer r' where r': "http_parts post_record = Inr (buffer, ''k=v&x=yz'', r')"
    "sent_headers r' = [(''content-length'', ''8''), (''Content-Type'', ''application/x-www-form-urlencoded'')]" "length buffer \<le> 150"
    using demo_post(4) by blast
  have post: "http_method post_record = HTTP_METHOD_POST" "ordered ci_less (headers post_record)" "URI post_record = ''/a''"
      "scanned_version (version post_record)"
    by (simp_all add: post_record_def new_HTTP_Record_def scanned_version_def)
  have s: "storable http_demo (sent_headers r')" "URI post_record \<in> lang REQUEST_URI" "length ''k=v&x=yz'' < 2 ^ 32"
    unfolding r'(2) post(3) by (rule http_demo_fields(3), rule demo_uri, simp)
  have room: "length (buffer @ ''k=v&x=yz'') \<le> mb_space bounded_block (200, [])" "snd (200 :: nat, []) = []"
    using r'(3) by (simp_all add: bounded_block_def)
  obtain m1 p m where m1: "handleDataMessage bounded_block (post_record, (200, [])) = Inr (r', Some m1, True)"
    and pm: "http_handleDataMessage http_demo COMMON_PARSER_FLEX_BUFFER_BOUNDARY_SIZE (snd m1) new_http_module =
      Inr (Some (p, [''k=v&x=yz'']), m)" "URI p = URI post_record"
    "\<And>k v. map_find ci_less k (headers p) = Some v \<longleftrightarrow>
      (\<exists>k'. (k', v) \<in> set (headers r') \<and> folded k' = folded k \<and> \<not> isHeaderType k' HTTP_HEADER_RESPONSE)"
    using http_roundtrip [OF demo_strings r'(1) post(1,2) s(2) post(4) s(1,3) bounded_block_laws room(2,1)] by blast
  have "isRequest r'" using r'(1) post(1) by (auto simp: http_parts_def isRequest_def less_http_method_def bind_res_eq_Inr)
  then have "sent_headers r' = printed_headers True (headers r')" by (simp add: sent_headers_def)
  moreover have "(''content-length'', ''8'') \<in> set (sent_headers r')" unfolding r'(2) by simp
  ultimately have field: "(''content-length'', ''8'') \<in> set (headers r') \<and> \<not> isHeaderType ''content-length'' HTTP_HEADER_RESPONSE"
    by (simp add: printed_headers_set)
  have "folded ''content-length'' = folded ''CONTENT-LENGTH''" by (simp add: folded_def c_str_def of_char_to_lower)
  with field have "map_find ci_less ''CONTENT-LENGTH'' (headers p) = Some ''8''" unfolding pm(3) by blast
  with m1 pm(1,2) show ?thesis unfolding post(3) by blast
qed

text \<open>The response 404 of a server without content, and what it sends next.\<close>

theorem http_bodiless_witness:
  "\<exists>m. http_receive http_demo [''HTTP/1.0 404 Not Found'' @ crlf @ ''Date: d'' @ crlf @ ''Server: s'' @ crlf @ crlf, ''abc''] new_http_module = Inr ([], m)"
proof -
  have "sent_headers response_record = [(''Date'', ''d''), (''Server'', ''s'')]" "\<not> isRequest response_record"
    using response_lines(3) by (simp_all add: sent_headers_def isRequest_def less_http_method_def response_record_fields)
  with http_bodiless [OF response_parts, of http_demo "[''abc'']"] http_demo_fields(1) show ?thesis
    by (simp add: response_record_fields scanned_version_def)
qed

theorem http_uri_rejected_witness:
  "\<exists>m. http_receive http_demo [''GET /index.html HTTP/1.1'' @ crlf @ crlf, ''abc''] new_http_module = Inr ([], m)"
  using http_uri_rejected [of "''GET''" "''/index.html''" "CHR ''i''" "CHR ''n''" "''dex.html''" http_demo "''HTTP/1.1'' @ crlf @ crlf" "[''abc'']"]
  by simp

definition chunked_record :: HTTP_Record where
  "chunked_record = new_HTTP_Record\<lparr>version := HTTP_VERSION_1_1, status := 200, headers := [(''Transfer-Encoding'', ''chunked'')]\<rparr>"

theorem http_chunked_witness:
  "\<exists>buffer p fs m. http_parts chunked_record = Inr (buffer, [], chunked_record) \<and>
    http_handleDataMessage http_demo COMMON_PARSER_FLEX_BUFFER_BOUNDARY_SIZE (buffer @ chunked_text [''Wiki'', ''pedia'']) new_http_module =
      Inr (Some (p, fs), m) \<and> concat fs = ''Wikipedia'' \<and> status p = 200"
proof -
  have r: "\<not> isRequest chunked_record" "status chunked_record = 200" "version chunked_record = HTTP_VERSION_1_1"
    "headers chunked_record = [(''Transfer-Encoding'', ''chunked'')]"
    by (simp_all add: chunked_record_def new_HTTP_Record_def isRequest_def less_http_method_def)
  then obtain buffer where b: "http_parts chunked_record = Inr (buffer, [], chunked_record)" by (simp add: http_parts_def)
  have s: "sent_headers chunked_record = [(''Transfer-Encoding'', ''chunked'')]"
    by (simp add: sent_headers_def r printed_headers_def headers_of_type_def isHeaderType.simps)
  have find: "map_find ci_less HTTP_PRT_HEADER_CONTENT_LENGTH_STRING (headers chunked_record) = None"
    "map_find ci_less HTTP_PRT_HEADER_TRANSFER_ENCODING_STRING (headers chunked_record) = Some ''chunked''"
    by (simp_all add: r(4) ci_eval HTTP_PRT_HEADER_CONTENT_LENGTH_STRING_def HTTP_PRT_HEADER_TRANSFER_ENCODING_STRING_def)
  have low: "map to_lower ''chunked'' = ''chunked''" by code_simp
  have more: "ordered ci_less (headers chunked_record)" "100 \<le> status chunked_record" "status chunked_record < 1000"
    "scanned_version (version chunked_record)" "storable http_demo (sent_headers chunked_record)"
    "\<forall>c \<in> set [''Wiki'', ''pedia'']. chunk_ok c"
    unfolding s using http_demo_fields(2) by (simp_all add: r scanned_version_def chunk_ok_def)
  show ?thesis
    using http_chunked [OF demo_strings b r(1) more(1-5) find low more(6)] b unfolding r(2) by auto
qed


theorem http_encoding_asserts_witness:
  "\<exists>buffer. http_parts (response_record\<lparr>headers := [(''Content-Encoding'', ''gzip'')]\<rparr>) =
      Inr (buffer, [], response_record\<lparr>headers := [(''Content-Encoding'', ''gzip'')]\<rparr>) \<and>
    http_handleDataMessage http_demo COMMON_PARSER_FLEX_BUFFER_BOUNDARY_SIZE (buffer @ ''abc'') new_http_module = Inl Assertion"
proof -
  let ?r = "response_record\<lparr>headers := [(''Content-Encoding'', ''gzip'')]\<rparr>"
  have r: "\<not> isRequest ?r" "100 \<le> status ?r" "status ?r < 1000" "scanned_version (version ?r)"
    by (simp_all add: isRequest_def less_http_method_def response_record_fields scanned_version_def)
  have "plain_field (''Content-Encoding'', ''gzip'')" by code_simp
  then have f: "\<forall>f \<in> set (headers ?r). plain_field f" "(HTTP_PRT_HEADER_CONTENT_ENCODING_STRING, ''gzip'') \<in> set (headers ?r)"
    by (simp_all add: HTTP_PRT_HEADER_CONTENT_ENCODING_STRING_def)
  obtain buffer where b: "http_parts ?r = Inr (buffer, [], ?r)" using r(1) by (simp add: http_parts_def)
  have "http_asserts http_demo" by (simp add: http_demo_def)
  from http_encoding_asserts [OF b r f this, of "''abc''"] b show ?thesis by blast
qed

end
