(* ===== verification/IRC_Codes.thy ===== *)
theory IRC_Codes
  imports Net_Prelude
begin

text \<open>
  The numeric replies of IRC: the enumeration \<^verbatim>\<open>RFC1459Numeric\<close> of
  \<^verbatim>\<open>src/src/protocol/irc/irc_codes.h\<close> (\<open>numerics_*\<close>: name and value of each enumerator, in the
  order of the source) and the function that names them, \<^verbatim>\<open>IRC_Tools::CommandToString\<close> of
  \<^verbatim>\<open>src/src/protocol/irc/irc_tools.cpp\<close> (\<open>names_*\<close>: its cases, in the order of the source, as
  pairs of the label's value and the text).
\<close>

section \<open>The enumeration\<close>

definition numerics_1 :: "(string \<times> nat) list" where
  "numerics_1 =
  [(''RPL_WELCOME'', 1), (''RPL_YOURHOST'', 2), (''RPL_CREATED'', 3), (''RPL_MYINFO'', 4),
   (''RPL_PROTOCTL'', 5), (''RPL_MAPMORE'', 6), (''RPL_MAPEND'', 7), (''RPL_SNOMASK'', 8),
   (''RPL_STATMEMTOT'', 9), (''RPL_STATMEM'', 10), (''RPL_YOURCOOKIE'', 14), (''RPL_YOURID'', 20),
   (''RPL_SAVENICK'', 43), (''RPL_ATTEMPTINGJUNC'', 50), (''RPL_ATTEMPTINGREROUTE'', 51),
   (''RPL_TRACELINK'', 200), (''RPL_TRACECONNECTING'', 201), (''RPL_TRACEHANDSHAKE'', 202),
   (''RPL_TRACEUNKNOWN'', 203), (''RPL_TRACEOPERATOR'', 204), (''RPL_TRACEUSER'', 205),
   (''RPL_TRACESERVER'', 206), (''RPL_TRACESERVICE'', 207), (''RPL_TRACENEWTYPE'', 208),
   (''RPL_TRACECLASS'', 209), (''RPL_TRACERECONNECT'', 210), (''RPL_STATSLINKINFO'', 211),
   (''RPL_STATSCOMMANDS'', 212), (''RPL_STATSCLINE'', 213), (''RPL_STATSNLINE'', 214),
   (''RPL_STATSILINE'', 215), (''RPL_STATSKLINE'', 216), (''RPL_STATSQLINE'', 217),
   (''RPL_STATSYLINE'', 218), (''RPL_ENDOFSTATS'', 219), (''RPL_STATSPLINE'', 220),
   (''RPL_UMODEIS'', 221), (''RPL_SQLINE_NICK'', 222), (''RPL_STATSELINE'', 223),
   (''RPL_STATSFLINE'', 224), (''RPL_STATSGLINE'', 225), (''RPL_STATSCOUNT'', 226),
   (''RPL_SERVICEINFO'', 231), (''RPL_ENDOFSERVICES'', 232), (''RPL_SERVICE'', 233),
   (''RPL_SERVLIST'', 234), (''RPL_SERVLISTEND'', 235), (''RPL_STATSVERBOSE'', 236),
   (''RPL_STATSENGINE'', 237), (''RPL_STATSIAUTH'', 239), (''RPL_STATSVLINE'', 240),
   (''RPL_STATSLLINE'', 241), (''RPL_STATSUPTIME'', 242), (''RPL_STATSOLINE'', 243),
   (''RPL_STATSHLINE'', 244), (''RPL_STATSSLINE'', 245), (''RPL_STATSPING'', 246),
   (''RPL_STATSBLINE'', 247), (''RPL_STATSDEFINE'', 248), (''RPL_STATSDEBUG'', 249),
   (''RPL_STATSDLINE'', 250), (''RPL_LUSERCLIENT'', 251), (''RPL_LUSEROP'', 252),
   (''RPL_LUSERUNKNOWN'', 253), (''RPL_LUSERCHANNELS'', 254), (''RPL_LUSERME'', 255),
   (''RPL_ADMINME'', 256), (''RPL_ADMINLOC1'', 257), (''RPL_ADMINLOC2'', 258),
   (''RPL_ADMINEMAIL'', 259), (''RPL_TRACELOG'', 261), (''RPL_TRACEEND'', 262),
   (''RPL_TRYAGAIN'', 263), (''RPL_LOCALUSERS'', 265), (''RPL_GLOBALUSERS'', 266),
   (''RPL_START_NETSTAT'', 267), (''RPL_NETSTAT'', 268), (''RPL_END_NETSTAT'', 269),
   (''RPL_PRIVS'', 270), (''RPL_SILELIST'', 271), (''RPL_ENDOFSILELIST'', 272),
   (''RPL_NOTIFY'', 273), (''RPL_STATSDELTA'', 274), (''RPL_VCHANEXIST'', 276),
   (''RPL_VCHANLIST'', 277), (''RPL_VCHANHELP'', 278), (''RPL_GLIST'', 280),
   (''RPL_ENDOFGLIST'', 281), (''RPL_ENDOFACCEPT'', 282), (''RPL_ALIST'', 283),
   (''RPL_ENDOFALIST'', 284), (''RPL_GLIST_HASH'', 285), (''RPL_CHANINFO_USERS'', 286),
   (''RPL_CHANINFO_CHOPS'', 287), (''RPL_CHANINFO_VOICES'', 288), (''RPL_CHANINFO_AWAY'', 289)]"

definition numerics_2 :: "(string \<times> nat) list" where
  "numerics_2 =
  [(''RPL_HELPHDR'', 290), (''RPL_HELPOP'', 291), (''RPL_HELPTLR'', 292), (''RPL_HELPHLP'', 293),
   (''RPL_HELPFWD'', 294), (''RPL_HELPIGN'', 295), (''RPL_CHANINFO_KICKS'', 296),
   (''RPL_END_CHANINFO'', 299), (''RPL_NONE'', 300), (''RPL_AWAY'', 301), (''RPL_USERHOST'', 302),
   (''RPL_ISON'', 303), (''RPL_TEXT'', 304), (''RPL_UNAWAY'', 305), (''RPL_NOWAWAY'', 306),
   (''RPL_USERIP'', 307), (''RPL_WHOISADMIN'', 308), (''RPL_WHOISSADMIN'', 309),
   (''RPL_WHOISHELPOP'', 310), (''RPL_WHOISUSER'', 311), (''RPL_WHOISSERVER'', 312),
   (''RPL_WHOISOPERATOR'', 313), (''RPL_WHOWASUSER'', 314), (''RPL_ENDOFWHO'', 315),
   (''RPL_WHOISCHANOP'', 316), (''RPL_WHOISIDLE'', 317), (''RPL_ENDOFWHOIS'', 318),
   (''RPL_WHOISCHANNELS'', 319), (''RPL_WHOISVIRT'', 320), (''RPL_LISTSTART'', 321),
   (''RPL_LIST'', 322), (''RPL_LISTEND'', 323), (''RPL_CHANNELMODEIS'', 324),
   (''RPL_UNIQOPIS'', 325), (''RPL_NOCHANPASS'', 326), (''RPL_CHPASSUNKNOWN'', 327),
   (''RPL_CHANNEL_URL'', 328), (''RPL_CREATIONTIME'', 329), (''RPL_WHOWAS_TIME'', 330),
   (''RPL_NOTOPIC'', 331), (''RPL_TOPIC'', 332), (''RPL_TOPICWHOTIME'', 333),
   (''RPL_LISTUSAGE'', 334), (''RPL_WHOISBOT'', 335), (''RPL_CHANPASSOK'', 338),
   (''RPL_BADCHANPASS'', 339), (''RPL_INVITING'', 341), (''RPL_SUMMONING'', 342),
   (''RPL_INVITED'', 345), (''RPL_INVITELIST'', 346), (''RPL_ENDOFINVITELIST'', 347),
   (''RPL_EXCEPTLIST'', 348), (''RPL_ENDOFEXCEPTLIST'', 349), (''RPL_VERSION'', 351),
   (''RPL_WHOREPLY'', 352), (''RPL_NAMREPLY'', 353), (''RPL_WHOSPCRPL'', 354),
   (''RPL_NAMREPLY_'', 355), (''RPL_KILLDONE'', 361), (''RPL_CLOSING'', 362),
   (''RPL_CLOSEEND'', 363), (''RPL_LINKS'', 364), (''RPL_ENDOFLINKS'', 365),
   (''RPL_ENDOFNAMES'', 366), (''RPL_BANLIST'', 367), (''RPL_ENDOFBANLIST'', 368),
   (''RPL_ENDOFWHOWAS'', 369), (''RPL_INFO'', 371), (''RPL_MOTD'', 372), (''RPL_INFOSTART'', 373),
   (''RPL_ENDOFINFO'', 374), (''RPL_MOTDSTART'', 375), (''RPL_ENDOFMOTD'', 376),
   (''RPL_FORCE_MOTD'', 377), (''RPL_BANEXPIRED'', 378), (''RPL_KICKLINKED'', 379),
   (''RPL_BANLINKED'', 380), (''RPL_YOUREOPER'', 381), (''RPL_REHASHING'', 382),
   (''RPL_YOURESERVICE'', 383), (''RPL_MYPORTIS'', 384), (''RPL_NOTOPERANYMORE'', 385),
   (''RPL_QLIST'', 386), (''RPL_ENDOFQLIST'', 387), (''RPL_TIME'', 391), (''RPL_USERSSTART'', 392),
   (''RPL_USERS'', 393), (''RPL_ENDOFUSERS'', 394), (''RPL_NOUSERS'', 395),
   (''RPL_HOSTHIDDEN'', 396), (''ERR_UNKNOWNERROR'', 400), (''ERR_NOSUCHNICK'', 401),
   (''ERR_NOSUCHSERVER'', 402), (''ERR_NOSUCHCHANNEL'', 403), (''ERR_CANNOTSENDTOCHAN'', 404),
   (''ERR_TOOMANYCHANNELS'', 405)]"

definition numerics_3 :: "(string \<times> nat) list" where
  "numerics_3 =
  [(''ERR_WASNOSUCHNICK'', 406), (''ERR_TOOMANYTARGETS'', 407), (''ERR_NOSUCHSERVICE'', 408),
   (''ERR_NOORIGIN'', 409), (''ERR_NORECIPIENT'', 411), (''ERR_NOTEXTTOSEND'', 412),
   (''ERR_NOTOPLEVEL'', 413), (''ERR_WILDTOPLEVEL'', 414), (''ERR_BADMASK'', 415),
   (''ERR_TOOMANYMATCHES'', 416), (''ERR_LENGTHTRUNCATED'', 419), (''ERR_UNKNOWNCOMMAND'', 421),
   (''ERR_NOMOTD'', 422), (''ERR_NOADMININFO'', 423), (''ERR_FILEERROR'', 424),
   (''ERR_NOOPERMOTD'', 425), (''ERR_TOOMANYAWAY'', 429), (''ERR_EVENTNICKCHANGE'', 430),
   (''ERR_NONICKNAMEGIVEN'', 431), (''ERR_ERRONEUSNICKNAME'', 432), (''ERR_NICKNAMEINUSE'', 433),
   (''ERR_SERVICENAMEINUSE'', 434), (''ERR_SERVICECONFUSED'', 435), (''ERR_NICKCOLLISION'', 436),
   (''ERR_UNAVAILRESOURCE'', 437), (''ERR_NICKTOOFAST'', 438), (''ERR_TARGETTOOFAST'', 439),
   (''ERR_SERVICESDOWN'', 440), (''ERR_USERNOTINCHANNEL'', 441), (''ERR_NOTONCHANNEL'', 442),
   (''ERR_USERONCHANNEL'', 443), (''ERR_NOLOGIN'', 444), (''ERR_SUMMONDISABLED'', 445),
   (''ERR_USERSDISABLED'', 446), (''ERR_NONICKCHANGE'', 447), (''ERR_NOTIMPLEMENTED'', 449),
   (''ERR_NOTREGISTERED'', 451), (''ERR_IDCOLLISION'', 452), (''ERR_NICKLOST'', 453),
   (''ERR_HOSTILENAME'', 455), (''ERR_ACCEPTFULL'', 456), (''ERR_ACCEPTEXIST'', 457),
   (''ERR_ACCEPTNOT'', 458), (''ERR_NOHIDING'', 459), (''ERR_NOTFORHALFOPS'', 460),
   (''ERR_NEEDMOREPARAMS'', 461), (''ERR_ALREADYREGISTRED'', 462), (''ERR_NOPERMFORHOST'', 463),
   (''ERR_PASSWDMISMATCH'', 464), (''ERR_YOUREBANNEDCREEP'', 465), (''ERR_YOUWILLBEBANNED'', 466),
   (''ERR_KEYSET'', 467), (''ERR_ONLYSERVERSCANCHANGE'', 468), (''ERR_LINKSET'', 469),
   (''ERR_LINKCHANNEL'', 470), (''ERR_CHANNELISFULL'', 471), (''ERR_UNKNOWNMODE'', 472),
   (''ERR_INVITEONLYCHAN'', 473), (''ERR_BANNEDFROMCHAN'', 474), (''ERR_BADCHANNELKEY'', 475),
   (''ERR_BADCHANMASK'', 476), (''ERR_NOCHANMODES'', 477), (''ERR_BANLISTFULL'', 478),
   (''ERR_BADCHANNAME'', 479), (''ERR_CANNOTKNOCK'', 480), (''ERR_NOPRIVILEGES'', 481),
   (''ERR_CHANOPRIVSNEEDED'', 482), (''ERR_CANTKILLSERVER'', 483), (''ERR_RESTRICTED'', 484),
   (''ERR_UNIQOPPRIVSNEEDED'', 485), (''ERR_NONONREG'', 486), (''ERR_CHANTOORECENT'', 487),
   (''ERR_TSLESSCHAN'', 488), (''ERR_VOICENEEDED'', 489), (''ERR_NOOPERHOST'', 491),
   (''ERR_NOSERVICEHOST'', 492), (''ERR_NOFEATURE'', 493), (''ERR_BADFEATURE'', 494),
   (''ERR_BADLOGTYPE'', 495), (''ERR_BADLOGSYS'', 496), (''ERR_BADLOGVALUE'', 497),
   (''ERR_ISOPERLCHAN'', 498), (''ERR_CHANOWNPRIVNEEDED'', 499), (''ERR_UMODEUNKNOWNFLAG'', 501),
   (''ERR_USERSDONTMATCH'', 502), (''ERR_GHOSTEDCLIENT'', 503), (''ERR_USERNOTONSERV'', 504),
   (''ERR_SILELISTFULL'', 511), (''ERR_NOSUCHGLINE'', 512), (''ERR_BADPING'', 513),
   (''ERR_INVALID_ERR'', 514), (''ERR_BADEXPIRE'', 515), (''ERR_DONTCHEAT'', 516),
   (''ERR_DISABLED'', 517), (''ERR_NOINVITE'', 518), (''ERR_ADMONLY'', 519)]"

definition numerics_4 :: "(string \<times> nat) list" where
  "numerics_4 =
  [(''ERR_OPERONLY'', 520), (''ERR_LISTSYNTAX'', 521), (''ERR_WHOSYNTAX'', 522),
   (''ERR_WHOLIMEXCEED'', 523), (''ERR_OPERSPVERIFY'', 524), (''ERR_REMOTEPFX'', 525),
   (''ERR_PFXUNROUTABLE'', 526), (''ERR_BADHOSTMASK'', 550), (''ERR_HOSTUNAVAIL'', 551),
   (''ERR_USINGSLINE'', 552), (''ERR_STATSSLINE'', 553), (''RPL_LOGON'', 600),
   (''RPL_LOGOFF'', 601), (''RPL_WATCHOFF'', 602), (''RPL_WATCHSTAT'', 603), (''RPL_NOWON'', 604),
   (''RPL_NOWOFF'', 605), (''RPL_WATCHLIST'', 606), (''RPL_ENDOFWATCHLIST'', 607),
   (''RPL_WATCHCLEAR'', 608), (''RPL_ISOPER'', 610), (''RPL_ISLOCOP'', 611),
   (''RPL_ISNOTOPER'', 612), (''RPL_ENDOFISOPER'', 613), (''RPL_WHOISMODES'', 615),
   (''RPL_WHOISHOST'', 616), (''RPL_DCCSTATUS'', 617), (''RPL_DCCLIST'', 618),
   (''RPL_WHOWASHOST'', 619), (''RPL_RULESSTART'', 620), (''RPL_RULES'', 621),
   (''RPL_ENDOFRULES'', 622), (''RPL_OMOTDSTART'', 624), (''RPL_OMOTD'', 625),
   (''RPL_ENDOFO'', 626), (''RPL_SETTINGS'', 630), (''RPL_ENDOFSETTINGS'', 631),
   (''RPL_DUMPING'', 640), (''RPL_DUMPRPL'', 641), (''RPL_EODUMP'', 642),
   (''RPL_TRACEROUTE_HOP'', 660), (''RPL_TRACEROUTE_START'', 661), (''RPL_MODECHANGEWARN'', 662),
   (''RPL_CHANREDIR'', 663), (''RPL_SERVMODEIS'', 664), (''RPL_OTHERUMODEIS'', 665),
   (''RPL_ENDOF_GENERIC'', 666), (''RPL_WHOWASDETAILS'', 670), (''RPL_WHOISSECURE'', 671),
   (''RPL_UNKNOWNMODES'', 672), (''RPL_CANNOTSETMODES'', 673), (''RPL_LUSERSTAFF'', 678),
   (''RPL_TIMEONSERVERIS'', 679), (''RPL_NETWORKS'', 682), (''RPL_YOURLANGUAGEIS'', 687),
   (''RPL_LANGUAGE'', 688), (''RPL_WHOISSTAFF'', 689), (''RPL_WHOISLANGUAGE'', 690),
   (''RPL_MODLIST'', 702), (''RPL_ENDOFMODLIST'', 703), (''RPL_HELPSTART'', 704),
   (''RPL_HELPTXT'', 705), (''RPL_ENDOFHELP'', 706), (''RPL_ETRACEFULL'', 708),
   (''RPL_ETRACE'', 709), (''RPL_KNOCK'', 710), (''RPL_KNOCKDLVR'', 711),
   (''RPL_TOOMANYKNOCK'', 712), (''RPL_CHANOPEN'', 713), (''RPL_KNOCKONCHAN'', 714),
   (''RPL_KNOCKDISABLED'', 715), (''RPL_TARGUMODEG'', 716), (''RPL_TARGNOTIFY'', 717),
   (''RPL_UMODEGMSG'', 718), (''RPL_ENDOFOMOTD'', 722), (''RPL_NOPRIVS'', 723),
   (''RPL_TESTMARK'', 724), (''RPL_TESTLINE'', 725), (''RPL_NOTESTLINE'', 726),
   (''RPL_XINFO'', 771), (''RPL_XINFOSTART'', 773), (''RPL_XINFOEND'', 774),
   (''ERR_CANNOTDOCOMMAND'', 972), (''ERR_CANNOTCHANGEUMODE'', 973),
   (''ERR_CANNOTCHANGECHANMODE'', 974), (''ERR_CANNOTCHANGESERVERMODE'', 975),
   (''ERR_CANNOTSENDTONICK'', 976), (''ERR_UNKNOWNSERVERMODE'', 977), (''ERR_SERVERMODELOCK'', 979),
   (''ERR_BADCHARENCODING'', 980), (''ERR_TOOMANYLANGUAGES'', 981), (''ERR_NOLANGUAGE'', 982),
   (''ERR_TEXTTOOSHORT'', 983), (''ERR_NUMERIC_ERR'', 999)]"

definition RFC1459Numeric :: "(string \<times> nat) list" where
  "RFC1459Numeric = numerics_1 @ numerics_2 @ numerics_3 @ numerics_4"

section \<open>The names\<close>

definition names_1 :: "(nat \<times> string) list" where
  "names_1 =
  [(1, ''RPL_WELCOME''), (2, ''RPL_YOURHOST''), (3, ''RPL_CREATED''), (4, ''RPL_MYINFO''),
   (5, ''RPL_PROTOCTL''), (6, ''RPL_MAPMORE''), (7, ''RPL_MAPEND''), (8, ''RPL_SNOMASK''),
   (9, ''RPL_STATMEMTOT''), (10, ''RPL_STATMEM''), (14, ''RPL_YOURCOOKIE''), (20, ''RPL_YOURID''),
   (43, ''RPL_SAVENICK''), (50, ''RPL_ATTEMPTINGJUNC''), (51, ''RPL_ATTEMPTINGREROUTE''),
   (200, ''RPL_TRACELINK''), (201, ''RPL_TRACECONNECTING''), (202, ''RPL_TRACEHANDSHAKE''),
   (203, ''RPL_TRACEUNKNOWN''), (204, ''RPL_TRACEOPERATOR''), (205, ''RPL_TRACEUSER''),
   (206, ''RPL_TRACESERVER''), (207, ''RPL_TRACESERVICE''), (208, ''RPL_TRACENEWTYPE''),
   (209, ''RPL_TRACECLASS''), (210, ''RPL_TRACERECONNECT''), (211, ''RPL_STATSLINKINFO''),
   (212, ''RPL_STATSCOMMANDS''), (213, ''RPL_STATSCLINE''), (214, ''RPL_STATSNLINE''),
   (215, ''RPL_STATSILINE''), (216, ''RPL_STATSKLINE''), (217, ''RPL_STATSQLINE''),
   (218, ''RPL_STATSYLINE''), (219, ''RPL_ENDOFSTATS''), (220, ''RPL_STATSPLINE''),
   (221, ''RPL_UMODEIS''), (222, ''RPL_SQLINE_NICK''), (223, ''RPL_STATSELINE''),
   (224, ''RPL_STATSFLINE''), (225, ''RPL_STATSGLINE''), (226, ''RPL_STATSCOUNT''),
   (231, ''RPL_SERVICEINFO''), (232, ''RPL_ENDOFSERVICES''), (233, ''RPL_SERVICE''),
   (234, ''RPL_SERVLIST''), (235, ''RPL_SERVLISTEND''), (236, ''RPL_STATSVERBOSE''),
   (237, ''RPL_STATSENGINE''), (239, ''RPL_STATSIAUTH''), (240, ''RPL_STATSVLINE''),
   (241, ''RPL_STATSLLINE''), (242, ''RPL_STATSUPTIME''), (243, ''RPL_STATSOLINE''),
   (244, ''RPL_STATSHLINE'')]"

definition names_2 :: "(nat \<times> string) list" where
  "names_2 =
  [(245, ''RPL_STATSSLINE''), (246, ''RPL_STATSPING''), (247, ''RPL_STATSBLINE''),
   (248, ''RPL_STATSDEFINE''), (249, ''RPL_STATSDEBUG''), (250, ''RPL_STATSDLINE''),
   (251, ''RPL_LUSERCLIENT''), (252, ''RPL_LUSEROP''), (253, ''RPL_LUSERUNKNOWN''),
   (254, ''RPL_LUSERCHANNELS''), (255, ''RPL_LUSERME''), (256, ''RPL_ADMINME''),
   (257, ''RPL_ADMINLOC1''), (258, ''RPL_ADMINLOCTo''), (259, ''RPL_ADMINEMAIL''),
   (261, ''RPL_TRACELOG''), (262, ''RPL_TRACEEND''), (263, ''RPL_TRYAGAIN''),
   (265, ''RPL_LOCALUSERS''), (266, ''RPL_GLOBALUSERS''), (267, ''RPL_START_NETSTAT''),
   (268, ''RPL_NETSTAT''), (269, ''RPL_END_NETSTAT''), (270, ''RPL_PRIVS''),
   (271, ''RPL_SILELIST''), (272, ''RPL_ENDOFSILELIST''), (273, ''RPL_NOTIFY''),
   (274, ''RPL_STATSDELTA''), (276, ''RPL_VCHANEXIST''), (277, ''RPL_VCHANLIST''),
   (278, ''RPL_VCHANHELP''), (280, ''RPL_GLIST''), (281, ''RPL_ENDOFGLIST''),
   (282, ''RPL_ENDOFACCEPT''), (283, ''RPL_ALIST''), (284, ''RPL_ENDOFALIST''),
   (285, ''RPL_GLIST_HASH''), (286, ''RPL_CHANINFO_USERS''), (287, ''RPL_CHANINFO_CHOPS''),
   (288, ''RPL_CHANINFO_VOICES''), (289, ''RPL_CHANINFO_AWAY''), (290, ''RPL_HELPHDR''),
   (291, ''RPL_HELPOP''), (292, ''RPL_HELPTLR''), (293, ''RPL_HELPHLP''), (294, ''RPL_HELPFWD''),
   (295, ''RPL_HELPIGN''), (296, ''RPL_CHANINFO_KICKS''), (299, ''RPL_END_CHANINFO''),
   (300, ''RPL_NONE''), (301, ''RPL_AWAY''), (302, ''RPL_USERHOST''), (303, ''RPL_ISON''),
   (304, ''RPL_TEXT''), (305, ''RPL_UNAWAY'')]"

definition names_3 :: "(nat \<times> string) list" where
  "names_3 =
  [(306, ''RPL_NOWAWAY''), (307, ''RPL_USERIP''), (308, ''RPL_WHOISADMIN''),
   (309, ''RPL_WHOISSADMIN''), (310, ''RPL_WHOISHELPOP''), (311, ''RPL_WHOISUSER''),
   (312, ''RPL_WHOISSERVER''), (313, ''RPL_WHOISOPERATOR''), (314, ''RPL_WHOWASUSER''),
   (315, ''RPL_ENDOFWHO''), (316, ''RPL_WHOISCHANOP''), (317, ''RPL_WHOISIDLE''),
   (318, ''RPL_ENDOFWHOIS''), (319, ''RPL_WHOISCHANNELS''), (320, ''RPL_WHOISVIRT''),
   (321, ''RPL_LISTSTART''), (322, ''RPL_LIST''), (323, ''RPL_LISTEND''),
   (324, ''RPL_CHANNELMODEIS''), (325, ''RPL_UNIQOPIS''), (326, ''RPL_NOCHANPASS''),
   (327, ''RPL_CHPASSUNKNOWN''), (328, ''RPL_CHANNEL_URL''), (329, ''RPL_CREATIONTIME''),
   (330, ''RPL_WHOWAS_TIME''), (331, ''RPL_NOTOPIC''), (332, ''RPL_TOPIC''),
   (333, ''RPL_TOPICWHOTIME''), (334, ''RPL_LISTUSAGE''), (335, ''RPL_WHOISBOT''),
   (338, ''RPL_CHANPASSOK''), (339, ''RPL_BADCHANPASS''), (341, ''RPL_INVITING''),
   (342, ''RPL_SUMMONING''), (345, ''RPL_INVITED''), (346, ''RPL_INVITELIST''),
   (347, ''RPL_ENDOFINVITELIST''), (348, ''RPL_EXCEPTLIST''), (349, ''RPL_ENDOFEXCEPTLIST''),
   (351, ''RPL_VERSION''), (352, ''RPL_WHOREPLY''), (353, ''RPL_NAMREPLY''),
   (354, ''RPL_WHOSPCRPL''), (355, ''RPL_NAMREPLY_''), (361, ''RPL_KILLDONE''),
   (362, ''RPL_CLOSING''), (363, ''RPL_CLOSEEND''), (364, ''RPL_LINKS''), (365, ''RPL_ENDOFLINKS''),
   (366, ''RPL_ENDOFNAMES''), (367, ''RPL_BANLIST''), (368, ''RPL_ENDOFBANLIST''),
   (369, ''RPL_ENDOFWHOWAS''), (371, ''RPL_INFO''), (372, ''RPL_MOTD'')]"

definition names_4 :: "(nat \<times> string) list" where
  "names_4 =
  [(373, ''RPL_INFOSTART''), (374, ''RPL_ENDOFINFO''), (375, ''RPL_MOTDSTART''),
   (376, ''RPL_ENDOFMOTD''), (377, ''RPL_FORCE_MOTD''), (378, ''RPL_BANEXPIRED''),
   (379, ''RPL_KICKLINKED''), (380, ''RPL_BANLINKED''), (381, ''RPL_YOUREOPER''),
   (382, ''RPL_REHASHING''), (383, ''RPL_YOURESERVICE''), (384, ''RPL_MYPORTIS''),
   (385, ''RPL_NOTOPERANYMORE''), (386, ''RPL_QLIST''), (387, ''RPL_ENDOFQLIST''),
   (391, ''RPL_TIME''), (392, ''RPL_USERSSTART''), (393, ''RPL_USERS''), (394, ''RPL_ENDOFUSERS''),
   (395, ''RPL_NOUSERS''), (396, ''RPL_HOSTHIDDEN''), (400, ''ERR_UNKNOWNERROR''),
   (401, ''ERR_NOSUCHNICK''), (402, ''ERR_NOSUCHSERVER''), (403, ''ERR_NOSUCHCHANNEL''),
   (404, ''ERR_CANNOTSENDTOCHAN''), (405, ''ERR_TOOMANYCHANNELS''), (406, ''ERR_WASNOSUCHNICK''),
   (407, ''ERR_TOOMANYTARGETS''), (408, ''ERR_NOSUCHSERVICE''), (409, ''ERR_NOORIGIN''),
   (411, ''ERR_NORECIPIENT''), (412, ''ERR_NOTEXTTOSEND''), (413, ''ERR_NOTOPLEVEL''),
   (414, ''ERR_WILDTOPLEVEL''), (415, ''ERR_BADMASK''), (416, ''ERR_TOOMANYMATCHES''),
   (419, ''ERR_LENGTHTRUNCATED''), (421, ''ERR_UNKNOWNCOMMAND''), (422, ''ERR_NOMOTD''),
   (423, ''ERR_NOADMININFO''), (424, ''ERR_FILEERROR''), (425, ''ERR_NOOPERMOTD''),
   (429, ''ERR_TOOMANYAWAY''), (430, ''ERR_EVENTNICKCHANGE''), (431, ''ERR_NONICKNAMEGIVEN''),
   (432, ''ERR_ERRONEUSNICKNAME''), (433, ''ERR_NICKNAMEINUSE''), (434, ''ERR_SERVICENAMEINUSE''),
   (435, ''ERR_SERVICECONFUSED''), (436, ''ERR_NICKCOLLISION''), (437, ''ERR_UNAVAILRESOURCE''),
   (438, ''ERR_NICKTOOFAST''), (439, ''ERR_TARGETTOOFAST''), (440, ''ERR_SERVICESDOWN'')]"

definition names_5 :: "(nat \<times> string) list" where
  "names_5 =
  [(441, ''ERR_USERNOTINCHANNEL''), (442, ''ERR_NOTONCHANNEL''), (443, ''ERR_USERONCHANNEL''),
   (444, ''ERR_NOLOGIN''), (445, ''ERR_SUMMONDISABLED''), (446, ''ERR_USERSDISABLED''),
   (447, ''ERR_NONICKCHANGE''), (449, ''ERR_NOTIMPLEMENTED''), (451, ''ERR_NOTREGISTERED''),
   (452, ''ERR_IDCOLLISION''), (453, ''ERR_NICKLOST''), (455, ''ERR_HOSTILENAME''),
   (456, ''ERR_ACCEPTFULL''), (457, ''ERR_ACCEPTEXIST''), (458, ''ERR_ACCEPTNOT''),
   (459, ''ERR_NOHIDING''), (460, ''ERR_NOTFORHALFOPS''), (461, ''ERR_NEEDMOREPARAMS''),
   (462, ''ERR_ALREADYREGISTRED''), (463, ''ERR_NOPERMFORHOST''), (464, ''ERR_PASSWDMISMATCH''),
   (465, ''ERR_YOUREBANNEDCREEP''), (466, ''ERR_YOUWILLBEBANNED''), (467, ''ERR_KEYSET''),
   (468, ''ERR_ONLYSERVERSCANCHANGE''), (469, ''ERR_LINKSET''), (470, ''ERR_LINKCHANNEL''),
   (471, ''ERR_CHANNELISFULL''), (472, ''ERR_UNKNOWNMODE''), (473, ''ERR_INVITEONLYCHAN''),
   (474, ''ERR_BANNEDFROMCHAN''), (475, ''ERR_BADCHANNELKEY''), (476, ''ERR_BADCHANMASK''),
   (477, ''ERR_NOCHANMODES''), (478, ''ERR_BANLISTFULL''), (479, ''ERR_BADCHANNAME''),
   (480, ''ERR_CANNOTKNOCK''), (481, ''ERR_NOPRIVILEGES''), (482, ''ERR_CHANOPRIVSNEEDED''),
   (483, ''ERR_CANTKILLSERVER''), (484, ''ERR_RESTRICTED''), (485, ''ERR_UNIQOPPRIVSNEEDED''),
   (486, ''ERR_NONONREG''), (487, ''ERR_CHANTOORECENT''), (488, ''ERR_TSLESSCHAN''),
   (489, ''ERR_VOICENEEDED''), (491, ''ERR_NOOPERHOST''), (492, ''ERR_NOSERVICEHOST''),
   (493, ''ERR_NOFEATURE''), (494, ''ERR_BADFEATURE''), (495, ''ERR_BADLOGTYPE''),
   (496, ''ERR_BADLOGSYS''), (497, ''ERR_BADLOGVALUE''), (498, ''ERR_ISOPERLCHAN''),
   (499, ''ERR_CHANOWNPRIVNEEDED'')]"

definition names_6 :: "(nat \<times> string) list" where
  "names_6 =
  [(501, ''ERR_UMODEUNKNOWNFLAG''), (502, ''ERR_USERSDONTMATCH''), (503, ''ERR_GHOSTEDCLIENT''),
   (504, ''ERR_USERNOTONSERV''), (511, ''ERR_SILELISTFULL''), (512, ''ERR_NOSUCHGLINE''),
   (513, ''ERR_BADPING''), (514, ''ERR_INVALID_ERR''), (515, ''ERR_BADEXPIRE''),
   (516, ''ERR_DONTCHEAT''), (517, ''ERR_DISABLED''), (518, ''ERR_NOINVITE''),
   (519, ''ERR_ADMONLY''), (520, ''ERR_OPERONLY''), (521, ''ERR_LISTSYNTAX''),
   (522, ''ERR_WHOSYNTAX''), (523, ''ERR_WHOLIMEXCEED''), (524, ''ERR_OPERSPVERIFY''),
   (525, ''ERR_REMOTEPFX''), (526, ''ERR_PFXUNROUTABLE''), (550, ''ERR_BADHOSTMASK''),
   (551, ''ERR_HOSTUNAVAIL''), (552, ''ERR_USINGSLINE''), (553, ''ERR_STATSSLINE''),
   (600, ''RPL_LOGON''), (601, ''RPL_LOGOFF''), (602, ''RPL_WATCHOFF''), (603, ''RPL_WATCHSTAT''),
   (604, ''RPL_NOWON''), (605, ''RPL_NOWOFF''), (606, ''RPL_WATCHLIST''),
   (607, ''RPL_ENDOFWATCHLIST''), (608, ''RPL_WATCHCLEAR''), (610, ''RPL_ISOPER''),
   (611, ''RPL_ISLOCOP''), (612, ''RPL_ISNOTOPER''), (613, ''RPL_ENDOFISOPER''),
   (615, ''RPL_WHOISMODES''), (616, ''RPL_WHOISHOST''), (617, ''RPL_DCCSTATUS''),
   (618, ''RPL_DCCLIST''), (619, ''RPL_WHOWASHOST''), (620, ''RPL_RULESSTART''),
   (621, ''RPL_RULES''), (622, ''RPL_ENDOFRULES''), (624, ''RPL_OMOTDSTART''), (625, ''RPL_OMOTD''),
   (626, ''RPL_ENDOFO''), (630, ''RPL_SETTINGS''), (631, ''RPL_ENDOFSETTINGS''),
   (640, ''RPL_DUMPING''), (641, ''RPL_DUMPRPL''), (642, ''RPL_EODUMP''),
   (660, ''RPL_TRACEROUTE_HOP''), (661, ''RPL_TRACEROUTE_START'')]"

definition names_7 :: "(nat \<times> string) list" where
  "names_7 =
  [(662, ''RPL_MODECHANGEWARN''), (663, ''RPL_CHANREDIR''), (664, ''RPL_SERVMODEIS''),
   (665, ''RPL_OTHERUMODEIS''), (666, ''RPL_ENDOF_GENERIC''), (670, ''RPL_WHOWASDETAILS''),
   (671, ''RPL_WHOISSECURE''), (672, ''RPL_UNKNOWNMODES''), (673, ''RPL_CANNOTSETMODES''),
   (678, ''RPL_LUSERSTAFF''), (679, ''RPL_TIMEONSERVERIS''), (682, ''RPL_NETWORKS''),
   (687, ''RPL_YOURLANGUAGEIS''), (688, ''RPL_LANGUAGE''), (689, ''RPL_WHOISSTAFF''),
   (690, ''RPL_WHOISLANGUAGE''), (702, ''RPL_MODLIST''), (703, ''RPL_ENDOFMODLIST''),
   (704, ''RPL_HELPSTART''), (705, ''RPL_HELPTXT''), (706, ''RPL_ENDOFHELP''),
   (708, ''RPL_ETRACEFULL''), (709, ''RPL_ETRACE''), (710, ''RPL_KNOCK''), (711, ''RPL_KNOCKDLVR''),
   (712, ''RPL_TOOMANYKNOCK''), (713, ''RPL_CHANOPEN''), (714, ''RPL_KNOCKONCHAN''),
   (715, ''RPL_KNOCKDISABLED''), (716, ''RPL_TARGUMODEG''), (717, ''RPL_TARGNOTIFY''),
   (718, ''RPL_UMODEGMSG''), (722, ''RPL_ENDOFOMOTD''), (723, ''RPL_NOPRIVS''),
   (724, ''RPL_TESTMARK''), (725, ''RPL_TESTLINE''), (726, ''RPL_NOTESTLINE''),
   (771, ''RPL_XINFO''), (773, ''RPL_XINFOSTART''), (774, ''RPL_XINFOEND''),
   (972, ''ERR_CANNOTDOCOMMAND''), (973, ''ERR_CANNOTCHANGEUMODE''),
   (974, ''ERR_CANNOTCHANGECHANMODE''), (975, ''ERR_CANNOTCHANGESERVERMODE''),
   (976, ''ERR_CANNOTSENDTONICK''), (977, ''ERR_UNKNOWNSERVERMODE''), (979, ''ERR_SERVERMODELOCK''),
   (980, ''ERR_BADCHARENCODING''), (981, ''ERR_TOOMANYLANGUAGES''), (982, ''ERR_NOLANGUAGE''),
   (983, ''ERR_TEXTTOOSHORT''), (999, ''ERR_NUMERIC_ERR'')]"

definition command_names :: "(nat \<times> string) list" where
  "command_names = names_1 @ names_2 @ names_3 @ names_4 @ names_5 @ names_6 @ names_7"

definition CommandToString :: "nat \<Rightarrow> string" where
  "CommandToString numeric =
    (case map_of command_names numeric of None \<Rightarrow> ''INVALID/UNKNOWN'' | Some name \<Rightarrow> name)"

section \<open>The names are those of the enumeration\<close>

definition enumerator :: "nat \<Rightarrow> string option" where
  "enumerator n = map_of (map (\<lambda>(name, v). (v, name)) RFC1459Numeric) n"

lemmas numeric_tables =
  RFC1459Numeric_def numerics_1_def numerics_2_def numerics_3_def numerics_4_def

lemmas name_tables =
  command_names_def names_1_def names_2_def names_3_def names_4_def names_5_def names_6_def names_7_def

lemma command_names_table:
  "command_names = map (\<lambda>(name, v). (v, if v = 258 then ''RPL_ADMINLOCTo'' else name)) RFC1459Numeric"
  by (simp add: name_tables numeric_tables)

lemma map_of_renamed:
  "map_of (map (\<lambda>(name, v). (v, f v name)) xs) n =
     map_option (f n) (map_of (map (\<lambda>(name, v). (v, name)) xs) n)"
  by (induction xs) auto

lemma numerics_ascending: "sorted_wrt (<) (map snd RFC1459Numeric)"
proof -
  have "successively (<) (map snd RFC1459Numeric)"
    by (simp add: numeric_tables)
  then show ?thesis
    by (simp add: successively_conv_sorted_wrt transp_on_def)
qed

text \<open>The name of a numeric reply is the name of the enumerator with that value, for every reply of
  the enumeration but 258 (the enumerator \<open>RPL_ADMINLOC2\<close> is printed as \<open>RPL_ADMINLOCTo\<close>), and
  any other number has no name; no two enumerators share a value.\<close>

theorem CommandToString_enumerator:
  "CommandToString n =
     (case enumerator n of None \<Rightarrow> ''INVALID/UNKNOWN''
      | Some name \<Rightarrow> if n = 258 then ''RPL_ADMINLOCTo'' else name)
   \<and> distinct (map snd RFC1459Numeric)"
proof
  show "CommandToString n =
     (case enumerator n of None \<Rightarrow> ''INVALID/UNKNOWN''
      | Some name \<Rightarrow> if n = 258 then ''RPL_ADMINLOCTo'' else name)"
    unfolding CommandToString_def command_names_table enumerator_def
    by (subst map_of_renamed [where f = "\<lambda>v name. if v = 258 then ''RPL_ADMINLOCTo'' else name"])
      (simp split: option.splits)
  show "distinct (map snd RFC1459Numeric)"
    using numerics_ascending by (simp add: strict_sorted_iff)
qed

end
