(* ===== verification/IRC_Record.thy ===== *)
theory IRC_Record
  imports Net_Prelude
begin

text \<open>
  The IRC message, \<^verbatim>\<open>IRC_Record\<close> in \<^verbatim>\<open>src/src/protocol/irc/irc_record.h\<close> and \<^verbatim>\<open>irc_record.cpp\<close>. A
  textual command is an owned \<^verbatim>\<open>std::string*\<close>: the strings live in an explicit store, so that
  the assignment operator's deletion and copy, and the aliasing of its argument, are visible.
\<close>

type_synonym pointer = nat
type_synonym strings = "pointer \<rightharpoonup> string"

record Prefix =
  origin :: string
  user :: string
  host :: string

text \<open>The discriminated union; the pointer of a string is \<open>None\<close> for NULL.\<close>

datatype Command = NUMERIC nat | STRING "pointer option" | INVALID

record IRC_Record =
  prefix :: Prefix
  command :: Command
  parameters :: "string list"
  parameterRanges :: "(nat \<times> nat) list"

definition empty_prefix :: Prefix where
  "empty_prefix = \<lparr>origin = [], user = [], host = []\<rparr>"

definition new_IRC_Record :: IRC_Record where
  "new_IRC_Record = \<lparr>prefix = empty_prefix, command = INVALID, parameters = [], parameterRanges = []\<rparr>"

section \<open>Ownership of the command string\<close>

definition deref :: "strings \<Rightarrow> pointer option \<Rightarrow> string res" where
  "deref h p = (case p of None \<Rightarrow> Inl Undefined_Behaviour
     | Some a \<Rightarrow> (case h a of None \<Rightarrow> Inl Undefined_Behaviour | Some s \<Rightarrow> Inr s))"

text \<open>\<^verbatim>\<open>delete\<close>: no effect on NULL, no defined behaviour on a string that is already gone.\<close>

definition delete_string :: "strings \<Rightarrow> pointer option \<Rightarrow> strings res" where
  "delete_string h p = (case p of None \<Rightarrow> Inr h
     | Some a \<Rightarrow> if h a = None then Inl Undefined_Behaviour else Inr (h(a := None)))"

definition destroy :: "strings \<Rightarrow> IRC_Record \<Rightarrow> strings res" where
  "destroy h r = (case command r of STRING (Some a) \<Rightarrow> delete_string h (Some a) | _ \<Rightarrow> Inr h)"

text \<open>
  \<^verbatim>\<open>operator=\<close>. With \<open>self\<close> the argument is the object itself, so what the code does to the
  object before it reads the argument is seen in the argument.
\<close>

definition assign ::
  "(strings \<Rightarrow> pointer option) \<Rightarrow> bool \<Rightarrow> strings \<Rightarrow> IRC_Record \<Rightarrow> IRC_Record \<Rightarrow> (strings \<times> IRC_Record) res" where
  "assign alloc self h this arg =
    (let this1 = this\<lparr>prefix := prefix (if self then this else arg)\<rparr>
     in bind_res
       (case command this1 of
          STRING p \<Rightarrow> bind_res (delete_string h p) (\<lambda>h. Inr (h, this1\<lparr>command := STRING None\<rparr>))
        | _ \<Rightarrow> Inr (h, this1))
       (\<lambda>(h1, this2). let rhs = (if self then this2 else arg)
         in bind_res
           (case command rhs of
              STRING p \<Rightarrow> bind_res (deref h1 p) (\<lambda>s.
                (case alloc h1 of
                   None \<Rightarrow> Inr (h1, this2\<lparr>command := STRING None\<rparr>)
                 | Some a \<Rightarrow> Inr (h1(a \<mapsto> s), this2\<lparr>command := STRING (Some a)\<rparr>)))
            | c \<Rightarrow> Inr (h1, this2\<lparr>command := c\<rparr>))
           (\<lambda>(h2, this3). Inr (h2, this3\<lparr>parameters := parameters (if self then this3 else arg),
              parameterRanges := parameterRanges (if self then this3 else arg)\<rparr>))))"

text \<open>The copy constructor: an empty object (whose union holds a number), then the assignment.\<close>

definition copy_construct ::
  "(strings \<Rightarrow> pointer option) \<Rightarrow> strings \<Rightarrow> IRC_Record \<Rightarrow> (strings \<times> IRC_Record) res" where
  "copy_construct alloc h arg = assign alloc False h
     \<lparr>prefix = empty_prefix, command = NUMERIC 0, parameters = [], parameterRanges = []\<rparr> arg"

text \<open>The value of a record: everything but the address of its string.\<close>

datatype command_text = Numeric_command nat | Text_command string | No_command

definition command_value :: "strings \<Rightarrow> Command \<Rightarrow> command_text" where
  "command_value h c = (case c of NUMERIC n \<Rightarrow> Numeric_command n | INVALID \<Rightarrow> No_command
     | STRING p \<Rightarrow> (case deref h p of Inl _ \<Rightarrow> No_command | Inr s \<Rightarrow> Text_command s))"

definition owns :: "strings \<Rightarrow> IRC_Record \<Rightarrow> bool" where
  "owns h r = (case command r of STRING (Some a) \<Rightarrow> h a \<noteq> None | STRING None \<Rightarrow> False | _ \<Rightarrow> True)"

definition address :: "IRC_Record \<Rightarrow> pointer set" where
  "address r = (case command r of STRING (Some a) \<Rightarrow> {a} | _ \<Rightarrow> {})"

lemma deref_update_other: "a \<noteq> b \<Longrightarrow> deref (h(b := x)) (Some a) = deref h (Some a)"
  by (simp add: deref_def)

text \<open>Assignment is a deep copy: with two records that each own their command string, an allocator
  that finds a free address, and the argument a different object, the result has the value of the argument,
  owns a string of its own, and the argument keeps its value and its string; the string the
  object owned before is gone.\<close>

theorem assign_deep_copy:
  assumes "\<And>h'. dom h' \<subseteq> dom h \<Longrightarrow> \<exists>a. alloc h' = Some a \<and> h' a = None"
    and "owns h this" "owns h arg" "address this \<inter> address arg = {}"
  shows "\<exists>h' this'. assign alloc False h this arg = Inr (h', this')
    \<and> prefix this' = prefix arg \<and> parameters this' = parameters arg
    \<and> parameterRanges this' = parameterRanges arg
    \<and> command_value h' (command this') = command_value h (command arg)
    \<and> command_value h' (command arg) = command_value h (command arg)
    \<and> owns h' this' \<and> owns h' arg \<and> address this' \<inter> address arg = {}
    \<and> (\<forall>a. a \<in> address this - address this' \<longrightarrow> h' a = None)"
proof -
  define h1 where "h1 = (case command this of STRING (Some a) \<Rightarrow> h(a := None) | _ \<Rightarrow> h)"
  have "dom h1 \<subseteq> dom h"
    by (auto simp: h1_def split: Command.splits option.splits if_splits)
  then obtain a where a: "alloc h1 = Some a" "h1 a = None"
    using assms(1) by blast
  have gone: "\<forall>b \<in> address this. h1 b = None"
    by (auto simp: h1_def address_def split: Command.splits option.splits)
  have kept: "h1 b = h b \<and> h b \<noteq> None \<and> b \<noteq> a" if "command arg = STRING (Some b)" for b
    using that assms(3,4) a(2)
    by (auto simp: h1_def owns_def address_def split: Command.splits option.splits if_splits)
  have start: "(case command this of
      STRING p \<Rightarrow> bind_res (delete_string h p) (\<lambda>h. Inr (h, this\<lparr>prefix := prefix arg, command := STRING None\<rparr>))
    | _ \<Rightarrow> Inr (h, this\<lparr>prefix := prefix arg\<rparr>))
    = Inr (h1, this\<lparr>prefix := prefix arg, command := (case command this of STRING p \<Rightarrow> STRING None | c \<Rightarrow> c)\<rparr>)"
    using assms(2) by (auto simp: delete_string_def h1_def owns_def split: Command.splits option.splits)
  show ?thesis
  proof (cases "command arg")
    case (STRING p)
    with assms(3) obtain b where b: "command arg = STRING (Some b)"
      by (cases p) (auto simp: owns_def)
    with kept obtain s where s: "h b = Some s" "h1 b = Some s" "b \<noteq> a" by fastforce
    show ?thesis
      using b s a gone start
      by (auto simp: assign_def Let_def owns_def address_def command_value_def deref_def)
  next
    case (NUMERIC n)
    then show ?thesis
      using gone start by (auto simp: assign_def Let_def owns_def address_def command_value_def)
  next
    case INVALID
    then show ?thesis
      using gone start by (auto simp: assign_def Let_def owns_def address_def command_value_def)
  qed
qed

text \<open>Assigning a record to itself has no defined behaviour when its command is a text (the string is
  deleted before it is copied), and leaves the record as it was otherwise.\<close>

theorem assign_self:
  "assign alloc True h this this =
     (case command this of STRING _ \<Rightarrow> Inl Undefined_Behaviour | _ \<Rightarrow> Inr (h, this))"
  by (auto simp: assign_def Let_def delete_string_def deref_def split: Command.splits option.splits)

text \<open>Two records with texts at the addresses 0 and 1; the allocator uses the address 2.\<close>

definition demo_strings :: strings where
  "demo_strings = [0 \<mapsto> ''JOIN'', 1 \<mapsto> ''QUIT'']"

definition demo_alloc :: "strings \<Rightarrow> pointer option" where
  "demo_alloc h = (if h 2 = None then Some 2 else None)"

theorem assign_deep_copy_witness:
  "\<exists>h' this'. assign demo_alloc False demo_strings (new_IRC_Record\<lparr>command := STRING (Some 0)\<rparr>)
       (new_IRC_Record\<lparr>command := STRING (Some 1)\<rparr>) = Inr (h', this')
     \<and> command_value h' (command this') = Text_command ''QUIT''"
proof -
  have "\<exists>a. demo_alloc h' = Some a \<and> h' a = None" if "dom h' \<subseteq> dom demo_strings" for h'
    using that by (auto simp: demo_alloc_def demo_strings_def dom_def split: if_splits)
  from assign_deep_copy [of demo_strings demo_alloc "new_IRC_Record\<lparr>command := STRING (Some 0)\<rparr>"
      "new_IRC_Record\<lparr>command := STRING (Some 1)\<rparr>", OF this]
  show ?thesis
    by (auto simp: demo_strings_def owns_def address_def command_value_def deref_def)
qed

end
