(* ===== verification/IRC_Tools.thy ===== *)
theory IRC_Tools
  imports IRC_Codes IRC_Record
begin

text \<open>
  The functions of \<^verbatim>\<open>src/src/protocol/irc/irc_tools.cpp\<close> over commands, user and channel modes and
  records, with the enumerations of \<^verbatim>\<open>irc_record.h\<close> and \<^verbatim>\<open>irc_common.h\<close>. A set of modes is a
  \<^verbatim>\<open>std::bitset\<close>: a word of 7 bits for users and of 14 bits for channels.
\<close>

section \<open>Commands\<close>

datatype CommandType =
    PASS | NICK | USER | SERVER | OPER | QUIT | SQUIT | JOIN | PART | MODE | TOPIC | NAMES |
    LIST | INVITE | KICK | SVERSION | STATS | LINKS | TIME | CONNECT | TRACE | ADMIN | INFO |
    PRIVMSG | NOTICE | WHO | WHOIS | WHOWAS | KILL | PING | PONG | ERROR | AWAY | REHASH |
    RESTART | SUMMON | USERS | WALLOPS | USERHOST | ISON | IRC_COMMANDTYPE_MAX |
    IRC_COMMANDTYPE_INVALID

text \<open>The comparisons of \<open>CommandToType\<close>, in their order.\<close>

definition command_words :: "(string \<times> CommandType) list" where
  "command_words =
    [(''PASS'', PASS), (''NICK'', NICK), (''USER'', USER), (''SERVER'', SERVER), (''OPER'', OPER),
    (''QUIT'', QUIT), (''SQUIT'', SQUIT), (''JOIN'', JOIN), (''PART'', PART), (''MODE'', MODE),
    (''TOPIC'', TOPIC), (''NAMES'', NAMES), (''LIST'', LIST), (''INVITE'', INVITE),
    (''KICK'', KICK), (''VERSION'', SVERSION), (''STATS'', STATS), (''LINKS'', LINKS),
    (''TIME'', TIME), (''CONNECT'', CONNECT), (''TRACE'', TRACE), (''ADMIN'', ADMIN),
    (''INFO'', INFO), (''PRIVMSG'', PRIVMSG), (''NOTICE'', NOTICE), (''WHO'', WHO),
    (''WHOIS'', WHOIS), (''WHOWAS'', WHOWAS), (''KILL'', KILL), (''PING'', PING),
    (''PONG'', PONG), (''ERROR'', ERROR), (''AWAY'', AWAY), (''REHASH'', REHASH),
    (''RESTART'', RESTART), (''SUMMON'', SUMMON), (''USERS'', USERS), (''WALLOPS'', WALLOPS),
    (''USERHOST'', USERHOST), (''ISON'', ISON)]"

definition CommandToType :: "string \<Rightarrow> CommandType" where
  "CommandToType c =
     (case map_of command_words c of None \<Rightarrow> IRC_COMMANDTYPE_INVALID | Some t \<Rightarrow> t)"

text \<open>The word of a command, as the protocol spells it.\<close>

definition command_word :: "CommandType \<Rightarrow> string option" where
  "command_word = map_of (map prod.swap command_words)"

lemma command_words_distinct: "distinct (map fst command_words)" "distinct (map snd command_words)"
  by (simp_all add: command_words_def)

lemma command_words_invalid: "map_of command_words c \<noteq> Some IRC_COMMANDTYPE_INVALID"
proof -
  have "IRC_COMMANDTYPE_INVALID \<notin> snd ` set command_words"
    by (simp add: command_words_def)
  then show ?thesis by (force dest: map_of_SomeD)
qed

lemma CommandToType_iff:
  "CommandToType c = t \<and> t \<noteq> IRC_COMMANDTYPE_INVALID \<longleftrightarrow> command_word t = Some c"
  unfolding command_word_def map_of_swapped [OF command_words_distinct] CommandToType_def
  using command_words_invalid [of c] by (auto split: option.splits)

text \<open>Recognising the textual commands: a text is read as a command exactly when it is that command's
  word (the case of the letters counts), and as invalid when it is none of the forty words.\<close>

theorem CommandToType_exact:
  "(CommandToType c = t \<and> t \<noteq> IRC_COMMANDTYPE_INVALID \<longleftrightarrow> command_word t = Some c)
   \<and> (CommandToType c = IRC_COMMANDTYPE_INVALID \<longleftrightarrow> c \<notin> fst ` set command_words)
   \<and> length command_words = 40"
proof (intro conjI)
  show "CommandToType c = t \<and> t \<noteq> IRC_COMMANDTYPE_INVALID \<longleftrightarrow> command_word t = Some c"
    by (rule CommandToType_iff)
  show "CommandToType c = IRC_COMMANDTYPE_INVALID \<longleftrightarrow> c \<notin> fst ` set command_words"
    unfolding CommandToType_def using command_words_invalid [of c] map_of_eq_None_iff [of command_words c]
    by (cases "map_of command_words c") auto
  show "length command_words = 40"
    by (simp add: command_words_def)
qed

section \<open>Modes\<close>

datatype IRC_ChannelMode =
    CHANNELMODE_ANONYMOUS | CHANNELMODE_BAN | CHANNELMODE_INVITEONLY | CHANNELMODE_PASSWORD
  | CHANNELMODE_USERLIMIT | CHANNELMODE_MODERATED | CHANNELMODE_BLOCKFOREIGNMSGS
  | CHANNELMODE_OPERATOR | CHANNELMODE_PRIVATE | CHANNELMODE_QUIET | CHANNELMODE_REOP
  | CHANNELMODE_SECRET | CHANNELMODE_RESTRICTEDTOPIC | CHANNELMODE_VOICE
  | CHANNELMODE_MAX | CHANNELMODE_INVALID

datatype IRC_UserMode =
    USERMODE_AWAY | USERMODE_INVISIBLE | USERMODE_OPERATOR | USERMODE_LOCALOPERATOR
  | USERMODE_RESTRICTEDCONN | USERMODE_RECVNOTICES | USERMODE_RECVWALLOPS
  | USERMODE_MAX | USERMODE_INVALID

type_synonym IRC_ChannelModes = "14 word"
type_synonym IRC_UserModes = "7 word"

text \<open>The value of an enumerator is its position; the casts from \<^verbatim>\<open>int\<close> in the loops read it back.\<close>

definition channel_modes :: "IRC_ChannelMode list" where
  "channel_modes =
    [CHANNELMODE_ANONYMOUS, CHANNELMODE_BAN, CHANNELMODE_INVITEONLY, CHANNELMODE_PASSWORD,
     CHANNELMODE_USERLIMIT, CHANNELMODE_MODERATED, CHANNELMODE_BLOCKFOREIGNMSGS,
     CHANNELMODE_OPERATOR, CHANNELMODE_PRIVATE, CHANNELMODE_QUIET, CHANNELMODE_REOP,
     CHANNELMODE_SECRET, CHANNELMODE_RESTRICTEDTOPIC, CHANNELMODE_VOICE]"

definition user_modes :: "IRC_UserMode list" where
  "user_modes =
    [USERMODE_AWAY, USERMODE_INVISIBLE, USERMODE_OPERATOR, USERMODE_LOCALOPERATOR,
     USERMODE_RESTRICTEDCONN, USERMODE_RECVNOTICES, USERMODE_RECVWALLOPS]"

fun channel_mode_value :: "IRC_ChannelMode \<Rightarrow> nat" where
  "channel_mode_value CHANNELMODE_ANONYMOUS = 0"
| "channel_mode_value CHANNELMODE_BAN = 1"
| "channel_mode_value CHANNELMODE_INVITEONLY = 2"
| "channel_mode_value CHANNELMODE_PASSWORD = 3"
| "channel_mode_value CHANNELMODE_USERLIMIT = 4"
| "channel_mode_value CHANNELMODE_MODERATED = 5"
| "channel_mode_value CHANNELMODE_BLOCKFOREIGNMSGS = 6"
| "channel_mode_value CHANNELMODE_OPERATOR = 7"
| "channel_mode_value CHANNELMODE_PRIVATE = 8"
| "channel_mode_value CHANNELMODE_QUIET = 9"
| "channel_mode_value CHANNELMODE_REOP = 10"
| "channel_mode_value CHANNELMODE_SECRET = 11"
| "channel_mode_value CHANNELMODE_RESTRICTEDTOPIC = 12"
| "channel_mode_value CHANNELMODE_VOICE = 13"
| "channel_mode_value CHANNELMODE_MAX = 14"
| "channel_mode_value CHANNELMODE_INVALID = 15"

fun user_mode_value :: "IRC_UserMode \<Rightarrow> nat" where
  "user_mode_value USERMODE_AWAY = 0"
| "user_mode_value USERMODE_INVISIBLE = 1"
| "user_mode_value USERMODE_OPERATOR = 2"
| "user_mode_value USERMODE_LOCALOPERATOR = 3"
| "user_mode_value USERMODE_RESTRICTEDCONN = 4"
| "user_mode_value USERMODE_RECVNOTICES = 5"
| "user_mode_value USERMODE_RECVWALLOPS = 6"
| "user_mode_value USERMODE_MAX = 7"
| "user_mode_value USERMODE_INVALID = 8"

fun ChannelModeToChar :: "IRC_ChannelMode \<Rightarrow> char" where
  "ChannelModeToChar CHANNELMODE_PASSWORD = CHR ''k''"
| "ChannelModeToChar CHANNELMODE_VOICE = CHR ''v''"
| "ChannelModeToChar CHANNELMODE_BAN = CHR ''b''"
| "ChannelModeToChar CHANNELMODE_USERLIMIT = CHR ''l''"
| "ChannelModeToChar CHANNELMODE_MODERATED = CHR ''m''"
| "ChannelModeToChar CHANNELMODE_BLOCKFOREIGNMSGS = CHR ''n''"
| "ChannelModeToChar CHANNELMODE_RESTRICTEDTOPIC = CHR ''t''"
| "ChannelModeToChar CHANNELMODE_INVITEONLY = CHR ''i''"
| "ChannelModeToChar CHANNELMODE_SECRET = CHR ''s''"
| "ChannelModeToChar CHANNELMODE_PRIVATE = CHR ''p''"
| "ChannelModeToChar CHANNELMODE_OPERATOR = CHR ''o''"
| "ChannelModeToChar _ = CHR '' ''"

fun UserModeToChar :: "IRC_UserMode \<Rightarrow> char" where
  "UserModeToChar USERMODE_LOCALOPERATOR = CHR ''O''"
| "UserModeToChar USERMODE_OPERATOR = CHR ''o''"
| "UserModeToChar USERMODE_RESTRICTEDCONN = CHR ''r''"
| "UserModeToChar USERMODE_RECVWALLOPS = CHR ''w''"
| "UserModeToChar USERMODE_RECVNOTICES = CHR ''s''"
| "UserModeToChar USERMODE_INVISIBLE = CHR ''i''"
| "UserModeToChar USERMODE_AWAY = CHR ''a''"
| "UserModeToChar _ = CHR '' ''"

definition CharToChannelMode :: "char \<Rightarrow> IRC_ChannelMode" where
  "CharToChannelMode c =
    (if c = CHR ''a'' then CHANNELMODE_ANONYMOUS
     else if c = CHR ''b'' then CHANNELMODE_BAN
     else if c = CHR ''i'' then CHANNELMODE_INVITEONLY
     else if c = CHR ''k'' then CHANNELMODE_PASSWORD
     else if c = CHR ''l'' then CHANNELMODE_USERLIMIT
     else if c = CHR ''m'' then CHANNELMODE_MODERATED
     else if c = CHR ''n'' then CHANNELMODE_BLOCKFOREIGNMSGS
     else if c = CHR ''o'' then CHANNELMODE_OPERATOR
     else if c = CHR ''p'' then CHANNELMODE_PRIVATE
     else if c = CHR ''q'' then CHANNELMODE_QUIET
     else if c = CHR ''r'' then CHANNELMODE_REOP
     else if c = CHR ''s'' then CHANNELMODE_SECRET
     else if c = CHR ''t'' then CHANNELMODE_RESTRICTEDTOPIC
     else if c = CHR ''v'' then CHANNELMODE_VOICE
     else CHANNELMODE_INVALID)"

definition CharToUserMode :: "char \<Rightarrow> IRC_UserMode" where
  "CharToUserMode c =
    (if c = CHR ''a'' then USERMODE_AWAY
     else if c = CHR ''i'' then USERMODE_INVISIBLE
     else if c = CHR ''o'' then USERMODE_OPERATOR
     else if c = CHR ''O'' then USERMODE_LOCALOPERATOR
     else if c = CHR ''r'' then USERMODE_RESTRICTEDCONN
     else if c = CHR ''s'' then USERMODE_RECVNOTICES
     else if c = CHR ''w'' then USERMODE_RECVWALLOPS
     else USERMODE_INVALID)"

fun ChannelModeToString :: "IRC_ChannelMode \<Rightarrow> string" where
  "ChannelModeToString CHANNELMODE_ANONYMOUS = ''CHANNELMODE_ANONYMOUS''"
| "ChannelModeToString CHANNELMODE_BAN = ''CHANNELMODE_BAN''"
| "ChannelModeToString CHANNELMODE_INVITEONLY = ''CHANNELMODE_INVITEONLY''"
| "ChannelModeToString CHANNELMODE_PASSWORD = ''CHANNELMODE_PASSWORD''"
| "ChannelModeToString CHANNELMODE_USERLIMIT = ''CHANNELMODE_USERLIMIT''"
| "ChannelModeToString CHANNELMODE_MODERATED = ''CHANNELMODE_MODERATED''"
| "ChannelModeToString CHANNELMODE_BLOCKFOREIGNMSGS = ''CHANNELMODE_BLOCKFOREIGNMSGS''"
| "ChannelModeToString CHANNELMODE_OPERATOR = ''CHANNELMODE_OPERATOR''"
| "ChannelModeToString CHANNELMODE_PRIVATE = ''CHANNELMODE_PRIVATE''"
| "ChannelModeToString CHANNELMODE_QUIET = ''CHANNELMODE_QUIET''"
| "ChannelModeToString CHANNELMODE_REOP = ''CHANNELMODE_REOP''"
| "ChannelModeToString CHANNELMODE_SECRET = ''CHANNELMODE_SECRET''"
| "ChannelModeToString CHANNELMODE_RESTRICTEDTOPIC = ''CHANNELMODE_RESTRICTEDTOPIC''"
| "ChannelModeToString CHANNELMODE_VOICE = ''CHANNELMODE_VOICE''"
| "ChannelModeToString _ = []"

fun UserModeToString :: "IRC_UserMode \<Rightarrow> string" where
  "UserModeToString USERMODE_AWAY = ''USERMODE_AWAY''"
| "UserModeToString USERMODE_INVISIBLE = ''USERMODE_INVISIBLE''"
| "UserModeToString USERMODE_OPERATOR = ''USERMODE_OPERATOR''"
| "UserModeToString USERMODE_LOCALOPERATOR = ''USERMODE_LOCALOPERATOR''"
| "UserModeToString USERMODE_RESTRICTEDCONN = ''USERMODE_RESTRICTEDCONN''"
| "UserModeToString USERMODE_RECVNOTICES = ''USERMODE_RECVNOTICES''"
| "UserModeToString USERMODE_RECVWALLOPS = ''USERMODE_RECVWALLOPS''"
| "UserModeToString _ = []"

section \<open>Merging and printing sets of modes\<close>

text \<open>
  One character of a merge: \<open>position\<close> is the position of the mode it names, a position from \<open>bound\<close> on
  names none and is skipped. The set and the number of modes that changed are threaded.
\<close>

definition merge_char ::
  "(char \<Rightarrow> nat) \<Rightarrow> nat \<Rightarrow> bool \<Rightarrow> char \<Rightarrow> 'w::len word \<times> nat \<Rightarrow> 'w word \<times> nat" where
  "merge_char position bound on c = (\<lambda>(modes, result).
    if bound \<le> position c then (modes, result)
    else let toggled = (bit modes (position c) \<and> \<not> on \<or> \<not> bit modes (position c) \<and> on)
         in ((if on then set_bit (position c) modes else unset_bit (position c) modes),
             if toggled then result + 1 else result))"

text \<open>
  The first character decides between setting and clearing, whatever it is; of an empty text the
  iterator is moved past the end.
\<close>

definition merge_with :: "(char \<Rightarrow> nat) \<Rightarrow> nat \<Rightarrow> string \<Rightarrow> 'w::len word \<Rightarrow> (nat \<times> 'w word) res" where
  "merge_with position bound s modes =
    (case s of [] \<Rightarrow> Inl Undefined_Behaviour
     | c # cs \<Rightarrow> (let (modes', result) = fold (merge_char position bound (c = CHR ''+'')) cs (modes, 0)
                  in Inr (result, modes')))"

definition merge_user :: "string \<Rightarrow> IRC_UserModes \<Rightarrow> (nat \<times> IRC_UserModes) res" where
  "merge_user = merge_with (\<lambda>c. user_mode_value (CharToUserMode c)) (user_mode_value USERMODE_MAX)"

definition merge_channel :: "string \<Rightarrow> IRC_ChannelModes \<Rightarrow> (nat \<times> IRC_ChannelModes) res" where
  "merge_channel = merge_with (\<lambda>c. channel_mode_value (CharToChannelMode c)) (channel_mode_value CHANNELMODE_MAX)"

definition dump_user :: "IRC_UserModes \<Rightarrow> string" where
  "dump_user modes = ''+'' @ map (\<lambda>i. UserModeToChar (user_modes ! i))
     (filter (bit modes) [0 ..< user_mode_value USERMODE_MAX])"

definition dump_channel :: "IRC_ChannelModes \<Rightarrow> string" where
  "dump_channel modes = ''+'' @ map (\<lambda>i. ChannelModeToChar (channel_modes ! i))
     (filter (bit modes) [0 ..< channel_mode_value CHANNELMODE_MAX])"

definition isValidChannelName :: "string \<Rightarrow> bool" where
  "isValidChannelName s = (s \<noteq> [] \<and> (hd s = CHR ''#'' \<or> hd s = CHR ''&''))"

text \<open>
  What a merge promises for any alphabet of modes whose positions fit the set: the modes the
  text names, and only they, take the value of the sign, and the count is that of the modes
  that changed.
\<close>

locale mode_set =
  fixes position :: "char \<Rightarrow> nat" and bound :: nat and width :: "'w::len itself"
  assumes fits: "bound \<le> LENGTH('w)"
begin

definition named :: "string \<Rightarrow> nat set" where
  "named cs = {i. i < bound \<and> i \<in> position ` set cs}"

lemma named_Cons: "named (c # cs) = (if position c < bound then insert (position c) (named cs) else named cs)"
  by (auto simp: named_def)

lemma finite_named: "finite (named cs)"
  by (simp add: named_def)

lemma fold_merge:
  fixes m :: "'w word"
  assumes "fold (merge_char position bound on) cs (m, r) = (m', r')"
  shows "(\<forall>i. bit m' i \<longleftrightarrow> (if i \<in> named cs then on else bit m i))
    \<and> r' = r + card {i \<in> named cs. bit m i \<noteq> on}"
  using assms
proof (induction cs arbitrary: m r)
  case Nil
  then show ?case by (simp add: named_def)
next
  case (Cons c cs)
  show ?case
  proof (cases "position c < bound")
    case False
    with Cons show ?thesis by (simp add: merge_char_def named_Cons)
  next
    case True
    define m1 where "m1 = (if on then set_bit (position c) m else unset_bit (position c) m)"
    have bits: "bit m1 i \<longleftrightarrow> (if i = position c then on else bit m i)" for i
      using True fits by (auto simp: m1_def bit_simps dest: bit_imp_le_length)
    have IH: "(\<forall>i. bit m' i \<longleftrightarrow> (if i \<in> named cs then on else bit m1 i))
      \<and> r' = (if bit m (position c) \<noteq> on then r + 1 else r) + card {i \<in> named cs. bit m1 i \<noteq> on}"
      using Cons.IH [of m1 "if bit m (position c) \<noteq> on then r + 1 else r"] Cons.prems True
      by (auto simp: merge_char_def m1_def split: if_splits)
    have "{i \<in> named (c # cs). bit m i \<noteq> on} =
        {i \<in> named cs. bit m1 i \<noteq> on} \<union> (if bit m (position c) \<noteq> on then {position c} else {})"
      using True by (auto simp: named_Cons bits)
    moreover have "position c \<notin> {i \<in> named cs. bit m1 i \<noteq> on}"
      by (simp add: bits)
    ultimately have "card {i \<in> named (c # cs). bit m i \<noteq> on} =
        card {i \<in> named cs. bit m1 i \<noteq> on} + (if bit m (position c) \<noteq> on then 1 else 0)"
      using finite_named [of cs] by simp
    moreover have "\<forall>i. bit m' i \<longleftrightarrow> (if i \<in> named (c # cs) then on else bit m i)"
      using IH True by (auto simp: named_Cons bits)
    ultimately show ?thesis using IH by simp
  qed
qed

lemma merge_with_spec:
  fixes m :: "'w word"
  shows "\<exists>n m'. merge_with position bound (c # cs) m = Inr (n, m')
    \<and> (\<forall>i. bit m' i \<longleftrightarrow> (if i \<in> named cs then c = CHR ''+'' else bit m i))
    \<and> n = card {i. bit m i \<noteq> bit m' i}"
proof -
  obtain m' n where f: "fold (merge_char position bound (c = CHR ''+'')) cs (m, 0) = (m', n)"
    by fastforce
  from fold_merge [OF f]
  have bits: "\<forall>i. bit m' i \<longleftrightarrow> (if i \<in> named cs then c = CHR ''+'' else bit m i)"
    and n: "n = card {i \<in> named cs. bit m i \<noteq> (c = CHR ''+'')}" by auto
  have "{i. bit m i \<noteq> bit m' i} = {i \<in> named cs. bit m i \<noteq> (c = CHR ''+'')}"
    using bits by auto
  with f bits n show ?thesis by (simp add: merge_with_def)
qed

text \<open>Merging the same text again changes nothing.\<close>

lemma merge_with_again:
  fixes m :: "'w word"
  assumes "merge_with position bound s m = Inr (n, m')"
  shows "merge_with position bound s m' = Inr (0, m')"
proof (cases s)
  case Nil
  with assms show ?thesis by (simp add: merge_with_def)
next
  case (Cons c cs)
  from merge_with_spec [of c cs m] assms Cons
  have m': "\<forall>i. bit m' i \<longleftrightarrow> (if i \<in> named cs then c = CHR ''+'' else bit m i)" by auto
  obtain k m'' where again: "merge_with position bound s m' = Inr (k, m'')"
    "\<forall>i. bit m'' i \<longleftrightarrow> (if i \<in> named cs then c = CHR ''+'' else bit m' i)"
    "k = card {i. bit m' i \<noteq> bit m'' i}"
    using merge_with_spec [of c cs m'] Cons by auto
  with m' have "m'' = m'" by (intro bit_word_eqI) auto
  with again show ?thesis by simp
qed

text \<open>Merging a printed set into the empty set: only the modes without a character are lost.\<close>

lemma merge_printed:
  fixes m :: "'w word"
  assumes "\<And>i. i < bound \<Longrightarrow> if i \<in> lost then bound \<le> position (char_at i) else position (char_at i) = i"
  shows "\<exists>m'. merge_with position bound (CHR ''+'' # map char_at (filter (bit m) [0 ..< bound])) 0
      = Inr (card {i. bit m' i}, m' :: 'w word)
    \<and> (\<forall>i. bit m' i \<longleftrightarrow> i < bound \<and> i \<notin> lost \<and> bit m i)"
proof -
  let ?cs = "map char_at (filter (bit m) [0 ..< bound])"
  have "i \<in> named ?cs \<longleftrightarrow> i < bound \<and> i \<notin> lost \<and> bit m i" for i
    using assms unfolding named_def by (auto simp: image_iff) (metis leD)+
  with merge_with_spec [of "CHR ''+''" ?cs 0] show ?thesis by fastforce
qed

end

interpretation umodes: mode_set
  "\<lambda>c. user_mode_value (CharToUserMode c)" 7 "TYPE(7)"
  by unfold_locales simp

interpretation cmodes: mode_set
  "\<lambda>c. channel_mode_value (CharToChannelMode c)" 14 "TYPE(14)"
  by unfold_locales simp

text \<open>Merging modes: with a non-empty text, every mode named after the first character is set when
  that character is a plus sign and cleared otherwise, every other mode is left as it was, unknown
  characters have no effect, and the result is the number of modes that changed. This holds for
  the modes of users and of channels.\<close>

theorem merge_modes:
  "(\<exists>n m. merge_user (c # cs) u = Inr (n, m)
      \<and> (\<forall>i. bit m i \<longleftrightarrow> (if i < 7 \<and> i \<in> (\<lambda>d. user_mode_value (CharToUserMode d)) ` set cs
            then c = CHR ''+'' else bit u i))
      \<and> n = card {i. bit u i \<noteq> bit m i})
   \<and> (\<exists>n m. merge_channel (c # cs) w = Inr (n, m)
      \<and> (\<forall>i. bit m i \<longleftrightarrow> (if i < 14 \<and> i \<in> (\<lambda>d. channel_mode_value (CharToChannelMode d)) ` set cs
            then c = CHR ''+'' else bit w i))
      \<and> n = card {i. bit w i \<noteq> bit m i})"
  using umodes.merge_with_spec [of c cs u] cmodes.merge_with_spec [of c cs w]
  by (simp add: merge_user_def merge_channel_def umodes.named_def cmodes.named_def)

lemma less_numeral_cases:
  "i < (7::nat) \<Longrightarrow> i \<in> {0,1,2,3,4,5,6}"
  "i < (14::nat) \<Longrightarrow> i \<in> {0,1,2,3,4,5,6,7,8,9,10,11,12,13}"
  by (simp_all add: eval_nat_numeral less_Suc_eq)

lemma user_char_position:
  "i < 7 \<Longrightarrow> user_mode_value (CharToUserMode (UserModeToChar (user_modes ! i))) = i"
  using less_numeral_cases(1) [of i] by (auto simp: user_modes_def CharToUserMode_def)

lemma channel_char_position:
  "i < 14 \<Longrightarrow> channel_mode_value (CharToChannelMode (ChannelModeToChar (channel_modes ! i))) =
     (if i \<in> {0, 9, 10} then 15 else i)"
  using less_numeral_cases(2) [of i] by (auto simp: channel_modes_def CharToChannelMode_def)

text \<open>Printing and merging modes are inverse for users: merging the printed set into the empty set
  gives the set back. For channels three modes get lost on the way, because they have no character
  of their own: anonymous, quiet and reop (positions 0, 9 and 10) are printed as a space.\<close>

theorem dump_merge_modes:
  "merge_user (dump_user u) 0 = Inr (card {i. bit u i}, u)
   \<and> (\<exists>m. merge_channel (dump_channel w) 0 = Inr (card {i. bit m i}, m)
        \<and> (\<forall>i. bit m i \<longleftrightarrow> bit w i \<and> i \<notin> {0, 9, 10}))"
proof
  obtain m where m: "merge_user (dump_user u) 0 = Inr (card {i. bit m i}, m)"
    "\<forall>i. bit m i \<longleftrightarrow> i < 7 \<and> bit u i"
    using umodes.merge_printed [of "{}" "\<lambda>i. UserModeToChar (user_modes ! i)" u] user_char_position
    by (fastforce simp: merge_user_def dump_user_def)
  then have "m = u"
    by (intro bit_word_eqI) simp
  with m show "merge_user (dump_user u) 0 = Inr (card {i. bit u i}, u)" by simp
  have position: "if i \<in> {0, 9, 10}
      then 14 \<le> channel_mode_value (CharToChannelMode (ChannelModeToChar (channel_modes ! i)))
      else channel_mode_value (CharToChannelMode (ChannelModeToChar (channel_modes ! i))) = i" if "i < 14" for i
    using channel_char_position [OF that] by (simp del: insert_iff)
  have "\<exists>m. merge_channel (dump_channel w) 0 = Inr (card {i. bit m i}, m)
    \<and> (\<forall>i. bit m i \<longleftrightarrow> i < 14 \<and> i \<notin> {0, 9, 10} \<and> bit w i)"
    using cmodes.merge_printed [OF position, of w]
    unfolding merge_channel_def dump_channel_def channel_mode_value.simps append.simps .
  moreover have "bit w i \<longrightarrow> i < 14" for i
    using bit_imp_le_length [of w i] by simp
  ultimately show "\<exists>m. merge_channel (dump_channel w) 0 = Inr (card {i. bit m i}, m)
        \<and> (\<forall>i. bit m i \<longleftrightarrow> bit w i \<and> i \<notin> {0, 9, 10})" by blast
qed

section \<open>Printing records\<close>

text \<open>
  \<open>stringify\<close>: the parameters from an index on, each followed by a space; the last space is
  erased only when the index is not that of the last parameter. \<^verbatim>\<open>std::advance\<close> by a negative
  distance has no defined behaviour.
\<close>

definition stringify :: "string list \<Rightarrow> int \<Rightarrow> string res" where
  "stringify ps index =
    (if ps = [] \<or> index > int (length ps) - 1 then Inr []
     else if index = - 1 then Inr (last ps)
     else if index < 0 then Inl Undefined_Behaviour
     else let joined = concat (map (\<lambda>p. p @ '' '') (drop (nat index) ps))
          in Inr (if index < int (length ps) - 1 then butlast joined else joined))"

definition list_back :: "string list \<Rightarrow> string res" where
  "list_back ps = (if ps = [] then Inl Undefined_Behaviour else Inr (last ps))"

definition list_front :: "string list \<Rightarrow> string res" where
  "list_front ps = (if ps = [] then Inl Undefined_Behaviour else Inr (hd ps))"

definition last_parameter_numerics :: "nat list" where
  "last_parameter_numerics =
    [1, 2, 3, 251, 255, 263, 265, 266, 305, 306, 368, 372, 375, 376, 422, 462, 465, 482]"

definition from_first_numerics :: "nat list" where
  "from_first_numerics =
    [4, 5, 8, 20, 250, 252, 253, 254, 302, 321, 322, 323, 341, 401, 432, 433, 451, 461, 479, 501]"

text \<open>The messages with a textual command.\<close>

definition text_to_string :: "CommandType \<Rightarrow> IRC_Record \<Rightarrow> string res" where
  "text_to_string c r =
    (let p = prefix r; who = ''\"'' @ origin p @ ''\" ('' @ user p @ ''@'' @ host p @ '')''
     in if c = NICK then bind_res (list_back (parameters r)) (\<lambda>s. Inr (origin p @ '' --> '' @ s))
        else if c = QUIT then bind_res (list_back (parameters r)) (\<lambda>s.
          Inr (origin p @ '' has QUIT IRC (reason: \"'' @ s @ ''\")''))
        else if c = JOIN then bind_res (list_back (parameters r)) (\<lambda>s.
          Inr (who @ '' has joined channel \"'' @ s @ ''\"''))
        else if c = PART then bind_res (list_front (parameters r)) (\<lambda>s.
          Inr (who @ '' has left channel \"'' @ s @
            (if 2 \<le> length (parameters r) then ''\" (reason: \"'' @ parameters r ! 1 @ ''\")'' else ''\"'')))
        else if c = NOTICE then stringify (parameters r) 1
        else if c \<in> {MODE, TOPIC, INVITE, KICK, ERROR, AWAY, USERS, USERHOST}
          then stringify (parameters r) 0
        else Inr [])"

definition numeric_to_string :: "nat \<Rightarrow> string list \<Rightarrow> string res" where
  "numeric_to_string n ps =
    (if n \<in> set last_parameter_numerics then stringify ps (- 1)
     else if n = 367 then stringify ps 0
     else if n \<in> set from_first_numerics then stringify ps 1
     else if n = 315 then stringify ps 2
     else if n = 352 then stringify ps 5
     else Inr [])"

definition RecordToString :: "strings \<Rightarrow> IRC_Record \<Rightarrow> string res" where
  "RecordToString h r =
    (case command r of
       STRING p \<Rightarrow> bind_res (deref h p) (\<lambda>s. text_to_string (CommandToType s) r)
     | NUMERIC n \<Rightarrow> numeric_to_string n (parameters r)
     | INVALID \<Rightarrow> Inr [])"

text \<open>
  \<open>dump\<close>: of a textual command the stream operator prints the address, not the text;
  \<open>show_pointer\<close> is its rendering.
\<close>

definition dump_parameter :: "nat \<times> string \<Rightarrow> string" where
  "dump_parameter ip = ''#'' @ dec (fst ip) @ '' : \"'' @ snd ip @ ''\"'' @ [CHR 0x0A]"

definition dump_record :: "(pointer option \<Rightarrow> string) \<Rightarrow> IRC_Record \<Rightarrow> string" where
  "dump_record show_pointer r =
    (let nl = [CHR 0x0A]; p = prefix r; bs = [CHR 0x5C]
     in (if origin p = [] then []
         else ''PREFIX [origin: \"'' @ origin p @ ''\"]''
           @ (if user p = [] then [] else '', [user: \"'' @ user p @ ''\"]'')
           @ (if host p = [] then [] else '', [host: \"'' @ host p @ ''\"]'')
           @ '' '' @ bs @ ''PREFIX'' @ nl)
        @ ''COMMAND [''
        @ (case command r of
             STRING q \<Rightarrow> show_pointer q
           | NUMERIC n \<Rightarrow> ''\"'' @ CommandToString n @ ''\" ['' @ dec n @ '']''
           | INVALID \<Rightarrow> ''\"INVALID\"'')
        @ ''] '' @ bs @ ''COMMAND'' @ nl
        @ (if parameters r = [] then []
           else ''PARAMS'' @ nl
             @ concat (map dump_parameter (zip [1 ..< Suc (length (parameters r))] (parameters r)))
             @ bs @ ''PARAMS'' @ nl))"

text \<open>The parameters joined by single spaces.\<close>

fun joined :: "string list \<Rightarrow> string" where
  "joined [] = []"
| "joined [p] = p"
| "joined (p # q # ps) = p @ '' '' @ joined (q # ps)"

lemma spaced: "ps \<noteq> [] \<Longrightarrow> concat (map (\<lambda>p. p @ '' '') ps) = joined ps @ '' ''"
  by (induction ps rule: joined.induct) auto

text \<open>Stringifying parameters: from an index within the list on they are joined by single spaces, but
  when the index is that of the last parameter a space stays behind it; from the index -1 the
  result is the last parameter; beyond the end it is empty.\<close>

theorem stringify_text:
  "stringify ps (int i) =
     (if i < length ps then Inr (joined (drop i ps) @ (if Suc i = length ps then '' '' else [])) else Inr [])
   \<and> stringify ps (- 1) = Inr (if ps = [] then [] else last ps)"
proof
  show "stringify ps (int i) =
     (if i < length ps then Inr (joined (drop i ps) @ (if Suc i = length ps then '' '' else [])) else Inr [])"
    by (cases "i < length ps") (auto simp: stringify_def Let_def spaced)
qed (simp add: stringify_def)

lemma stringify_defined: "- 1 \<le> i \<Longrightarrow> stringify ps i \<noteq> Inl e"
  by (auto simp: stringify_def Let_def)

lemma parameter_words:
  "command_word NICK = Some ''NICK''" "command_word QUIT = Some ''QUIT''"
  "command_word JOIN = Some ''JOIN''" "command_word PART = Some ''PART''"
  by (simp_all add: command_word_def command_words_def)

text \<open>A record prints without a fault as soon as its command string is there and it is not one of the
  four messages whose parameter the code takes for granted: NICK, QUIT, JOIN and PART without
  parameters access an element of an empty list, and nothing else does.\<close>

theorem RecordToString_fault:
  assumes "owns h r"
  shows "RecordToString h r = Inl e \<longleftrightarrow> e = Undefined_Behaviour \<and> parameters r = [] \<and>
    command_value h (command r) \<in> Text_command ` {''NICK'', ''QUIT'', ''JOIN'', ''PART''}"
proof -
  have numeric: "numeric_to_string n (parameters r) \<noteq> Inl e" for n
    by (simp add: numeric_to_string_def stringify_defined)
  have textual: "text_to_string c r = Inl e \<longleftrightarrow>
      e = Undefined_Behaviour \<and> parameters r = [] \<and> c \<in> {NICK, QUIT, JOIN, PART}" for c
    by (auto simp: text_to_string_def Let_def list_back_def list_front_def stringify_defined)
  have named: "CommandToType s \<in> {NICK, QUIT, JOIN, PART} \<longleftrightarrow> s \<in> {''NICK'', ''QUIT'', ''JOIN'', ''PART''}" for s
    using CommandToType_iff [of s NICK] CommandToType_iff [of s QUIT] CommandToType_iff [of s JOIN]
      CommandToType_iff [of s PART] parameter_words by auto
  show ?thesis
  proof (cases "command r")
    case (STRING p)
    with assms obtain s where "deref h p = Inr s"
      by (auto simp: owns_def deref_def split: option.splits)
    with STRING show ?thesis
      using textual [of "CommandToType s"] named [of s]
      by (auto simp: RecordToString_def command_value_def)
  qed (use numeric in \<open>auto simp: RecordToString_def command_value_def\<close>)
qed

theorem RecordToString_fault_witness:
  "RecordToString [0 \<mapsto> ''QUIT''] (new_IRC_Record\<lparr>command := STRING (Some 0)\<rparr>) = Inl Undefined_Behaviour"
  using RecordToString_fault [of "[0 \<mapsto> ''QUIT'']" "new_IRC_Record\<lparr>command := STRING (Some 0)\<rparr>" Undefined_Behaviour]
  by (simp add: owns_def new_IRC_Record_def command_value_def deref_def)

end
