(* ===== verification/IRC_Streamer.thy ===== *)
theory IRC_Streamer
  imports IRC_Record Message_Block
begin

text \<open>
  The marshalling of IRC records, \<^verbatim>\<open>IRC_Module_Streamer_T::handleDataMessage\<close> in
  \<^verbatim>\<open>src/src/protocol/irc/irc_module_streamer.inl\<close>, step by step: prefix, command, parameters with
  their list separators, frame boundary. The text it is to produce is \<open>irc_text\<close>; \<open>parse_message\<close>
  reads a message by the grammar the source quotes from RFC 1459.
\<close>

definition IRC_MAXIMUM_FRAME_SIZE :: nat where "IRC_MAXIMUM_FRAME_SIZE = 512"
definition IRC_FRAME_BOUNDARY_SIZE :: nat where "IRC_FRAME_BOUNDARY_SIZE = 2"

section \<open>The handler\<close>

text \<open>\<open>mark c t\<close>: the text with its mark before it (\<^verbatim>\<open>!\<close> before the user, \<^verbatim>\<open>@\<close> before the host), if any.\<close>

definition marked_step :: "('m, char) mb_ops \<Rightarrow> char \<Rightarrow> string \<Rightarrow> 'm step" where
  "marked_step ops c t =
    (if t = [] then skip_step
     else steps [checked_step ops 1 (put_step ops [c]), copy_step ops t])"

text \<open>The colon before the origin is stored without a check of its own: the space was asserted.\<close>

definition prefix_step :: "('m, char) mb_ops \<Rightarrow> Prefix \<Rightarrow> 'm step" where
  "prefix_step ops p =
    (if origin p = [] then skip_step
     else steps [put_step ops '':'', copy_step ops (origin p), marked_step ops CHR ''!'' (user p),
       marked_step ops CHR ''@'' (host p), checked_step ops 1 (put_step ops '' '')])"

text \<open>\<^verbatim>\<open>snprintf\<close> with the format \<^verbatim>\<open>%.3u\<close> and four bytes of room: at least three digits.\<close>

definition three_digits :: "nat \<Rightarrow> string" where
  "three_digits n = replicate (3 - length (dec n)) CHR ''0'' @ dec n"

definition command_step :: "('m, char) mb_ops \<Rightarrow> strings \<Rightarrow> Command \<Rightarrow> 'm step" where
  "command_step ops h c =
    (case c of
       NUMERIC n \<Rightarrow> checked_step ops 4
         (if length (three_digits n) \<noteq> 3 then abort_step else put_step ops (three_digits n))
     | STRING p \<Rightarrow> (case deref h p of Inl e \<Rightarrow> fault_step e | Inr s \<Rightarrow> copy_step ops s)
     | INVALID \<Rightarrow> abort_step)"

text \<open>
  The parameters: \<open>i\<close> counts forwards, the ranges are advanced at most once per parameter, a
  parameter within the current range is followed by a comma. The last parameter is marked with a
  colon when it holds a space, which a list item must not.
\<close>

definition next_ranges :: "nat \<Rightarrow> (nat \<times> nat) list \<Rightarrow> (nat \<times> nat) list" where
  "next_ranges i rs = (if rs \<noteq> [] \<and> snd (hd rs) < i then tl rs else rs)"

definition separator :: "nat \<Rightarrow> (nat \<times> nat) list \<Rightarrow> char" where
  "separator i rs = (if rs \<noteq> [] \<and> fst (hd rs) \<le> i \<and> i \<le> snd (hd rs) then CHR '','' else CHR '' '')"

fun parameters_step :: "('m, char) mb_ops \<Rightarrow> nat \<Rightarrow> (nat \<times> nat) list \<Rightarrow> string list \<Rightarrow> 'm step" where
  "parameters_step ops i rs [] = skip_step"
| "parameters_step ops i rs (p # ps) =
    (let rs' = next_ranges i rs; sep = separator i rs'
     in steps
      [if ps = [] \<and> CHR '' '' \<in> set p
       then (if sep \<noteq> CHR '' '' then fault_step Assertion else checked_step ops 1 (put_step ops '':''))
       else skip_step,
       copy_step ops p,
       if ps \<noteq> [] then checked_step ops 1 (put_step ops [sep]) else skip_step,
       parameters_step ops (Suc i) rs' ps])"

definition irc_crlf :: string where "irc_crlf = [CHR 0x0D, CHR 0x0A]"

definition message_step :: "('m, char) mb_ops \<Rightarrow> strings \<Rightarrow> IRC_Record \<Rightarrow> 'm step" where
  "message_step ops h r = steps
    [prefix_step ops (prefix r), command_step ops h (command r),
     if parameters r \<noteq> [] then checked_step ops 1 (put_step ops '' '') else skip_step,
     parameters_step ops 0 (parameterRanges r) (parameters r),
     checked_step ops IRC_FRAME_BOUNDARY_SIZE (put_step ops irc_crlf)]"

text \<open>The message (or NULL) and whether it is passed on.\<close>

definition irc_handleDataMessage ::
  "('m, char) mb_ops \<Rightarrow> strings \<Rightarrow> IRC_Record \<Rightarrow> 'm \<Rightarrow> ('m option \<times> bool) res" where
  "irc_handleDataMessage ops h r m =
    (if mb_length ops m \<noteq> 0 then Inl Assertion
     else if \<not> IRC_MAXIMUM_FRAME_SIZE \<le> mb_space ops m then Inl Assertion
     else bind_res (message_step ops h r m) (\<lambda>m'. Inr (m', m' \<noteq> None)))"

section \<open>The text\<close>

definition marked_text :: "char \<Rightarrow> string \<Rightarrow> string" where
  "marked_text c t = (if t = [] then [] else c # t)"

definition prefix_text :: "Prefix \<Rightarrow> string" where
  "prefix_text p = (if origin p = [] then []
     else '':'' @ origin p @ marked_text CHR ''!'' (user p) @ marked_text CHR ''@'' (host p) @ '' '')"

definition command_text_of :: "strings \<Rightarrow> Command \<Rightarrow> string option" where
  "command_text_of h c = (case c of
     NUMERIC n \<Rightarrow> if n < 1000 then Some (three_digits n) else None
   | STRING p \<Rightarrow> (case deref h p of Inl _ \<Rightarrow> None | Inr s \<Rightarrow> Some s)
   | INVALID \<Rightarrow> None)"

fun parameters_text :: "nat \<Rightarrow> (nat \<times> nat) list \<Rightarrow> string list \<Rightarrow> string" where
  "parameters_text i rs [] = []"
| "parameters_text i rs [p] = (if CHR '' '' \<in> set p then '':'' @ p else p)"
| "parameters_text i rs (p # q # ps) =
     (let rs' = next_ranges i rs
      in p @ separator i rs' # parameters_text (Suc i) rs' (q # ps))"

text \<open>The separator the last parameter would get; a space unless it is a list item.\<close>

fun last_separator :: "nat \<Rightarrow> (nat \<times> nat) list \<Rightarrow> string list \<Rightarrow> char" where
  "last_separator i rs [] = CHR '' ''"
| "last_separator i rs (p # ps) =
     (let rs' = next_ranges i rs
      in if ps = [] then separator i rs' else last_separator (Suc i) rs' ps)"

definition irc_text :: "string \<Rightarrow> IRC_Record \<Rightarrow> string" where
  "irc_text c r = prefix_text (prefix r) @ c @ (if parameters r = [] then [] else '' '')
     @ parameters_text 0 (parameterRanges r) (parameters r) @ irc_crlf"

section \<open>The steps append the text\<close>

lemma render_length: "2 \<le> b \<Longrightarrow> n < b ^ k \<Longrightarrow> 0 < k \<Longrightarrow> length (render b n) \<le> k"
proof (induction k arbitrary: n)
  case (Suc k)
  show ?case
  proof (cases "n < b")
    case True
    then show ?thesis by (simp add: render_short)
  next
    case False
    with Suc.prems have "n div b < b ^ k" by (simp add: less_mult_imp_div_less mult.commute)
    moreover from False Suc.prems have "0 < k" by (cases k) auto
    ultimately show ?thesis using Suc False by (simp add: render_step)
  qed
qed simp

lemma render_length_ge: "2 \<le> b \<Longrightarrow> b ^ k \<le> n \<Longrightarrow> k < length (render b n)"
proof (induction k arbitrary: n)
  case (Suc k)
  from Suc.prems have "b ^ k \<le> n div b"
    by (simp add: less_eq_div_iff_mult_less_eq mult.commute)
  moreover from Suc.prems have "b \<le> n"
  proof -
    have "b \<le> b * b ^ k" using Suc.prems by simp
    also have "\<dots> \<le> n" using Suc.prems by simp
    finally show ?thesis .
  qed
  ultimately show ?case using Suc by (simp add: render_step)
qed simp

lemma three_digits_length: "length (three_digits n) = 3 \<longleftrightarrow> n < 1000"
proof (cases "n < 1000")
  case True
  then have "length (dec n) \<le> 3" using render_length [of 10 n 3] by simp
  with True show ?thesis by (simp add: three_digits_def)
next
  case False
  then have "3 < length (dec n)" using render_length_ge [of 10 3 n] by simp
  with False show ?thesis by (simp add: three_digits_def)
qed

lemma marked_appends:
  "mb_laws ops contents \<Longrightarrow> appends ops contents (marked_step ops c t) (marked_text c t) 0"
  using appends_then [OF appends_checked_put [of ops contents "[c]" 0]
      appends_then [OF appends_copy appends_skip, of ops contents t]]
  by (simp add: marked_step_def marked_text_def appends_skip)

text \<open>With the room the handler asserts, the unchecked colon behaves like a checked one.\<close>

definition checked_prefix_step :: "('m, char) mb_ops \<Rightarrow> Prefix \<Rightarrow> 'm step" where
  "checked_prefix_step ops p =
    (if origin p = [] then skip_step
     else steps [checked_step ops 1 (put_step ops '':''), copy_step ops (origin p),
       marked_step ops CHR ''!'' (user p), marked_step ops CHR ''@'' (host p),
       checked_step ops 1 (put_step ops '' '')])"

lemma prefix_step_checked:
  "1 \<le> mb_space ops m \<Longrightarrow> prefix_step ops p m = checked_prefix_step ops p m"
  by (simp add: prefix_step_def checked_prefix_step_def then_step_def checked_step_def)

lemma prefix_appends:
  assumes "mb_laws ops contents"
  shows "appends ops contents (checked_prefix_step ops p) (prefix_text p) 0"
proof -
  note put = appends_checked_put [OF assms, of "[c]" 0 for c]
  have "appends ops contents (steps [checked_step ops 1 (put_step ops '':''), copy_step ops (origin p),
       marked_step ops CHR ''!'' (user p), marked_step ops CHR ''@'' (host p),
       checked_step ops 1 (put_step ops '' '')])
     ('':'' @ origin p @ marked_text CHR ''!'' (user p) @ marked_text CHR ''@'' (host p) @ '' '' @ []) 0"
    unfolding steps_simps
    using put [of "CHR '':''"] put [of "CHR '' ''"]
    by (intro appends_then [where k = 0] appends_copy appends_skip marked_appends assms) simp_all
  then show ?thesis
    by (simp add: checked_prefix_step_def prefix_text_def appends_skip)
qed

lemma parameters_appends:
  assumes "mb_laws ops contents"
    and "ps \<noteq> [] \<Longrightarrow> CHR '' '' \<in> set (last ps) \<Longrightarrow> last_separator i rs ps = CHR '' ''"
  shows "appends ops contents (parameters_step ops i rs ps) (parameters_text i rs ps) 0"
  using assms(2)
proof (induction ps arbitrary: i rs)
  case Nil
  then show ?case by (simp add: appends_skip)
next
  case (Cons p ps)
  let ?rs = "next_ranges i rs"
  let ?sep = "separator i ?rs"
  note put = appends_checked_put [OF assms(1), of "[c]" 0 for c]
  show ?case
  proof (cases ps)
    case Nil
    show ?thesis
    proof (cases "CHR '' '' \<in> set p")
      case True
      with Cons.prems Nil have "?sep = CHR '' ''" by (simp add: Let_def)
      moreover have "appends ops contents (then_step (checked_step ops 1 (put_step ops '':''))
          (then_step (copy_step ops p) (then_step skip_step (then_step skip_step skip_step))))
          ('':'' @ p @ [] @ [] @ []) 0"
        using put [of "CHR '':''"]
        by (intro appends_then [where k = 0] appends_copy appends_skip assms) simp_all
      ultimately show ?thesis using True Nil by (simp add: Let_def)
    next
      case False
      have "appends ops contents (then_step skip_step
          (then_step (copy_step ops p) (then_step skip_step (then_step skip_step skip_step))))
          ([] @ p @ [] @ [] @ []) 0"
        by (intro appends_then [where k = 0] appends_copy appends_skip assms) simp_all
      with False Nil show ?thesis by (simp add: Let_def)
    qed
  next
    case ps: (Cons q qs)
    have IH: "appends ops contents (parameters_step ops (Suc i) ?rs ps) (parameters_text (Suc i) ?rs ps) 0"
      using Cons ps by (simp add: Let_def)
    have "appends ops contents (then_step skip_step
        (then_step (copy_step ops p) (then_step (checked_step ops 1 (put_step ops [?sep]))
        (then_step (parameters_step ops (Suc i) ?rs ps) skip_step))))
        ([] @ p @ [?sep] @ parameters_text (Suc i) ?rs ps @ []) 0"
      using put [of ?sep]
      by (intro appends_then [where k = 0] appends_copy appends_skip assms IH) simp_all
    with ps show ?thesis by (simp add: Let_def del: parameters_step.simps(2)) (simp add: Let_def)
  qed
qed

lemma command_appends:
  assumes "mb_laws ops contents" "command_text_of h c = Some t"
  shows "appends ops contents (command_step ops h c) t 1"
proof (cases c)
  case (NUMERIC n)
  with assms(2) have n: "n < 1000" "t = three_digits n"
    by (auto simp: command_text_of_def split: if_splits)
  then have "length t = 3" by (simp add: three_digits_length)
  with NUMERIC n show ?thesis
    using appends_checked_put [OF assms(1), of t 1] by (simp add: command_step_def)
next
  case (STRING p)
  with assms(2) have "deref h p = Inr t"
    by (auto simp: command_text_of_def split: sum.splits)
  with STRING show ?thesis
    using appends_slack [OF appends_copy [OF assms(1), of t]] by (simp add: command_step_def)
next
  case INVALID
  with assms show ?thesis by (simp add: command_text_of_def)
qed

lemma message_appends:
  assumes "mb_laws ops contents" "command_text_of h (command r) = Some c"
    and "parameters r \<noteq> [] \<Longrightarrow> CHR '' '' \<in> set (last (parameters r)) \<Longrightarrow>
      last_separator 0 (parameterRanges r) (parameters r) = CHR '' ''"
    and room: "1 \<le> mb_space ops m"
  shows "if length (irc_text c r) \<le> mb_space ops m
    then appended ops contents (irc_text c r) m (message_step ops h r m)
    else message_step ops h r m = Inr None"
proof -
  let ?gap = "if parameters r \<noteq> [] then checked_step ops 1 (put_step ops '' '') else skip_step"
  let ?rest = "then_step (command_step ops h (command r)) (then_step ?gap
    (then_step (parameters_step ops 0 (parameterRanges r) (parameters r))
    (then_step (checked_step ops 2 (put_step ops irc_crlf)) skip_step)))"
  have gap: "appends ops contents ?gap (if parameters r = [] then [] else '' '') 0"
    using appends_checked_put [OF assms(1), of "'' ''" 0] by (simp add: appends_skip)
  have crlf: "appends ops contents (checked_step ops 2 (put_step ops irc_crlf)) irc_crlf 0"
    using appends_checked_put [OF assms(1), of irc_crlf 0] by (simp add: irc_crlf_def numeral_2_eq_2)
  have "appends ops contents ?rest (c @ (if parameters r = [] then [] else '' '')
      @ parameters_text 0 (parameterRanges r) (parameters r) @ irc_crlf @ []) 0"
    by (rule appends_then [OF command_appends [OF assms(1,2)]
          appends_then [OF gap appends_then [OF parameters_appends [OF assms(1,3)]
            appends_then [OF crlf appends_skip]]]])
      (simp_all add: irc_crlf_def)
  from appends_then [OF prefix_appends [OF assms(1)] this]
  have "appends ops contents (then_step (checked_prefix_step ops (prefix r)) ?rest) (irc_text c r) 0"
    by (simp add: irc_text_def)
  moreover have "message_step ops h r m = then_step (checked_prefix_step ops (prefix r)) ?rest m"
    by (simp add: message_step_def then_step_def [of "prefix_step ops (prefix r)"]
        then_step_def [of "checked_prefix_step ops (prefix r)"] prefix_step_checked [OF room]
        IRC_FRAME_BOUNDARY_SIZE_def)
  ultimately show ?thesis
    using appends_exact by fastforce
qed

lemma irc_streams:
  assumes "mb_laws ops contents" "contents m = []" "IRC_MAXIMUM_FRAME_SIZE \<le> mb_space ops m"
    and "command_text_of h (command r) = Some c"
    and "parameters r \<noteq> [] \<Longrightarrow> CHR '' '' \<in> set (last (parameters r)) \<Longrightarrow>
      last_separator 0 (parameterRanges r) (parameters r) = CHR '' ''"
  shows "if length (irc_text c r) \<le> mb_space ops m
    then \<exists>m'. irc_handleDataMessage ops h r m = Inr (Some m', True) \<and> contents m' = irc_text c r
    else irc_handleDataMessage ops h r m = Inr (None, False)"
proof -
  have "1 \<le> mb_space ops m" using assms(3) by (simp add: IRC_MAXIMUM_FRAME_SIZE_def)
  from message_appends [OF assms(1,4,5) this] assms(1-3) show ?thesis
    by (auto simp: irc_handleDataMessage_def mb_length_contents appended_def split: if_splits)
qed

text \<open>C17: The handler streams an IRC record all or nothing: on an empty message block with room for a frame
  and for a record with a command (a numeric below 1000 or a text) whose last parameter is not
  at once a list item and a text with spaces, it appends exactly the text of the record when that
  fits, and otherwise releases the message, returns NULL and does not pass it on.\<close>

theorem irc_stream_outcome:
  assumes "mb_laws ops contents" "contents m = []" "IRC_MAXIMUM_FRAME_SIZE \<le> mb_space ops m"
    and "command_text_of h (command r) = Some c"
    and "parameters r \<noteq> [] \<Longrightarrow> CHR '' '' \<in> set (last (parameters r)) \<Longrightarrow>
      last_separator 0 (parameterRanges r) (parameters r) = CHR '' ''"
  shows "if length (irc_text c r) \<le> mb_space ops m
    then \<exists>m'. irc_handleDataMessage ops h r m = Inr (Some m', True) \<and> contents m' = irc_text c r
    else irc_handleDataMessage ops h r m = Inr (None, False)"
  by (rule irc_streams [OF assms])

definition privmsg :: IRC_Record where
  "privmsg = new_IRC_Record\<lparr>prefix := \<lparr>origin = ''wiz'', user = ''w'', host = ''h''\<rparr>,
     command := NUMERIC 7, parameters := [''a'', ''b'', ''c d''], parameterRanges := [(0, 1)]\<rparr>"

theorem irc_stream_outcome_witness:
  "\<exists>m'. irc_handleDataMessage bounded_block Map.empty privmsg (600, []) = Inr (Some m', True)
     \<and> snd m' = '':wiz!w@h 007 a,b,:c d'' @ irc_crlf"
proof -
  have two: "replicate 2 d = [d, d]" for d :: char by (simp add: numeral_2_eq_2)
  have c: "command_text_of Map.empty (command privmsg) = Some ''007''"
    by (simp add: privmsg_def command_text_of_def three_digits_def render_eval two)
  have t: "irc_text ''007'' privmsg = '':wiz!w@h 007 a,b,:c d'' @ irc_crlf"
    by (simp add: irc_text_def privmsg_def prefix_text_def marked_text_def next_ranges_def separator_def)
  show ?thesis
    using irc_stream_outcome [OF bounded_block_laws _ _ c, of "(600, [])"] unfolding t
    by (simp add: IRC_MAXIMUM_FRAME_SIZE_def bounded_block_def privmsg_def next_ranges_def
        separator_def irc_crlf_def)
qed

section \<open>Reading the text back\<close>

text \<open>
  The grammar of RFC 1459 quoted in the source: an optional prefix, the command, the parameters
  separated by spaces, the last of which may be marked by a colon.
\<close>

function parse_params :: "string \<Rightarrow> string list" where
  "parse_params s =
    (if s = [] then []
     else if hd s = CHR '':'' then [tl s]
     else let w = takeWhile (\<lambda>c. c \<noteq> CHR '' '') s; rest = dropWhile (\<lambda>c. c \<noteq> CHR '' '') s
          in w # (if rest = [] then [] else parse_params (dropWhile (\<lambda>c. c = CHR '' '') rest)))"
  by pat_completeness auto
termination
proof (relation "measure length")
  fix s w rest :: string
  assume rest: "rest = dropWhile (\<lambda>c. c \<noteq> CHR '' '') s" "rest \<noteq> []"
  then have "hd rest = CHR '' ''"
    using hd_dropWhile [of "\<lambda>c. c \<noteq> CHR '' ''" s] by simp
  with rest(2) obtain t where "rest = CHR '' '' # t" by (cases rest) auto
  then have "length (dropWhile (\<lambda>c. c = CHR '' '') rest) < length rest"
    by (simp add: le_imp_less_Suc length_dropWhile_le)
  also have "\<dots> \<le> length s"
    unfolding rest(1) by (rule length_dropWhile_le)
  finally show "(dropWhile (\<lambda>c. c = CHR '' '') rest, s) \<in> measure length" by simp
qed simp

declare parse_params.simps [simp del]

definition parse_prefix :: "string \<Rightarrow> Prefix" where
  "parse_prefix s =
    (let o' = takeWhile (\<lambda>c. c \<noteq> CHR ''!'' \<and> c \<noteq> CHR ''@'') s;
         r1 = dropWhile (\<lambda>c. c \<noteq> CHR ''!'' \<and> c \<noteq> CHR ''@'') s;
         u = (if r1 \<noteq> [] \<and> hd r1 = CHR ''!'' then takeWhile (\<lambda>c. c \<noteq> CHR ''@'') (tl r1) else []);
         r2 = dropWhile (\<lambda>c. c \<noteq> CHR ''@'') r1
     in \<lparr>origin = o', user = u, host = tl r2\<rparr>)"

definition parse_body :: "string \<Rightarrow> string \<times> string list" where
  "parse_body s = (takeWhile (\<lambda>c. c \<noteq> CHR '' '') s,
     parse_params (dropWhile (\<lambda>c. c = CHR '' '') (dropWhile (\<lambda>c. c \<noteq> CHR '' '') s)))"

definition parse_message :: "string \<Rightarrow> (Prefix \<times> string \<times> string list) option" where
  "parse_message s =
    (if length s < 2 \<or> drop (length s - 2) s \<noteq> irc_crlf then None
     else let b = take (length s - 2) s
          in if b \<noteq> [] \<and> hd b = CHR '':''
             then let (c, ps) = parse_body (dropWhile (\<lambda>c. c = CHR '' '') (dropWhile (\<lambda>c. c \<noteq> CHR '' '') b))
                  in Some (parse_prefix (takeWhile (\<lambda>c. c \<noteq> CHR '' '') (tl b)), c, ps)
             else let (c, ps) = parse_body b in Some (empty_prefix, c, ps))"

text \<open>Records whose parts are what the grammar allows.\<close>

definition word :: "string \<Rightarrow> bool" where
  "word p \<longleftrightarrow> p \<noteq> [] \<and> hd p \<noteq> CHR '':'' \<and> CHR '' '' \<notin> set p"

definition good_prefix :: "Prefix \<Rightarrow> bool" where
  "good_prefix p \<longleftrightarrow> (origin p = [] \<longrightarrow> p = empty_prefix)
     \<and> set (origin p) \<inter> {CHR '' '', CHR ''!'', CHR ''@''} = {}
     \<and> set (user p) \<inter> {CHR '' '', CHR ''@''} = {} \<and> CHR '' '' \<notin> set (host p)"

text \<open>What the reader sees of the last parameter: a colon of its own is taken for the mark.\<close>

definition reread :: "string \<Rightarrow> string list" where
  "reread p = (if CHR '' '' \<in> set p then [p] else if p = [] then []
     else if hd p = CHR '':'' then [tl p] else [p])"

lemma until:
  assumes "c \<notin> set xs"
  shows "takeWhile (\<lambda>d. d \<noteq> c) (xs @ c # ys) = xs" "dropWhile (\<lambda>d. d \<noteq> c) (xs @ c # ys) = c # ys"
    "takeWhile (\<lambda>d. d \<noteq> c) xs = xs" "dropWhile (\<lambda>d. d \<noteq> c) xs = []"
  using assms by (induction xs) auto

lemma parse_last: "parse_params (if CHR '' '' \<in> set p then '':'' @ p else p) = reread p"
  by (subst parse_params.simps) (auto simp: reread_def until)

lemma last_unspaced:
  "dropWhile (\<lambda>c. c = CHR '' '') (if CHR '' '' \<in> set p then '':'' @ p else p)
     = (if CHR '' '' \<in> set p then '':'' @ p else p)"
  by (cases p) auto

lemma no_ranges [simp]: "next_ranges i [] = []" "separator i [] = CHR '' ''"
  by (simp_all add: next_ranges_def separator_def)

lemma parameters_text_unspaced:
  "list_all word ps \<Longrightarrow> dropWhile (\<lambda>c. c = CHR '' '') (parameters_text i [] (ps @ [p])) = parameters_text i [] (ps @ [p])"
proof (cases ps)
  case Nil
  then show ?thesis using last_unspaced [of p] by simp
next
  case (Cons q qs)
  assume "list_all word ps"
  with Cons have "word q" by simp
  then obtain c r where "q = c # r" "c \<noteq> CHR '' ''" by (cases q) (auto simp: word_def)
  with Cons show ?thesis by (cases qs) (auto simp: Let_def)
qed

lemma parse_parameters:
  "list_all word ps \<Longrightarrow> parse_params (parameters_text i [] (ps @ [p])) = ps @ reread p"
proof (induction ps arbitrary: i)
  case Nil
  then show ?case using parse_last [of p] by simp
next
  case (Cons q qs)
  have head: "parameters_text i [] ((q # qs) @ [p]) = q @ CHR '' '' # parameters_text (Suc i) [] (qs @ [p])"
    by (cases qs) (simp_all add: Let_def)
  from Cons.prems have q: "q \<noteq> []" "hd q \<noteq> CHR '':''" "CHR '' '' \<notin> set q"
    by (simp_all add: word_def)
  have "parse_params (parameters_text i [] ((q # qs) @ [p]))
      = q # parse_params (dropWhile (\<lambda>c. c = CHR '' '') (parameters_text (Suc i) [] (qs @ [p])))"
    unfolding head using q by (subst parse_params.simps) (simp add: until)
  also have "dropWhile (\<lambda>c. c = CHR '' '') (parameters_text (Suc i) [] (qs @ [p])) = parameters_text (Suc i) [] (qs @ [p])"
    using Cons.prems by (intro parameters_text_unspaced) simp
  finally show ?case using Cons by simp
qed

lemma parse_body_text:
  assumes "word c" "list_all word (butlast ps)"
  shows "parse_body (c @ (if ps = [] then [] else '' '') @ parameters_text 0 [] ps) =
     (c, if ps = [] then [] else butlast ps @ reread (last ps))"
proof (cases ps rule: rev_cases)
  case Nil
  with assms show ?thesis
    by (simp add: parse_body_def word_def until parse_params.simps [of "[]"])
next
  case (snoc qs p)
  with assms have "list_all word qs" "CHR '' '' \<notin> set c" by (simp_all add: word_def)
  with snoc show ?thesis
    by (simp add: parse_body_def until parameters_text_unspaced parse_parameters)
qed

lemma while_prefix:
  assumes "\<forall>c \<in> set xs. P c" "s = [] \<or> \<not> P (hd s)"
  shows "takeWhile P (xs @ s) = xs" "dropWhile P (xs @ s) = s"
  using assms by (induction xs) (cases s, auto)+

lemma parse_prefix_text:
  assumes "good_prefix p"
  shows "parse_prefix (origin p @ marked_text CHR ''!'' (user p) @ marked_text CHR ''@'' (host p)) = p"
proof -
  let ?at = "\<lambda>c. c \<noteq> CHR ''@''" and ?bang = "\<lambda>c. c \<noteq> CHR ''!'' \<and> c \<noteq> CHR ''@''"
  define H where "H = marked_text CHR ''@'' (host p)"
  define S where "S = marked_text CHR ''!'' (user p) @ H"
  have H: "H = [] \<or> \<not> ?at (hd H)" "tl H = host p"
    by (simp_all add: H_def marked_text_def)
  have S: "S = [] \<or> \<not> ?bang (hd S)"
    using H by (auto simp: S_def marked_text_def)
  have O: "\<forall>c \<in> set (origin p). ?bang c" and U: "\<forall>c \<in> set (user p). ?at c"
    using assms by (auto simp: good_prefix_def)
  note o = while_prefix [OF O S] and u = while_prefix [OF U H(1)]
  have "dropWhile ?at S = H"
    using u(2) while_prefix(2) [of "[]" ?at H] H(1) by (simp add: S_def marked_text_def)
  moreover have "(if S \<noteq> [] \<and> hd S = CHR ''!'' then takeWhile ?at (tl S) else []) = user p"
    using u(1) H(1) by (auto simp: S_def marked_text_def)
  ultimately show ?thesis
    using o H(2) by (intro Prefix.equality) (simp_all add: parse_prefix_def Let_def flip: H_def S_def)
qed

lemma parse_message_text:
  assumes "word c" "good_prefix (prefix r)" "parameterRanges r = []"
    and "list_all word (butlast (parameters r))"
  shows "parse_message (irc_text c r) = Some (prefix r, c,
    if parameters r = [] then [] else butlast (parameters r) @ reread (last (parameters r)))"
proof -
  let ?p = "prefix r" and ?ps = "parameters r"
  let ?rest = "c @ (if ?ps = [] then [] else '' '') @ parameters_text 0 [] ?ps"
  let ?who = "origin ?p @ marked_text CHR ''!'' (user ?p) @ marked_text CHR ''@'' (host ?p)"
  obtain d t where c: "c = d # t" "d \<noteq> CHR '':''" "d \<noteq> CHR '' ''"
    using assms(1) by (cases c) (auto simp: word_def)
  have body: "irc_text c r = (prefix_text ?p @ ?rest) @ irc_crlf"
    using assms(3) by (simp add: irc_text_def)
  have len: "length irc_crlf = 2" by (simp add: irc_crlf_def)
  show ?thesis
  proof (cases "origin ?p = []")
    case True
    then have "prefix_text ?p = []" "?p = empty_prefix"
      using assms(2) by (simp_all add: prefix_text_def good_prefix_def)
    then show ?thesis
      unfolding parse_message_def body using len parse_body_text [OF assms(1,4)] c
      by (simp add: Let_def)
  next
    case False
    have "CHR '' '' \<notin> set ?who"
      using assms(2) by (auto simp: good_prefix_def marked_text_def)
    from until(1,2) [OF this, of ?rest] until(2) [of "CHR '' ''" "CHR '':'' # ?who" ?rest] this
    have "takeWhile (\<lambda>c. c \<noteq> CHR '' '') (?who @ CHR '' '' # ?rest) = ?who"
      "dropWhile (\<lambda>c. c \<noteq> CHR '' '') (CHR '':'' # ?who @ CHR '' '' # ?rest) = CHR '' '' # ?rest"
      by auto
    moreover have "dropWhile (\<lambda>c. c = CHR '' '') (CHR '' '' # ?rest) = ?rest"
      using c by simp
    moreover have "prefix_text ?p = CHR '':'' # ?who @ '' ''"
      using False by (simp add: prefix_text_def)
    ultimately show ?thesis
      unfolding parse_message_def body
      using len parse_body_text [OF assms(1,4)] parse_prefix_text [OF assms(2)]
      by (simp add: Let_def)
  qed
qed

text \<open>The separator of the last parameter of a record without list items.\<close>

lemma last_separator_no_ranges: "last_separator i [] ps = CHR '' ''"
  by (induction ps arbitrary: i) (simp_all add: Let_def)

lemma parse_irc_text:
  assumes "word c" "good_prefix (prefix r)" "parameterRanges r = []"
    and "list_all word (butlast (parameters r))"
    and "parameters r \<noteq> [] \<Longrightarrow> CHR '' '' \<in> set (last (parameters r)) \<or> word (last (parameters r))"
  shows "parse_message (irc_text c r) = Some (prefix r, c, parameters r)"
proof -
  have "reread (last (parameters r)) = [last (parameters r)]" if "parameters r \<noteq> []"
    using assms(5) [OF that] by (auto simp: reread_def word_def)
  then show ?thesis
    unfolding parse_message_text [OF assms(1-4)] by (cases "parameters r = []") simp_all
qed

text \<open>C14: What the handler streams can be read back by a reader that follows the grammar of RFC 1459: for a
  record without list items whose command and parameters are words of the grammar (the last
  parameter may also be any text with a space), whose text fits into the block, the handler passes the
  message on, and reading the contents of its block gives the prefix, the command and the
  parameters of the record.\<close>

theorem irc_roundtrip:
  assumes "mb_laws ops contents" "contents m = []" "IRC_MAXIMUM_FRAME_SIZE \<le> mb_space ops m"
    and "command_text_of h (command r) = Some c" "length (irc_text c r) \<le> mb_space ops m"
    and "word c" "good_prefix (prefix r)" "parameterRanges r = []"
    and "list_all word (butlast (parameters r))"
    and "parameters r \<noteq> [] \<Longrightarrow> CHR '' '' \<in> set (last (parameters r)) \<or> word (last (parameters r))"
  shows "\<exists>m'. irc_handleDataMessage ops h r m = Inr (Some m', True)
    \<and> parse_message (contents m') = Some (prefix r, c, parameters r)"
proof -
  have "last_separator 0 (parameterRanges r) (parameters r) = CHR '' ''"
    using assms(8) by (simp add: last_separator_no_ranges)
  from irc_streams [OF assms(1-4) this] assms(5) show ?thesis
    using parse_irc_text [OF assms(6-10)] by auto
qed

text \<open>A last parameter without spaces is never marked, so one that starts with a colon (a smiley) loses
  it on the way, and an empty one disappears, although the grammar quoted in the source has the
  mark for both.\<close>

theorem irc_unmarked_last:
  assumes "word c" "good_prefix (prefix r)" "parameterRanges r = []" "list_all word ps"
    and "parameters r = ps @ [p]"
  shows "(CHR '' '' \<notin> set q \<and> p = CHR '':'' # q \<longrightarrow>
      parse_message (irc_text c r) = Some (prefix r, c, ps @ [q]))
    \<and> (p = [] \<longrightarrow> parse_message (irc_text c r) = Some (prefix r, c, ps))"
  using parse_message_text [of c r] assms by (simp add: reread_def)

definition message_of :: "Prefix \<Rightarrow> string list \<Rightarrow> IRC_Record" where
  "message_of p ps = new_IRC_Record\<lparr>prefix := p, parameters := ps\<rparr>"

lemma message_of_fields:
  "prefix (message_of p ps) = p" "parameters (message_of p ps) = ps" "parameterRanges (message_of p ps) = []"
  by (simp_all add: message_of_def new_IRC_Record_def)

definition numeric_message :: IRC_Record where
  "numeric_message = new_IRC_Record\<lparr>prefix := \<lparr>origin = ''wiz'', user = ''w'', host = []\<rparr>, command := NUMERIC 7,
     parameters := [''#c'', ''a b'']\<rparr>"

lemma numeric_fields:
  "prefix numeric_message = \<lparr>origin = ''wiz'', user = ''w'', host = []\<rparr>" "parameters numeric_message = [''#c'', ''a b'']"
  "parameterRanges numeric_message = []" "command numeric_message = NUMERIC 7"
  by (simp_all add: numeric_message_def new_IRC_Record_def)

theorem irc_roundtrip_witness:
  "\<exists>m'. irc_handleDataMessage bounded_block Map.empty numeric_message (600, []) = Inr (Some m', True)
     \<and> parse_message (snd m') = Some (\<lparr>origin = ''wiz'', user = ''w'', host = []\<rparr>, ''007'', [''#c'', ''a b''])"
proof -
  have two: "replicate 2 d = [d, d]" for d :: char by (simp add: numeral_2_eq_2)
  have c: "command_text_of Map.empty (command numeric_message) = Some ''007''"
    by (simp add: numeric_fields command_text_of_def three_digits_def render_eval two)
  have "length (irc_text ''007'' numeric_message) \<le> 600" "word ''007''" "good_prefix (prefix numeric_message)"
    "list_all word (butlast (parameters numeric_message))"
    by (simp_all add: irc_text_def numeric_fields prefix_text_def marked_text_def irc_crlf_def word_def good_prefix_def)
  with irc_roundtrip [OF bounded_block_laws _ _ c, of "(600, [])"] show ?thesis
    by (simp add: numeric_fields IRC_MAXIMUM_FRAME_SIZE_def bounded_block_def)
qed

theorem irc_unmarked_last_witness:
  "parse_message (irc_text ''PRIVMSG'' (message_of empty_prefix [''#c'', '':-)'']))
     = Some (empty_prefix, ''PRIVMSG'', [''#c'', ''-)''])"
  using irc_unmarked_last [of "''PRIVMSG''" "message_of empty_prefix [''#c'', '':-)'']" "[''#c'']" "'':-)''" "''-)''"]
  by (simp add: message_of_fields word_def good_prefix_def empty_prefix_def)

end
