(* ===== verification/IRC_Bisector.thy ===== *)
theory IRC_Bisector
  imports IRC_Streamer
begin

text \<open>
  The framing of the IRC byte stream, \<^verbatim>\<open>IRC_Module_Bisector_T\<close> in
  \<^verbatim>\<open>src/src/protocol/irc/irc_module_bisector.inl\<close> with its scanner (\<^verbatim>\<open>scripts/bisector.l\<close>, generated
  into \<^verbatim>\<open>irc_bisector.cpp\<close>): chunks of data are chained until a line end is found, and the frames are cut out of the chain.
\<close>

section \<open>The scanner\<close>

abbreviation CR :: char where "CR \<equiv> CHR 0x0D"
abbreviation LF :: char where "LF \<equiv> CHR 0x0A"

text \<open>
  What a call returns: 0, -1, or the length of the text scanned. \<open>False\<close> is the start condition
  INITIAL, \<open>True\<close> \<^verbatim>\<open>end_of_frame\<close>; \<open>kept\<close> is the length of the text that \<^verbatim>\<open>yymore\<close> keeps, which the
  next match counts again.
\<close>

datatype scan = Finished | Frame_end | Scanned nat

definition plain :: "char \<Rightarrow> bool" where
  "plain c \<longleftrightarrow> c \<noteq> CR \<and> c \<noteq> LF"

fun bisect_lex :: "bool \<Rightarrow> nat \<Rightarrow> string \<Rightarrow> scan \<times> bool \<times> nat \<times> string" where
  "bisect_lex eof kept [] = (Finished, eof, 0, [])"
| "bisect_lex False kept (c # cs) =
    (if c = CR then bisect_lex True 0 cs
     else if c = LF then (Scanned (kept + 1), False, kept + 1, cs)
     else (Scanned (kept + 1 + length (takeWhile plain cs)), False, 0, dropWhile plain cs))"
| "bisect_lex True kept (c # cs) =
    (if c = LF then (Frame_end, False, 0, cs) else (Scanned (kept + 1), False, kept + 1, cs))"

section \<open>The handler\<close>

text \<open>
  The chain of message blocks (NULL is the empty chain), the bytes of the pending message scanned in
  earlier calls, and the start condition, which the scanner keeps between calls.
\<close>

record bisector =
  blocks :: "string list"
  messageLength :: nat
  end_of_frame :: bool

definition new_bisector :: bisector where
  "new_bisector = \<lparr>blocks = [], messageLength = 0, end_of_frame = False\<rparr>"

text \<open>
  The loop: \<open>rest\<close> is what the scanner has not read, \<open>block\<close> the last block of the chain from its
  read pointer, \<open>earlier\<close> the blocks before it. A frame is taken off by a shallow copy of the block (which succeeds here),
  with the write pointer of the one and the read pointer of the other moved. Frames are chains of blocks.
\<close>

lemma lex_shrinks:
  "bisect_lex eof kept cs = (Scanned n, eof', kept', rest') \<Longrightarrow> length rest' < length cs"
  "bisect_lex eof kept cs = (Frame_end, eof', kept', rest') \<Longrightarrow> length rest' < length cs"
  by (induction eof kept cs rule: bisect_lex.induct)
    (auto split: if_splits simp: less_Suc_eq_le length_dropWhile_le)

function bisect_loop :: "bool \<Rightarrow> nat \<Rightarrow> string \<Rightarrow> string list \<Rightarrow> string \<Rightarrow> nat \<Rightarrow> nat \<Rightarrow> string list list
    \<Rightarrow> (string list list \<times> bisector) res" where
  "bisect_loop eof kept rest earlier block scanned len out =
    (case bisect_lex eof kept rest of
       (Finished, eof', _, _) \<Rightarrow>
         Inr (out, \<lparr>blocks = earlier @ [block], messageLength = len + scanned, end_of_frame = eof'\<rparr>)
     | (Scanned n, eof', kept', rest') \<Rightarrow> bisect_loop eof' kept' rest' earlier block (scanned + n) len out
     | (Frame_end, eof', kept', rest') \<Rightarrow>
         if scanned = 0 \<and> block = [] then Inl Undefined_Behaviour
         else let newline = scanned = 0 \<and> hd block = LF;
             scanned' = (if newline then 1 else scanned + IRC_FRAME_BOUNDARY_SIZE);
             len' = (if newline then len + IRC_FRAME_BOUNDARY_SIZE else len + scanned');
             total = length (concat earlier) + length block
           in if len' < total then
                if length block < scanned' then Inl Undefined_Behaviour
                else if len' \<noteq> length (concat earlier) + scanned' then Inl Assertion
                else bisect_loop eof' kept' rest' [] (drop scanned' block) 0 0 (out @ [earlier @ [take scanned' block]])
              else if len' \<noteq> total then Inl Assertion
              else Inr (out @ [earlier @ [block]], \<lparr>blocks = [], messageLength = 0, end_of_frame = eof'\<rparr>))"
  by pat_completeness auto
termination
  by (relation "measure (\<lambda>(_, _, rest, _). length rest)")
    (auto dest: lex_shrinks(1) [OF sym] lex_shrinks(2) [OF sym])

declare bisect_loop.simps [simp del]

definition bisector_handleDataMessage :: "bisector \<Rightarrow> string \<Rightarrow> (string list list \<times> bisector) res" where
  "bisector_handleDataMessage b chunk =
    (let bs = blocks b @ [chunk] in
     if length (concat bs) < IRC_FRAME_BOUNDARY_SIZE then Inr ([], b\<lparr>blocks := bs\<rparr>)
     else bisect_loop (end_of_frame b) 0 chunk (blocks b) chunk 0 (messageLength b) [])"

text \<open>\<^verbatim>\<open>initialize\<close>, for a module that is used again. The scanner is not reset.\<close>

definition bisector_initialize :: "bool \<Rightarrow> bisector \<Rightarrow> bisector" where
  "bisector_initialize initialized b = (if initialized then b\<lparr>blocks := [], messageLength := 0\<rparr> else b)"

text \<open>Chunk after chunk.\<close>

fun bisect_all :: "bisector \<Rightarrow> string list \<Rightarrow> (string list list \<times> bisector) res" where
  "bisect_all b [] = Inr ([], b)"
| "bisect_all b (chunk # chunks) =
    bind_res (bisector_handleDataMessage b chunk) (\<lambda>(out, b').
    bind_res (bisect_all b' chunks) (\<lambda>(out', b''). Inr (out @ out', b'')))"

section \<open>Streams of frames\<close>

definition line :: "string \<Rightarrow> bool" where
  "line l \<longleftrightarrow> (\<forall>c \<in> set l. plain c)"

definition framed :: "string list \<Rightarrow> string" where
  "framed ls = concat (map (\<lambda>l. l @ irc_crlf) ls)"

text \<open>What may be left behind the last frame: the begin of a line, perhaps with the first character of its end.\<close>

definition unfinished :: "string \<Rightarrow> bool" where
  "unfinished t \<longleftrightarrow> line t \<or> (\<exists>l. line l \<and> t = l @ [CR])"

lemma framed_simps [simp]: "framed [] = []" "framed (l # ls) = l @ CR # LF # framed ls"
  by (simp_all add: framed_def irc_crlf_def)

lemma line_simps [simp]: "line []" "line (c # l) \<longleftrightarrow> plain c \<and> line l" "line (k @ l) \<longleftrightarrow> line k \<and> line l"
  by (auto simp: line_def)

lemma plain_simps [simp]: "\<not> plain CR" "\<not> plain LF"
  by (simp_all add: plain_def)

lemma takeWhile_line: "line l \<Longrightarrow> takeWhile plain (l @ cs) = l @ takeWhile plain cs"
  "line l \<Longrightarrow> dropWhile plain (l @ cs) = dropWhile plain cs"
  by (auto simp: line_def takeWhile_append dropWhile_append2)

lemma lex_line:
  assumes "line l" "l \<noteq> []" "cs = [] \<or> hd cs = CR"
  shows "bisect_lex False 0 (l @ cs) = (Scanned (length l), False, 0, cs)"
proof -
  obtain c k where l: "l = c # k" "plain c" "line k" using assms(1,2) by (cases l) auto
  have "takeWhile plain cs = []" "dropWhile plain cs = cs" using assms(3) by (cases cs; simp)+
  then have "takeWhile plain (k @ cs) = k" "dropWhile plain (k @ cs) = cs"
    using takeWhile_line [OF l(3), of cs] by simp_all
  with l show ?thesis by (simp add: plain_def)
qed

lemma line_hd: "line l \<Longrightarrow> l \<noteq> [] \<Longrightarrow> hd l \<noteq> LF"
  by (cases l) (auto simp: plain_def)

text \<open>
  The loop at the begin of a line: it takes off the frame that ends at its end, when the pending blocks
  before it were counted right.
\<close>

lemma loop_frame:
  assumes "line l" "len = length (concat earlier)"
  shows "bisect_loop False 0 (l @ CR # LF # cs) earlier (l @ CR # LF # cs) 0 len out =
    (if cs = [] then Inr (out @ [earlier @ [l @ irc_crlf]], new_bisector)
     else bisect_loop False 0 cs [] cs 0 0 (out @ [earlier @ [l @ irc_crlf]]))"
proof -
  have end_: "bisect_loop False 0 (CR # LF # cs) earlier (l @ CR # LF # cs) (length l) len out =
    (if cs = [] then Inr (out @ [earlier @ [l @ irc_crlf]], new_bisector)
     else bisect_loop False 0 cs [] cs 0 0 (out @ [earlier @ [l @ irc_crlf]]))"
    using assms line_hd [OF assms(1)]
    by (subst bisect_loop.simps) (auto simp: irc_crlf_def IRC_FRAME_BOUNDARY_SIZE_def new_bisector_def Let_def)
  show ?thesis
  proof (cases "l = []")
    case True
    with end_ show ?thesis by simp
  next
    case False
    have "bisect_loop False 0 (l @ CR # LF # cs) earlier (l @ CR # LF # cs) 0 len out
        = bisect_loop False 0 (CR # LF # cs) earlier (l @ CR # LF # cs) (length l) len out"
      using lex_line [OF assms(1) False, of "CR # LF # cs"] by (subst bisect_loop.simps) simp
    with end_ show ?thesis by simp
  qed
qed

text \<open>The rest of a line end whose first character was in an earlier chunk.\<close>

lemma loop_newline:
  assumes "length (concat earlier) = Suc len"
  shows "bisect_loop True 0 (LF # cs) earlier (LF # cs) 0 len out =
    (if cs = [] then Inr (out @ [earlier @ [[LF]]], new_bisector)
     else bisect_loop False 0 cs [] cs 0 0 (out @ [earlier @ [[LF]]]))"
  using assms by (subst bisect_loop.simps) (auto simp: IRC_FRAME_BOUNDARY_SIZE_def new_bisector_def Let_def)

text \<open>The data after the last frame.\<close>

definition pending :: "bisector \<Rightarrow> string" where
  "pending b = concat (blocks b)"

definition scanned_all :: "bisector \<Rightarrow> bool" where
  "scanned_all b \<longleftrightarrow> (if end_of_frame b then \<exists>l. line l \<and> pending b = l @ [CR] \<and> messageLength b = length l
     else line (pending b) \<and> messageLength b = length (pending b))"

lemma loop_rest:
  assumes "line (concat earlier)" "len = length (concat earlier)" "unfinished (concat earlier @ t)"
  shows "\<exists>b. bisect_loop False 0 t earlier t 0 len out = Inr (out, b) \<and> scanned_all b \<and> pending b = concat earlier @ t"
proof -
  obtain l cs where t: "t = l @ cs" "line l" "cs = [] \<or> cs = [CR]"
  proof (cases "line (concat earlier @ t)")
    case True
    then show ?thesis using that [of t "[]"] by simp
  next
    case False
    then obtain k where k: "line k" "concat earlier @ t = k @ [CR]" using assms(3) by (auto simp: unfinished_def)
    have "t \<noteq> []" using k assms(1) by (metis append_Nil2 line_simps(2,3) plain_simps(1))
    then have "t = butlast t @ [CR]" "k = concat earlier @ butlast t"
      using k(2) by (metis append_butlast_last_id last_appendR last_snoc, metis butlast_append butlast_snoc)
    then show ?thesis using that [of "butlast t" "[CR]"] k(1) by (metis line_simps(3))
  qed
  have end_: "bisect_loop False 0 cs earlier t (length l) len out =
      Inr (out, \<lparr>blocks = earlier @ [t], messageLength = len + length l, end_of_frame = cs = [CR]\<rparr>)"
    using t(3) by (subst bisect_loop.simps) auto
  have "bisect_loop False 0 t earlier t 0 len out = bisect_loop False 0 cs earlier t (length l) len out"
  proof (cases "l = []")
    case False
    then show ?thesis
      using lex_line [OF t(2) False, of cs] t(1,3) by (subst bisect_loop.simps) auto
  qed (use t in simp)
  with end_ show ?thesis
    using t assms by (auto simp: scanned_all_def pending_def)
qed

lemma loop_frames:
  assumes "\<forall>l \<in> set ls. line l" "unfinished t" "framed ls @ t \<noteq> []"
  shows "\<exists>outs b. bisect_loop False 0 (framed ls @ t) [] (framed ls @ t) 0 0 out = Inr (out @ outs, b)
    \<and> map concat outs = map (\<lambda>l. l @ irc_crlf) ls \<and> scanned_all b \<and> pending b = t"
  using assms
proof (induction ls arbitrary: out)
  case Nil
  then show ?case using loop_rest [of "[]" 0 t out] by auto
next
  case (Cons l ls)
  let ?cs = "framed ls @ t" and ?m = "[l @ irc_crlf]"
  have step: "bisect_loop False 0 (framed (l # ls) @ t) [] (framed (l # ls) @ t) 0 0 out =
    (if ?cs = [] then Inr (out @ [?m], new_bisector) else bisect_loop False 0 ?cs [] ?cs 0 0 (out @ [?m]))"
    using loop_frame [of l 0 "[]" ?cs out] Cons.prems(1) by simp
  show ?case
  proof (cases "?cs = []")
    case True
    then have "ls = []" "t = []" by (cases ls; simp)+
    with step show ?thesis
      by (intro exI [of _ "[?m]"] exI [of _ new_bisector]) (simp add: scanned_all_def pending_def new_bisector_def)
  next
    case False
    with Cons.IH [of "out @ [?m]"] Cons.prems obtain outs b where
      "bisect_loop False 0 ?cs [] ?cs 0 0 (out @ [?m]) = Inr (out @ [?m] @ outs, b)"
      "map concat outs = map (\<lambda>l. l @ irc_crlf) ls" "scanned_all b" "pending b = t" by auto
    with step False show ?thesis by (intro exI [of _ "?m # outs"] exI [of _ b]) auto
  qed
qed

lemma after_frame:
  assumes "\<forall>l \<in> set ls. line l" "unfinished t"
  shows "\<exists>outs b. (if framed ls @ t = [] then Inr ([m], new_bisector)
      else bisect_loop False 0 (framed ls @ t) [] (framed ls @ t) 0 0 [m]) = Inr (m # outs, b)
    \<and> map concat outs = map (\<lambda>l. l @ irc_crlf) ls \<and> scanned_all b \<and> pending b = t"
proof (cases "framed ls @ t = []")
  case True
  then have "ls = []" "t = []" by (cases ls; simp)+
  then show ?thesis by (simp add: scanned_all_def pending_def new_bisector_def)
next
  case False
  from loop_frames [OF assms False, of "[m]"] False show ?thesis by auto
qed

lemma line_prefix:
  assumes "line p" "line l" "p @ x = l @ CR # y"
  obtains k where "l = p @ k" "x = k @ CR # y"
proof -
  from assms(3) obtain us where "p = l @ us \<and> us @ x = CR # y \<or> p @ us = l \<and> x = us @ CR # y"
    by (auto simp: append_eq_append_conv2)
  then show thesis
  proof
    assume a: "p = l @ us \<and> us @ x = CR # y"
    with assms(1) have "us = []" by (cases us) auto
    with a that [of "[]"] show thesis by simp
  qed (use that in blast)
qed

lemma line_unique:
  assumes "line p" "line l" "p @ CR # x = l @ CR # y"
  shows "p = l \<and> x = y"
proof -
  obtain k where k: "l = p @ k" "CR # x = k @ CR # y" by (rule line_prefix [OF assms])
  with assms(2) have "k = []" by (cases k) auto
  with k show ?thesis by simp
qed

text \<open>One chunk: the frames that it completes.\<close>

lemma bisect_chunk:
  assumes "scanned_all b" "pending b @ chunk = framed ls @ t" "\<forall>l \<in> set ls. line l" "unfinished t"
    and "pending b = [] \<Longrightarrow> length chunk \<noteq> 1"
  shows "\<exists>outs b'. bisector_handleDataMessage b chunk = Inr (outs, b')
    \<and> map concat outs = map (\<lambda>l. l @ irc_crlf) ls \<and> scanned_all b' \<and> pending b' = t"
proof (cases "length (pending b @ chunk) < 2")
  case True
  then have "ls = []" using assms(2) by (cases ls) auto
  moreover from True assms(5) have "chunk = []" by (cases chunk) auto
  ultimately show ?thesis
    using True assms(1,2)
    by (auto simp: bisector_handleDataMessage_def pending_def scanned_all_def IRC_FRAME_BOUNDARY_SIZE_def Let_def)
next
  case False
  then have h: "bisector_handleDataMessage b chunk
      = bisect_loop (end_of_frame b) 0 chunk (blocks b) chunk 0 (messageLength b) []"
    by (simp add: bisector_handleDataMessage_def pending_def IRC_FRAME_BOUNDARY_SIZE_def Let_def)
  show ?thesis
  proof (cases "end_of_frame b")
    case eof: True
    then obtain p where p: "line p" "concat (blocks b) = p @ [CR]" "messageLength b = length p"
      using assms(1) by (auto simp: scanned_all_def pending_def)
    show ?thesis
    proof (cases ls)
      case Nil
      have "chunk = []"
      proof (rule ccontr)
        assume "chunk \<noteq> []"
        then have "butlast t = p @ CR # butlast chunk" "t \<noteq> []"
          using assms(2) p(2) Nil by (auto simp: pending_def butlast_append)
        moreover have "line (butlast t)" using assms(4)
          by (auto simp: unfinished_def line_def dest: in_set_butlastD)
        ultimately show False by simp
      qed
      then show ?thesis
        using assms(1,2) Nil eof by (subst h, subst bisect_loop.simps) (simp add: scanned_all_def pending_def)
    next
      case (Cons l ls')
      from assms(2) p(2) Cons have "p @ CR # chunk = l @ CR # LF # framed ls' @ t" by (simp add: pending_def)
      with line_unique [OF p(1), of l] assms(3) Cons
      have c: "p = l" "chunk = LF # framed ls' @ t" by simp_all
      have "length (concat (blocks b)) = Suc (messageLength b)" using p by simp
      from loop_newline [OF this, of "framed ls' @ t" "[]"]
      have r: "bisector_handleDataMessage b chunk = (if framed ls' @ t = [] then Inr ([blocks b @ [[LF]]], new_bisector)
          else bisect_loop False 0 (framed ls' @ t) [] (framed ls' @ t) 0 0 [blocks b @ [[LF]]])"
        using h eof c(2) by simp
      from after_frame [of ls' t "blocks b @ [[LF]]"] assms(3,4) Cons obtain outs b' where
        o: "bisector_handleDataMessage b chunk = Inr ((blocks b @ [[LF]]) # outs, b')"
        "map concat outs = map (\<lambda>l. l @ irc_crlf) ls'" "scanned_all b'" "pending b' = t" unfolding r by auto
      then show ?thesis
        using Cons c(1) p(2) by (intro exI [of _ "(blocks b @ [[LF]]) # outs"] exI [of _ b']) (simp add: irc_crlf_def)
    qed
  next
    case eof: False
    then have p: "line (concat (blocks b))" "messageLength b = length (concat (blocks b))"
      using assms(1) by (auto simp: scanned_all_def pending_def)
    show ?thesis
    proof (cases ls)
      case Nil
      then have "unfinished (concat (blocks b) @ chunk)" using assms(2,4) by (simp add: pending_def)
      from loop_rest [OF p this, of "[]"] show ?thesis
        using h eof Nil assms(2) by (auto simp: pending_def)
    next
      case (Cons l ls')
      then obtain k where k: "l = concat (blocks b) @ k" "chunk = k @ CR # LF # framed ls' @ t"
        using line_prefix [OF p(1), of l chunk "LF # framed ls' @ t"] assms(2,3) by (auto simp: pending_def)
      then have "line k" using assms(3) Cons by simp
      from loop_frame [OF this p(2), of "framed ls' @ t" "[]"]
      have r: "bisector_handleDataMessage b chunk = (if framed ls' @ t = [] then Inr ([blocks b @ [k @ irc_crlf]], new_bisector)
          else bisect_loop False 0 (framed ls' @ t) [] (framed ls' @ t) 0 0 [blocks b @ [k @ irc_crlf]])"
        using h eof k(2) by simp
      from after_frame [of ls' t "blocks b @ [k @ irc_crlf]"] assms(3,4) Cons obtain outs b' where
        o: "bisector_handleDataMessage b chunk = Inr ((blocks b @ [k @ irc_crlf]) # outs, b')"
        "map concat outs = map (\<lambda>l. l @ irc_crlf) ls'" "scanned_all b'" "pending b' = t" unfolding r by auto
      then show ?thesis
        using Cons k(1) by (intro exI [of _ "(blocks b @ [k @ irc_crlf]) # outs"] exI [of _ b']) simp
    qed
  qed
qed

text \<open>A stream can be cut anywhere.\<close>

lemma unfinished_LF: "unfinished x \<Longrightarrow> LF \<notin> set x"
  unfolding unfinished_def line_def by (elim disjE exE conjE) (auto simp: Ball_def)

lemma unfinished_prefix: "unfinished (s @ s') \<Longrightarrow> unfinished s"
proof -
  assume "unfinished (s @ s')"
  then consider "line (s @ s')" | l where "line l" "s @ s' = l @ [CR]" by (auto simp: unfinished_def)
  then show ?thesis
  proof cases
    case 2
    then show ?thesis
      by (cases s' rule: rev_cases) (auto simp: unfinished_def)
  qed (simp add: unfinished_def)
qed

lemma frame_prefix: "line l \<Longrightarrow> s @ s' = l @ [CR] \<Longrightarrow> unfinished s"
  by (rule unfinished_prefix [of s s']) (auto simp: unfinished_def)

lemma cut_stream:
  assumes "s @ s' = framed ls @ t" "\<forall>l \<in> set ls. line l" "unfinished t"
  shows "\<exists>ls1 t1 ls2. s = framed ls1 @ t1 \<and> unfinished t1 \<and> ls = ls1 @ ls2 \<and> t1 @ s' = framed ls2 @ t"
  using assms
proof (induction ls arbitrary: s)
  case Nil
  then show ?case
    using unfinished_prefix [of s s'] by (intro exI [of _ "[]"] exI [of _ s]) simp
next
  case (Cons l ls)
  have e: "s @ s' = (l @ [CR, LF]) @ framed ls @ t" using Cons.prems(1) by simp
  then obtain us where "s = (l @ [CR, LF]) @ us \<and> us @ s' = framed ls @ t
      \<or> s @ us = l @ [CR, LF] \<and> s' = us @ framed ls @ t"
    unfolding append_eq_append_conv2 by blast
  then show ?case
  proof
    assume u: "s = (l @ [CR, LF]) @ us \<and> us @ s' = framed ls @ t"
    with Cons.IH [of us] Cons.prems obtain ls1 t1 ls2 where
      "us = framed ls1 @ t1" "unfinished t1" "ls = ls1 @ ls2" "t1 @ s' = framed ls2 @ t" by auto
    with u show ?thesis by (intro exI [of _ "l # ls1"] exI [of _ t1] exI [of _ ls2]) simp
  next
    assume u: "s @ us = l @ [CR, LF] \<and> s' = us @ framed ls @ t"
    show ?thesis
    proof (cases us rule: rev_cases)
      case Nil
      with u Cons.prems show ?thesis
        by (intro exI [of _ "[l]"] exI [of _ "[]"] exI [of _ ls]) (simp add: unfinished_def)
    next
      case (snoc vs c)
      with u have "s @ vs = l @ [CR]" by (metis append.assoc append_Cons append_Nil append_eq_append_conv butlast_snoc butlast_append list.distinct(1))
      with frame_prefix [of l s vs] Cons.prems show ?thesis
        by (intro exI [of _ "[]"] exI [of _ s] exI [of _ "l # ls"]) simp
    qed
  qed
qed

lemma bisect_chunks:
  assumes "scanned_all b" "pending b @ concat chunks = framed ls @ t" "\<forall>l \<in> set ls. line l" "unfinished t"
    and "\<forall>chunk \<in> set chunks. length chunk \<noteq> 1"
  shows "\<exists>outs b'. bisect_all b chunks = Inr (outs, b')
    \<and> map concat outs = map (\<lambda>l. l @ irc_crlf) ls \<and> scanned_all b' \<and> pending b' = t"
  using assms
proof (induction chunks arbitrary: b ls)
  case Nil
  then have "unfinished (framed ls @ t)" by (auto simp: unfinished_def scanned_all_def split: if_splits)
  then have "LF \<notin> set (framed ls @ t)" by (rule unfinished_LF)
  then have "ls = []" by (cases ls) auto
  with Nil show ?case by simp
next
  case (Cons chunk chunks)
  from cut_stream [of "pending b @ chunk" "concat chunks" ls t] Cons.prems obtain ls1 t1 ls2 where
    c: "pending b @ chunk = framed ls1 @ t1" "unfinished t1" "ls = ls1 @ ls2" "t1 @ concat chunks = framed ls2 @ t"
    by auto
  from bisect_chunk [OF Cons.prems(1) c(1) _ c(2)] c(3) Cons.prems(3,5) obtain outs b1 where
    b1: "bisector_handleDataMessage b chunk = Inr (outs, b1)" "map concat outs = map (\<lambda>l. l @ irc_crlf) ls1"
    "scanned_all b1" "pending b1 = t1" by auto
  from Cons.IH [OF b1(3), of ls2] b1(4) c(3,4) Cons.prems(3-5) obtain outs' b' where
    "bisect_all b1 chunks = Inr (outs', b')" "map concat outs' = map (\<lambda>l. l @ irc_crlf) ls2"
    "scanned_all b'" "pending b' = t" by auto
  with b1 c(3) show ?case by (intro exI [of _ "outs @ outs'"] exI [of _ b']) simp
qed

lemma new_bisector_scanned: "scanned_all new_bisector" "pending new_bisector = []"
  by (simp_all add: scanned_all_def pending_def new_bisector_def)

text \<open>C22: However the network cuts a stream of lines into chunks - also between the two characters of a line
  end - the bisector emits exactly its lines, each with its line end, and keeps what follows the last,
  provided that no chunk is a single byte.\<close>

theorem bisector_frames:
  assumes "concat chunks = framed ls @ t" "\<forall>l \<in> set ls. line l" "unfinished t"
    and "\<forall>chunk \<in> set chunks. length chunk \<noteq> 1"
  shows "\<exists>outs b. bisect_all new_bisector chunks = Inr (outs, b)
    \<and> map concat outs = map (\<lambda>l. l @ irc_crlf) ls \<and> pending b = t"
  using bisect_chunks [OF new_bisector_scanned(1) _ assms(2-4)] assms(1) new_bisector_scanned(2) by auto

section \<open>Streams that it cannot cut\<close>

text \<open>A first chunk of one byte is chained without being scanned: when the rest of the line arrives, the
  count of the frame is one short and the assertion on its length aborts the process.\<close>

theorem bisector_single_byte:
  assumes "line l"
  shows "bisect_all new_bisector [[c], l @ irc_crlf] = Inl Assertion"
proof -
  have end_: "bisect_loop False 0 (CR # [LF]) [[c]] (l @ [CR, LF]) (length l) 0 [] = Inl Assertion"
    using line_hd [OF assms] by (subst bisect_loop.simps) (auto simp: IRC_FRAME_BOUNDARY_SIZE_def Let_def)
  have "bisect_loop False 0 (l @ [CR, LF]) [[c]] (l @ [CR, LF]) 0 0 [] = Inl Assertion"
  proof (cases "l = []")
    case False
    from lex_line [OF assms this, of "[CR, LF]"] end_ show ?thesis by (subst bisect_loop.simps) simp
  qed (use end_ in simp)
  then show ?thesis
    by (simp add: bisector_handleDataMessage_def new_bisector_def IRC_FRAME_BOUNDARY_SIZE_def Let_def irc_crlf_def)
qed

text \<open>A line end of LF alone does, too: the scanner keeps the character and counts it again with the text behind it.\<close>

lemma bisector_lone_newline:
  assumes "line l" "l \<noteq> []"
  shows "bisect_all new_bisector [LF # l @ irc_crlf] = Inl Assertion"
proof -
  obtain c k where l: "l = c # k" "plain c" "line k" using assms by (cases l) auto
  then have tw: "takeWhile plain (k @ [CR, LF]) = k" "dropWhile plain (k @ [CR, LF]) = [CR, LF]"
    using takeWhile_line [OF l(3), of "[CR, LF]"] by simp_all
  let ?b = "LF # l @ [CR, LF]"
  have "bisect_loop False 0 [CR, LF] [] ?b (Suc (Suc (length l))) 0 [] = Inl Assertion"
    by (subst bisect_loop.simps) (simp add: IRC_FRAME_BOUNDARY_SIZE_def Let_def)
  then have "bisect_loop False 1 (l @ [CR, LF]) [] ?b 1 0 [] = Inl Assertion"
    using l tw by (subst bisect_loop.simps) (simp add: plain_def)
  then have "bisect_loop False 0 ?b [] ?b 0 0 [] = Inl Assertion"
    by (subst bisect_loop.simps) simp
  then show ?thesis
    by (simp add: bisector_handleDataMessage_def new_bisector_def IRC_FRAME_BOUNDARY_SIZE_def Let_def irc_crlf_def)
qed

text \<open>
  So does the first line of a new session, when the last one ended within a line end: the scanner is still in its
  second start condition, whose rule for any other character keeps the text and counts it again.
\<close>

lemma bisector_used_again:
  assumes "end_of_frame b" "line (c # l)" "l \<noteq> []"
  shows "bisect_all (bisector_initialize True b) [(c # l) @ irc_crlf] = Inl Assertion"
proof -
  obtain d k where l: "l = d # k" "plain d" "line k" "plain c" using assms(2,3) by (cases l) auto
  then have tw: "takeWhile plain (k @ [CR, LF]) = k" "dropWhile plain (k @ [CR, LF]) = [CR, LF]"
    using takeWhile_line [OF l(3), of "[CR, LF]"] by simp_all
  let ?b = "(c # l) @ [CR, LF]"
  have "bisect_loop False 0 [CR, LF] [] ?b (Suc (Suc (length l))) 0 [] = Inl Assertion"
    by (subst bisect_loop.simps) (simp add: IRC_FRAME_BOUNDARY_SIZE_def Let_def)
  then have "bisect_loop False 1 (l @ [CR, LF]) [] ?b 1 0 [] = Inl Assertion"
    using l tw by (subst bisect_loop.simps) (simp add: plain_def)
  then have "bisect_loop True 0 ?b [] ?b 0 0 [] = Inl Assertion"
    using l by (subst bisect_loop.simps) (simp add: plain_def)
  then show ?thesis
    using assms(1) by (simp add: bisector_initialize_def bisector_handleDataMessage_def IRC_FRAME_BOUNDARY_SIZE_def
        Let_def irc_crlf_def)
qed

section \<open>Witnesses\<close>

text \<open>Two lines, cut within the first line end.\<close>

theorem bisector_frames_witness:
  "\<exists>outs b. bisect_all new_bisector [''PING a'' @ [CR], LF # ''QUIT'' @ irc_crlf @ ''JO''] = Inr (outs, b)
    \<and> map concat outs = [''PING a'' @ irc_crlf, ''QUIT'' @ irc_crlf] \<and> pending b = ''JO''"
proof -
  have "\<forall>l \<in> set [''PING a'', ''QUIT'']. line l" "unfinished ''JO''"
    by (simp_all add: line_def plain_def unfinished_def)
  from bisector_frames [OF _ this, of "[''PING a'' @ [CR], LF # ''QUIT'' @ irc_crlf @ ''JO'']"]
  show ?thesis by (simp add: irc_crlf_def)
qed

theorem bisector_single_byte_witness:
  "bisect_all new_bisector [''P'', ''ING a'' @ irc_crlf] = Inl Assertion"
  by (rule bisector_single_byte) (simp add: line_def plain_def)

end
