(* ===== verification/IRC_Parser.thy ===== *)
theory IRC_Parser
  imports IRC_Bisector
begin

text \<open>
  The IRC parser: the rules of the scanner (\<^verbatim>\<open>scripts/scanner.l\<close>, generated into \<^verbatim>\<open>irc_scanner.cpp\<close>), the
  grammar (\<^verbatim>\<open>scripts/parser.y\<close>, generated into \<^verbatim>\<open>irc_parser.cpp\<close>), \<^verbatim>\<open>IRC_ParserDriver::parse\<close> and
  \<^verbatim>\<open>IRC_Module_Parser_T::handleDataMessage\<close>, all under \<^verbatim>\<open>src/src/protocol/irc/\<close>. Of the automata it is
  modelled which rule matches and which token the parser asks for, in that order.
\<close>

section \<open>The scanner\<close>

datatype condition = In_initial | In_prefix | In_user | In_host | In_command | In_params | In_trailing | In_end_of_frame

datatype token = Mark char | SPACE | ORIGIN string | USER string | HOST string
  | CMD_STRING string | CMD_NUMERIC nat | PARAM string | END_token

definition alpha :: "char \<Rightarrow> bool" where
  "alpha c \<longleftrightarrow> (of_char c :: nat) \<in> {65..90} \<union> {97..122}"

definition digit :: "char \<Rightarrow> bool" where
  "digit c \<longleftrightarrow> (of_char c :: nat) \<in> {48..57}"

text \<open>The characters of the definitions \<^verbatim>\<open>HOST\<close>, \<^verbatim>\<open>NICK\<close> (after the first one), \<^verbatim>\<open>USER\<close> and \<^verbatim>\<open>PARAM\<close>.\<close>

definition host_char :: "char \<Rightarrow> bool" where
  "host_char c \<longleftrightarrow> alpha c \<or> digit c \<or> c \<in> {CHR ''.'', CHR ''-''}"

definition nick_char :: "char \<Rightarrow> bool" where
  "nick_char c \<longleftrightarrow> alpha c \<or> digit c \<or> c \<in> {CHR ''-'', CHR ''['', CHR '']'', CHR 0x5C, CHR 0x60, CHR ''^'', CHR ''{'', CHR ''}'', CHR ''_''}"

definition user_char :: "char \<Rightarrow> bool" where
  "user_char c \<longleftrightarrow> c \<notin> {CHR '' '', CHR 0x09, CHR 0x00, CR, LF, CHR ''@''}"

definition param_char :: "char \<Rightarrow> bool" where
  "param_char c \<longleftrightarrow> c \<notin> {CHR '' '', CHR 0x00, CR, LF}"

definition trailing_char :: "char \<Rightarrow> bool" where
  "trailing_char c \<longleftrightarrow> c \<notin> {CHR 0x00, CR, LF}"

text \<open>The longest match of \<^verbatim>\<open>{NICK}|{HOST}\<close>.\<close>

definition origin_length :: "string \<Rightarrow> nat" where
  "origin_length s = max (length (takeWhile host_char s))
     (if s \<noteq> [] \<and> alpha (hd s) then Suc (length (takeWhile nick_char (tl s))) else 0)"

text \<open>
  One call of the scanner. At the end of the data, and by the last rule of the file for a character that
  no other rule takes (which it logs), it ends; the start condition stays what it is.
\<close>

abbreviation skip_spaces :: "string \<Rightarrow> string" where
  "skip_spaces \<equiv> dropWhile (\<lambda>c. c = CHR '' '')"

definition lex_command :: "condition \<Rightarrow> string \<Rightarrow> token \<times> condition \<times> string" where
  "lex_command k s =
    (if hd s = CHR '' '' then (SPACE, In_params, skip_spaces s)
     else if 3 \<le> length s \<and> list_all digit (take 3 s) then (CMD_NUMERIC (parse_base 10 (take 3 s)), k, drop 3 s)
     else if alpha (hd s) then (CMD_STRING (takeWhile alpha s), k, dropWhile alpha s)
     else (END_token, k, tl s))"

fun irc_lex :: "condition \<Rightarrow> string \<Rightarrow> token \<times> condition \<times> string" where
  "irc_lex k [] = (END_token, k, [])"
| "irc_lex k (c # cs) = (case k of
     In_initial \<Rightarrow>
       if c = CHR '':'' then (Mark c, In_prefix, cs)
       else if c = CR then irc_lex In_end_of_frame cs
       else lex_command k (c # cs)
   | In_prefix \<Rightarrow>
       if c = CHR '' '' then (SPACE, In_command, skip_spaces cs)
       else if c = CHR ''!'' then (Mark c, In_user, cs)
       else if c = CHR ''@'' then (Mark c, In_host, cs)
       else let n = origin_length (c # cs) in
         if 0 < n then (ORIGIN (take n (c # cs)), k, drop n (c # cs)) else (END_token, k, cs)
   | In_user \<Rightarrow>
       if c = CHR '' '' then (SPACE, In_command, skip_spaces cs)
       else if c = CHR ''@'' then (Mark c, In_host, cs)
       else if user_char c then (USER (takeWhile user_char (c # cs)), In_prefix, dropWhile user_char cs)
       else (END_token, k, cs)
   | In_host \<Rightarrow>
       if c = CHR '' '' then (SPACE, In_command, skip_spaces cs)
       else if host_char c then (HOST (takeWhile host_char (c # cs)), In_prefix, dropWhile host_char cs)
       else (END_token, k, cs)
   | In_command \<Rightarrow> lex_command k (c # cs)
   | In_params \<Rightarrow>
       if c = CHR '' '' then (SPACE, k, skip_spaces cs)
       else if c = CHR '':'' then (Mark c, In_trailing, cs)
       else if c = CR then irc_lex In_end_of_frame cs
       else if param_char c then (PARAM (takeWhile param_char (c # cs)), k, dropWhile param_char cs)
       else (END_token, k, cs)
   | In_trailing \<Rightarrow>
       if c = CR then irc_lex In_end_of_frame cs
       else if trailing_char c then (PARAM (takeWhile trailing_char (c # cs)), k, dropWhile trailing_char cs)
       else (END_token, k, cs)
   | In_end_of_frame \<Rightarrow> if c = LF then irc_lex In_initial cs else (END_token, k, cs))"

lemma lex_command_shorter: "lex_command k s = (t, k', s') \<Longrightarrow> t \<noteq> END_token \<Longrightarrow> s \<noteq> [] \<Longrightarrow> length s' < length s"
  by (cases s) (auto simp: lex_command_def less_Suc_eq_le length_dropWhile_le split: if_splits)

lemma irc_lex_shorter: "irc_lex k s = (t, k', s') \<Longrightarrow> t \<noteq> END_token \<Longrightarrow> length s' < length s"
proof (induction k s rule: irc_lex.induct)
  case (2 k c cs)
  show ?case
    using 2 lex_command_shorter [of k "c # cs" t k' s']
    by (cases k) (auto simp: Let_def less_Suc_eq_le length_dropWhile_le split: if_splits)
qed simp

section \<open>The grammar\<close>

text \<open>
  The parser asks for tokens one by one. \<^verbatim>\<open>ext_prefix\<close>: the actions of the inner rule run first. A
  syntax error is \<open>None\<close>; the start condition is that after the last token asked for.
\<close>

function ext_prefix :: "condition \<Rightarrow> string \<Rightarrow> (Prefix \<Rightarrow> Prefix) option \<times> condition \<times> string" where
  "ext_prefix k s = (case irc_lex k s of
     (SPACE, k1, s1) \<Rightarrow> (Some (\<lambda>p. p), k1, s1)
   | (Mark c, k1, s1) \<Rightarrow> (case irc_lex k1 s1 of
       (USER u, k2, s2) \<Rightarrow> if c \<noteq> CHR ''!'' then (None, k2, s2)
         else let (f, k3, s3) = ext_prefix k2 s2 in (map_option (\<lambda>f p. (f p)\<lparr>user := u\<rparr>) f, k3, s3)
     | (HOST h, k2, s2) \<Rightarrow> if c \<noteq> CHR ''@'' then (None, k2, s2)
         else let (f, k3, s3) = ext_prefix k2 s2 in (map_option (\<lambda>f p. (f p)\<lparr>host := h\<rparr>) f, k3, s3)
     | (_, k2, s2) \<Rightarrow> (None, k2, s2))
   | (_, k1, s1) \<Rightarrow> (None, k1, s1))"
  by pat_completeness auto
termination
  by (relation "measure (\<lambda>(k, s). length s)") (auto dest!: sym [of _ "irc_lex _ _"] irc_lex_shorter)

text \<open>The parameters, with the token behind them.\<close>

function params :: "condition \<Rightarrow> string \<Rightarrow> string list \<times> token \<times> condition \<times> string" where
  "params k s = (case irc_lex k s of
     (SPACE, k1, s1) \<Rightarrow> params k1 s1
   | (PARAM p, k1, s1) \<Rightarrow> let (ps, r) = params k1 s1 in (p # ps, r)
   | (Mark c, k1, s1) \<Rightarrow>
       if c \<noteq> CHR '':'' then ([], Mark c, k1, s1)
       else (case irc_lex k1 s1 of
         (PARAM p, k2, s2) \<Rightarrow> ([p], irc_lex k2 s2)
       | r \<Rightarrow> ([], r))
   | r \<Rightarrow> ([], r))"
  by pat_completeness auto
termination
  by (relation "measure (\<lambda>(k, s). length s)") (auto dest!: sym [of _ "irc_lex _ _"] irc_lex_shorter)

declare ext_prefix.simps [simp del] params.simps [simp del]

text \<open>
  The rules of \<^verbatim>\<open>message\<close> end with the token for the end, which is also the one that ends the start
  symbol: it is asked for twice.
\<close>

type_synonym parsed = "Prefix \<times> command_text \<times> string list"

definition accept :: "parsed \<Rightarrow> condition \<Rightarrow> string \<Rightarrow> parsed option \<times> condition" where
  "accept v k s = (let (t, k1, _) = irc_lex k s in (if t = END_token then Some v else None, k1))"

definition parse_rest :: "Prefix \<Rightarrow> command_text \<Rightarrow> condition \<Rightarrow> string \<Rightarrow> parsed option \<times> condition" where
  "parse_rest p c k s = (let (ps, t, k1, s1) = params k s in
     if t = END_token then accept (p, c, ps) k1 s1 else (None, k1))"

definition parse_command :: "Prefix \<Rightarrow> token \<times> condition \<times> string \<Rightarrow> parsed option \<times> condition" where
  "parse_command p t = (case t of
     (CMD_STRING c, k, s) \<Rightarrow> parse_rest p (Text_command c) k s
   | (CMD_NUMERIC n, k, s) \<Rightarrow> parse_rest p (Numeric_command n) k s
   | (_, k, _) \<Rightarrow> (None, k))"

text \<open>
  \<^verbatim>\<open>IRC_ParserDriver::parse\<close>. The record is new, so that a message of nothing but the end leaves it empty.
  The start condition is neither set here nor in \<^verbatim>\<open>scan_begin\<close>: it is the one the last message left.
\<close>

definition irc_parse :: "condition \<Rightarrow> string \<Rightarrow> parsed option \<times> condition" where
  "irc_parse k s = (case irc_lex k s of
     (END_token, k1, s1) \<Rightarrow> accept (empty_prefix, No_command, []) k1 s1
   | (Mark c, k1, s1) \<Rightarrow>
       if c \<noteq> CHR '':'' then (None, k1)
       else (case irc_lex k1 s1 of
         (ORIGIN w, k2, s2) \<Rightarrow> (case ext_prefix k2 s2 of
             (None, k3, _) \<Rightarrow> (None, k3)
           | (Some f, k3, s3) \<Rightarrow> parse_command ((f empty_prefix)\<lparr>origin := w\<rparr>) (irc_lex k3 s3))
       | (_, k2, _) \<Rightarrow> (None, k2))
   | t \<Rightarrow> parse_command empty_prefix t)"

section \<open>The module\<close>

text \<open>
  The copy of a message (a chain of blocks) into one block of the given capacity; \<open>boundary\<close> is the
  number of bytes that flex needs behind the data.
\<close>

fun crunch :: "nat \<Rightarrow> string list \<Rightarrow> string \<Rightarrow> string res" where
  "crunch capacity [] copied = Inr copied"
| "crunch capacity (b # bs) copied =
    (if capacity < length copied + length b then Inl Assertion else crunch capacity bs (copied @ b))"

text \<open>
  \<open>capacity\<close> is that of the block allocated, \<open>None\<close> when there is no memory: the error path then releases
  NULL. Without crunching only the first block of the chain is parsed. \<open>None\<close>: the message is released; what is parsed is passed on.
\<close>

definition irc_parser_handleDataMessage ::
  "nat \<Rightarrow> nat option \<Rightarrow> bool \<Rightarrow> condition \<Rightarrow> string list \<Rightarrow> (parsed option \<times> condition) res" where
  "irc_parser_handleDataMessage boundary capacity crunch_messages k message =
    (if crunch_messages then (case capacity of
       None \<Rightarrow> Inl Undefined_Behaviour
     | Some n \<Rightarrow> bind_res (crunch n message []) (\<lambda>s.
         if n < length s + boundary then Inl Assertion else Inr (irc_parse k s)))
     else Inr (irc_parse k (case message of [] \<Rightarrow> [] | b # _ \<Rightarrow> b)))"

text \<open>Message after message; those released are left out.\<close>

fun parse_messages :: "nat \<Rightarrow> nat \<Rightarrow> condition \<Rightarrow> string list list \<Rightarrow> (parsed list \<times> condition) res" where
  "parse_messages boundary n k [] = Inr ([], k)"
| "parse_messages boundary n k (m # ms) =
    bind_res (irc_parser_handleDataMessage boundary (Some n) True k m) (\<lambda>(v, k1).
    bind_res (parse_messages boundary n k1 ms) (\<lambda>(vs, k2).
      Inr ((case v of None \<Rightarrow> vs | Some x \<Rightarrow> x # vs), k2)))"

lemma crunch_concat:
  "length (copied @ concat bs) \<le> n \<Longrightarrow> crunch n bs copied = Inr (copied @ concat bs)"
  by (induction bs arbitrary: copied) auto

lemma irc_parser_crunched:
  "length (concat m) + boundary \<le> n \<Longrightarrow>
   irc_parser_handleDataMessage boundary (Some n) True k m = Inr (irc_parse k (concat m))"
  using crunch_concat [of "[]" m n] by (simp add: irc_parser_handleDataMessage_def)

lemma crunch_long: "length copied \<le> n \<Longrightarrow> n < length (copied @ concat bs) \<Longrightarrow> crunch n bs copied = Inl Assertion"
  by (induction bs arbitrary: copied) auto

text \<open>A message that does not fit the block with its boundary aborts the process.\<close>

lemma irc_parser_long:
  assumes "n < length (concat m) + boundary"
  shows "irc_parser_handleDataMessage boundary (Some n) True k m = Inl Assertion"
proof (cases "length (concat m) \<le> n")
  case True
  with assms crunch_concat [of "[]" m n] show ?thesis by (simp add: irc_parser_handleDataMessage_def)
next
  case False
  with crunch_long [of "[]" n m] show ?thesis by (simp add: irc_parser_handleDataMessage_def)
qed

section \<open>Scanning the parts of a streamed message\<close>

lemma char_classes [simp]:
  "\<not> host_char CHR '' ''" "\<not> host_char CHR ''!''" "\<not> host_char CHR ''@''"
  "\<not> nick_char CHR '' ''" "\<not> nick_char CHR ''!''" "\<not> nick_char CHR ''@''"
  "\<not> user_char CHR '' ''" "\<not> user_char CHR ''@''"
  "\<not> param_char CHR '' ''" "\<not> param_char CR" "\<not> trailing_char CR"
  "\<not> alpha CHR '' ''" "\<not> alpha CR" "\<not> alpha CHR '':''" "\<not> alpha CHR ''!''" "\<not> alpha CHR ''@''"
  by (simp_all add: host_char_def nick_char_def user_char_def param_char_def trailing_char_def alpha_def digit_def)

text \<open>A name that the rule for the origin takes whole.\<close>

definition origin_name :: "string \<Rightarrow> bool" where
  "origin_name w \<longleftrightarrow> w \<noteq> [] \<and> (list_all host_char w \<or> (alpha (hd w) \<and> list_all nick_char (tl w)))"

lemma takeWhile_all: "list_all P w \<Longrightarrow> s = [] \<or> \<not> P (hd s) \<Longrightarrow> takeWhile P (w @ s) = w"
  using while_prefix(1) [of w P s] by (simp add: list_all_iff)

lemma dropWhile_all: "list_all P w \<Longrightarrow> s = [] \<or> \<not> P (hd s) \<Longrightarrow> dropWhile P (w @ s) = s"
  using while_prefix(2) [of w P s] by (simp add: list_all_iff)

lemma takeWhile_stops: "s = [] \<or> \<not> P (hd s) \<Longrightarrow> length (takeWhile P (w @ s)) \<le> length w"
  by (induction w) (cases s; auto)+

text \<open>What follows an origin, a user or a host on the wire.\<close>

definition stops :: "string \<Rightarrow> bool" where
  "stops s \<longleftrightarrow> s = [] \<or> hd s \<in> {CHR '' '', CHR ''!'', CHR ''@''}"

lemma origin_length_whole:
  assumes "origin_name w" "stops s"
  shows "origin_length (w @ s) = length w"
proof -
  have h: "s = [] \<or> \<not> host_char (hd s)" and n: "s = [] \<or> \<not> nick_char (hd s)"
    using assms(2) by (auto simp: stops_def)
  obtain c t where w: "w = c # t" using assms(1) by (cases w) (auto simp: origin_name_def)
  have "length (takeWhile host_char (w @ s)) \<le> length w" using takeWhile_stops [of s host_char w] h by blast
  moreover have "length (takeWhile nick_char (t @ s)) \<le> length t" using takeWhile_stops [of s nick_char t] n by blast
  moreover have "length (takeWhile host_char (w @ s)) = length w \<or> (alpha c \<and> length (takeWhile nick_char (t @ s)) = length t)"
  proof (cases "list_all host_char w")
    case True
    from takeWhile_all [OF this h] show ?thesis by simp
  next
    case False
    then have "alpha c" "list_all nick_char t" using assms(1) by (auto simp: origin_name_def w)
    with takeWhile_all [OF this(2) n] show ?thesis by simp
  qed
  ultimately show ?thesis by (auto simp: origin_length_def w)
qed

lemma lex_origin:
  assumes "origin_name w" "stops s"
  shows "irc_lex In_prefix (w @ s) = (ORIGIN w, In_prefix, s)"
proof -
  obtain c t where w: "w = c # t" using assms(1) by (cases w) (auto simp: origin_name_def)
  have "c \<noteq> CHR '' '' \<and> c \<noteq> CHR ''!'' \<and> c \<noteq> CHR ''@''"
    using assms(1) by (auto simp: origin_name_def w)
  moreover have "origin_length (c # (t @ s)) = Suc (length t)"
    using origin_length_whole [OF assms] by (simp add: w)
  ultimately show ?thesis by (simp add: w)
qed

lemma lex_user:
  assumes "list_all user_char u" "u \<noteq> []" "s = [] \<or> hd s \<in> {CHR '' '', CHR ''@''}"
  shows "irc_lex In_user (u @ s) = (USER u, In_prefix, s)"
proof -
  obtain c t where u: "u = c # t" "user_char c" "list_all user_char t" using assms(1,2) by (cases u) auto
  have "s = [] \<or> \<not> user_char (hd s)" using assms(3) by auto
  moreover have "c \<noteq> CHR '' '' \<and> c \<noteq> CHR ''@''" using u(2) by auto
  ultimately show ?thesis using takeWhile_all [OF u(3)] dropWhile_all [OF u(3)] u(1,2) by simp
qed

lemma lex_host:
  assumes "list_all host_char h" "h \<noteq> []" "s = [] \<or> hd s = CHR '' ''"
  shows "irc_lex In_host (h @ s) = (HOST h, In_prefix, s)"
proof -
  obtain c t where u: "h = c # t" "host_char c" "list_all host_char t" using assms(1,2) by (cases h) auto
  have "s = [] \<or> \<not> host_char (hd s)" using assms(3) by auto
  moreover have "c \<noteq> CHR '' ''" using u(2) by auto
  ultimately show ?thesis using takeWhile_all [OF u(3)] dropWhile_all [OF u(3)] u(1,2) by simp
qed

section \<open>Parsing a streamed message\<close>

definition middle :: "string \<Rightarrow> bool" where
  "middle w \<longleftrightarrow> w \<noteq> [] \<and> hd w \<noteq> CHR '':'' \<and> list_all param_char w"

text \<open>The names, the command with its value, and the parameters that the parser takes as they are streamed.\<close>

definition names_ok :: "Prefix \<Rightarrow> bool" where
  "names_ok p \<longleftrightarrow> (if origin p = [] then p = empty_prefix
     else origin_name (origin p) \<and> list_all user_char (user p) \<and> list_all host_char (host p))"

definition command_ok :: "string \<Rightarrow> command_text \<Rightarrow> bool" where
  "command_ok c v \<longleftrightarrow> (case v of
     Text_command t \<Rightarrow> c = t \<and> t \<noteq> [] \<and> list_all alpha t
   | Numeric_command n \<Rightarrow> c = three_digits n \<and> n < 1000
   | No_command \<Rightarrow> False)"

definition parameters_ok :: "string list \<Rightarrow> bool" where
  "parameters_ok ps \<longleftrightarrow> list_all middle (butlast ps)
     \<and> (ps = [] \<or> middle (last ps) \<or> (CHR '' '' \<in> set (last ps) \<and> list_all trailing_char (last ps)))"

lemma skip_nonspace: "s = [] \<or> hd s \<noteq> CHR '' '' \<Longrightarrow> skip_spaces s = s"
  by (cases s) auto

lemma ext_prefix_end:
  "s = [] \<or> hd s \<noteq> CHR '' '' \<Longrightarrow> ext_prefix In_prefix (CHR '' '' # s) = (Some (\<lambda>p. p), In_command, s)"
  by (subst ext_prefix.simps) (simp add: skip_nonspace)

lemma ext_prefix_host:
  assumes "s = [] \<or> hd s \<noteq> CHR '' ''" "list_all host_char h"
  shows "\<exists>f. ext_prefix In_prefix (marked_text CHR ''@'' h @ CHR '' '' # s) = (Some f, In_command, s)
    \<and> f empty_prefix = empty_prefix\<lparr>host := h\<rparr>"
proof (cases "h = []")
  case True
  with ext_prefix_end [OF assms(1)] show ?thesis by (simp add: marked_text_def empty_prefix_def)
next
  case False
  from lex_host [OF assms(2) False, of "CHR '' '' # s"] ext_prefix_end [OF assms(1)] False show ?thesis
    by (subst ext_prefix.simps) (simp add: marked_text_def)
qed

lemma ext_prefix_text:
  assumes "s = [] \<or> hd s \<noteq> CHR '' ''" "list_all host_char h" "list_all user_char u"
  shows "\<exists>f. ext_prefix In_prefix (marked_text CHR ''!'' u @ marked_text CHR ''@'' h @ CHR '' '' # s) = (Some f, In_command, s)
    \<and> f empty_prefix = empty_prefix\<lparr>host := h, user := u\<rparr>"
proof -
  let ?s = "marked_text CHR ''@'' h @ CHR '' '' # s"
  from ext_prefix_host [OF assms(1,2)] obtain f where
    f: "ext_prefix In_prefix ?s = (Some f, In_command, s)" "f empty_prefix = empty_prefix\<lparr>host := h\<rparr>" by blast
  show ?thesis
  proof (cases "u = []")
    case True
    with f show ?thesis by (simp add: marked_text_def empty_prefix_def)
  next
    case False
    have "?s = [] \<or> hd ?s \<in> {CHR '' '', CHR ''@''}" by (simp add: marked_text_def)
    from lex_user [OF assms(3) False this] f False show ?thesis
      by (subst ext_prefix.simps) (simp add: marked_text_def)
  qed
qed

text \<open>The command.\<close>

lemma digit_of_nat: "n < 10 \<Longrightarrow> digit (digit_char n)"
  by (auto simp: digit_def digit_char_def)

lemma render_digits: "list_all digit (dec n)"
  using render_chars [of 10 n] digit_of_nat by (auto simp: list_all_iff)

lemma three_digits_number:
  "list_all digit (three_digits n)" "parse_base 10 (three_digits n) = n"
proof -
  show "list_all digit (three_digits n)"
    using render_digits [of n] by (auto simp: three_digits_def list_all_iff digit_def)
  have "parse_base 10 (replicate k CHR ''0'' @ s) = parse_base 10 s" for k s
    by (induction k) (simp_all add: parse_base_def digit_val_def)
  then show "parse_base 10 (three_digits n) = n" by (simp add: three_digits_def parse_render)
qed

definition command_token :: "command_text \<Rightarrow> token" where
  "command_token v = (case v of Text_command t \<Rightarrow> CMD_STRING t | Numeric_command n \<Rightarrow> CMD_NUMERIC n | No_command \<Rightarrow> END_token)"

lemma lex_command_text:
  assumes "command_ok c v" "s = [] \<or> \<not> alpha (hd s)"
  shows "lex_command k (c @ s) = (command_token v, k, s) \<and> c \<noteq> [] \<and> hd c \<notin> {CHR '':'', CR, CHR '' ''}"
proof (cases v)
  case (Text_command t)
  with assms(1) obtain a r where c: "c = t" "t = a # r" "alpha a" "list_all alpha r"
    by (cases t) (auto simp: command_ok_def)
  then have "\<not> digit a" "a \<noteq> CHR '' ''" "a \<noteq> CHR '':''" "a \<noteq> CR" by (auto simp: alpha_def digit_def)
  moreover have "list_all alpha (a # r)" using c by simp
  note takeWhile_all [OF this assms(2)] dropWhile_all [OF this assms(2)]
  ultimately show ?thesis using Text_command c by (simp add: lex_command_def command_token_def)
next
  case (Numeric_command n)
  then have c: "c = three_digits n" "length c = 3" using assms(1) by (simp_all add: command_ok_def three_digits_length)
  then have d: "list_all digit c" "parse_base 10 c = n" by (simp_all add: three_digits_number)
  obtain a r where a: "c = a # r" using c(2) by (cases c) auto
  with d(1) have "a \<noteq> CHR '' '' \<and> a \<noteq> CHR '':'' \<and> a \<noteq> CR" by (auto simp: digit_def)
  with a c(2) d Numeric_command show ?thesis by (simp add: lex_command_def command_token_def)
next
  case No_command
  with assms show ?thesis by (simp add: command_ok_def)
qed

text \<open>Where the command or the parameters end.\<close>

lemma lex_gap:
  "s = [] \<or> hd s \<noteq> CHR '' '' \<Longrightarrow> k = In_initial \<or> k = In_command \<Longrightarrow>
   irc_lex k (CHR '' '' # s) = (SPACE, In_params, s)"
  by (auto simp: lex_command_def skip_nonspace)

lemma lex_end: "irc_lex In_params irc_crlf = (END_token, In_initial, [])"
  "irc_lex In_trailing irc_crlf = (END_token, In_initial, [])"
  "irc_lex In_initial irc_crlf = (END_token, In_initial, [])"
  by (simp_all add: irc_crlf_def)

lemma params_end: "params In_params irc_crlf = ([], END_token, In_initial, [])"
  by (subst params.simps) (simp add: lex_end)

lemma lex_middle:
  assumes "middle w" "s = [] \<or> \<not> param_char (hd s)"
  shows "irc_lex In_params (w @ s) = (PARAM w, In_params, s)"
proof -
  obtain c t where w: "w = c # t" "param_char c" "list_all param_char t" "c \<noteq> CHR '':''"
    using assms(1) by (cases w) (auto simp: middle_def)
  then have "c \<noteq> CHR '' '' \<and> c \<noteq> CR" by auto
  with takeWhile_all [OF w(3) assms(2)] dropWhile_all [OF w(3) assms(2)] w show ?thesis by simp
qed

lemma lex_trailing:
  assumes "list_all trailing_char w" "w \<noteq> []"
  shows "irc_lex In_trailing (w @ irc_crlf) = (PARAM w, In_trailing, irc_crlf)"
proof -
  obtain c t where w: "w = c # t" "trailing_char c" "list_all trailing_char t"
    using assms by (cases w) auto
  have "irc_crlf = [] \<or> \<not> trailing_char (hd irc_crlf)" by (simp add: irc_crlf_def)
  with takeWhile_all [OF w(3) this] dropWhile_all [OF w(3) this] w show ?thesis by auto
qed

lemma middle_nonspace: "middle w \<Longrightarrow> CHR '' '' \<notin> set w \<and> hd (w @ s) \<noteq> CHR '' ''"
  by (cases w) (auto simp: middle_def list_all_iff)

lemma params_middle:
  assumes "middle w"
  shows "params In_params (w @ irc_crlf) = ([w], END_token, In_initial, [])"
    and "s \<noteq> [] \<and> hd s \<noteq> CHR '' '' \<Longrightarrow> params In_params (w @ CHR '' '' # s) =
      (let (ps, r) = params In_params s in (w # ps, r))"
proof -
  have "irc_crlf = [] \<or> \<not> param_char (hd irc_crlf)" by (simp add: irc_crlf_def)
  from lex_middle [OF assms this] show "params In_params (w @ irc_crlf) = ([w], END_token, In_initial, [])"
    by (subst params.simps) (simp add: params_end)
next
  assume s: "s \<noteq> [] \<and> hd s \<noteq> CHR '' ''"
  have "params In_params (CHR '' '' # s) = params In_params s"
    using s by (subst params.simps) (simp add: skip_nonspace)
  with lex_middle [OF assms, of "CHR '' '' # s"]
  show "params In_params (w @ CHR '' '' # s) = (let (ps, r) = params In_params s in (w # ps, r))"
    by (subst params.simps) simp
qed

lemma parameters_head: "parameters_ok (p # ps) \<Longrightarrow> hd (parameters_text i [] (p # ps) @ s) \<noteq> CHR '' ''"
proof (cases ps)
  case Nil
  then show "parameters_ok (p # ps) \<Longrightarrow> ?thesis"
    using middle_nonspace [of p s] by (auto simp: parameters_ok_def)
next
  case (Cons q qs)
  then show "parameters_ok (p # ps) \<Longrightarrow> ?thesis"
    using middle_nonspace [of p "CHR '' '' # parameters_text (Suc i) [] ps @ s"]
    by (auto simp: parameters_ok_def next_ranges_def separator_def Let_def)
qed

lemma params_streamed:
  "ps \<noteq> [] \<Longrightarrow> parameters_ok ps \<Longrightarrow>
   params In_params (parameters_text i [] ps @ irc_crlf) = (ps, END_token, In_initial, [])"
proof (induction ps arbitrary: i)
  case (Cons p ps)
  show ?case
  proof (cases ps)
    case Nil
    show ?thesis
    proof (cases "CHR '' '' \<in> set p")
      case True
      then have p: "list_all trailing_char p" "p \<noteq> []"
        using Cons.prems(2) Nil middle_nonspace [of p "[]"] by (auto simp: parameters_ok_def)
      from lex_trailing [OF p] Nil True show ?thesis by (subst params.simps) (simp add: lex_end)
    next
      case False
      then have "middle p" using Cons.prems(2) Nil by (simp add: parameters_ok_def)
      from params_middle(1) [OF this] Nil False show ?thesis by simp
    qed
  next
    case q: (Cons q qs)
    with Cons.prems(2) have p: "middle p" "parameters_ok ps" by (simp_all add: parameters_ok_def)
    let ?s = "parameters_text (Suc i) [] ps @ irc_crlf"
    have "?s \<noteq> [] \<and> hd ?s \<noteq> CHR '' ''" using parameters_head [of q qs "Suc i" irc_crlf] p(2) q by (simp add: irc_crlf_def)
    from params_middle(2) [OF p(1) this] Cons.IH [of "Suc i"] p(2) q
    show ?thesis by (simp add: next_ranges_def separator_def Let_def)
  qed
qed simp

text \<open>From the command on.\<close>

lemma parse_rest_streamed:
  assumes "parameters_ok ps" "k = In_initial \<or> (k = In_command \<and> ps \<noteq> [])"
  shows "parse_rest p v k ((if ps = [] then [] else '' '') @ parameters_text 0 [] ps @ irc_crlf) = (Some (p, v, ps), In_initial)"
proof (cases ps)
  case Nil
  with assms(2) have "k = In_initial" by simp
  then have "params k irc_crlf = ([], END_token, In_initial, [])" by (subst params.simps) (simp add: lex_end)
  with Nil show ?thesis by (simp add: parse_rest_def accept_def)
next
  case (Cons q qs)
  let ?s = "parameters_text 0 [] ps @ irc_crlf"
  have "hd ?s \<noteq> CHR '' ''" using parameters_head [of q qs 0 irc_crlf] assms(1) Cons by simp
  with lex_gap [of ?s k] assms(2) have "irc_lex k (CHR '' '' # ?s) = (SPACE, In_params, ?s)" by auto
  with params_streamed [of ps 0] assms(1) Cons have "params k (CHR '' '' # ?s) = (ps, END_token, In_initial, [])"
    by (subst params.simps) simp
  with Cons show ?thesis by (simp add: parse_rest_def accept_def)
qed

lemma lex_command_start:
  assumes "command_ok c v" "s = [] \<or> \<not> alpha (hd s)" "k = In_initial \<or> k = In_command"
  shows "irc_lex k (c @ s) = (command_token v, k, s)"
proof -
  note l = lex_command_text [OF assms(1,2), of k]
  then obtain a r where c: "c = a # r" by (cases c) simp_all
  from l have "a \<noteq> CHR '':''" "a \<noteq> CR" unfolding c by simp_all
  then have "irc_lex k (a # (r @ s)) = lex_command k (a # (r @ s))" using assms(3) by (elim disjE) simp_all
  with l show ?thesis unfolding c by simp
qed

lemma parse_command_streamed:
  assumes "command_ok c v" "parameters_ok ps" "k = In_initial \<or> (k = In_command \<and> ps \<noteq> [])"
  shows "parse_command p (irc_lex k (c @ (if ps = [] then [] else '' '') @ parameters_text 0 [] ps @ irc_crlf))
    = (Some (p, v, ps), In_initial)"
proof -
  let ?s = "(if ps = [] then [] else '' '') @ parameters_text 0 [] ps @ irc_crlf"
  have "?s = [] \<or> \<not> alpha (hd ?s)" by (simp add: irc_crlf_def)
  from lex_command_start [OF assms(1) this] assms(3)
  have "irc_lex k (c @ ?s) = (command_token v, k, ?s)" by blast
  moreover have "parse_command p (command_token v, k, ?s) = parse_rest p v k ?s"
    using assms(1) by (auto simp: parse_command_def command_token_def command_ok_def split: command_text.splits)
  ultimately show ?thesis using parse_rest_streamed [OF assms(2,3)] by simp
qed

lemma command_head:
  assumes "command_ok c v"
  shows "c @ s \<noteq> [] \<and> hd (c @ s) \<notin> {CHR '':'', CR, CHR '' ''}"
  using lex_command_text [OF assms, of "[]" In_initial] by auto

lemma prefix_streamed:
  assumes "origin p \<noteq> []" "names_ok p" "s = [] \<or> hd s \<noteq> CHR '' ''"
  shows "irc_parse In_initial (prefix_text p @ s) = parse_command p (irc_lex In_command s)"
proof -
  let ?s = "marked_text CHR ''!'' (user p) @ marked_text CHR ''@'' (host p) @ CHR '' '' # s"
  have n: "origin_name (origin p)" "list_all user_char (user p)" "list_all host_char (host p)"
    using assms(1,2) by (auto simp: names_ok_def)
  have "stops ?s" by (simp add: stops_def marked_text_def)
  from lex_origin [OF n(1) this] have o: "irc_lex In_prefix (origin p @ ?s) = (ORIGIN (origin p), In_prefix, ?s)" .
  from ext_prefix_text [OF assms(3) n(3,2)] obtain f where
    f: "ext_prefix In_prefix ?s = (Some f, In_command, s)" "f empty_prefix = empty_prefix\<lparr>host := host p, user := user p\<rparr>" by blast
  have "(f empty_prefix)\<lparr>origin := origin p\<rparr> = p" using f(2) by (simp add: empty_prefix_def)
  moreover have "prefix_text p @ s = CHR '':'' # origin p @ ?s" using assms(1) by (simp add: prefix_text_def)
  ultimately show ?thesis using o f(1) by (simp add: irc_parse_def)
qed

lemma parse_unprefixed:
  assumes "command_ok c v" "s = [] \<or> \<not> alpha (hd s)" "k = In_initial \<or> k = In_command"
  shows "irc_parse k (c @ s) = parse_command empty_prefix (irc_lex k (c @ s))"
proof -
  have "irc_lex k (c @ s) = (command_token v, k, s)" by (rule lex_command_start [OF assms])
  then show ?thesis
    using assms(1) by (auto simp: irc_parse_def command_token_def command_ok_def split: command_text.splits)
qed

text \<open>The records that the parser takes as they are streamed.\<close>

definition parseable :: "string \<Rightarrow> command_text \<Rightarrow> IRC_Record \<Rightarrow> bool" where
  "parseable c v r \<longleftrightarrow> names_ok (prefix r) \<and> command_ok c v \<and> parameterRanges r = [] \<and> parameters_ok (parameters r)
     \<and> (parameters r \<noteq> [] \<or> origin (prefix r) = [])"

lemma parse_streamed:
  assumes "parseable c v r"
  shows "irc_parse In_initial (irc_text c r) = (Some (prefix r, v, parameters r), In_initial)"
proof -
  let ?s = "(if parameters r = [] then [] else '' '') @ parameters_text 0 [] (parameters r) @ irc_crlf"
  have a: "names_ok (prefix r)" "command_ok c v" "parameters_ok (parameters r)"
    "parameters r \<noteq> [] \<or> origin (prefix r) = []"
    and t: "irc_text c r = prefix_text (prefix r) @ c @ ?s"
    using assms by (simp_all add: parseable_def irc_text_def)
  show ?thesis
  proof (cases "origin (prefix r) = []")
    case True
    then have "prefix r = empty_prefix" "irc_text c r = c @ ?s" using a(1) t by (simp_all add: names_ok_def prefix_text_def)
    moreover have "?s = [] \<or> \<not> alpha (hd ?s)" by (simp add: irc_crlf_def)
    ultimately show ?thesis
      using parse_unprefixed [OF a(2), of ?s In_initial] parse_command_streamed [OF a(2,3), of In_initial] by simp
  next
    case False
    have "c @ ?s = [] \<or> hd (c @ ?s) \<noteq> CHR '' ''" using command_head [OF a(2), of ?s] by simp
    from prefix_streamed [OF False a(1) this] parse_command_streamed [OF a(2,3), of In_command "prefix r"] False a(4) t
    show ?thesis by simp
  qed
qed

section \<open>From record to record\<close>

lemma list_plain: "list_all P w \<Longrightarrow> (\<And>c. P c \<Longrightarrow> plain c) \<Longrightarrow> line w"
  by (auto simp: line_def list_all_iff)

lemma plain_classes:
  "alpha c \<Longrightarrow> plain c" "digit c \<Longrightarrow> plain c" "host_char c \<Longrightarrow> plain c" "nick_char c \<Longrightarrow> plain c"
  "user_char c \<Longrightarrow> plain c" "param_char c \<Longrightarrow> plain c" "trailing_char c \<Longrightarrow> plain c"
  by (auto simp: plain_def alpha_def digit_def host_char_def nick_char_def user_char_def param_char_def trailing_char_def)

lemma names_line:
  assumes "names_ok p"
  shows "line (prefix_text p)"
proof (cases "origin p = []")
  case False
  with assms have n: "origin_name (origin p)" "list_all user_char (user p)" "list_all host_char (host p)"
    by (simp_all add: names_ok_def)
  have "line (origin p)"
  proof (cases "list_all host_char (origin p)")
    case True
    then show ?thesis by (rule list_plain) (rule plain_classes)
  next
    case False
    with n(1) have "alpha (hd (origin p))" "list_all nick_char (tl (origin p))" "origin p \<noteq> []" by (auto simp: origin_name_def)
    moreover from this(2) have "line (tl (origin p))" by (rule list_plain) (rule plain_classes)
    ultimately show ?thesis using plain_classes(1) by (cases "origin p") auto
  qed
  moreover have "line (user p)" "line (host p)"
    using n list_plain [OF _ plain_classes(5)] list_plain [OF _ plain_classes(3)] by blast+
  ultimately show ?thesis using False by (simp add: prefix_text_def marked_text_def plain_def)
qed (simp add: prefix_text_def)

lemma command_line:
  assumes "command_ok c v"
  shows "line c"
proof -
  have "list_all alpha w \<Longrightarrow> line w" "list_all digit w \<Longrightarrow> line w" for w
    using list_plain [of alpha w] list_plain [of digit w] plain_classes(1,2) by blast+
  with assms three_digits_number(1) show ?thesis by (auto simp: command_ok_def split: command_text.splits)
qed

lemma parameters_line: "parameters_ok ps \<Longrightarrow> line (parameters_text i [] ps)"
proof (induction ps arbitrary: i)
  case (Cons p ps)
  have m: "middle w \<Longrightarrow> line w" for w using list_plain [OF _ plain_classes(6)] by (auto simp: middle_def)
  show ?case
  proof (cases ps)
    case Nil
    with Cons.prems m list_plain [OF _ plain_classes(7)] show ?thesis by (auto simp: parameters_ok_def plain_def)
  next
    case (Cons q qs)
    with Cons.prems have "middle p" "parameters_ok ps" by (simp_all add: parameters_ok_def)
    with Cons.IH [of "Suc i"] m Cons show ?thesis by (simp add: next_ranges_def separator_def Let_def plain_def)
  qed
qed simp

definition message_line :: "string \<Rightarrow> IRC_Record \<Rightarrow> string" where
  "message_line c r = prefix_text (prefix r) @ c @ (if parameters r = [] then [] else '' '')
     @ parameters_text 0 [] (parameters r)"

lemma parseable_line:
  assumes "parseable c v r"
  shows "irc_text c r = message_line c r @ irc_crlf \<and> line (message_line c r)"
  using assms names_line [of "prefix r"] command_line [of c v] parameters_line [of "parameters r" 0]
  by (auto simp: parseable_def irc_text_def message_line_def plain_def)

lemma parse_all:
  assumes "\<forall>r \<in> set rs. parseable (c r) (v r) r" "\<forall>r \<in> set rs. length (irc_text (c r) r) + boundary \<le> n"
    and "map concat outs = map (\<lambda>r. irc_text (c r) r) rs"
  shows "parse_messages boundary n In_initial outs = Inr (map (\<lambda>r. (prefix r, v r, parameters r)) rs, In_initial)"
  using assms
proof (induction rs arbitrary: outs)
  case (Cons r rs)
  then obtain m ms where o: "outs = m # ms" "concat m = irc_text (c r) r" "map concat ms = map (\<lambda>r. irc_text (c r) r) rs"
    by auto
  have "irc_parser_handleDataMessage boundary (Some n) True In_initial m = Inr (Some (prefix r, v r, parameters r), In_initial)"
    using irc_parser_crunched [of m boundary n In_initial] parse_streamed [of "c r" "v r" r] Cons.prems(1,2) o(2) by simp
  with Cons.IH [OF _ _ o(3)] Cons.prems(1,2) o(1) show ?case by simp
qed simp

text \<open>A record that the streamer sends and the parser takes, and the text of its command.\<close>

definition command_of :: "strings \<Rightarrow> IRC_Record \<Rightarrow> string" where
  "command_of h r = the (command_text_of h (command r))"

definition sendable :: "strings \<Rightarrow> IRC_Record \<Rightarrow> bool" where
  "sendable h r \<longleftrightarrow> command_text_of h (command r) \<noteq> None
     \<and> parseable (command_of h r) (command_value h (command r)) r
     \<and> length (irc_text (command_of h r) r) \<le> IRC_MAXIMUM_FRAME_SIZE"

lemma no_range: "last_separator i [] ps = CHR '' ''"
  by (induction ps arbitrary: i) (simp_all add: next_ranges_def separator_def Let_def)

lemma sendable_streamed:
  assumes "mb_laws ops contents" "contents m = []" "IRC_MAXIMUM_FRAME_SIZE \<le> mb_space ops m" "sendable h r"
  shows "\<exists>m'. irc_handleDataMessage ops h r m = Inr (Some m', True) \<and> contents m' = irc_text (command_of h r) r"
proof -
  have c: "command_text_of h (command r) = Some (command_of h r)" and n: "parameterRanges r = []"
    and l: "length (irc_text (command_of h r) r) \<le> mb_space ops m"
    using assms(3,4) by (auto simp: sendable_def command_of_def parseable_def)
  have "1 \<le> mb_space ops m" using assms(3) by (simp add: IRC_MAXIMUM_FRAME_SIZE_def)
  from message_appends [OF assms(1) c _ this] l have
    "appended ops contents (irc_text (command_of h r) r) m (message_step ops h r m)"
    by (simp add: n no_range)
  with assms(1-3) show ?thesis
    by (auto simp: irc_handleDataMessage_def mb_length_contents appended_def)
qed

lemma irc_received:
  assumes "mb_laws ops contents" "contents m = []" "IRC_MAXIMUM_FRAME_SIZE \<le> mb_space ops m"
    and "\<forall>r \<in> set rs. sendable h r \<and> irc_handleDataMessage ops h r m = Inr (Some (sent r), True)"
    and "concat chunks = concat (map (\<lambda>r. contents (sent r)) rs) @ t" "unfinished t"
    and "\<forall>chunk \<in> set chunks. length chunk \<noteq> 1" "IRC_MAXIMUM_FRAME_SIZE + boundary \<le> n"
  shows "\<exists>outs b. bisect_all new_bisector chunks = Inr (outs, b) \<and> pending b = t
    \<and> parse_messages boundary n In_initial outs =
      Inr (map (\<lambda>r. (prefix r, command_value h (command r), parameters r)) rs, In_initial)"
proof -
  let ?c = "command_of h" and ?ls = "map (\<lambda>r. message_line (command_of h r) r) rs"
  have p: "\<forall>r \<in> set rs. parseable (?c r) (command_value h (command r)) r"
    and n: "\<forall>r \<in> set rs. length (irc_text (?c r) r) + boundary \<le> n"
    using assms(4,8) by (fastforce simp: sendable_def)+
  have sent: "contents (sent r) = irc_text (?c r) r" if "r \<in> set rs" for r
    using sendable_streamed [OF assms(1-3), of h r] assms(4) that by auto
  have l: "irc_text (?c r) r = message_line (?c r) r @ irc_crlf \<and> line (message_line (?c r) r)" if "r \<in> set rs" for r
    using parseable_line p that by blast
  have "map (\<lambda>r. contents (sent r)) rs = map (\<lambda>l. l @ irc_crlf) ?ls" using sent l by simp
  then have "concat chunks = framed ?ls @ t" unfolding framed_def using assms(5) by (simp only:)
  moreover have "\<forall>l \<in> set ?ls. line l" using l by auto
  ultimately obtain outs b where b: "bisect_all new_bisector chunks = Inr (outs, b)"
    "map concat outs = map (\<lambda>l. l @ irc_crlf) ?ls" "pending b = t"
    using bisect_chunks [OF new_bisector_scanned(1) _ _ assms(6,7), of ?ls] new_bisector_scanned(2) by auto
  have "map concat outs = map (\<lambda>r. irc_text (?c r) r) rs" using b(2) l by simp
  from parse_all [OF p n this] b(1,3) show ?thesis by blast
qed


section \<open>What is parsed is well formed\<close>

text \<open>The names and commands of a record, whatever the data; the last parameter alone may hold spaces or begin with a colon.\<close>

definition well_formed :: "parsed \<Rightarrow> bool" where
  "well_formed r = (case r of (p, v, ps) \<Rightarrow>
     (origin p = [] \<and> p = empty_prefix
       \<or> origin_name (origin p) \<and> list_all user_char (user p) \<and> list_all host_char (host p))
     \<and> (case v of Text_command c \<Rightarrow> c \<noteq> [] \<and> list_all alpha c | Numeric_command n \<Rightarrow> n < 1000
         | No_command \<Rightarrow> p = empty_prefix \<and> ps = [])
     \<and> list_all middle (butlast ps) \<and> (ps \<noteq> [] \<longrightarrow> last ps \<noteq> [] \<and> list_all trailing_char (last ps)))"

definition between :: "condition \<Rightarrow> bool" where
  "between k \<longleftrightarrow> k \<in> {In_initial, In_command, In_params, In_end_of_frame}"

definition token_ok :: "condition \<Rightarrow> token \<times> condition \<times> string \<Rightarrow> bool" where
  "token_ok k r = (case r of (t, k', s) \<Rightarrow> (case t of
       ORIGIN w \<Rightarrow> origin_name w
     | USER u \<Rightarrow> list_all user_char u
     | HOST h \<Rightarrow> list_all host_char h
     | CMD_STRING c \<Rightarrow> c \<noteq> [] \<and> list_all alpha c \<and> between k'
     | CMD_NUMERIC n \<Rightarrow> n < 1000 \<and> between k'
     | PARAM p \<Rightarrow> p \<noteq> [] \<and> list_all trailing_char p \<and> (between k \<longrightarrow> middle p \<and> between k')
     | SPACE \<Rightarrow> between k \<longrightarrow> between k'
     | _ \<Rightarrow> True))"

lemma three_digits_bound:
  assumes "list_all digit s" "length s = 3"
  shows "parse_base 10 s < 1000"
proof -
  obtain a b c where s: "s = [a, b, c]" using assms(2) by (auto simp: length_Suc_conv numeral_3_eq_3)
  have "digit_val d < 10" if "digit d" for d using that by (auto simp: digit_def digit_val_def)
  from this [of a] this [of b] this [of c] assms(1) show ?thesis by (simp add: s parse_base_def)
qed

lemma takeWhile_ok: "list_all P (takeWhile P s)"
  by (induction s) simp_all

lemma origin_taken:
  assumes "0 < origin_length s"
  shows "origin_name (take (origin_length s) s)"
proof -
  have t: "take (length (takeWhile P w)) w = takeWhile P w" for P and w :: string
    by (induction w) simp_all
  obtain c cs where s: "s = c # cs" using assms by (cases s) (auto simp: origin_length_def)
  let ?n = "Suc (length (takeWhile nick_char cs))"
  have "origin_length s = length (takeWhile host_char s) \<or> alpha c \<and> origin_length s = ?n"
    by (auto simp: origin_length_def s max_def)
  then show ?thesis
  proof
    assume h: "origin_length s = length (takeWhile host_char s)"
    then have "take (origin_length s) s = takeWhile host_char s" using t by simp
    moreover from h assms have "takeWhile host_char s \<noteq> []" by auto
    ultimately show ?thesis using takeWhile_ok [of host_char s] by (simp add: origin_name_def)
  next
    assume "alpha c \<and> origin_length s = ?n"
    then show ?thesis using takeWhile_ok [of nick_char cs] t by (simp add: s origin_name_def)
  qed
qed

lemma lex_command_ok: "s \<noteq> [] \<Longrightarrow> k = In_initial \<or> k = In_command \<Longrightarrow> between j \<Longrightarrow> token_ok j (lex_command k s)"
  using takeWhile_ok [of alpha s] three_digits_bound [of "take 3 s"]
  by (cases s) (auto simp: lex_command_def token_ok_def between_def min_def)

lemma param_trailing: "list_all param_char w \<Longrightarrow> list_all trailing_char w"
  by (auto simp: list_all_iff param_char_def trailing_char_def)

lemma irc_lex_ok: "token_ok k (irc_lex k s)"
proof (induction k s rule: irc_lex.induct)
  case (1 k)
  show ?case by (simp add: token_ok_def)
next
  case (2 k c cs)
  note w = takeWhile_ok [of user_char cs] takeWhile_ok [of host_char cs] takeWhile_ok [of param_char cs]
    takeWhile_ok [of trailing_char cs]
  show ?case
  proof (cases k)
    case In_initial
    then show ?thesis
      using 2 lex_command_ok [of "c # cs" k In_initial] by (auto simp: token_ok_def between_def split: token.splits)
  next
    case In_prefix
    then show ?thesis using origin_taken [of "c # cs"] by (auto simp: token_ok_def between_def Let_def)
  next
    case In_command
    then show ?thesis using lex_command_ok [of "c # cs" k In_command] by (simp add: between_def)
  next
    case In_params
    then show ?thesis
      using 2 w param_trailing [OF w(3)]
      by (auto simp: token_ok_def between_def middle_def param_char_def trailing_char_def split: token.splits)
  qed (use 2 w in \<open>auto simp: token_ok_def between_def split: token.splits\<close>)
qed

lemma params_ok:
  "between k \<Longrightarrow> params k s = (ps, r) \<Longrightarrow>
   list_all middle (butlast ps) \<and> (ps \<noteq> [] \<longrightarrow> last ps \<noteq> [] \<and> list_all trailing_char (last ps))"
proof (induction k s arbitrary: ps r rule: params.induct)
  case (1 k s)
  obtain t k1 s1 where l: "irc_lex k s = (t, k1, s1)" by (cases "irc_lex k s") auto
  have ok: "token_ok k (t, k1, s1)" using irc_lex_ok [of k s] l by simp
  show ?case
  proof (cases t)
    case SPACE
    then have "between k1" using ok 1(3) by (simp add: token_ok_def)
    then show ?thesis using 1(1) [OF l [symmetric] SPACE refl] 1(4) l SPACE by (simp add: params.simps [of k s])
  next
    case (PARAM p)
    then have p: "between k1" "middle p" "p \<noteq> []" "list_all trailing_char p" using ok 1(3) by (simp_all add: token_ok_def)
    obtain qs r' where q: "params k1 s1 = (qs, r')" by (cases "params k1 s1") auto
    from 1(2) [OF l [symmetric] PARAM refl p(1) q] p 1(4) l PARAM q show ?thesis
      by (auto simp: params.simps [of k s] split: if_splits)
  next
    case (Mark c)
    obtain t2 k2 s2 where l2: "irc_lex k1 s1 = (t2, k2, s2)" by (cases "irc_lex k1 s1") auto
    have "token_ok k1 (t2, k2, s2)" using irc_lex_ok [of k1 s1] l2 by simp
    then show ?thesis using 1(4) l l2 Mark
      by (auto simp: params.simps [of k s] token_ok_def split: if_splits token.splits)
  qed (use 1(4) l in \<open>auto simp: params.simps [of k s]\<close>)
qed

lemma ext_prefix_ok:
  "ext_prefix k s = (Some f, k', s') \<Longrightarrow>
   list_all user_char (user (f empty_prefix)) \<and> list_all host_char (host (f empty_prefix))"
proof (induction k s arbitrary: f k' s' rule: ext_prefix.induct)
  case (1 k s)
  obtain t k1 s1 where l: "irc_lex k s = (t, k1, s1)" by (cases "irc_lex k s") auto
  show ?case
  proof (cases t)
    case SPACE
    then show ?thesis using 1(3) l by (auto simp: ext_prefix.simps [of k s] empty_prefix_def)
  next
    case (Mark c)
    obtain t2 k2 s2 where l2: "irc_lex k1 s1 = (t2, k2, s2)" by (cases "irc_lex k1 s1") auto
    have ok: "token_ok k1 (t2, k2, s2)" using irc_lex_ok [of k1 s1] l2 by simp
    obtain g k3 s3 where g: "ext_prefix k2 s2 = (g, k3, s3)" by (cases "ext_prefix k2 s2") auto
    show ?thesis
    proof (cases t2)
      case (USER u)
      with 1(3) l l2 Mark g have c: "c = CHR ''!''" and m: "map_option (\<lambda>f p. (f p)\<lparr>user := u\<rparr>) g = Some f"
        by (auto simp: ext_prefix.simps [of k s] split: if_splits)
      from m obtain h where h: "g = Some h" "f = (\<lambda>p. (h p)\<lparr>user := u\<rparr>)" by (auto simp: map_option_case split: option.splits)
      from 1(1) [OF l [symmetric] Mark refl l2 [symmetric] USER refl] c g h(1) show ?thesis
        using ok USER by (simp add: h(2) token_ok_def)
    next
      case (HOST u)
      with 1(3) l l2 Mark g have c: "c = CHR ''@''" and m: "map_option (\<lambda>f p. (f p)\<lparr>host := u\<rparr>) g = Some f"
        by (auto simp: ext_prefix.simps [of k s] split: if_splits)
      from m obtain h where h: "g = Some h" "f = (\<lambda>p. (h p)\<lparr>host := u\<rparr>)" by (auto simp: map_option_case split: option.splits)
      from 1(2) [OF l [symmetric] Mark refl l2 [symmetric] HOST refl] c g h(1) show ?thesis
        using ok HOST by (simp add: h(2) token_ok_def)
    qed (use 1(3) l l2 Mark in \<open>auto simp: ext_prefix.simps [of k s]\<close>)
  qed (use 1(3) l in \<open>auto simp: ext_prefix.simps [of k s]\<close>)
qed

lemma parse_command_ok:
  assumes "token_ok k t" "fst (parse_command p t) = Some r"
    and "p = empty_prefix \<or> origin_name (origin p) \<and> list_all user_char (user p) \<and> list_all host_char (host p)"
  shows "well_formed r"
proof -
  have rest: "\<exists>ps. r' = (p, v, ps) \<and> list_all middle (butlast ps) \<and> (ps \<noteq> [] \<longrightarrow> last ps \<noteq> [] \<and> list_all trailing_char (last ps))"
    if "between j" "fst (parse_rest p v j s) = Some r'" for v j s r'
    using params_ok [OF that(1)] that(2)
    by (auto simp: parse_rest_def accept_def split: prod.splits if_splits)
  obtain c j s where t: "t = (c, j, s)" by (cases t) auto
  have p: "origin p = [] \<and> p = empty_prefix \<or> origin_name (origin p) \<and> list_all user_char (user p) \<and> list_all host_char (host p)"
    using assms(3) by (auto simp: empty_prefix_def)
  show ?thesis
  proof (cases c)
    case (CMD_STRING w)
    with assms(1,2) rest [of j "Text_command w" s r] p show ?thesis
      by (auto simp: t parse_command_def token_ok_def well_formed_def)
  next
    case (CMD_NUMERIC n)
    with assms(1,2) rest [of j "Numeric_command n" s r] p show ?thesis
      by (auto simp: t parse_command_def token_ok_def well_formed_def)
  qed (use assms(2) in \<open>simp_all add: t parse_command_def\<close>)
qed

text \<open>C29: Whatever the data and whatever the start condition left behind, a record that the parser produces is
  well formed: names and commands of the permitted characters, numerics below 1000, no empty parameter, no NUL, CR or LF in one,
  and no space or leading colon in any but the last.\<close>

theorem irc_parsed_well_formed:
  assumes "fst (irc_parse k s) = Some r"
  shows "well_formed r"
proof -
  obtain t k1 s1 where l: "irc_lex k s = (t, k1, s1)" by (cases "irc_lex k s") auto
  have ok: "token_ok k (t, k1, s1)" using irc_lex_ok [of k s] l by simp
  consider (ended) "t = END_token" | (prefixed) c where "t = Mark c"
    | (bare) "irc_parse k s = parse_command empty_prefix (t, k1, s1)"
    using l by (cases t) (auto simp: irc_parse_def)
  then show ?thesis
  proof cases
    case ended
    with assms l have "r = (empty_prefix, No_command, [])"
      by (auto simp: irc_parse_def accept_def split: prod.splits if_splits)
    then show ?thesis by (simp add: well_formed_def empty_prefix_def)
  next
    case prefixed
    obtain t2 k2 s2 where l2: "irc_lex k1 s1 = (t2, k2, s2)" by (cases "irc_lex k1 s1") auto
    obtain g k3 s3 where g: "ext_prefix k2 s2 = (g, k3, s3)" by (cases "ext_prefix k2 s2") auto
    from assms l l2 g prefixed obtain w f where w: "t2 = ORIGIN w" and f: "g = Some f"
      and r: "fst (parse_command ((f empty_prefix)\<lparr>origin := w\<rparr>) (irc_lex k3 s3)) = Some r"
      by (auto simp: irc_parse_def split: if_splits token.splits option.splits)
    have "origin_name w" using irc_lex_ok [of k1 s1] l2 w by (simp add: token_ok_def)
    with ext_prefix_ok [of k2 s2 f k3 s3] g f parse_command_ok [OF irc_lex_ok r] show ?thesis by simp
  next
    case bare
    with assms parse_command_ok [OF ok] show ?thesis by simp
  qed
qed

theorem irc_parsed_well_formed_witness:
  "well_formed (empty_prefix, Text_command ''PING'', [''a'', '':b c''])"
proof (rule irc_parsed_well_formed)
  show "fst (irc_parse In_initial (''PING a ::b c'' @ irc_crlf)) = Some (empty_prefix, Text_command ''PING'', [''a'', '':b c''])"
    by (simp add: irc_parse_def lex_command_def parse_command_def parse_rest_def accept_def params.simps irc_crlf_def
        alpha_def digit_def param_char_def trailing_char_def)
qed

section \<open>Messages that are lost\<close>

text \<open>
  The start condition \<^verbatim>\<open>command\<close> has no rule for the line end: a command behind a prefix is taken
  without parameters, but leaves the scanner in it.
\<close>

lemma parse_bare:
  assumes "origin p \<noteq> []" "names_ok p" "command_ok c v"
  shows "irc_parse In_initial (prefix_text p @ c @ irc_crlf) = (Some (p, v, []), In_command)"
proof -
  have e: "irc_lex In_command irc_crlf = (END_token, In_command, [LF])" "irc_lex In_command [LF] = (END_token, In_command, [])"
    by (simp_all add: irc_crlf_def lex_command_def alpha_def digit_def)
  have "params In_command irc_crlf = ([], END_token, In_command, [LF])"
    by (subst params.simps) (simp add: e)
  then have "parse_rest p v In_command irc_crlf = (Some (p, v, []), In_command)"
    by (simp add: parse_rest_def accept_def lex_command_def alpha_def digit_def)
  moreover have "irc_lex In_command (c @ irc_crlf) = (command_token v, In_command, irc_crlf)"
    by (rule lex_command_start [OF assms(3)]) (simp_all add: irc_crlf_def)
  moreover have "c @ irc_crlf = [] \<or> hd (c @ irc_crlf) \<noteq> CHR '' ''" using command_head [OF assms(3), of irc_crlf] by simp
  ultimately show ?thesis
    using prefix_streamed [OF assms(1,2), of "c @ irc_crlf"] assms(3)
    by (auto simp: parse_command_def command_token_def command_ok_def split: command_text.splits)
qed

text \<open>
  There a colon is an invalid character, at which the scanner ends. The parser asks once more: when it finds what
  looks like a command it fails, otherwise the scanner ends again, and an empty record is accepted.
\<close>

definition looks_like_command :: "string \<Rightarrow> bool" where
  "looks_like_command w \<longleftrightarrow> alpha (hd w) \<or> 3 \<le> length w \<and> list_all digit (take 3 w)"

definition no_message :: parsed where
  "no_message = (empty_prefix, No_command, [])"

lemma parse_lost:
  assumes "w \<noteq> []" "hd w \<noteq> CHR '' ''"
  shows "irc_parse In_command (CHR '':'' # w) = (if looks_like_command w then None else Some no_message, In_command)"
proof -
  have "irc_lex In_command w = lex_command In_command w" using assms(1) by (cases w) simp_all
  moreover have "fst (lex_command In_command w) = END_token \<longleftrightarrow> \<not> looks_like_command w"
    "fst (snd (lex_command In_command w)) = In_command"
    using assms(2) by (auto simp: lex_command_def looks_like_command_def)
  ultimately have "fst (irc_lex In_command w) = END_token \<longleftrightarrow> \<not> looks_like_command w"
    "fst (snd (irc_lex In_command w)) = In_command" by simp_all
  moreover have "irc_lex In_command (CHR '':'' # w) = (END_token, In_command, w)"
    by (auto simp: lex_command_def digit_def alpha_def)
  ultimately show ?thesis by (auto simp: irc_parse_def accept_def no_message_def split: prod.splits)
qed

lemma all_lost:
  "\<forall>w \<in> set ws. w \<noteq> [] \<and> hd w \<noteq> CHR '' '' \<and> Suc (length w) + boundary \<le> n \<Longrightarrow>
   parse_messages boundary n In_command (map (\<lambda>w. ['':'' @ w]) ws) =
     Inr (map (\<lambda>_. no_message) (filter (\<lambda>w. \<not> looks_like_command w) ws), In_command)"
proof (induction ws)
  case (Cons w ws)
  then have "irc_parser_handleDataMessage boundary (Some n) True In_command ['':'' @ w]
      = Inr (if looks_like_command w then None else Some no_message, In_command)"
    using irc_parser_crunched [of "['':'' @ w]" boundary n In_command] parse_lost [of w] by simp
  with Cons show ?case by simp
qed simp


text \<open>Only one without a prefix, with parameters, gets the scanner back.\<close>

lemma parser_recovers:
  assumes "command_ok c v" "parameters_ok ps" "ps \<noteq> []"
  shows "irc_parse In_command (c @ '' '' @ parameters_text 0 [] ps @ irc_crlf) = (Some (empty_prefix, v, ps), In_initial)"
  using parse_unprefixed [OF assms(1), of "'' '' @ parameters_text 0 [] ps @ irc_crlf" In_command]
    parse_command_streamed [OF assms(1,2), of In_command empty_prefix] assms(3) by simp

section \<open>Witnesses\<close>

definition server :: Prefix where
  "server = \<lparr>origin = ''irc.net'', user = [], host = []\<rparr>"

definition greeting :: IRC_Record where
  "greeting = (message_of server [''wiz'', ''hello you''])\<lparr>command := NUMERIC 1\<rparr>"

definition ping :: IRC_Record where
  "ping = (message_of empty_prefix [''irc.net''])\<lparr>command := STRING (Some 0)\<rparr>"

definition ping_text :: strings where
  "ping_text = [0 \<mapsto> ''PING'']"

lemma demo_commands:
  "command_of ping_text greeting = ''001''" "command_of ping_text ping = ''PING''"
  "command_text_of ping_text (command greeting) \<noteq> None" "command_text_of ping_text (command ping) \<noteq> None"
  "command_value ping_text (command greeting) = Numeric_command 1" "command_value ping_text (command ping) = Text_command ''PING''"
proof -
  have "replicate 2 d = [d, d]" for d :: char by (simp add: numeral_2_eq_2)
  then show "command_of ping_text greeting = ''001''"
    by (simp add: command_of_def greeting_def command_text_of_def three_digits_def render_eval)
qed (simp_all add: command_of_def ping_def greeting_def command_text_of_def command_value_def deref_def ping_text_def)

lemma demo_fields:
  "prefix greeting = server" "parameters greeting = [''wiz'', ''hello you'']" "parameterRanges greeting = []"
  "prefix ping = empty_prefix" "parameters ping = [''irc.net'']" "parameterRanges ping = []"
  by (simp_all add: greeting_def ping_def message_of_fields)

lemma demo_texts:
  "irc_text ''001'' greeting = '':irc.net 001 wiz :hello you'' @ irc_crlf" "irc_text ''PING'' ping = ''PING irc.net'' @ irc_crlf"
  by (simp_all add: irc_text_def demo_fields server_def empty_prefix_def prefix_text_def marked_text_def next_ranges_def separator_def)

lemma server_ok: "names_ok server"
  by (simp add: names_ok_def server_def origin_name_def host_char_def alpha_def)

lemma demo_sendable: "sendable ping_text greeting" "sendable ping_text ping"
proof -
  have "replicate 2 d = [d, d]" for d :: char by (simp add: numeral_2_eq_2)
  then have "command_ok ''001'' (Numeric_command 1)" "command_ok ''PING'' (Text_command ''PING'')"
    by (simp_all add: command_ok_def three_digits_def render_eval alpha_def)
  moreover have "parameters_ok [''wiz'', ''hello you'']" "parameters_ok [''irc.net'']" "names_ok empty_prefix"
    by (simp_all add: parameters_ok_def middle_def param_char_def trailing_char_def names_ok_def empty_prefix_def)
  ultimately show "sendable ping_text greeting" "sendable ping_text ping"
    using server_ok demo_commands demo_texts
    by (simp_all add: sendable_def parseable_def demo_fields irc_crlf_def IRC_MAXIMUM_FRAME_SIZE_def empty_prefix_def)
qed

definition demo_sent :: "strings \<Rightarrow> IRC_Record \<Rightarrow> nat \<times> string" where
  "demo_sent h r = (case irc_handleDataMessage bounded_block h r (512, []) of Inr (Some m, _) \<Rightarrow> m | _ \<Rightarrow> (0, []))"

lemma demo_sent:
  assumes "sendable h r"
  shows "irc_handleDataMessage bounded_block h r (512, []) = Inr (Some (demo_sent h r), True)"
    and "snd (demo_sent h r) = irc_text (command_of h r) r"
  using sendable_streamed [OF bounded_block_laws _ _ assms, of "(512, [])"]
  by (auto simp: IRC_MAXIMUM_FRAME_SIZE_def bounded_block_def demo_sent_def)



end
