(* ===== verification/IRC_Session.thy ===== *)
theory IRC_Session
  imports IRC_Tools IRC_Parser
begin

text \<open>
  The session of an IRC client, \<^verbatim>\<open>IRC_Session_T\<close> in \<^verbatim>\<open>src/src/protocol/irc/irc_session.inl\<close>, with the
  state that it keeps for the application (\<^verbatim>\<open>irc_network.h\<close>): what every message of the server does to
  it, which messages fault, and the client as a whole, from the octets received to the state, over the
  bisector and the parser. The connection below, the module that talks to the session and the input
  handler are parameters.
\<close>

section \<open>State\<close>

text \<open>The members of \<^verbatim>\<open>IRC_SessionState\<close>, and those of the session object.\<close>

record IRC_SessionState =
  controller :: "pointer option"
  away :: bool
  channel :: string
  channelModes :: IRC_ChannelModes
  isFirstMessage :: bool
  nickName :: string
  userModes :: IRC_UserModes

definition new_SessionState :: IRC_SessionState where
  "new_SessionState = \<lparr>controller = None, away = False, channel = [], channelModes = 0, isFirstMessage = False,
     nickName = [], userModes = 0\<rparr>"

record IRC_Session =
  state_of :: IRC_SessionState
  close_ :: bool
  inputHandler :: "pointer option"
  logToFile :: bool
  shutDownOnEnd :: bool
  UIState :: bool

definition new_IRC_Session :: IRC_Session where
  "new_IRC_Session = \<lparr>state_of = new_SessionState, close_ = False, inputHandler = None, logToFile = False,
     shutDownOnEnd = True, UIState = False\<rparr>"

text \<open>How the library is built: the preprocessor symbols of the handler, and whether assertions are compiled.\<close>

record irc_build =
  gui_support :: bool
  curses_use :: bool
  asserts :: bool

text \<open>
  What the handler does besides: the calls of \<open>log\<close> with a channel and a text, of \<open>error\<close>, of \<open>dump_state\<close> for
  what it does not know, and of \<open>curses_join\<close> and \<open>curses_part\<close>.
\<close>

datatype session_event =
  Log string string | Status string | Dumped | Curses_join string | Curses_part string

type_synonym notified = "(IRC_SessionState \<times> session_event list) res"

section \<open>Helpers of the handler\<close>

definition log_record :: "strings \<Rightarrow> IRC_Record \<Rightarrow> session_event list res" where
  "log_record h r = bind_res (RecordToString h r) (\<lambda>t. Inr [Log [] t])"

definition error_record :: "strings \<Rightarrow> IRC_Record \<Rightarrow> session_event list res" where
  "error_record h r = bind_res (RecordToString h r) (\<lambda>t. Inr [Status t])"

text \<open>
  Of what is logged, only a user interface shows anything: the output to a file is commented out.
\<close>

definition shown :: "irc_build \<Rightarrow> bool \<Rightarrow> session_event list \<Rightarrow> (string \<times> string) list" where
  "shown b ui es = (if ui \<and> gui_support b \<and> curses_use b
     then List.map_filter (\<lambda>e. case e of Log c t \<Rightarrow> Some (c, t) | _ \<Rightarrow> None) es else [])"

text \<open>
  An assertion that a list has \<open>k\<close> elements, before an access that needs \<open>l\<close> of them.
\<close>

definition at_least :: "irc_build \<Rightarrow> nat \<Rightarrow> nat \<Rightarrow> 'b list \<Rightarrow> 'a \<Rightarrow> 'a res" where
  "at_least b k l ps x =
    (if asserts b \<and> length ps < k then Inl Assertion
     else if length ps < l then Inl Undefined_Behaviour else Inr x)"

text \<open>The records of a \<^verbatim>\<open>USERHOST\<close> reply: the non-empty pieces between single spaces.\<close>

fun userhost_records :: "string \<Rightarrow> string \<Rightarrow> string list" where
  "userhost_records piece [] = (if piece = [] then [] else [piece])"
| "userhost_records piece (c # cs) =
    (if c = CHR '' '' then (if piece = [] then userhost_records [] cs else piece # userhost_records [] cs)
     else userhost_records (piece @ [c]) cs)"

text \<open>A record is \<open>nick=user@host\<close>; others are left out.\<close>

definition userhost_message :: "string \<Rightarrow> string option" where
  "userhost_message s =
    (let nick = takeWhile (\<lambda>c. c \<noteq> CHR ''='') s; t = dropWhile (\<lambda>c. c \<noteq> CHR ''='') s
     in if t = [] then None
        else let user = takeWhile (\<lambda>c. c \<noteq> CHR ''@'') (tl t); t' = dropWhile (\<lambda>c. c \<noteq> CHR ''@'') (tl t)
          in if t' = [] then None
             else Some (nick @ '' is \"'' @ user @ ''\" on \"'' @ tl t' @ ''\"'' @ [CHR 0x0A]))"

definition userhost_events :: "string \<Rightarrow> session_event list" where
  "userhost_events s = map (Log []) (List.map_filter userhost_message (userhost_records [] s))"

section \<open>Numeric replies\<close>

text \<open>
  The replies that are logged, those that are not even that, those that are logged and may be errors, and
  the errors among them. The values are those of the enumerators; \<^verbatim>\<open>RPL_YOURID\<close> is 20, not the 42 of the comment.
\<close>

definition logged_numerics :: "nat list" where
  "logged_numerics = [1, 2, 3, 4, 5, 8, 20, 250, 251, 252, 253, 254, 255, 263, 265, 266, 341, 305, 306, 321, 323]"

definition silent_numerics :: "nat list" where
  "silent_numerics = [331, 332, 333]"

definition reported_numerics :: "nat list" where
  "reported_numerics = [368, 372, 375, 376, 396, 401, 421, 422, 432, 433, 451, 461, 462, 465, 479, 482, 501]"

definition status_numerics :: "nat list" where
  "status_numerics = [401, 421, 432, 433, 451, 462, 465, 479, 482, 501]"

text \<open>
  \<open>RPL_LIST\<close>, \<open>RPL_WHOREPLY\<close>, \<open>RPL_NAMREPLY\<close> and \<open>RPL_ENDOFNAMES\<close> take their parameters apart without using
  the parts; what remains is which accesses they make.
\<close>

definition notify_numeric ::
  "irc_build \<Rightarrow> strings \<Rightarrow> IRC_Record \<Rightarrow> nat \<Rightarrow> IRC_SessionState \<Rightarrow> notified" where
  "notify_numeric b h r n s =
    (let ps = parameters r
     in if n \<in> set logged_numerics then bind_res (log_record h r) (\<lambda>es. Inr (s, es))
        else if n = 302 then bind_res (list_back ps) (\<lambda>t. Inr (s, userhost_events t))
        else if n = 315 then bind_res (log_record h r) (\<lambda>es. Inr (s\<lparr>isFirstMessage := True\<rparr>, es))
        else if n = 322 then at_least b 3 3 ps (s, [])
        else if n \<in> set silent_numerics then Inr (s, [])
        else if n = 352 then at_least b 8 7 ps (s\<lparr>isFirstMessage := False\<rparr>, [])
        else if n = 353 then bind_res (list_back ps) (\<lambda>_. at_least b 3 2 ps (s, []))
        else if n = 366 then (if ps = [] then Inl Undefined_Behaviour else Inr (s, []))
        else if n \<in> set reported_numerics then bind_res (log_record h r) (\<lambda>es.
          if n \<in> set status_numerics then bind_res (error_record h r) (\<lambda>es'. Inr (s, es @ es')) else Inr (s, es))
        else Inr (s, [Dumped]))"

section \<open>Textual commands\<close>

text \<open>
  The replies to a request to join or to leave a channel: without \<^verbatim>\<open>GUI_SUPPORT\<close> the statement that sets or
  clears the channel becomes the body of the condition before it, which asks for a user interface.
\<close>

definition notify_join :: "irc_build \<Rightarrow> bool \<Rightarrow> string list \<Rightarrow> IRC_SessionState \<Rightarrow> notified" where
  "notify_join b ui ps s = bind_res (list_front ps) (\<lambda>c.
     let show = (channel s = [] \<and> ui)
     in Inr (if gui_support b \<or> show then s\<lparr>channel := c\<rparr> else s,
             if gui_support b \<and> curses_use b \<and> show then [Curses_join c] else []))"

definition notify_part :: "irc_build \<Rightarrow> bool \<Rightarrow> string list \<Rightarrow> IRC_SessionState \<Rightarrow> notified" where
  "notify_part b ui ps s = bind_res (list_front ps) (\<lambda>c.
     let show = (channel s \<noteq> [] \<and> ui)
     in Inr (if gui_support b \<or> show then s\<lparr>channel := []\<rparr> else s,
             if gui_support b \<and> curses_use b \<and> show then [Curses_part c] else []))"

text \<open>
  A change of modes: of the user when the first parameter is the own nickname, with the last parameter,
  otherwise of the channel, with the second. The numbers of modes changed are not used.
\<close>

definition notify_mode :: "string list \<Rightarrow> IRC_SessionState \<Rightarrow> IRC_SessionState res" where
  "notify_mode ps s = bind_res (list_front ps) (\<lambda>target.
     if target = nickName s
     then bind_res (merge_user (last ps) (userModes s)) (\<lambda>(_, m). Inr (s\<lparr>userModes := m\<rparr>))
     else (case ps of
         _ # modes # _ \<Rightarrow> bind_res (merge_channel modes (channelModes s)) (\<lambda>(_, m). Inr (s\<lparr>channelModes := m\<rparr>))
       | _ \<Rightarrow> Inl Undefined_Behaviour))"

definition message_text :: "Prefix \<Rightarrow> string \<Rightarrow> string" where
  "message_text p t = (if origin p = [] then [] else ''<'' @ origin p @ ''> '') @ t"

definition notify_text ::
  "irc_build \<Rightarrow> bool \<Rightarrow> strings \<Rightarrow> IRC_Record \<Rightarrow> CommandType \<Rightarrow> IRC_SessionState \<Rightarrow> notified" where
  "notify_text b ui h r c s =
    (let ps = parameters r; own = (origin (prefix r) = nickName s); logged = bind_res (log_record h r) (\<lambda>es. Inr (s, es))
     in if c = NICK then bind_res (list_front ps) (\<lambda>n. bind_res (log_record h r) (\<lambda>es. Inr (s\<lparr>nickName := n\<rparr>, es)))
        else if c = CommandType.USER then logged
        else if c = QUIT then bind_res (log_record h r) (\<lambda>es.
          if own then bind_res (error_record h r) (\<lambda>es'. Inr (s, es @ es')) else Inr (s, es))
        else if c = JOIN then (if own then notify_join b ui ps s else logged)
        else if c = PART then (if own then notify_part b ui ps s else logged)
        else if c = MODE then bind_res (log_record h r) (\<lambda>es. bind_res (notify_mode ps s) (\<lambda>s'. Inr (s', es)))
        else if c \<in> {TOPIC, KICK, NOTICE, AWAY} then logged
        else if c = PRIVMSG then bind_res (list_back ps) (\<lambda>t. Inr (s, [Log t (message_text (prefix r) t)]))
        else if c = ERROR then bind_res (log_record h r) (\<lambda>es. bind_res (error_record h r) (\<lambda>es'. Inr (s, es @ es')))
        else if c = PING then Inr (s, [])
        else Inr (s, [Dumped]))"

section \<open>The handler\<close>

definition session_notify ::
  "irc_build \<Rightarrow> bool \<Rightarrow> strings \<Rightarrow> IRC_Record \<Rightarrow> IRC_SessionState \<Rightarrow> notified" where
  "session_notify b ui h r s =
    (case command r of
       NUMERIC n \<Rightarrow> notify_numeric b h r n s
     | STRING p \<Rightarrow> bind_res (deref h p) (\<lambda>c. notify_text b ui h r (CommandToType c) s)
     | INVALID \<Rightarrow> Inr (s, []))"

text \<open>The other notifications: of events, which is not supported, and of session messages, without effect.\<close>

definition session_notify_event :: "irc_build \<Rightarrow> IRC_SessionState \<Rightarrow> IRC_SessionState res" where
  "session_notify_event b s = Inl (if asserts b then Assertion else Unsupported)"

definition session_notify_message :: "IRC_SessionState \<Rightarrow> IRC_SessionState res" where
  "session_notify_message s = Inr s"

section \<open>Begin and end of a session\<close>

text \<open>
  What the session finds when it begins: the module that the loop over the stream leaves (with the
  result of the cast to the controller), its configuration with that of the protocol, the setting of the address of the log file,
  and the allocation and initialization of an input handler.
\<close>

record irc_configuration =
  loginNickname :: "string option"
  logToFile_option :: bool
  cursesState :: bool

record start_env =
  handler_module :: "pointer option option"
  configuration_p :: "irc_configuration option"
  log_address :: bool
  new_inputHandler :: "pointer option"
  inputHandler_initialize :: bool

text \<open>The result says whether the connection is kept: on every error it is closed.\<close>

definition start_input :: "start_env \<Rightarrow> irc_configuration \<Rightarrow> IRC_Session \<Rightarrow> IRC_Session \<times> bool" where
  "start_input e c i =
    (if \<not> cursesState c \<and> inputHandler i = None
     then (case new_inputHandler e of
         None \<Rightarrow> (i, False)
       | Some a \<Rightarrow> (i\<lparr>inputHandler := Some a\<rparr>, inputHandler_initialize e))
     else (i, True))"

definition session_start :: "irc_build \<Rightarrow> start_env \<Rightarrow> IRC_Session \<Rightarrow> (IRC_Session \<times> bool) res" where
  "session_start b e i =
    (case handler_module e of
       None \<Rightarrow> Inr (i, False)
     | Some ctl \<Rightarrow>
         let i1 = i\<lparr>state_of := (state_of i)\<lparr>controller := ctl\<rparr>\<rparr>
         in if ctl = None then Inr (i1, False)
            else (case configuration_p e of
                None \<Rightarrow> Inl (if asserts b then Assertion else Undefined_Behaviour)
              | Some c \<Rightarrow> (case loginNickname c of
                    None \<Rightarrow> Inl (if asserts b then Assertion else Undefined_Behaviour)
                  | Some n \<Rightarrow>
                      let i2 = i1\<lparr>state_of := (state_of i1)\<lparr>nickName := n\<rparr>, logToFile := logToFile_option c\<rparr>
                      in if logToFile i2 \<and> \<not> log_address e then Inr (i2, False)
                         else Inr (start_input e c (if logToFile i2 then i2\<lparr>close_ := True\<rparr> else i2)))))"

text \<open>The end of a session raises an interrupt for the process.\<close>

definition session_end :: "IRC_Session \<Rightarrow> bool" where
  "session_end i = shutDownOnEnd i"

section \<open>Messages one after the other\<close>

text \<open>The record that the parser makes of a message: a textual command is a string of its own.\<close>

definition record_of :: "parsed \<Rightarrow> strings \<times> IRC_Record" where
  "record_of v = (case v of (p, c, ps) \<Rightarrow>
     let r = \<lparr>prefix = p, command = INVALID, parameters = ps, parameterRanges = []\<rparr>
     in (case c of
         Text_command t \<Rightarrow> ([0 \<mapsto> t], r\<lparr>command := STRING (Some 0)\<rparr>)
       | Numeric_command n \<Rightarrow> (\<lambda>_. None, r\<lparr>command := NUMERIC n\<rparr>)
       | No_command \<Rightarrow> (\<lambda>_. None, r)))"

fun notify_all :: "irc_build \<Rightarrow> bool \<Rightarrow> parsed list \<Rightarrow> IRC_SessionState \<Rightarrow> notified" where
  "notify_all b ui [] s = Inr (s, [])"
| "notify_all b ui (v # vs) s = bind_res (session_notify b ui (fst (record_of v)) (snd (record_of v)) s)
    (\<lambda>(s1, es). bind_res (notify_all b ui vs s1) (\<lambda>(s2, es'). Inr (s2, es @ es')))"

section \<open>A message as its value\<close>

text \<open>Which record a message comes in does not matter, only what it says.\<close>

abbreviation message_value :: "strings \<Rightarrow> IRC_Record \<Rightarrow> parsed" where
  "message_value h r \<equiv> (prefix r, command_value h (command r), parameters r)"

lemma same_command:
  assumes "owns h r" "owns h' r'" "command_value h' (command r') = command_value h (command r)"
  obtains (n) n where "command r = NUMERIC n" "command r' = NUMERIC n"
  | (t) p q t where "command r = STRING p" "command r' = STRING q" "deref h p = Inr t" "deref h' q = Inr t"
  | (i) "command r = INVALID" "command r' = INVALID"
  using assms
  by (cases "command r"; cases "command r'") (auto simp: command_value_def owns_def deref_def split: option.splits)

lemma same_text:
  assumes "owns h r" "owns h' r'" "message_value h' r' = message_value h r"
  shows "RecordToString h' r' = RecordToString h r"
proof -
  have c: "command_value h' (command r') = command_value h (command r)" and p: "prefix r' = prefix r" "parameters r' = parameters r"
    using assms(3) by simp_all
  from assms(1,2) c show ?thesis
    by (cases rule: same_command) (simp_all only: RecordToString_def text_to_string_def p Command.case bind_res_simps)
qed

lemma same_notified:
  assumes "owns h r" "owns h' r'" "message_value h' r' = message_value h r"
  shows "session_notify b ui h' r' s = session_notify b ui h r s"
proof -
  have c: "command_value h' (command r') = command_value h (command r)" and p: "prefix r' = prefix r" "parameters r' = parameters r"
    using assms(3) by simp_all
  have "notify_numeric b h' r' n s = notify_numeric b h r n s" "notify_text b ui h' r' t s = notify_text b ui h r t s" for n t
    by (simp_all only: notify_numeric_def notify_text_def log_record_def error_record_def same_text [OF assms] p)
  with assms(1,2) c show ?thesis
    by (cases rule: same_command) (simp_all only: session_notify_def Command.case bind_res_simps)
qed

lemma record_of_value:
  "owns (fst (record_of v)) (snd (record_of v))" "message_value (fst (record_of v)) (snd (record_of v)) = v"
  by (cases v; cases "fst (snd v)"; simp add: record_of_def owns_def command_value_def deref_def)+

lemma notify_value:
  assumes "owns h r"
  shows "session_notify b ui (fst (record_of (message_value h r))) (snd (record_of (message_value h r))) s =
    session_notify b ui h r s"
  by (rule same_notified [OF assms record_of_value])

section \<open>Replies about users\<close>

lemma userhost_piece:
  "CHR '' '' \<notin> set w \<Longrightarrow> userhost_records piece (w @ s) = userhost_records (piece @ w) s"
  by (induction w arbitrary: piece) auto

lemma userhost_joined:
  assumes "\<forall>w \<in> set ws. w \<noteq> [] \<and> CHR '' '' \<notin> set w"
  shows "userhost_records [] (joined ws) = ws"
  using assms
proof (induction ws rule: joined.induct)
  case (2 p)
  then show ?case using userhost_piece [of p "[]" "[]"] by simp
next
  case (3 p q ps)
  then show ?case using userhost_piece [of p "[]" "CHR '' '' # joined (q # ps)"] by simp
qed simp

lemma userhost_message_of:
  assumes "CHR ''='' \<notin> set n" "CHR ''@'' \<notin> set u"
  shows "userhost_message (n @ ''='' @ u @ ''@'' @ h) =
    Some (n @ '' is \"'' @ u @ ''\" on \"'' @ h @ ''\"'' @ [CHR 0x0A])"
proof -
  have "takeWhile (\<lambda>c. c \<noteq> x) (w @ x # s) = w \<and> dropWhile (\<lambda>c. c \<noteq> x) (w @ x # s) = x # s" if "x \<notin> set w" for x :: char and w s
    using that by (induction w) auto
  with assms show ?thesis by (simp add: userhost_message_def Let_def)
qed

text \<open>A reply about users is taken apart as it was put together: every record of a nickname, a user and a host is
  logged in words, in order. The sign before the user, which says whether the user is away, stays with the name.\<close>

theorem userhost_reply:
  assumes "\<forall>(n, u, h) \<in> set us. {CHR '' '', CHR ''=''} \<inter> set n = {} \<and> {CHR '' '', CHR ''@''} \<inter> set u = {} \<and> CHR '' '' \<notin> set h"
  shows "userhost_events (joined (map (\<lambda>(n, u, h). n @ ''='' @ u @ ''@'' @ h) us)) =
    map (\<lambda>(n, u, h). Log [] (n @ '' is \"'' @ u @ ''\" on \"'' @ h @ ''\"'' @ [CHR 0x0A])) us"
proof -
  have "userhost_records [] (joined (map (\<lambda>(n, u, h). n @ ''='' @ u @ ''@'' @ h) us)) = map (\<lambda>(n, u, h). n @ ''='' @ u @ ''@'' @ h) us"
    using assms by (intro userhost_joined) auto
  moreover have "List.map_filter userhost_message (map (\<lambda>(n, u, h). n @ ''='' @ u @ ''@'' @ h) us) =
      map (\<lambda>(n, u, h). n @ '' is \"'' @ u @ ''\" on \"'' @ h @ ''\"'' @ [CHR 0x0A]) us"
    using assms
  proof (induction us)
    case (Cons x us)
    obtain n u h where x: "x = (n, u, h)" by (cases x) auto
    with Cons.prems have "userhost_message (n @ ''='' @ u @ ''@'' @ h) = Some (n @ '' is \"'' @ u @ ''\" on \"'' @ h @ ''\"'' @ [CHR 0x0A])"
      by (intro userhost_message_of) auto
    with Cons x show ?case by (simp add: map_filter_simps)
  qed (simp add: map_filter_simps)
  ultimately show ?thesis by (simp add: userhost_events_def comp_def case_prod_unfold)
qed

section \<open>Which messages fault\<close>

text \<open>How many parameters the handler takes for granted, and which of them it takes for a change of modes.\<close>

fun arity :: "irc_build \<Rightarrow> string \<Rightarrow> command_text \<Rightarrow> string list \<Rightarrow> nat" where
  "arity b nick (Numeric_command n) ps =
    (if n = 302 \<or> n = 366 then 1 else if n = 322 then 3 else if n = 352 then (if asserts b then 8 else 7)
     else if n = 353 then (if asserts b then 3 else 2) else 0)"
| "arity b nick (Text_command c) ps =
    (if c \<in> {''NICK'', ''QUIT'', ''JOIN'', ''PART'', ''PRIVMSG''} then 1
     else if c = ''MODE'' then (if ps \<noteq> [] \<and> hd ps = nick then 1 else 2) else 0)"
| "arity b nick No_command ps = 0"

definition modes_text :: "string \<Rightarrow> string list \<Rightarrow> string" where
  "modes_text nick ps = (if hd ps = nick then last ps else ps ! 1)"

lemma bind_res_Inl: "bind_res r f = Inl e \<longleftrightarrow> r = Inl e \<or> (\<exists>a. r = Inr a \<and> f a = Inl e)"
  by (cases r) auto

lemma log_record_fault:
  assumes "owns h r"
  shows "log_record h r = Inl e \<longleftrightarrow> e = Undefined_Behaviour \<and> parameters r = [] \<and>
      command_value h (command r) \<in> Text_command ` {''NICK'', ''QUIT'', ''JOIN'', ''PART''}"
    and "error_record h r = Inl e \<longleftrightarrow> e = Undefined_Behaviour \<and> parameters r = [] \<and>
      command_value h (command r) \<in> Text_command ` {''NICK'', ''QUIT'', ''JOIN'', ''PART''}"
  using RecordToString_fault [OF assms, of e] by (simp_all add: log_record_def error_record_def bind_res_Inl)

lemma numeric_never_logged:
  assumes "command r = NUMERIC n"
  shows "\<exists>t. log_record h r = Inr [Log [] t]" "\<exists>t. error_record h r = Inr [Status t]"
proof -
  have "RecordToString h r \<noteq> Inl e" for e
    using RecordToString_fault [of h r e] assms by (auto simp: owns_def command_value_def)
  then obtain t where "RecordToString h r = Inr t" by (cases "RecordToString h r") auto
  then show "\<exists>t. log_record h r = Inr [Log [] t]" "\<exists>t. error_record h r = Inr [Status t]"
    by (simp_all add: log_record_def error_record_def)
qed

lemma numeric_fault:
  assumes "command r = NUMERIC n"
  shows "(\<exists>e. notify_numeric b h r n s = Inl e) \<longleftrightarrow> length (parameters r) < arity b nick (Numeric_command n) (parameters r)"
proof -
  obtain t t' where t: "log_record h r = Inr [Log [] t]" "error_record h r = Inr [Status t']"
    using numeric_never_logged [OF assms, of h] by blast
  consider "n \<in> set logged_numerics \<union> set silent_numerics \<union> set reported_numerics" | "n \<in> {302, 315, 322, 352, 353, 366}"
    | "n \<notin> set logged_numerics \<union> set silent_numerics \<union> set reported_numerics" "n \<notin> {302, 315, 322, 352, 353, 366}" by blast
  then show ?thesis
  proof cases
    case 1
    then have "arity b nick (Numeric_command n) (parameters r) = 0"
      by (auto simp: logged_numerics_def silent_numerics_def reported_numerics_def)
    moreover have "n \<notin> {302, 315, 322, 352, 353, 366}"
      using 1 by (auto simp: logged_numerics_def silent_numerics_def reported_numerics_def)
    ultimately show ?thesis using 1 by (auto simp: notify_numeric_def t Let_def)
  next
    case 2
    then show ?thesis
      by (auto simp: notify_numeric_def logged_numerics_def silent_numerics_def t list_back_def at_least_def Let_def)
  next
    case 3
    then show ?thesis by (simp add: notify_numeric_def Let_def)
  qed
qed

lemma type_of_word:
  assumes "command_word t = Some w"
  shows "CommandToType c = t \<longleftrightarrow> c = w"
  using assms CommandToType_iff [of c t] CommandToType_iff [of w t] by auto

lemma command_types:
  "CommandToType c = NICK \<longleftrightarrow> c = ''NICK''" "CommandToType c = CommandType.USER \<longleftrightarrow> c = ''USER''"
  "CommandToType c = QUIT \<longleftrightarrow> c = ''QUIT''" "CommandToType c = JOIN \<longleftrightarrow> c = ''JOIN''"
  "CommandToType c = PART \<longleftrightarrow> c = ''PART''" "CommandToType c = MODE \<longleftrightarrow> c = ''MODE''"
  "CommandToType c = PRIVMSG \<longleftrightarrow> c = ''PRIVMSG''" "CommandToType c = TOPIC \<longleftrightarrow> c = ''TOPIC''"
  "CommandToType c = KICK \<longleftrightarrow> c = ''KICK''" "CommandToType c = NOTICE \<longleftrightarrow> c = ''NOTICE''"
  "CommandToType c = AWAY \<longleftrightarrow> c = ''AWAY''" "CommandToType c = ERROR \<longleftrightarrow> c = ''ERROR''"
  "CommandToType c = PING \<longleftrightarrow> c = ''PING''"
  by (rule type_of_word, simp add: command_word_def command_words_def)+

lemma merge_fault:
  "(\<exists>e. merge_user m u = Inl e) \<longleftrightarrow> m = []" "(\<exists>e. merge_channel m w = Inl e) \<longleftrightarrow> m = []"
  by (simp_all add: merge_user_def merge_channel_def merge_with_def split: list.split prod.split)

lemma bind_snd_fault: "bind_res r (\<lambda>(_, y). Inr (f y)) = Inl e \<longleftrightarrow> r = Inl e"
  by (cases r) auto

lemma mode_fault:
  "(\<exists>e. notify_mode ps s = Inl e) \<longleftrightarrow> length ps < arity b (nickName s) (Text_command ''MODE'') ps
     \<or> modes_text (nickName s) ps = []"
proof (cases ps)
  case Nil
  then show ?thesis by (simp add: notify_mode_def list_front_def)
next
  case (Cons p qs)
  then show ?thesis
    by (cases "p = nickName s"; cases qs) (simp_all add: notify_mode_def list_front_def modes_text_def bind_snd_fault merge_fault)
qed

text \<open>The textual commands that are not even printed without parameters.\<close>

definition unprintable :: "string \<Rightarrow> string list \<Rightarrow> bool" where
  "unprintable c ps \<longleftrightarrow> ps = [] \<and> c \<in> {''NICK'', ''QUIT'', ''JOIN'', ''PART''}"

lemma logged:
  assumes "owns h r" "command_value h (command r) = Text_command c"
  obtains es es' where
    "log_record h r = (if unprintable c (parameters r) then Inl Undefined_Behaviour else Inr es)"
    "error_record h r = (if unprintable c (parameters r) then Inl Undefined_Behaviour else Inr es')"
proof -
  have c: "Text_command c \<in> Text_command ` C \<longleftrightarrow> c \<in> C" for C by blast
  have r: "\<exists>y. x = (if P then Inl Undefined_Behaviour else Inr y)"
    if "\<And>e. x = Inl e \<longleftrightarrow> e = Undefined_Behaviour \<and> P" for x :: "session_event list res" and P
    using that by (cases x) auto
  note fault = log_record_fault [OF assms(1), unfolded assms(2) c, folded unprintable_def]
  from that r [OF fault(1)] r [OF fault(2)] show thesis by blast
qed

lemma text_fault:
  assumes "owns h r" "command_value h (command r) = Text_command c"
  shows "(\<exists>e. notify_text b ui h r (CommandToType c) s = Inl e) \<longleftrightarrow>
    length (parameters r) < arity b (nickName s) (Text_command c) (parameters r)
    \<or> c = ''MODE'' \<and> modes_text (nickName s) (parameters r) = []"
proof -
  obtain es es' where l:
    "log_record h r = (if unprintable c (parameters r) then Inl Undefined_Behaviour else Inr es)"
    "error_record h r = (if unprintable c (parameters r) then Inl Undefined_Behaviour else Inr es')"
    by (rule logged [OF assms])
  show ?thesis
  proof (cases "c = ''MODE''")
    case True
    then have "notify_text b ui h r (CommandToType c) s = bind_res (notify_mode (parameters r) s) (\<lambda>s'. Inr (s', es))"
      by (simp add: notify_text_def command_types l unprintable_def)
    then have "(\<exists>e. notify_text b ui h r (CommandToType c) s = Inl e) \<longleftrightarrow> (\<exists>e. notify_mode (parameters r) s = Inl e)"
      by (cases "notify_mode (parameters r) s") simp_all
    with True show ?thesis using mode_fault [of "parameters r" s b] by simp
  next
    case mode: False
    show ?thesis
    proof (cases "c \<in> {''NICK'', ''QUIT'', ''JOIN'', ''PART'', ''PRIVMSG''}")
      case True
      then have "length (parameters r) < arity b (nickName s) (Text_command c) (parameters r) \<longleftrightarrow> parameters r = []" by auto
      moreover have "(\<exists>e. notify_text b ui h r (CommandToType c) s = Inl e) \<longleftrightarrow> parameters r = []"
        using True by (elim insertE emptyE; simp add: notify_text_def command_types l unprintable_def list_front_def list_back_def
            notify_join_def notify_part_def Let_def)
      ultimately show ?thesis using mode by simp
    next
      case False
      then have "arity b (nickName s) (Text_command c) (parameters r) = 0" using mode by simp
      moreover have "\<nexists>e. notify_text b ui h r (CommandToType c) s = Inl e"
        using mode False by (simp add: notify_text_def command_types l unprintable_def Let_def)
      ultimately show ?thesis using mode by (simp del: arity.simps)
    qed
  qed
qed

lemma notify_fault:
  assumes "owns h r"
  shows "(\<exists>e. session_notify b ui h r s = Inl e) \<longleftrightarrow>
    length (parameters r) < arity b (nickName s) (command_value h (command r)) (parameters r)
    \<or> command_value h (command r) = Text_command ''MODE'' \<and> modes_text (nickName s) (parameters r) = []"
proof (cases "command r")
  case (NUMERIC n)
  then show ?thesis using numeric_fault [OF NUMERIC, of b h s "nickName s"]
    by (simp add: session_notify_def command_value_def)
next
  case (STRING p)
  with assms obtain c where c: "deref h p = Inr c" by (auto simp: owns_def deref_def split: option.splits)
  then show ?thesis using text_fault [OF assms, of c b ui s] STRING
    by (simp add: session_notify_def command_value_def)
qed (simp add: session_notify_def command_value_def)

text \<open>C23: Which messages the client does not survive: whatever a server sends, and whatever the state and the build, notifying the session of it faults
  exactly when the message has fewer parameters than the handler takes for granted for its
  command, or when it is a change of modes whose text is empty. Every other message is handled,
  those with unknown commands included.\<close>

theorem session_fault:
  assumes "owns h r"
  shows "(\<exists>e. session_notify b ui h r s = Inl e) \<longleftrightarrow>
    length (parameters r) < arity b (nickName s) (command_value h (command r)) (parameters r)
    \<or> command_value h (command r) = Text_command ''MODE'' \<and> modes_text (nickName s) (parameters r) = []"
  by (rule notify_fault [OF assms])

theorem session_fault_witness:
  "\<exists>e. session_notify \<lparr>gui_support = True, curses_use = False, asserts = True\<rparr> False [0 \<mapsto> ''QUIT'']
    (new_IRC_Record\<lparr>command := STRING (Some 0)\<rparr>) new_SessionState = Inl e"
  using session_fault [of "[0 \<mapsto> ''QUIT'']" "new_IRC_Record\<lparr>command := STRING (Some 0)\<rparr>"
      "\<lparr>gui_support = True, curses_use = False, asserts = True\<rparr>" False new_SessionState]
  by (simp add: owns_def new_IRC_Record_def command_value_def deref_def)

end
