(* ===== verification/IRC_Client.thy ===== *)
theory IRC_Client
  imports IRC_Session
begin

text \<open>
  An IRC client as a whole: the octets of the server go through the bisector and the parser into the
  session. \<open>irc_view\<close> is what a client knows of itself by the protocol, and \<open>view_step\<close> how the
  messages of the server change it; the session is related to it by \<open>view_of\<close>.
\<close>

section \<open>The client\<close>

text \<open>From the octets to the session: the bisector, the parser and the session, one after the other.\<close>

definition irc_client ::
  "irc_build \<Rightarrow> bool \<Rightarrow> nat \<Rightarrow> nat \<Rightarrow> string list \<Rightarrow> IRC_SessionState \<Rightarrow> notified" where
  "irc_client b ui boundary n chunks s =
    bind_res (bisect_all new_bisector chunks) (\<lambda>(outs, _).
      bind_res (parse_messages boundary n In_initial outs) (\<lambda>(vs, _). notify_all b ui vs s))"

section \<open>What a client knows\<close>

text \<open>The nickname, the channel that the user is in, if any, and the modes of both.\<close>

record irc_view =
  nick :: string
  joined :: "string option"
  own_modes :: "IRC_UserMode set"
  joined_modes :: "IRC_ChannelMode set"

definition apply_modes :: "'m set \<Rightarrow> (char \<Rightarrow> 'm) \<Rightarrow> string \<Rightarrow> 'm set \<Rightarrow> 'm set" where
  "apply_modes known mode t M =
    (let named = mode ` set (tl t) \<inter> known in if hd t = CHR ''+'' then M \<union> named else M - named)"

text \<open>
  The messages that change it: of those that name a user only the messages about the own user, of those that name a channel only
  those about the channel that the user is in, whose modes are not known at first.
\<close>

fun view_step :: "parsed \<Rightarrow> irc_view \<Rightarrow> irc_view" where
  "view_step (p, Text_command c, ps) v =
    (if c = ''NICK'' \<and> origin p = nick v then v\<lparr>nick := hd ps\<rparr>
     else if c = ''JOIN'' \<and> origin p = nick v then v\<lparr>joined := Some (hd ps), joined_modes := {}\<rparr>
     else if c = ''PART'' \<and> origin p = nick v \<and> joined v = Some (hd ps) then v\<lparr>joined := None\<rparr>
     else if c = ''KICK'' \<and> joined v = Some (hd ps) \<and> ps ! 1 = nick v then v\<lparr>joined := None\<rparr>
     else if c = ''MODE'' \<and> hd ps = nick v
       then v\<lparr>own_modes := apply_modes (set user_modes) CharToUserMode (last ps) (own_modes v)\<rparr>
     else if c = ''MODE'' \<and> joined v = Some (hd ps)
       then v\<lparr>joined_modes := apply_modes (set channel_modes) CharToChannelMode (ps ! 1) (joined_modes v)\<rparr>
     else v)"
| "view_step (p, _, ps) v = v"

definition view_of :: "IRC_SessionState \<Rightarrow> irc_view" where
  "view_of s = \<lparr>nick = nickName s, joined = (if channel s = [] then None else Some (channel s)),
     own_modes = {m. bit (userModes s) (user_mode_value m)},
     joined_modes = {m. bit (channelModes s) (channel_mode_value m)}\<rparr>"

lemma view_of_simps [simp]:
  "nick (view_of s) = nickName s" "joined (view_of s) = (if channel s = [] then None else Some (channel s))"
  "own_modes (view_of s) = {m. bit (userModes s) (user_mode_value m)}"
  "joined_modes (view_of s) = {m. bit (channelModes s) (channel_mode_value m)}"
  by (simp_all add: view_of_def)

text \<open>
  The messages that the session follows. It does not fault, nobody else changes a nickname, no modes are left
  of another channel, no other channel is left or changes its modes, and the user is not kicked.
\<close>

definition followed :: "irc_build \<Rightarrow> parsed \<Rightarrow> irc_view \<Rightarrow> bool" where
  "followed b m v \<longleftrightarrow> (case m of (p, c, ps) \<Rightarrow> arity b (nick v) c ps \<le> length ps
     \<and> (case c of
         Text_command t \<Rightarrow>
           (t = ''NICK'' \<longrightarrow> origin p = nick v)
         \<and> (t = ''JOIN'' \<longrightarrow> origin p = nick v \<longrightarrow> hd ps \<noteq> [] \<and> joined_modes v = {})
         \<and> (t = ''PART'' \<longrightarrow> origin p = nick v \<longrightarrow> joined v \<in> {None, Some (hd ps)})
         \<and> (t = ''KICK'' \<longrightarrow> joined v = Some (hd ps) \<longrightarrow> ps ! 1 \<noteq> nick v)
         \<and> (t = ''MODE'' \<longrightarrow> modes_text (nick v) ps \<noteq> [] \<and> (hd ps = nick v \<or> joined v = Some (hd ps)))
       | _ \<Rightarrow> True))"

fun all_followed :: "irc_build \<Rightarrow> parsed list \<Rightarrow> irc_view \<Rightarrow> bool" where
  "all_followed b [] v \<longleftrightarrow> True"
| "all_followed b (m # ms) v \<longleftrightarrow> followed b m v \<and> all_followed b ms (view_step m v)"

section \<open>Modes\<close>

lemma mode_values:
  "user_mode_value m < 7 \<longleftrightarrow> m \<in> set user_modes" "channel_mode_value k < 14 \<longleftrightarrow> k \<in> set channel_modes"
proof -
  show "user_mode_value m < 7 \<longleftrightarrow> m \<in> set user_modes" by (cases m) (simp_all add: user_modes_def)
  show "channel_mode_value k < 14 \<longleftrightarrow> k \<in> set channel_modes" by (cases k) (simp_all add: channel_modes_def)
qed

lemma mode_value_inj:
  "user_mode_value m = user_mode_value m' \<longleftrightarrow> m = m'" "channel_mode_value k = channel_mode_value k' \<longleftrightarrow> k = k'"
proof -
  have "(user_modes @ [USERMODE_MAX, USERMODE_INVALID]) ! user_mode_value m = m" for m
    by (cases m) (simp_all add: user_modes_def)
  then show "user_mode_value m = user_mode_value m' \<longleftrightarrow> m = m'" by metis
  have "(channel_modes @ [CHANNELMODE_MAX, CHANNELMODE_INVALID]) ! channel_mode_value k = k" for k
    by (cases k) (simp_all add: channel_modes_def)
  then show "channel_mode_value k = channel_mode_value k' \<longleftrightarrow> k = k'" by metis
qed

lemma merged_modes:
  "merge_user t u = Inr (n, u') \<Longrightarrow> {m. bit u' (user_mode_value m)} =
    apply_modes (set user_modes) CharToUserMode t {m. bit u (user_mode_value m)}"
  "merge_channel t w = Inr (n, w') \<Longrightarrow> {k. bit w' (channel_mode_value k)} =
    apply_modes (set channel_modes) CharToChannelMode t {k. bit w (channel_mode_value k)}"
proof -
  assume m: "merge_user t u = Inr (n, u')"
  then obtain c cs where t: "t = c # cs" by (cases t) (auto simp: merge_user_def merge_with_def)
  show "{m. bit u' (user_mode_value m)} = apply_modes (set user_modes) CharToUserMode t {m. bit u (user_mode_value m)}"
    using umodes.merge_with_spec [of c cs u] m
    by (auto simp: t merge_user_def apply_modes_def umodes.named_def mode_values mode_value_inj image_iff Let_def)
next
  assume m: "merge_channel t w = Inr (n, w')"
  then obtain c cs where t: "t = c # cs" by (cases t) (auto simp: merge_channel_def merge_with_def)
  show "{k. bit w' (channel_mode_value k)} = apply_modes (set channel_modes) CharToChannelMode t {k. bit w (channel_mode_value k)}"
    using cmodes.merge_with_spec [of c cs w] m
    by (auto simp: t merge_channel_def apply_modes_def cmodes.named_def mode_values mode_value_inj image_iff Let_def)
qed

section \<open>One message\<close>

text \<open>What the handler leaves of the state, when it does not fault.\<close>

lemma bind_log: "bind_res r (\<lambda>es. Inr (s, f es)) = Inr (s', es') \<Longrightarrow> s' = s"
  by (cases r) auto

lemma numeric_state:
  assumes "notify_numeric b h r n s = Inr (s', es)"
  shows "view_of s' = view_of s"
proof -
  have "view_of (s\<lparr>isFirstMessage := x\<rparr>) = view_of s" for x by (simp add: view_of_def)
  with assms show ?thesis
    by (auto simp: notify_numeric_def at_least_def Let_def bind_res_eq_Inr split: if_splits)
qed

lemma mode_state:
  assumes "notify_mode ps s = Inr s'"
  shows "view_of s' = (if hd ps = nickName s
    then (view_of s)\<lparr>own_modes := apply_modes (set user_modes) CharToUserMode (last ps) (own_modes (view_of s))\<rparr>
    else (view_of s)\<lparr>joined_modes := apply_modes (set channel_modes) CharToChannelMode (ps ! 1) (joined_modes (view_of s))\<rparr>)"
proof (cases ps)
  case Nil
  with assms show ?thesis by (simp add: notify_mode_def list_front_def)
next
  case (Cons p qs)
  show ?thesis
  proof (cases "p = nickName s")
    case True
    with assms Cons obtain n m where m: "merge_user (last ps) (userModes s) = Inr (n, m)" "s' = s\<lparr>userModes := m\<rparr>"
      by (auto simp: notify_mode_def list_front_def bind_res_eq_Inr simp del: last.simps)
    with True Cons merged_modes(1) [OF m(1)] show ?thesis by (simp add: view_of_def del: last.simps)
  next
    case False
    with assms Cons obtain q qs' n m where m: "qs = q # qs'" "merge_channel q (channelModes s) = Inr (n, m)"
        "s' = s\<lparr>channelModes := m\<rparr>"
      by (auto simp: notify_mode_def list_front_def bind_res_eq_Inr split: list.splits)
    with False Cons merged_modes(2) [OF m(2)] show ?thesis by (simp add: view_of_def)
  qed
qed

lemma text_state:
  assumes "notify_text b ui h r (CommandToType c) s = Inr (s', es)" "gui_support b"
  shows "(if c = ''MODE'' then notify_mode (parameters r) s = Inr s'
    else s' = (if c = ''NICK'' then s\<lparr>nickName := hd (parameters r)\<rparr>
      else if c = ''JOIN'' \<and> origin (prefix r) = nickName s then s\<lparr>channel := hd (parameters r)\<rparr>
      else if c = ''PART'' \<and> origin (prefix r) = nickName s then s\<lparr>channel := []\<rparr> else s))"
  using assms
  by (auto simp: notify_text_def command_types notify_join_def notify_part_def list_front_def Let_def bind_res_eq_Inr
      dest: bind_log split: if_splits)

lemma step_followed:
  assumes "gui_support b" "owns h r" "followed b (message_value h r) (view_of s)"
  shows "\<exists>s' es. session_notify b ui h r s = Inr (s', es) \<and> view_of s' = view_step (message_value h r) (view_of s)"
proof -
  let ?ps = "parameters r" and ?v = "command_value h (command r)"
  have "\<nexists>e. session_notify b ui h r s = Inl e"
    using assms(3) by (simp add: notify_fault [OF assms(2)] followed_def split: command_text.splits)
  then obtain s' es where n: "session_notify b ui h r s = Inr (s', es)"
    by (cases "session_notify b ui h r s") auto
  moreover have "view_of s' = view_step (message_value h r) (view_of s)"
  proof (cases "command r")
    case (NUMERIC k)
    with n numeric_state [of b h r k s s' es] show ?thesis by (simp add: session_notify_def command_value_def)
  next
    case (STRING p)
    with assms(2) obtain c where c: "deref h p = Inr c" by (auto simp: owns_def deref_def split: option.splits)
    with STRING n have t: "notify_text b ui h r (CommandToType c) s = Inr (s', es)" by (simp add: session_notify_def)
    from STRING c have v: "?v = Text_command c" by (simp add: command_value_def)
    show ?thesis
    proof (cases "c = ''MODE''")
      case True
      with text_state [OF t assms(1)] have "notify_mode ?ps s = Inr s'" by simp
      from mode_state [OF this] True assms(3) show ?thesis
        by (auto simp: v followed_def split: if_splits)
    next
      case False
      with text_state [OF t assms(1)] assms(3) show ?thesis
        by (auto simp: v followed_def view_of_def split: if_splits)
    qed
  next
    case INVALID
    with n show ?thesis by (simp add: session_notify_def command_value_def)
  qed
  ultimately show ?thesis by blast
qed

section \<open>Streams of messages\<close>

lemma all_notified:
  assumes "gui_support b" "all_followed b ms (view_of s)"
  shows "\<exists>s' es. notify_all b ui ms s = Inr (s', es) \<and> view_of s' = fold view_step ms (view_of s)"
  using assms(2)
proof (induction ms arbitrary: s)
  case (Cons m ms)
  then obtain s1 es where "session_notify b ui (fst (record_of m)) (snd (record_of m)) s = Inr (s1, es)"
      and v: "view_of s1 = view_step m (view_of s)"
    using step_followed [OF assms(1) record_of_value(1), of m s ui] by (auto simp: record_of_value(2))
  moreover have "all_followed b ms (view_of s1)" using Cons.prems v by simp
  then obtain s2 es' where "notify_all b ui ms s1 = Inr (s2, es')" "view_of s2 = fold view_step ms (view_of s1)"
    using Cons.IH [of s1] by blast
  ultimately show ?case using v by simp
qed simp


section \<open>Where the session does not follow\<close>

lemma text_words:
  "CommandToType ''NICK'' = NICK" "CommandToType ''JOIN'' = JOIN" "CommandToType ''KICK'' = KICK"
  by (simp_all add: command_types)

text \<open>C25: Two messages that the session misunderstands. A change of nickname is taken for the own one, whoever it comes from: after it the reply to the
  own request to join a channel is a stranger's, and the channel is not set. And being kicked out of the channel changes nothing:
  the session stays in it.\<close>

theorem session_misunderstands:
  assumes "origin q = nickName s" "n \<noteq> nickName s"
  shows "(\<exists>es. notify_all b ui [(p, Text_command ''NICK'', [n]), (q, Text_command ''JOIN'', [c])] s = Inr (s\<lparr>nickName := n\<rparr>, es))
    \<and> (\<exists>es. notify_all b ui [(p, Text_command ''KICK'', [channel s, nickName s])] s = Inr (s, es))"
proof -
  have "\<exists>es. session_notify b ui (fst (record_of (p, Text_command ''NICK'', [n]))) (snd (record_of (p, Text_command ''NICK'', [n]))) s
      = Inr (s\<lparr>nickName := n\<rparr>, es)"
    by (simp add: session_notify_def record_of_def deref_def text_words notify_text_def list_front_def
        log_record_def RecordToString_def text_to_string_def list_back_def)
  moreover have "\<exists>es. session_notify b ui (fst (record_of (q, Text_command ''JOIN'', [c]))) (snd (record_of (q, Text_command ''JOIN'', [c])))
      (s\<lparr>nickName := n\<rparr>) = Inr (s\<lparr>nickName := n\<rparr>, es)"
    using assms by (simp add: session_notify_def record_of_def deref_def text_words notify_text_def
        log_record_def RecordToString_def text_to_string_def list_back_def)
  moreover have "\<exists>es. session_notify b ui (fst (record_of (p, Text_command ''KICK'', [channel s, nickName s])))
      (snd (record_of (p, Text_command ''KICK'', [channel s, nickName s]))) s = Inr (s, es)"
    by (simp add: session_notify_def record_of_def deref_def text_words notify_text_def
        log_record_def RecordToString_def text_to_string_def stringify_def Let_def)
  ultimately show ?thesis by fastforce
qed

lemma join_part_channel:
  assumes "\<not> gui_support b"
  shows "notify_join b False ps s = Inr (s', es) \<Longrightarrow> s' = s"
    and "notify_part b False ps s = Inr (s', es) \<Longrightarrow> s' = s"
  using assms by (auto simp: notify_join_def notify_part_def bind_res_eq_Inr)

lemma notify_keeps_channel:
  assumes "\<not> gui_support b" "session_notify b False h r s = Inr (s', es)"
  shows "channel s' = channel s"
proof -
  have "channel s' = channel s" if "notify_numeric b h r n s = Inr (s', es)" for n
    using that by (auto simp: notify_numeric_def at_least_def Let_def bind_res_eq_Inr split: if_splits)
  moreover have "channel s' = channel s" if "notify_mode ps s = Inr s'" for ps
    using that by (auto simp: notify_mode_def bind_res_eq_Inr split: if_splits list.splits)
  moreover have "channel s' = channel s" if "notify_text b False h r c s = Inr (s', es)" for c
    using that calculation(2)
    by (auto simp: notify_text_def Let_def bind_res_eq_Inr dest!: join_part_channel [OF assms(1)] split: if_splits)
  ultimately show ?thesis
    using assms(2) by (auto simp: session_notify_def bind_res_eq_Inr split: Command.splits)
qed

lemma notify_all_keeps_channel:
  assumes "\<not> gui_support b"
  shows "notify_all b False ms s = Inr (s', es) \<Longrightarrow> channel s' = channel s"
proof (induction ms arbitrary: s es)
  case (Cons m ms)
  then show ?case using notify_keeps_channel [OF assms] by (fastforce simp: bind_res_eq_Inr)
qed simp

lemma start_fields:
  assumes "session_start b e new_IRC_Session = Inr (i, k)"
  shows "\<not> UIState i \<and> channel (state_of i) = []"
  using assms
  by (auto simp: session_start_def start_input_def new_IRC_Session_def new_SessionState_def Let_def
      split: option.splits if_splits)

text \<open>C24: A session that is started never has a user interface: nothing of what it logs is shown, in any
  build, and in a library built without support for a user interface it never gets to know of the
  channel that it is in, whatever the server sends.\<close>

theorem session_channel_never:
  assumes "session_start b e new_IRC_Session = Inr (i, k)"
    and "irc_client b (UIState i) boundary n chunks (state_of i) = Inr (s', es)"
  shows "shown b (UIState i) es = [] \<and> (gui_support b \<or> channel s' = [])"
  using assms(2) start_fields [OF assms(1)] notify_all_keeps_channel [of b _ "state_of i" s' es]
  by (auto simp: shown_def irc_client_def bind_res_eq_Inr)

section \<open>Witnesses\<close>

definition demo_words :: strings where
  "demo_words = [0 \<mapsto> ''JOIN'', 1 \<mapsto> ''MODE'']"

definition wiz :: Prefix where
  "wiz = \<lparr>origin = ''wiz'', user = [], host = []\<rparr>"

definition demo_join :: IRC_Record where
  "demo_join = (message_of wiz [''#c''])\<lparr>command := STRING (Some 0)\<rparr>"

definition demo_mode :: IRC_Record where
  "demo_mode = (message_of server [''#c'', ''+nt''])\<lparr>command := STRING (Some 1)\<rparr>"

definition gui_build :: irc_build where
  "gui_build = \<lparr>gui_support = True, curses_use = False, asserts = True\<rparr>"

definition demo_start :: start_env where
  "demo_start = \<lparr>handler_module = Some (Some 1), configuration_p = Some \<lparr>loginNickname = Some ''wiz'',
     logToFile_option = False, cursesState = True\<rparr>, log_address = True, new_inputHandler = None,
     inputHandler_initialize = False\<rparr>"

definition wiz_state :: IRC_SessionState where
  "wiz_state = new_SessionState\<lparr>controller := Some 1, nickName := ''wiz''\<rparr>"

lemma demo_started_session:
  "session_start b demo_start new_IRC_Session = Inr (new_IRC_Session\<lparr>state_of := wiz_state\<rparr>, True)"
  by (simp add: session_start_def demo_start_def start_input_def new_IRC_Session_def wiz_state_def)

lemma demo_values:
  "message_value demo_words demo_join = (wiz, Text_command ''JOIN'', [''#c''])"
  "message_value demo_words demo_mode = (server, Text_command ''MODE'', [''#c'', ''+nt''])"
  by (simp_all add: demo_join_def demo_mode_def message_of_fields command_value_def deref_def demo_words_def)

lemma demo_words_sendable: "sendable demo_words demo_join" "sendable demo_words demo_mode"
proof -
  have "command_ok ''JOIN'' (Text_command ''JOIN'')" "command_ok ''MODE'' (Text_command ''MODE'')"
    by (simp_all add: command_ok_def alpha_def)
  moreover have "parameters_ok [''#c'']" "parameters_ok [''#c'', ''+nt'']"
    by (simp_all add: parameters_ok_def middle_def param_char_def trailing_char_def)
  moreover have "names_ok wiz" by (simp add: names_ok_def wiz_def origin_name_def host_char_def alpha_def)
  moreover have "command_of demo_words demo_join = ''JOIN''" "command_of demo_words demo_mode = ''MODE''"
    "command_text_of demo_words (command demo_join) \<noteq> None" "command_text_of demo_words (command demo_mode) \<noteq> None"
    by (simp_all add: command_of_def demo_join_def demo_mode_def command_text_of_def deref_def demo_words_def)
  moreover have "irc_text ''JOIN'' demo_join = '':wiz JOIN #c'' @ irc_crlf" "irc_text ''MODE'' demo_mode = '':irc.net MODE #c +nt'' @ irc_crlf"
    by (simp_all add: irc_text_def demo_join_def demo_mode_def message_of_fields wiz_def server_def prefix_text_def marked_text_def
        next_ranges_def separator_def Let_def)
  moreover have "command_value demo_words (command demo_join) = Text_command ''JOIN''" "prefix demo_join = wiz"
      "parameters demo_join = [''#c'']" "parameterRanges demo_join = []"
    "command_value demo_words (command demo_mode) = Text_command ''MODE''" "prefix demo_mode = server"
      "parameters demo_mode = [''#c'', ''+nt'']" "parameterRanges demo_mode = []"
    using demo_values by (simp_all add: demo_join_def demo_mode_def message_of_fields)
  ultimately show "sendable demo_words demo_join" "sendable demo_words demo_mode"
    using server_ok by (simp_all add: sendable_def parseable_def irc_crlf_def IRC_MAXIMUM_FRAME_SIZE_def wiz_def server_def)
qed

definition demo_chunks :: "string list" where
  "demo_chunks = ['':wiz JOIN #c'' @ irc_crlf @ '':irc.net MODE #'', ''c +nt'' @ irc_crlf]"

lemma demo_stream:
  "mb_laws bounded_block snd" "IRC_MAXIMUM_FRAME_SIZE \<le> mb_space bounded_block (512, [])"
  "\<forall>r \<in> set [demo_join, demo_mode]. sendable demo_words r
     \<and> irc_handleDataMessage bounded_block demo_words r (512, []) = Inr (Some (demo_sent demo_words r), True)"
  "concat demo_chunks = concat (map (\<lambda>r. snd (demo_sent demo_words r)) [demo_join, demo_mode]) @ []" "unfinished []"
  "\<forall>chunk \<in> set demo_chunks. length chunk \<noteq> 1" "IRC_MAXIMUM_FRAME_SIZE + 2 \<le> 514"
proof -
  have "command_of demo_words demo_join = ''JOIN''" "command_of demo_words demo_mode = ''MODE''"
    by (simp_all add: command_of_def demo_join_def demo_mode_def command_text_of_def deref_def demo_words_def)
  moreover have "irc_text ''JOIN'' demo_join = '':wiz JOIN #c'' @ irc_crlf" "irc_text ''MODE'' demo_mode = '':irc.net MODE #c +nt'' @ irc_crlf"
    by (simp_all add: irc_text_def demo_join_def demo_mode_def message_of_fields wiz_def server_def prefix_text_def marked_text_def
        next_ranges_def separator_def Let_def)
  ultimately show "concat demo_chunks = concat (map (\<lambda>r. snd (demo_sent demo_words r)) [demo_join, demo_mode]) @ []"
    using demo_sent(2) [OF demo_words_sendable(1)] demo_sent(2) [OF demo_words_sendable(2)]
    by (simp add: demo_chunks_def irc_crlf_def)
qed (use demo_sent(1) demo_words_sendable bounded_block_laws in
    \<open>simp_all add: bounded_block_def IRC_MAXIMUM_FRAME_SIZE_def demo_chunks_def irc_crlf_def unfinished_def line_def plain_def\<close>)


theorem session_misunderstands_witness:
  "(\<exists>es. notify_all gui_build False [(server, Text_command ''NICK'', [''root'']), (wiz, Text_command ''JOIN'', [''#c''])] wiz_state
      = Inr (wiz_state\<lparr>nickName := ''root''\<rparr>, es))
    \<and> (\<exists>es. notify_all gui_build False [(server, Text_command ''KICK'', [channel wiz_state, nickName wiz_state])] wiz_state = Inr (wiz_state, es))"
  by (rule session_misunderstands) (simp_all add: wiz_def wiz_state_def)

theorem session_channel_never_witness:
  "\<exists>s' es. irc_client (gui_build\<lparr>gui_support := False\<rparr>) False 2 514 demo_chunks wiz_state = Inr (s', es) \<and> channel s' = []"
proof -
  let ?b = "gui_build\<lparr>gui_support := False\<rparr>"
  obtain outs bis where o: "bisect_all new_bisector demo_chunks = Inr (outs, bis)"
    "parse_messages 2 514 In_initial outs = Inr ([(wiz, Text_command ''JOIN'', [''#c'']), (server, Text_command ''MODE'', [''#c'', ''+nt''])], In_initial)"
    using irc_received [OF demo_stream(1) _ demo_stream(2-7)] by (auto simp: demo_values)
  have "\<exists>s' es. session_notify ?b False (fst (record_of m)) (snd (record_of m)) s = Inr (s', es)"
    if "m \<in> {(wiz, Text_command ''JOIN'', [''#c'']), (server, Text_command ''MODE'', [''#c'', ''+nt''])}" for m s
    using notify_fault [OF record_of_value(1), of ?b False m s] record_of_value(2) [of m] that
    by (cases "session_notify ?b False (fst (record_of m)) (snd (record_of m)) s") (auto simp: modes_text_def split: if_splits)
  note notified = this
  obtain s1 es1 where "session_notify ?b False (fst (record_of (wiz, Text_command ''JOIN'', [''#c''])))
      (snd (record_of (wiz, Text_command ''JOIN'', [''#c'']))) wiz_state = Inr (s1, es1)"
    using notified by blast
  moreover obtain s2 es2 where "session_notify ?b False (fst (record_of (server, Text_command ''MODE'', [''#c'', ''+nt''])))
      (snd (record_of (server, Text_command ''MODE'', [''#c'', ''+nt'']))) s1 = Inr (s2, es2)"
    using notified by blast
  ultimately have "\<exists>s' es. irc_client ?b False 2 514 demo_chunks wiz_state = Inr (s', es)"
    by (simp add: irc_client_def o)
  moreover have "session_start ?b demo_start new_IRC_Session = Inr (new_IRC_Session\<lparr>state_of := wiz_state\<rparr>, True)"
    by (rule demo_started_session)
  ultimately show ?thesis
    using session_channel_never [of ?b demo_start "new_IRC_Session\<lparr>state_of := wiz_state\<rparr>" True 2 514 demo_chunks]
    by (fastforce simp: new_IRC_Session_def gui_build_def)
qed

end
