(* ===== verification/State_Switch.thy ===== *)
theory State_Switch
  imports Net_Prelude
begin

text \<open>
  The contract of a guarded state machine, which the registration of an IRC session and the
  monitor of a wireless interface share: a request for a new state is accepted along the edges
  of a graph, and then the machine is in that state, or refused without an effect. The lemmas are about
  the history of accepted states under any sequence of requests.
\<close>

fun chain :: "('s \<Rightarrow> 's \<Rightarrow> bool) \<Rightarrow> 's list \<Rightarrow> bool" where
  "chain e [] = True"
| "chain e [s] = True"
| "chain e (s # t # ss) = (e s t \<and> chain e (t # ss))"

lemma chain_snoc: "chain e (xs @ [t]) \<longleftrightarrow> chain e xs \<and> (xs = [] \<or> e (last xs) t)"
  by (induction e xs rule: chain.induct) auto

text \<open>The states a sequence of requests gets accepted, and the machine after it.\<close>

fun run_switch :: "('s \<Rightarrow> 'w \<Rightarrow> 'w \<times> bool) \<Rightarrow> 's list \<Rightarrow> 'w \<Rightarrow> 's list \<times> 'w" where
  "run_switch switch [] w = ([], w)"
| "run_switch switch (s # ss) w =
     (let (w', accepted) = switch s w; (hist, w'') = run_switch switch ss w'
      in (if accepted then s # hist else hist, w''))"

locale state_switch =
  fixes current :: "'w \<Rightarrow> 's" and switch :: "'s \<Rightarrow> 'w \<Rightarrow> 'w \<times> bool" and edge :: "'s \<Rightarrow> 's \<Rightarrow> bool"
  assumes accepts: "edge (current w) s \<Longrightarrow> snd (switch s w) \<and> current (fst (switch s w)) = s"
    and refuses: "\<not> edge (current w) s \<Longrightarrow> switch s w = (w, False)"
begin

lemma accepted_iff: "snd (switch s w) \<longleftrightarrow> edge (current w) s"
  using accepts refuses by (metis snd_conv)

lemma run_history:
  assumes "run_switch switch ss w = (hist, w')"
  shows "chain edge (current w # hist) \<and> current w' = last (current w # hist)"
  using assms
proof (induction ss arbitrary: w hist)
  case (Cons s ss)
  obtain w1 ok hist1 where step: "switch s w = (w1, ok)" "run_switch switch ss w1 = (hist1, w')"
    "hist = (if ok then s # hist1 else hist1)"
    using Cons.prems by (auto split: prod.splits)
  from Cons.IH [OF step(2)]
  have IH: "chain edge (current w1 # hist1)" "current w' = last (current w1 # hist1)" by auto
  show ?case
  proof (cases "edge (current w) s")
    case True
    with accepts [OF True] step IH show ?thesis by simp
  next
    case False
    with refuses [OF False] step IH show ?thesis by simp
  qed
qed simp

text \<open>Requests along a path are all accepted.\<close>

lemma run_path:
  "chain edge (current w # ss) \<Longrightarrow> fst (run_switch switch ss w) = ss"
proof (induction ss arbitrary: w)
  case (Cons s ss)
  then have "edge (current w) s" by simp
  from accepts [OF this] Cons show ?case
    by (auto simp: split_def Let_def)
qed simp

end

end
