(* ===== verification/IRC_Registration.thy ===== *)
theory IRC_Registration
  imports State_Switch
begin

text \<open>
  The registration of an IRC session, \<^verbatim>\<open>IRC_StateMachine_Registration\<close> in
  \<^verbatim>\<open>src/src/protocol/irc/irc_statemachine_registration.cpp\<close>. The change of the state itself is done
  by the base class, which is not part of the repository: it is the argument \<open>base\<close>, a function
  of the new state on the machine \<open>'w\<close>, whose state is read by \<open>state_of\<close>.
\<close>

datatype IRC_RegistrationStateType =
    IRC_REGISTRATION_STATE_INVALID | IRC_REGISTRATION_STATE_PASS | IRC_REGISTRATION_STATE_NICK
  | IRC_REGISTRATION_STATE_USER | IRC_REGISTRATION_STATE_FINISHED | IRC_REGISTRATION_STATE_MAX

definition initial_registration_state :: IRC_RegistrationStateType where
  "initial_registration_state = IRC_REGISTRATION_STATE_PASS"

fun registration_edge :: "IRC_RegistrationStateType \<Rightarrow> IRC_RegistrationStateType \<Rightarrow> bool" where
  "registration_edge IRC_REGISTRATION_STATE_PASS n =
     (n = IRC_REGISTRATION_STATE_NICK \<or> n = IRC_REGISTRATION_STATE_FINISHED)"
| "registration_edge IRC_REGISTRATION_STATE_NICK n = (n = IRC_REGISTRATION_STATE_USER)"
| "registration_edge IRC_REGISTRATION_STATE_USER n = (n = IRC_REGISTRATION_STATE_FINISHED)"
| "registration_edge IRC_REGISTRATION_STATE_FINISHED n = (n = IRC_REGISTRATION_STATE_PASS)"
| "registration_edge _ n = False"

definition registration_change ::
  "('w \<Rightarrow> IRC_RegistrationStateType) \<Rightarrow> (IRC_RegistrationStateType \<Rightarrow> 'w \<Rightarrow> 'w) \<Rightarrow>
   IRC_RegistrationStateType \<Rightarrow> 'w \<Rightarrow> 'w \<times> bool" where
  "registration_change state_of base newState w =
    (if registration_edge (state_of w) newState then (base newState w, True) else (w, False))"

fun registration_stateToString :: "IRC_RegistrationStateType \<Rightarrow> string" where
  "registration_stateToString IRC_REGISTRATION_STATE_NICK = ''NICK''"
| "registration_stateToString IRC_REGISTRATION_STATE_PASS = ''PASS''"
| "registration_stateToString IRC_REGISTRATION_STATE_USER = ''USER''"
| "registration_stateToString IRC_REGISTRATION_STATE_FINISHED = ''FINISHED''"
| "registration_stateToString _ = ''INVALID''"

text \<open>The documented effect of the base class: the machine is in the new state.\<close>

definition sets_state :: "('w \<Rightarrow> 's) \<Rightarrow> ('s \<Rightarrow> 'w \<Rightarrow> 'w) \<Rightarrow> bool" where
  "sets_state state_of base \<longleftrightarrow> (\<forall>s w. state_of (base s w) = s)"

lemma registration_switch:
  "sets_state state_of base \<Longrightarrow> state_switch state_of (registration_change state_of base) registration_edge"
  by unfold_locales (auto simp: registration_change_def sets_state_def)

text \<open>The machine whose only content is its state.\<close>

interpretation registration: state_switch
  "\<lambda>s. s" "registration_change (\<lambda>s. s) (\<lambda>n s. n)" registration_edge
  by (rule registration_switch) (simp add: sets_state_def)

section \<open>The order of a registration\<close>

text \<open>
  A round of registration leads from PASS back to PASS: over nickname and user, or at once.
\<close>

definition rounds :: "IRC_RegistrationStateType list list" where
  "rounds =
    [[IRC_REGISTRATION_STATE_NICK, IRC_REGISTRATION_STATE_USER, IRC_REGISTRATION_STATE_FINISHED,
      IRC_REGISTRATION_STATE_PASS],
     [IRC_REGISTRATION_STATE_FINISHED, IRC_REGISTRATION_STATE_PASS]]"

definition proper_prefixes :: "IRC_RegistrationStateType list list" where
  "proper_prefixes =
    [[], [IRC_REGISTRATION_STATE_NICK], [IRC_REGISTRATION_STATE_NICK, IRC_REGISTRATION_STATE_USER],
     [IRC_REGISTRATION_STATE_NICK, IRC_REGISTRATION_STATE_USER, IRC_REGISTRATION_STATE_FINISHED],
     [IRC_REGISTRATION_STATE_FINISHED]]"

text \<open>Whole rounds, then part of one.\<close>

inductive registration_history :: "IRC_RegistrationStateType list \<Rightarrow> bool" where
  partial: "ss \<in> set proper_prefixes \<Longrightarrow> registration_history ss"
| round: "r \<in> set rounds \<Longrightarrow> registration_history ss \<Longrightarrow> registration_history (r @ ss)"

lemmas path_simps = rounds_def proper_prefixes_def

lemma chain_from_PASS:
  "chain registration_edge (IRC_REGISTRATION_STATE_PASS # ss) \<Longrightarrow> registration_history ss"
proof (induction ss rule: length_induct)
  case (1 ss)
  have again: "registration_history (r @ us)"
    if "r \<in> set rounds" "ss = r @ us" "chain registration_edge (IRC_REGISTRATION_STATE_PASS # us)" for r us
  proof -
    from that(1,2) have "length us < length ss" by (auto simp: path_simps)
    with 1(1) that show ?thesis by (blast intro: round)
  qed
  consider "ss \<in> set proper_prefixes" | r us where "r \<in> set rounds" "ss = r @ us"
    "chain registration_edge (IRC_REGISTRATION_STATE_PASS # us)"
  proof (cases ss)
    case Nil
    then show ?thesis by (intro that(1)) (simp add: path_simps)
  next
    case s: (Cons s ts)
    show ?thesis
    proof (cases ts)
      case Nil
      with s 1(2) show ?thesis by (intro that(1)) (auto simp: path_simps)
    next
      case t: (Cons t us)
      show ?thesis
      proof (cases "s = IRC_REGISTRATION_STATE_FINISHED")
        case True
        with s t 1(2) show ?thesis by (intro that(2) [of "[s, t]" us]) (auto simp: path_simps)
      next
        case False
        with s t 1(2) have st: "s = IRC_REGISTRATION_STATE_NICK" "t = IRC_REGISTRATION_STATE_USER"
          by auto
        show ?thesis
        proof (cases us)
          case Nil
          with s t st show ?thesis by (intro that(1)) (simp add: path_simps)
        next
          case u: (Cons u vs)
          with s t st 1(2) have fin: "u = IRC_REGISTRATION_STATE_FINISHED" by auto
          show ?thesis
          proof (cases vs)
            case Nil
            with s t u st fin show ?thesis by (intro that(1)) (simp add: path_simps)
          next
            case (Cons v ws)
            with s t u st fin 1(2) show ?thesis
              by (intro that(2) [of "[s, t, u, v]" ws]) (auto simp: path_simps)
          qed
        qed
      qed
    qed
  qed
  then show ?case
    using partial again by cases blast+
qed

text \<open>Whatever states are requested of a fresh registration and in whatever order, the accepted ones
  form whole rounds (nickname, user, finished, back to the password; or finished at once, and
  back) followed by part of a round, and the machine is in the last accepted state.\<close>

theorem registration_order:
  assumes "sets_state state_of base" "state_of w = initial_registration_state"
    and "run_switch (registration_change state_of base) ss w = (hist, w')"
  shows "registration_history hist \<and> state_of w' = last (initial_registration_state # hist)"
  using state_switch.run_history [OF registration_switch [OF assms(1)] assms(3)] assms(2)
  by (auto simp: initial_registration_state_def intro: chain_from_PASS)

theorem registration_order_witness:
  "registration_history [IRC_REGISTRATION_STATE_NICK, IRC_REGISTRATION_STATE_USER]
   \<and> run_switch (registration_change (\<lambda>s. s) (\<lambda>n s. n))
       [IRC_REGISTRATION_STATE_USER, IRC_REGISTRATION_STATE_NICK, IRC_REGISTRATION_STATE_FINISHED,
        IRC_REGISTRATION_STATE_USER] IRC_REGISTRATION_STATE_PASS
     = ([IRC_REGISTRATION_STATE_NICK, IRC_REGISTRATION_STATE_USER], IRC_REGISTRATION_STATE_USER)"
proof -
  have run: "run_switch (registration_change (\<lambda>s. s) (\<lambda>n s. n))
       [IRC_REGISTRATION_STATE_USER, IRC_REGISTRATION_STATE_NICK, IRC_REGISTRATION_STATE_FINISHED,
        IRC_REGISTRATION_STATE_USER] IRC_REGISTRATION_STATE_PASS
     = ([IRC_REGISTRATION_STATE_NICK, IRC_REGISTRATION_STATE_USER], IRC_REGISTRATION_STATE_USER)"
    by (simp add: registration_change_def)
  with registration_order [OF _ _ run] show ?thesis
    by (simp add: sets_state_def initial_registration_state_def)
qed

end
