(* ===== verification/WLAN_StateMachine.thy ===== *)
theory WLAN_StateMachine
  imports State_Switch
begin

text \<open>
  The monitor of a wireless interface, \<^verbatim>\<open>Net_WLAN_MonitorStateMachine\<close> in
  \<^verbatim>\<open>src/src/wlan/net_wlan_monitor_statemachine.cpp\<close> (states: \<^verbatim>\<open>net_wlan_common.h\<close>). The code is
  compiled for several platforms; the platform is an argument of the model. On Windows a change
  takes effect at once, elsewhere it is queued and a thread of the base class takes it from the
  queue, so that the request is judged by the last queued state. The base class is not part of
  the repository: its change is the argument \<open>base\<close>.
\<close>

datatype Net_WLAN_MonitorState =
    NET_WLAN_MONITOR_STATE_INVALID | NET_WLAN_MONITOR_STATE_IDLE | NET_WLAN_MONITOR_STATE_SCAN
  | NET_WLAN_MONITOR_STATE_AUTHENTICATE | NET_WLAN_MONITOR_STATE_ASSOCIATE | NET_WLAN_MONITOR_STATE_CONNECT
  | NET_WLAN_MONITOR_STATE_DISCONNECT | NET_WLAN_MONITOR_STATE_DISASSOCIATE | NET_WLAN_MONITOR_STATE_DEAUTHENTICATE
  | NET_WLAN_MONITOR_STATE_INITIALIZED | NET_WLAN_MONITOR_STATE_SCANNED | NET_WLAN_MONITOR_STATE_AUTHENTICATED
  | NET_WLAN_MONITOR_STATE_ASSOCIATED | NET_WLAN_MONITOR_STATE_CONNECTED | NET_WLAN_MONITOR_STATE_MAX

text \<open>Windows with or without the WLAN API, Linux with or without nl80211, another Unix.\<close>

datatype platform = Windows bool | Linux bool | Other_Unix

fun is_windows :: "platform \<Rightarrow> bool" where
  "is_windows (Windows _) = True"
| "is_windows _ = False"

fun is_linux :: "platform \<Rightarrow> bool" where
  "is_linux (Linux _) = True"
| "is_linux _ = False"

section \<open>The transitions\<close>

text \<open>One definition per state: the new states that are accepted in it, by platform.\<close>

definition from_INVALID :: "platform \<Rightarrow> Net_WLAN_MonitorState list" where
  "from_INVALID p =
    [NET_WLAN_MONITOR_STATE_INITIALIZED]"

definition from_IDLE :: "platform \<Rightarrow> Net_WLAN_MonitorState list" where
  "from_IDLE p =
    [NET_WLAN_MONITOR_STATE_INVALID, NET_WLAN_MONITOR_STATE_IDLE,
      NET_WLAN_MONITOR_STATE_SCAN, NET_WLAN_MONITOR_STATE_INITIALIZED,
      NET_WLAN_MONITOR_STATE_SCANNED]
    @ (if is_windows p then
      [NET_WLAN_MONITOR_STATE_CONNECT, NET_WLAN_MONITOR_STATE_CONNECTED] else [])
    @ (if is_linux p then
      [NET_WLAN_MONITOR_STATE_AUTHENTICATE, NET_WLAN_MONITOR_STATE_AUTHENTICATED,
      NET_WLAN_MONITOR_STATE_CONNECTED] else [])
    @ (if p = Linux True then
      [NET_WLAN_MONITOR_STATE_DEAUTHENTICATE, NET_WLAN_MONITOR_STATE_ASSOCIATE,
      NET_WLAN_MONITOR_STATE_DISASSOCIATE, NET_WLAN_MONITOR_STATE_CONNECT,
      NET_WLAN_MONITOR_STATE_DISCONNECT, NET_WLAN_MONITOR_STATE_ASSOCIATED] else [])"

definition from_SCAN :: "platform \<Rightarrow> Net_WLAN_MonitorState list" where
  "from_SCAN p =
    [NET_WLAN_MONITOR_STATE_INVALID, NET_WLAN_MONITOR_STATE_IDLE,
      NET_WLAN_MONITOR_STATE_SCAN, NET_WLAN_MONITOR_STATE_INITIALIZED,
      NET_WLAN_MONITOR_STATE_SCANNED]
    @ (if p = Windows True then
      [NET_WLAN_MONITOR_STATE_CONNECT] else [])
    @ (if p = Linux True then
      [NET_WLAN_MONITOR_STATE_ASSOCIATE] else [])"

definition from_AUTHENTICATE :: "platform \<Rightarrow> Net_WLAN_MonitorState list" where
  "from_AUTHENTICATE p =
    (if \<not> is_windows p then
      [NET_WLAN_MONITOR_STATE_INVALID, NET_WLAN_MONITOR_STATE_IDLE,
      NET_WLAN_MONITOR_STATE_AUTHENTICATE, NET_WLAN_MONITOR_STATE_DEAUTHENTICATE,
      NET_WLAN_MONITOR_STATE_INITIALIZED, NET_WLAN_MONITOR_STATE_SCANNED,
      NET_WLAN_MONITOR_STATE_AUTHENTICATED] else [])"

definition from_ASSOCIATE :: "platform \<Rightarrow> Net_WLAN_MonitorState list" where
  "from_ASSOCIATE p =
    (if \<not> is_windows p then
      [NET_WLAN_MONITOR_STATE_INVALID, NET_WLAN_MONITOR_STATE_IDLE,
      NET_WLAN_MONITOR_STATE_ASSOCIATE, NET_WLAN_MONITOR_STATE_DISASSOCIATE,
      NET_WLAN_MONITOR_STATE_INITIALIZED, NET_WLAN_MONITOR_STATE_SCANNED,
      NET_WLAN_MONITOR_STATE_ASSOCIATED] else [])
    @ (if p = Linux True then
      [NET_WLAN_MONITOR_STATE_SCAN] else [])"

definition from_DEAUTHENTICATE :: "platform \<Rightarrow> Net_WLAN_MonitorState list" where
  "from_DEAUTHENTICATE p =
    (if \<not> is_windows p then
      [NET_WLAN_MONITOR_STATE_INVALID, NET_WLAN_MONITOR_STATE_IDLE,
      NET_WLAN_MONITOR_STATE_INITIALIZED, NET_WLAN_MONITOR_STATE_SCANNED] else [])"

definition from_DISASSOCIATE :: "platform \<Rightarrow> Net_WLAN_MonitorState list" where
  "from_DISASSOCIATE p =
    (if \<not> is_windows p then
      [NET_WLAN_MONITOR_STATE_INVALID, NET_WLAN_MONITOR_STATE_AUTHENTICATED,
      NET_WLAN_MONITOR_STATE_IDLE, NET_WLAN_MONITOR_STATE_INITIALIZED,
      NET_WLAN_MONITOR_STATE_SCANNED] else [])"

definition from_CONNECT :: "platform \<Rightarrow> Net_WLAN_MonitorState list" where
  "from_CONNECT p =
    [NET_WLAN_MONITOR_STATE_INVALID, NET_WLAN_MONITOR_STATE_INITIALIZED,
      NET_WLAN_MONITOR_STATE_SCANNED, NET_WLAN_MONITOR_STATE_CONNECTED]
    @ (if is_windows p then
      [NET_WLAN_MONITOR_STATE_CONNECT, NET_WLAN_MONITOR_STATE_DISCONNECT] else [])
    @ (if \<not> is_windows p then
      [NET_WLAN_MONITOR_STATE_ASSOCIATED] else [])
    @ (if p = Linux True then
      [NET_WLAN_MONITOR_STATE_IDLE] else [])"

definition from_DISCONNECT :: "platform \<Rightarrow> Net_WLAN_MonitorState list" where
  "from_DISCONNECT p =
    [NET_WLAN_MONITOR_STATE_INVALID, NET_WLAN_MONITOR_STATE_INITIALIZED,
      NET_WLAN_MONITOR_STATE_SCANNED]
    @ (if is_windows p then
      [NET_WLAN_MONITOR_STATE_IDLE] else [])
    @ (if \<not> is_windows p then
      [NET_WLAN_MONITOR_STATE_DISASSOCIATE] else [])"

definition from_INITIALIZED :: "platform \<Rightarrow> Net_WLAN_MonitorState list" where
  "from_INITIALIZED p =
    [NET_WLAN_MONITOR_STATE_INVALID, NET_WLAN_MONITOR_STATE_IDLE,
      NET_WLAN_MONITOR_STATE_INITIALIZED, NET_WLAN_MONITOR_STATE_CONNECTED]
    @ (if is_windows p then
      [NET_WLAN_MONITOR_STATE_SCANNED] else [])"

definition from_SCANNED :: "platform \<Rightarrow> Net_WLAN_MonitorState list" where
  "from_SCANNED p =
    [NET_WLAN_MONITOR_STATE_INVALID, NET_WLAN_MONITOR_STATE_IDLE,
      NET_WLAN_MONITOR_STATE_INITIALIZED, NET_WLAN_MONITOR_STATE_SCANNED,
      NET_WLAN_MONITOR_STATE_CONNECTED]
    @ (if is_windows p then
      [NET_WLAN_MONITOR_STATE_SCAN, NET_WLAN_MONITOR_STATE_CONNECT] else [])
    @ (if \<not> is_windows p then
      [NET_WLAN_MONITOR_STATE_AUTHENTICATE, NET_WLAN_MONITOR_STATE_AUTHENTICATED,
      NET_WLAN_MONITOR_STATE_ASSOCIATED] else [])"

definition from_AUTHENTICATED :: "platform \<Rightarrow> Net_WLAN_MonitorState list" where
  "from_AUTHENTICATED p =
    (if \<not> is_windows p then
      [NET_WLAN_MONITOR_STATE_INVALID, NET_WLAN_MONITOR_STATE_SCAN,
      NET_WLAN_MONITOR_STATE_ASSOCIATE, NET_WLAN_MONITOR_STATE_DEAUTHENTICATE,
      NET_WLAN_MONITOR_STATE_INITIALIZED, NET_WLAN_MONITOR_STATE_SCANNED,
      NET_WLAN_MONITOR_STATE_ASSOCIATED] else [])"

definition from_ASSOCIATED :: "platform \<Rightarrow> Net_WLAN_MonitorState list" where
  "from_ASSOCIATED p =
    (if \<not> is_windows p then
      [NET_WLAN_MONITOR_STATE_INVALID, NET_WLAN_MONITOR_STATE_SCAN,
      NET_WLAN_MONITOR_STATE_CONNECT, NET_WLAN_MONITOR_STATE_DISASSOCIATE,
      NET_WLAN_MONITOR_STATE_INITIALIZED, NET_WLAN_MONITOR_STATE_SCANNED,
      NET_WLAN_MONITOR_STATE_AUTHENTICATED, NET_WLAN_MONITOR_STATE_CONNECTED] else [])
    @ (if p = Linux True then
      [NET_WLAN_MONITOR_STATE_IDLE] else [])"

definition from_CONNECTED :: "platform \<Rightarrow> Net_WLAN_MonitorState list" where
  "from_CONNECTED p =
    [NET_WLAN_MONITOR_STATE_INVALID, NET_WLAN_MONITOR_STATE_IDLE,
      NET_WLAN_MONITOR_STATE_SCAN, NET_WLAN_MONITOR_STATE_CONNECT,
      NET_WLAN_MONITOR_STATE_DISCONNECT, NET_WLAN_MONITOR_STATE_INITIALIZED,
      NET_WLAN_MONITOR_STATE_SCANNED]"

fun accepted_states :: "platform \<Rightarrow> Net_WLAN_MonitorState \<Rightarrow> Net_WLAN_MonitorState list" where
  "accepted_states p NET_WLAN_MONITOR_STATE_INVALID = from_INVALID p"
| "accepted_states p NET_WLAN_MONITOR_STATE_IDLE = from_IDLE p"
| "accepted_states p NET_WLAN_MONITOR_STATE_SCAN = from_SCAN p"
| "accepted_states p NET_WLAN_MONITOR_STATE_AUTHENTICATE = from_AUTHENTICATE p"
| "accepted_states p NET_WLAN_MONITOR_STATE_ASSOCIATE = from_ASSOCIATE p"
| "accepted_states p NET_WLAN_MONITOR_STATE_DEAUTHENTICATE = from_DEAUTHENTICATE p"
| "accepted_states p NET_WLAN_MONITOR_STATE_DISASSOCIATE = from_DISASSOCIATE p"
| "accepted_states p NET_WLAN_MONITOR_STATE_CONNECT = from_CONNECT p"
| "accepted_states p NET_WLAN_MONITOR_STATE_DISCONNECT = from_DISCONNECT p"
| "accepted_states p NET_WLAN_MONITOR_STATE_INITIALIZED = from_INITIALIZED p"
| "accepted_states p NET_WLAN_MONITOR_STATE_SCANNED = from_SCANNED p"
| "accepted_states p NET_WLAN_MONITOR_STATE_AUTHENTICATED = from_AUTHENTICATED p"
| "accepted_states p NET_WLAN_MONITOR_STATE_ASSOCIATED = from_ASSOCIATED p"
| "accepted_states p NET_WLAN_MONITOR_STATE_CONNECTED = from_CONNECTED p"
| "accepted_states p NET_WLAN_MONITOR_STATE_MAX = []"

lemmas from_defs =
  from_INVALID_def from_IDLE_def from_SCAN_def from_AUTHENTICATE_def from_ASSOCIATE_def
  from_DEAUTHENTICATE_def from_DISASSOCIATE_def from_CONNECT_def from_DISCONNECT_def
  from_INITIALIZED_def from_SCANNED_def from_AUTHENTICATED_def from_ASSOCIATED_def
  from_CONNECTED_def

definition wlan_edge :: "platform \<Rightarrow> Net_WLAN_MonitorState \<Rightarrow> Net_WLAN_MonitorState \<Rightarrow> bool" where
  "wlan_edge p s t = (t \<in> set (accepted_states p s))"

section \<open>The machine\<close>

text \<open>The state and the queue of state changes that wait to be dispatched, oldest first.\<close>

record wlan_machine =
  machine_state :: Net_WLAN_MonitorState
  msg_queue :: "Net_WLAN_MonitorState list"

definition new_wlan_machine :: wlan_machine where
  "new_wlan_machine = \<lparr>machine_state = NET_WLAN_MONITOR_STATE_INVALID, msg_queue = []\<rparr>"

definition current_state :: "platform \<Rightarrow> wlan_machine \<Rightarrow> Net_WLAN_MonitorState" where
  "current_state p w =
    (if is_windows p then machine_state w
     else if msg_queue w = [] then machine_state w else last (msg_queue w))"

definition wlan_change ::
  "platform \<Rightarrow> (Net_WLAN_MonitorState \<Rightarrow> wlan_machine \<Rightarrow> wlan_machine) \<Rightarrow>
   Net_WLAN_MonitorState \<Rightarrow> wlan_machine \<Rightarrow> wlan_machine \<times> bool" where
  "wlan_change p base newState w =
    (if wlan_edge p (current_state p w) newState then (base newState w, True) else (w, False))"

text \<open>\<^verbatim>\<open>initialize\<close> (and \<^verbatim>\<open>reset\<close>, which calls it) reports success whether or not the change is accepted.\<close>

definition wlan_initialize ::
  "platform \<Rightarrow> (Net_WLAN_MonitorState \<Rightarrow> wlan_machine \<Rightarrow> wlan_machine) \<Rightarrow> wlan_machine \<Rightarrow> wlan_machine \<times> bool" where
  "wlan_initialize p base w = (fst (wlan_change p base NET_WLAN_MONITOR_STATE_INITIALIZED w), True)"

definition wlan_reset ::
  "platform \<Rightarrow> (Net_WLAN_MonitorState \<Rightarrow> wlan_machine \<Rightarrow> wlan_machine) \<Rightarrow> wlan_machine \<Rightarrow> wlan_machine" where
  "wlan_reset p base w = fst (wlan_initialize p base w)"

fun wlan_stateToString :: "Net_WLAN_MonitorState \<Rightarrow> string" where
  "wlan_stateToString NET_WLAN_MONITOR_STATE_IDLE = ''IDLE''"
| "wlan_stateToString NET_WLAN_MONITOR_STATE_SCAN = ''SCAN''"
| "wlan_stateToString NET_WLAN_MONITOR_STATE_AUTHENTICATE = ''AUTHENTICATE''"
| "wlan_stateToString NET_WLAN_MONITOR_STATE_ASSOCIATE = ''ASSOCIATE''"
| "wlan_stateToString NET_WLAN_MONITOR_STATE_CONNECT = ''CONNECT''"
| "wlan_stateToString NET_WLAN_MONITOR_STATE_DISCONNECT = ''DISCONNECT''"
| "wlan_stateToString NET_WLAN_MONITOR_STATE_DISASSOCIATE = ''DISASSOCIATE''"
| "wlan_stateToString NET_WLAN_MONITOR_STATE_DEAUTHENTICATE = ''DEAUTHENTICATE''"
| "wlan_stateToString NET_WLAN_MONITOR_STATE_INITIALIZED = ''INITIALIZED''"
| "wlan_stateToString NET_WLAN_MONITOR_STATE_SCANNED = ''SCANNED''"
| "wlan_stateToString NET_WLAN_MONITOR_STATE_AUTHENTICATED = ''AUTHENTICATED''"
| "wlan_stateToString NET_WLAN_MONITOR_STATE_ASSOCIATED = ''ASSOCIATED''"
| "wlan_stateToString NET_WLAN_MONITOR_STATE_CONNECTED = ''CONNECTED''"
| "wlan_stateToString _ = ''INVALID''"

section \<open>Histories\<close>

text \<open>
  The documented effect of the base class: the state is set, or the change is put at the end of
  the queue of its thread.
\<close>

definition changes_state ::
  "platform \<Rightarrow> (Net_WLAN_MonitorState \<Rightarrow> wlan_machine \<Rightarrow> wlan_machine) \<Rightarrow> bool" where
  "changes_state p base \<longleftrightarrow> (\<forall>s w. base s w =
     (if is_windows p then w\<lparr>machine_state := s\<rparr> else w\<lparr>msg_queue := msg_queue w @ [s]\<rparr>))"

definition model_base :: "platform \<Rightarrow> Net_WLAN_MonitorState \<Rightarrow> wlan_machine \<Rightarrow> wlan_machine" where
  "model_base p s w =
     (if is_windows p then w\<lparr>machine_state := s\<rparr> else w\<lparr>msg_queue := msg_queue w @ [s]\<rparr>)"

lemma model_base: "changes_state p (model_base p)"
  by (simp add: changes_state_def model_base_def)

lemma wlan_switch:
  "changes_state p base \<Longrightarrow> state_switch (current_state p) (wlan_change p base) (wlan_edge p)"
  by unfold_locales (auto simp: wlan_change_def changes_state_def current_state_def)

interpretation wlan: state_switch "current_state p" "wlan_change p (model_base p)" "wlan_edge p" for p
  by (rule wlan_switch [OF model_base])

text \<open>The states a platform has.\<close>

definition on_platform :: "platform \<Rightarrow> Net_WLAN_MonitorState \<Rightarrow> bool" where
  "on_platform p s \<longleftrightarrow> s \<noteq> NET_WLAN_MONITOR_STATE_MAX \<and>
     (is_windows p \<longrightarrow> s \<notin> {NET_WLAN_MONITOR_STATE_AUTHENTICATE, NET_WLAN_MONITOR_STATE_ASSOCIATE,
        NET_WLAN_MONITOR_STATE_DISASSOCIATE, NET_WLAN_MONITOR_STATE_DEAUTHENTICATE,
        NET_WLAN_MONITOR_STATE_AUTHENTICATED, NET_WLAN_MONITOR_STATE_ASSOCIATED})"

lemma linux_not_windows: "is_linux p \<Longrightarrow> \<not> is_windows p"
  by (cases p) auto

lemma edge_on_platform: "wlan_edge p s t \<Longrightarrow> on_platform p t"
  by (cases s) (auto simp: wlan_edge_def from_defs on_platform_def dest: linux_not_windows split: if_splits)

lemma edge_initialized: "on_platform p s \<Longrightarrow> wlan_edge p s NET_WLAN_MONITOR_STATE_INITIALIZED"
  by (cases s) (auto simp: wlan_edge_def from_defs on_platform_def)

lemma edge_invalid:
  "on_platform p s \<Longrightarrow> wlan_edge p s NET_WLAN_MONITOR_STATE_INVALID \<longleftrightarrow> s \<noteq> NET_WLAN_MONITOR_STATE_INVALID"
  by (cases s) (auto simp: wlan_edge_def from_defs on_platform_def)

text \<open>The monitor can always be restarted: whatever state of its platform the machine is in (the monitor also
  writes the state without \<^verbatim>\<open>change ()\<close>) and whatever changes are queued, a reset is accepted, after
  it the machine is, or is about to be, initialized, and the state invalid is accepted from
  every state but itself.\<close>

theorem wlan_restart:
  assumes "changes_state p base" "on_platform p (current_state p w)"
  shows "current_state p (wlan_reset p base w) = NET_WLAN_MONITOR_STATE_INITIALIZED
    \<and> snd (wlan_initialize p base w)
    \<and> (snd (wlan_change p base NET_WLAN_MONITOR_STATE_INVALID w) \<longleftrightarrow>
        current_state p w \<noteq> NET_WLAN_MONITOR_STATE_INVALID)"
proof -
  note machine = wlan_switch [OF assms(1)]
  show ?thesis
    using state_switch.accepts [OF machine edge_initialized [OF assms(2)]]
      state_switch.accepted_iff [OF machine] edge_invalid [OF assms(2)]
    by (simp add: wlan_reset_def wlan_initialize_def)
qed

text \<open>On every platform the monitor can get from its initial state to a connection: the requests that
  initialize it, start it, scan, complete the scan and report a connection are all accepted, and
  any requests at all leave a history along accepted transitions that ends in the current state.\<close>

theorem wlan_connects:
  assumes "changes_state p base"
  shows "fst (run_switch (wlan_change p base)
      [NET_WLAN_MONITOR_STATE_INITIALIZED, NET_WLAN_MONITOR_STATE_IDLE, NET_WLAN_MONITOR_STATE_SCAN,
       NET_WLAN_MONITOR_STATE_SCANNED, NET_WLAN_MONITOR_STATE_CONNECTED] new_wlan_machine) =
      [NET_WLAN_MONITOR_STATE_INITIALIZED, NET_WLAN_MONITOR_STATE_IDLE, NET_WLAN_MONITOR_STATE_SCAN,
       NET_WLAN_MONITOR_STATE_SCANNED, NET_WLAN_MONITOR_STATE_CONNECTED]
    \<and> (run_switch (wlan_change p base) ss w = (hist, w') \<longrightarrow>
        chain (wlan_edge p) (current_state p w # hist)
        \<and> current_state p w' = last (current_state p w # hist))"
proof
  note machine = wlan_switch [OF assms]
  have "chain (wlan_edge p) (current_state p new_wlan_machine #
      [NET_WLAN_MONITOR_STATE_INITIALIZED, NET_WLAN_MONITOR_STATE_IDLE, NET_WLAN_MONITOR_STATE_SCAN,
       NET_WLAN_MONITOR_STATE_SCANNED, NET_WLAN_MONITOR_STATE_CONNECTED])"
    by (simp add: wlan_edge_def from_defs current_state_def new_wlan_machine_def)
  from state_switch.run_path [OF machine this]
  show "fst (run_switch (wlan_change p base)
      [NET_WLAN_MONITOR_STATE_INITIALIZED, NET_WLAN_MONITOR_STATE_IDLE, NET_WLAN_MONITOR_STATE_SCAN,
       NET_WLAN_MONITOR_STATE_SCANNED, NET_WLAN_MONITOR_STATE_CONNECTED] new_wlan_machine) =
      [NET_WLAN_MONITOR_STATE_INITIALIZED, NET_WLAN_MONITOR_STATE_IDLE, NET_WLAN_MONITOR_STATE_SCAN,
       NET_WLAN_MONITOR_STATE_SCANNED, NET_WLAN_MONITOR_STATE_CONNECTED]" .
  show "run_switch (wlan_change p base) ss w = (hist, w') \<longrightarrow>
        chain (wlan_edge p) (current_state p w # hist)
        \<and> current_state p w' = last (current_state p w # hist)"
    using state_switch.run_history [OF machine] by blast
qed

section \<open>Witnesses\<close>

theorem wlan_restart_witness:
  "current_state (Linux True) (wlan_reset (Linux True) (model_base (Linux True))
      \<lparr>machine_state = NET_WLAN_MONITOR_STATE_INITIALIZED, msg_queue = [NET_WLAN_MONITOR_STATE_IDLE]\<rparr>)
     = NET_WLAN_MONITOR_STATE_INITIALIZED"
proof -
  have "on_platform (Linux True) (current_state (Linux True)
      \<lparr>machine_state = NET_WLAN_MONITOR_STATE_INITIALIZED, msg_queue = [NET_WLAN_MONITOR_STATE_IDLE]\<rparr>)"
    by (simp add: current_state_def on_platform_def)
  from wlan_restart [OF model_base this] show ?thesis by blast
qed

theorem wlan_connects_witness:
  "fst (run_switch (wlan_change (Windows False) (model_base (Windows False)))
      [NET_WLAN_MONITOR_STATE_INITIALIZED, NET_WLAN_MONITOR_STATE_IDLE, NET_WLAN_MONITOR_STATE_SCAN,
       NET_WLAN_MONITOR_STATE_SCANNED, NET_WLAN_MONITOR_STATE_CONNECTED] new_wlan_machine) =
      [NET_WLAN_MONITOR_STATE_INITIALIZED, NET_WLAN_MONITOR_STATE_IDLE, NET_WLAN_MONITOR_STATE_SCAN,
       NET_WLAN_MONITOR_STATE_SCANNED, NET_WLAN_MONITOR_STATE_CONNECTED]"
  using wlan_connects [OF model_base] by blast

end
