(* ===== verification/Spec2Isabelle.thy ===== *)
theory Spec2Isabelle
  imports BitTorrent_Control BitTorrent_Handlers BitTorrent_Streamer BitTorrent_Tools Connection_Manager DHCP_Discover DHCP_Tools HTTP_Receive
    HTTP_URL IRC_Client IRC_Registration Net_Common_Tools Net_Session WLAN_StateMachine
begin

text \<open>
  A verification development for libACENetwork, a C++ library on top of ACE that provides
  connections, the management of connections, and clients and servers of several protocols. All
  paths are relative to the repository.

  \<^bold>\<open>The program.\<close> A connection registers itself with the connection manager of its kind, a singleton
  list that bounds the number of connections, hands out counted references, aborts connections and
  collects their statistics (\<^verbatim>\<open>src/src/net_connection_base.inl\<close>, \<^verbatim>\<open>src/src/net_connection_manager.inl\<close>). A
  session of a peer-to-peer protocol connects and closes connections by way of that manager
  (\<^verbatim>\<open>src/src/net_session_base.inl\<close>); the session of a torrent
  (\<^verbatim>\<open>src/src/protocol/p2p/bittorrent/bittorrent_session.inl\<close>) adds the connection to the tracker and the handshakes, and a
  controller (\<^verbatim>\<open>bittorrent_control.inl\<close>) creates and lists the sessions. Data flows through streams of modules: the streamer module of a protocol
  serialises a record into a message block
  (\<^verbatim>\<open>src/src/protocol/*/*_module_streamer.inl\<close>), the bisector cuts the byte stream into frames and the parser reads a
  frame into a record (\<^verbatim>\<open>irc_module_bisector.inl\<close>, \<^verbatim>\<open>*_module_parser.inl\<close> with their generated scanners), the session of an IRC client
  (\<^verbatim>\<open>irc_session.inl\<close>) keeps what the records say, the discover module
  (\<^verbatim>\<open>dhcp_module_discover.inl\<close>) answers the offers of a DHCP server, and the functions of the
  tools classes (\<^verbatim>\<open>*_tools.cpp\<close>) work on the records and their texts. State machines guard the registration of an
  IRC client (\<^verbatim>\<open>src/src/protocol/irc/irc_statemachine_registration.cpp\<close>) and the
  monitor of a wireless interface (\<^verbatim>\<open>src/src/wlan/net_wlan_monitor_statemachine.cpp\<close>).

  \<^bold>\<open>Conventions.\<close> The faults of the code are values: a result is \<open>Inl fault\<close> (a failed \<^verbatim>\<open>ACE_ASSERT\<close>, an
  uncaught exception, an access without defined behaviour) or \<open>Inr v\<close>. An early return that the code
  logs is a branch of the model. Machine integers are words of their width; strings are
  lists of characters, C strings end at the first NUL. \<^verbatim>\<open>std::map\<close> is an ordered association list. A section under a
  lock is one step; so are the sections that an operation of a session enters one after the other (\<open>bt_connect_id\<close>). A
  caller that waits on a condition runs again only when the condition was signalled since it fell asleep.
  \<^verbatim>\<open>close ()\<close> of a connection only shuts its socket: the connection deregisters later, in the thread that closes its handler. What lies outside the repository is an argument of
  the definitions that use it, with named hypotheses: \<open>conn_ops\<close> with \<open>counting\<close> (the
  reference counter and the virtual functions of a connection), \<open>mb_ops\<close> with \<open>mb_laws\<close>
  (\<^verbatim>\<open>ACE_Message_Block\<close>), \<open>host\<close> with \<open>host_laws\<close> (byte order and swap macros), the character classes of a
  locale, \<^verbatim>\<open>inet_ntop\<close>, digests, \<^verbatim>\<open>mktemp\<close>, the common library's functions on strings (\<open>http_env\<close> with
  \<open>common_strings\<close>), the bencoding library, the base classes of the state machines.
  Each has a concrete instance in the theory that introduces it, on which the witnesses run.

  \<^bold>\<open>The theories.\<close>
  \<^item> \<open>Net_Prelude\<close>: faults and results, widths, numbers as text, and the collections \<open>registry_simps\<close> and
    \<open>render_simps\<close>. \<open>Net_Octets\<close>: octets of integers and bytes of strings. \<open>Std_Map\<close>: \<^verbatim>\<open>std::map\<close> over the locale
    \<open>key_order\<close>. \<open>Std_Regex\<close>: the part of \<^verbatim>\<open>std::regex\<close> that the sources use. \<open>Message_Block\<close>: message blocks and
    steps that append to one or abort, with the lemma that a
    sequence of appending steps is all or nothing.
  \<^item> \<open>Connection_Base\<close>: registration of a connection and the locales \<open>connection_registry\<close> and \<open>bounded_registry\<close>, the contract of
    a manager. \<open>Connection_Manager\<close>: the manager, its interpretation \<open>cm\<close> of that contract, the reachable
    states of manager and connections with their invariant, lookup, statistics, and \<open>abort\<close> and \<open>stop\<close> with what other
    threads do to the list in the meantime: when they return, and what is left of references.
  \<^item> \<open>Net_Session\<close>: a session over the locale \<open>connection_lookup\<close>, which the manager's two lookups
    interpret (\<open>by_id\<close>, \<open>by_address\<close>); references are balanced on every path of \<open>connect\<close>, \<open>close\<close> tells
    exactly its own connections to close as long as the manager lists them.
  \<^item> \<open>HTTP_Tools\<close>, \<open>HTTP_URL\<close>, \<open>HTTP_Streamer\<close>: names, header classes, dump, URL parsing and encoding, and
    the marshalling of requests and responses. Names are read back by the locale \<open>name_codec\<close>.
  \<^item> \<open>Flex_Regex\<close>: the patterns of a flex scanner, with their languages and the longest match by derivatives. \<open>HTTP_Scanner\<close>: the
    patterns of \<^verbatim>\<open>scripts/scanner.l\<close> name by name, and the rules with their actions. \<open>HTTP_Parser\<close>: the grammar, the driver and the module
    that collects fragments. \<open>HTTP_Receive\<close>: what becomes of the text of a message. The header fields and content of a POST request arrive as
    they were sent, and contents in chunks that come in one message are put together; messages without content and paths of more than a character never
    arrive, and an encoding aborts a build with assertions.
  \<^item> \<open>IRC_Codes\<close>, \<open>IRC_Record\<close>, \<open>IRC_Tools\<close>, \<open>IRC_Streamer\<close>: numerics and their names, the record over an
    explicit store of strings, modes (locale \<open>mode_set\<close>), texts, and the marshalling with a reader of the grammar of RFC 1459.
  \<^item> \<open>IRC_Bisector\<close>, \<open>IRC_Parser\<close>: the framing of the byte stream and the parser, each with the rules of its scanner. What
    is streamed, cut, framed and parsed is what was sent; whatever is parsed is well formed; which data aborts the process or is lost.
  \<^item> \<open>IRC_Session\<close>, \<open>IRC_Client\<close>: the session of a client with the messages it does not survive, and the client as a whole, from
    the octets of the server to the state of the session, which follows the view that the protocol gives of it.
  \<^item> \<open>State_Switch\<close>: the locale \<open>state_switch\<close> of a guarded state machine, interpreted by
    \<open>IRC_Registration\<close> and, for each of three platforms, by \<open>WLAN_StateMachine\<close>.
  \<^item> \<open>DHCP_Record\<close>, \<open>DHCP_Streamer\<close>, \<open>DHCP_Tools\<close>: the record, its wire format of RFC 2131 on hosts of either byte order with a
    reader for it, and the printing of options.
  \<^item> \<open>DHCP_Parser\<close>: scanner, grammar, driver and module, measured against that reader. \<open>DHCP_Discover\<close>: the
    module that connects to a server and answers its offers, over the session environment of \<open>Net_Session\<close>, from the
    octets of an offer to those of the request.
  \<^item> \<open>BitTorrent_Tools\<close>, \<open>BitTorrent_Streamer\<close>: what is computed from meta information, ids, scrape URLs, and the
    handshake of a peer.
  \<^item> \<open>BitTorrent_Requests\<close>: announcement and scrape from the meta information to their text on the wire, across the tools of
    BitTorrent and HTTP and the HTTP streamer, with a reader of queries.
  \<^item> \<open>BitTorrent_Session\<close>: the session of a torrent as an extension of the record of \<open>Net_Session\<close>, over an environment for the peers and one
    for the tracker; its reachable states with an invariant, its references, the compact list of peers, and what
    the threads of a response do to the list, to the names of the threads and to the shared configuration under every schedule.
  \<^item> \<open>BitTorrent_Control\<close>: the controller with its sessions as objects. What a session relies on is the locale
    \<open>session_controller\<close>, interpreted (\<open>control\<close>) by the list of the controller; what a request makes of the list and when, stopping and waiting for
    the ends of the sessions, and the order in which the locks are taken as a step relation of two threads.
  \<^item> \<open>BitTorrent_Bencoding\<close>, \<open>BitTorrent_Handlers\<close>: the parser of bencoded data with the stacks of its scanner and driver, and
    the handlers of a torrent's streams, which refine the step relation of the session; from the octets of a response to its peers.
  \<^item> \<open>Net_Common_Tools\<close>: protocol numbers, addresses and host names as text.

  \<^bold>\<open>Bounds.\<close> No definition has fuel. The loops that wait in the code (for the manager to be empty, for a
  connection to appear or come up, for a condition) take the list of what the rest of the
  program does in the meantime and are total; whether they return is stated. The recursion of \<open>address_lists\<close> ends at the end of the data,
  which every round approaches, and so do the lists of the grammar of HTTP.

  \<^bold>\<open>Not modelled.\<close> Of the generated scanners and parsers of bencoding, DHCP, HTTP and IRC the rules and actions are modelled, not the tables of the
  automata that drive them, hundreds of thousands of lines; those of the peers of BitTorrent and of PPSPP are left out. The parser of HTTP is that which does
  not block: one that waits for fragments in the middle of a message is not modelled. Sockets, connectors, listeners and event dispatch are thin layers over the reactor and the
  proactor of ACE, which own the control flow. The streams assemble modules of ACEStream,
  which is not in the repository. The WLAN back ends, the functions that enumerate interfaces or talk
  to \<^verbatim>\<open>dhclient\<close>, and resolvers are system calls. The applications are graphical clients and example
  servers. Of a response of the tracker the allocation of the tables of threads is left out, and the parser of a
  meta information file is a parameter of a request. The vendored code is not the project's. Timing, spurious failures of locks and the interleaving of threads other than those named above are left out.
\<close>

end
